(* ===== verification/DC_Prelude.thy ===== *)
theory DC_Prelude
  imports Main "HOL-Library.Word"
begin

text \<open>
  Shared vocabulary of the development: bytes and the little/big-endian codecs of Rust's
  \<open>to_le_bytes\<close>/\<open>from_le_bytes\<close>, fixed-size byte arrays (\<open>[u8; 32]\<close> is a 256-bit word),
  \<open>Result\<close> as a sum type, \<open>read_exact\<close> on a byte stream, the few string operations of the
  standard library the sources use, and the \<open>machine\<close> interface by which every state
  machine of the program inherits its invariant along whole runs.
\<close>

unbundle bit_operations_syntax

named_theorems wire \<open>laws of byte codecs and stream reads\<close>
named_theorems res \<open>laws of the result monad\<close>

section \<open>Types\<close>

type_synonym byte = "8 word"
type_synonym u32 = "32 word"
type_synonym u64 = "64 word"
type_synonym digest = "256 word"      \<comment> \<open>a BLAKE3 output, \<open>[u8; 32]\<close>\<close>
type_synonym signature = "512 word"   \<comment> \<open>an Ed25519 signature, \<open>[u8; 64]\<close>\<close>

definition u64_max :: nat where "u64_max = 2 ^ 64 - 1"

section \<open>Results\<close>

text \<open>\<open>Result<T, E>\<close> is \<open>'e + 'a\<close>; \<open>and_then\<close> is the \<open>?\<close> operator.\<close>

definition and_then :: "'e + 'a \<Rightarrow> ('a \<Rightarrow> 'e + 'b) \<Rightarrow> 'e + 'b" where
  "and_then r f = (case r of Inl e \<Rightarrow> Inl e | Inr a \<Rightarrow> f a)"

lemma and_then_Inl [simp, res]: "and_then (Inl e) f = Inl e"
  by (simp add: and_then_def)

lemma and_then_Inr [simp, res]: "and_then (Inr a) f = f a"
  by (simp add: and_then_def)

lemma and_then_eq_Inr [res]: "and_then r f = Inr b \<longleftrightarrow> (\<exists>a. r = Inr a \<and> f a = Inr b)"
  by (cases r) auto

lemma and_then_eq_Inl [res]:
  "and_then r f = Inl e \<longleftrightarrow> r = Inl e \<or> (\<exists>a. r = Inr a \<and> f a = Inl e)"
  by (cases r) auto

definition ok_or :: "'e \<Rightarrow> 'a option \<Rightarrow> 'e + 'a" where
  "ok_or e x = (case x of None \<Rightarrow> Inl e | Some a \<Rightarrow> Inr a)"

lemma ok_or_simps [simp, res]: "ok_or e None = Inl e" "ok_or e (Some a) = Inr a"
  by (simp_all add: ok_or_def)

lemma ok_or_eq_Inr [res]: "ok_or e x = Inr a \<longleftrightarrow> x = Some a"
  by (cases x) auto

section \<open>Byte streams\<close>

text \<open>
  \<open>Read::read_exact\<close> on a regular file: the next \<open>n\<close> bytes, or an error when fewer are left.
\<close>

definition read_exact :: "nat \<Rightarrow> byte list \<Rightarrow> (byte list \<times> byte list) option" where
  "read_exact n bs = (if n \<le> length bs then Some (take n bs, drop n bs) else None)"

lemma read_exact_append [simp, wire]: "n = length xs \<Longrightarrow> read_exact n (xs @ ys) = Some (xs, ys)"
  by (simp add: read_exact_def)

lemma read_exact_Some:
  "read_exact n bs = Some (xs, ys) \<longleftrightarrow> length xs = n \<and> bs = xs @ ys"
  by (auto simp: read_exact_def split: if_splits)

lemma read_exact_None: "read_exact n bs = None \<longleftrightarrow> length bs < n"
  by (auto simp: read_exact_def)

lemma read_exact_length:
  "read_exact n bs = Some (xs, ys) \<Longrightarrow> length bs = n + length ys"
  by (auto simp: read_exact_Some)

section \<open>Fixed-width integers on the wire\<close>

definition le_bytes :: "nat \<Rightarrow> 'a::len word \<Rightarrow> byte list" where
  "le_bytes n w = map (\<lambda>i. ucast (drop_bit (8 * i) w)) [0..<n]"

primrec of_le_bytes :: "byte list \<Rightarrow> 'a::len word" where
  "of_le_bytes [] = 0"
| "of_le_bytes (b # bs) = ucast b OR push_bit 8 (of_le_bytes bs)"

lemma length_le_bytes [simp, wire]: "length (le_bytes n w) = n"
  by (simp add: le_bytes_def)

lemma bit_of_le_bytes:
  "bit (of_le_bytes bs :: 'a::len word) k \<longleftrightarrow>
     k < LENGTH('a) \<and> k div 8 < length bs \<and> bit (bs ! (k div 8)) (k mod 8)"
proof (induction bs arbitrary: k)
  case Nil
  then show ?case by simp
next
  case (Cons b bs)
  show ?case
  proof (cases "k < 8")
    case True
    then show ?thesis
      by (auto simp: bit_or_iff bit_ucast_iff bit_push_bit_iff)
  next
    case False
    then have "k div 8 = Suc ((k - 8) div 8)" and "(k - 8) mod 8 = k mod 8"
      by (simp_all add: div_if mod_if [of k])
    moreover have "\<not> bit b k"
      using False bit_imp_le_length [of b k] by auto
    ultimately show ?thesis
      using False Cons.IH [of "k - 8"]
      by (auto simp: bit_or_iff bit_ucast_iff bit_push_bit_iff)
  qed
qed

lemma of_le_bytes_le_bytes [simp, wire]:
  fixes w :: "'a::len word"
  assumes "LENGTH('a) \<le> 8 * n"
  shows "of_le_bytes (le_bytes n w) = w"
proof (rule bit_word_eqI)
  fix k
  assume k: "k < LENGTH('a)"
  with assms have "k div 8 < n" by auto
  then show "bit (of_le_bytes (le_bytes n w) :: 'a word) k \<longleftrightarrow> bit w k"
    using k by (simp add: bit_of_le_bytes le_bytes_def bit_ucast_iff bit_drop_bit_eq)
qed

lemma le_bytes_inject [simp, wire]:
  fixes v w :: "'a::len word"
  assumes "LENGTH('a) \<le> 8 * n"
  shows "le_bytes n v = le_bytes n w \<longleftrightarrow> v = w"
  using assms by (metis of_le_bytes_le_bytes)

lemma le_bytes_of_le_bytes [simp, wire]:
  assumes "8 * length bs \<le> LENGTH('a::len)" and "n = length bs"
  shows "le_bytes n (of_le_bytes bs :: 'a word) = bs"
proof (rule nth_equalityI)
  fix i
  assume i: "i < length (le_bytes n (of_le_bytes bs :: 'a word))"
  show "le_bytes n (of_le_bytes bs :: 'a word) ! i = bs ! i"
  proof (rule bit_word_eqI)
    fix k
    assume "k < LENGTH(8)"
    then show "bit (le_bytes n (of_le_bytes bs :: 'a word) ! i) k \<longleftrightarrow> bit (bs ! i) k"
      using i assms by (simp add: le_bytes_def bit_ucast_iff bit_drop_bit_eq bit_of_le_bytes)
  qed
qed (simp add: assms)

text \<open>The instances the formats use: \<open>u32\<close> length prefixes, \<open>u64\<close> nonces, digests, signatures.\<close>

definition u32_le :: "u32 \<Rightarrow> byte list" where "u32_le w = le_bytes 4 w"
definition of_u32_le :: "byte list \<Rightarrow> u32" where "of_u32_le bs = of_le_bytes bs"
definition u64_le :: "u64 \<Rightarrow> byte list" where "u64_le w = le_bytes 8 w"
definition digest_bytes :: "digest \<Rightarrow> byte list" where "digest_bytes d = le_bytes 32 d"
definition sig_bytes :: "signature \<Rightarrow> byte list" where "sig_bytes s = le_bytes 64 s"

lemma u32_le_simps [simp, wire]:
  "length (u32_le w) = 4" "of_u32_le (u32_le w) = w"
  by (simp_all add: u32_le_def of_u32_le_def)

lemma u32_le_of_u32_le [simp, wire]: "length bs = 4 \<Longrightarrow> u32_le (of_u32_le bs) = bs"
  by (simp add: u32_le_def of_u32_le_def)

lemma u64_le_simps [simp, wire]: "length (u64_le w) = 8"
  by (simp add: u64_le_def)

lemma digest_bytes_simps [simp, wire]:
  "length (digest_bytes d) = 32" "digest_bytes d = digest_bytes e \<longleftrightarrow> d = e"
  by (simp_all add: digest_bytes_def)

lemma sig_bytes_simps [simp, wire]: "length (sig_bytes s) = 64"
  by (simp add: sig_bytes_def)

lemma unat_word_of_nat_u32: "n < 2 ^ 32 \<Longrightarrow> unat (word_of_nat n :: u32) = n"
  by (simp add: unat_of_nat)

section \<open>Strings\<close>

text \<open>
  A Rust \<open>String\<close> is a list of bytes, here \<open>char list\<close>. \<open>str_contains\<close> is \<open>str::contains\<close>
  with a string pattern, \<open>starts_with\<close> is \<open>str::starts_with\<close>.
\<close>

definition starts_with :: "string \<Rightarrow> string \<Rightarrow> bool" where
  "starts_with s p \<longleftrightarrow> take (length p) s = p"

fun str_contains :: "string \<Rightarrow> string \<Rightarrow> bool" where
  "str_contains [] p \<longleftrightarrow> p = []"
| "str_contains (c # cs) p \<longleftrightarrow> starts_with (c # cs) p \<or> str_contains cs p"

lemma starts_with_iff: "starts_with s p \<longleftrightarrow> (\<exists>t. s = p @ t)"
  unfolding starts_with_def by (metis append_eq_conv_conj append_take_drop_id)

lemma str_contains_iff: "str_contains s p \<longleftrightarrow> (\<exists>a b. s = a @ p @ b)"
proof (induction s)
  case Nil
  then show ?case by simp
next
  case (Cons c cs)
  have "(\<exists>a b. c # cs = a @ p @ b) \<longleftrightarrow> (\<exists>b. c # cs = p @ b) \<or> (\<exists>a b. cs = a @ p @ b)"
    by (metis Cons_eq_append_conv append_Cons append_Nil)
  with Cons.IH show ?case by (simp add: starts_with_iff)
qed

lemma of_char_byte: "of_char (char_of (unat (b :: byte))) = b"
proof -
  have "(of_char (char_of (unat b)) :: byte) = of_nat (of_char (char_of (unat b)) :: nat)"
    by (simp only: of_nat_of_char)
  also have "(of_char (char_of (unat b)) :: nat) = unat b"
    using unsigned_less [of b, where ?'a = nat] by simp
  finally show ?thesis by simp
qed

section \<open>State machines\<close>

text \<open>
  A component with a step function and a predicate that every step keeps. The interpretations
  are the program's machines; what they inherit is the predicate after any run.
\<close>

locale machine =
  fixes step :: "'s \<Rightarrow> 'e \<Rightarrow> 's" and inv :: "'s \<Rightarrow> bool"
  assumes step_inv: "inv s \<Longrightarrow> inv (step s e)"
begin

lemma run_inv: "inv s \<Longrightarrow> inv (foldl step s es)"
  by (induction es arbitrary: s) (auto intro: step_inv)

lemma run_append_inv: "inv (foldl step s es) \<Longrightarrow> inv (foldl step s (es @ es'))"
  by (simp add: run_inv)

end

end
