(* ===== verification/Identity.thy ===== *)
theory Identity
  imports DC_Prelude
begin

text \<open>
  Device identities (\<open>crates/dc-core/src/identity.rs\<close>): the stable identity compared at plan
  time, arm time and resume, the kernel identity of the open descriptor, and the normative
  comparator. The comparator's messages are constructors carrying the values they print.
\<close>

datatype bus_type =
  Nvme | Sata | Sas | Usb | Mmc | Ufs | Virtio | Loop | DeviceMapper | File | UnknownBus

fun bus_display :: "bus_type \<Rightarrow> string" where
  "bus_display Nvme = ''NVMe''"
| "bus_display Sata = ''SATA''"
| "bus_display Sas = ''SAS''"
| "bus_display Usb = ''USB''"
| "bus_display Mmc = ''eMMC/SD''"
| "bus_display Ufs = ''UFS''"
| "bus_display Virtio = ''VirtIO''"
| "bus_display Loop = ''Loopback''"
| "bus_display DeviceMapper = ''DeviceMapper''"
| "bus_display File = ''File''"
| "bus_display UnknownBus = ''Unknown''"

record stable_identity =
  si_model :: "string option"
  si_serial :: "string option"
  si_wwn :: "string option"
  si_size_bytes :: nat
  si_bus :: bus_type
  si_dm_name :: "string option"
  si_dm_uuid :: "string option"

record kernel_identity =
  ki_major :: nat
  ki_minor :: nat

record device_identity =
  di_stable :: stable_identity
  di_kernel :: kernel_identity
  di_kernel_name :: string
  di_dev_path :: string
  di_logical_block_size :: nat
  di_physical_block_size :: nat

datatype contradiction =
  SizeContradiction nat nat
| DmUuidContradiction string string
| SerialContradiction string string
| WwnContradiction string string
| ModelContradiction string string

datatype warning =
  DmUuidMissing | DmUuidUnexpected | SerialMissing | SerialUnexpected | WwnMissing | WwnUnexpected

text \<open>
  One field of the comparator: a contradiction when both sides carry different values, a
  warning when one side is absent.
\<close>

definition check_field ::
  "(string \<Rightarrow> string \<Rightarrow> contradiction) \<Rightarrow> warning list \<Rightarrow> warning list \<Rightarrow>
   string option \<Rightarrow> string option \<Rightarrow> contradiction + warning list" where
  "check_field bad missing unexpected x y =
     (case (x, y) of
        (Some a, Some b) \<Rightarrow> if a \<noteq> b then Inl (bad a b) else Inr []
      | (Some _, None) \<Rightarrow> Inr missing
      | (None, Some _) \<Rightarrow> Inr unexpected
      | (None, None) \<Rightarrow> Inr [])"

definition check_compatibility ::
  "stable_identity \<Rightarrow> stable_identity \<Rightarrow> contradiction + warning list" where
  "check_compatibility s t =
     (if si_size_bytes s \<noteq> si_size_bytes t
      then Inl (SizeContradiction (si_size_bytes s) (si_size_bytes t))
      else
      and_then (check_field DmUuidContradiction [DmUuidMissing] [DmUuidUnexpected]
                  (si_dm_uuid s) (si_dm_uuid t)) (\<lambda>w1.
      and_then (check_field SerialContradiction [SerialMissing] [SerialUnexpected]
                  (si_serial s) (si_serial t)) (\<lambda>w2.
      and_then (check_field WwnContradiction [WwnMissing] [WwnUnexpected]
                  (si_wwn s) (si_wwn t)) (\<lambda>w3.
      and_then (check_field ModelContradiction [] [] (si_model s) (si_model t)) (\<lambda>w4.
      Inr (w1 @ w2 @ w3 @ w4))))))"

text \<open>Two optional fields agree unless both are present and different.\<close>

definition agrees :: "'a option \<Rightarrow> 'a option \<Rightarrow> bool" where
  "agrees x y \<longleftrightarrow> (case (x, y) of (Some a, Some b) \<Rightarrow> a = b | _ \<Rightarrow> True)"

lemma agrees_sym: "agrees x y \<longleftrightarrow> agrees y x"
  by (auto simp: agrees_def split: option.splits)

lemma check_field_Inr:
  "(\<exists>w. check_field bad m u x y = Inr w) \<longleftrightarrow> agrees x y"
  by (auto simp: check_field_def agrees_def split: option.splits)

lemma check_field_Inr_Nil:
  "m \<noteq> [] \<Longrightarrow> u \<noteq> [] \<Longrightarrow> check_field bad m u x y = Inr [] \<longleftrightarrow> x = y"
  by (auto simp: check_field_def split: option.splits)

definition compatible :: "stable_identity \<Rightarrow> stable_identity \<Rightarrow> bool" where
  "compatible s t \<longleftrightarrow> si_size_bytes s = si_size_bytes t \<and>
     agrees (si_dm_uuid s) (si_dm_uuid t) \<and> agrees (si_serial s) (si_serial t) \<and>
     agrees (si_wwn s) (si_wwn t) \<and> agrees (si_model s) (si_model t)"

lemma check_compatibility_Inr_iff:
  "(\<exists>w. check_compatibility s t = Inr w) \<longleftrightarrow> compatible s t"
proof -
  have "(\<exists>w. check_compatibility s t = Inr w) \<longleftrightarrow> si_size_bytes s = si_size_bytes t \<and>
     (\<exists>w. check_field DmUuidContradiction [DmUuidMissing] [DmUuidUnexpected]
        (si_dm_uuid s) (si_dm_uuid t) = Inr w) \<and>
     (\<exists>w. check_field SerialContradiction [SerialMissing] [SerialUnexpected]
        (si_serial s) (si_serial t) = Inr w) \<and>
     (\<exists>w. check_field WwnContradiction [WwnMissing] [WwnUnexpected]
        (si_wwn s) (si_wwn t) = Inr w) \<and>
     (\<exists>w. check_field ModelContradiction [] [] (si_model s) (si_model t) = Inr w)"
    by (simp add: check_compatibility_def and_then_eq_Inr) blast
  then show ?thesis
    by (simp only: check_field_Inr compatible_def)
qed

section \<open>Properties\<close>

text \<open>The identity comparator accepts exactly the identities of equal size whose optional fields do
  not contradict each other, and it accepts without a warning exactly those whose device-mapper
  UUID, serial and WWN are equal, absent on both sides included. A model that is present on one
  side only passes silently.\<close>

theorem identity_comparator_exact:
  "((\<exists>w. check_compatibility s t = Inr w) \<longleftrightarrow> compatible s t) \<and>
   (check_compatibility s t = Inr [] \<longleftrightarrow>
      si_size_bytes s = si_size_bytes t \<and> si_dm_uuid s = si_dm_uuid t \<and> si_serial s = si_serial t \<and>
      si_wwn s = si_wwn t \<and> agrees (si_model s) (si_model t))"
proof
  have model: "check_field ModelContradiction [] [] x y = Inr [] \<longleftrightarrow> agrees x y" for x y
    by (auto simp: check_field_def agrees_def split: option.splits)
  have empty: "(\<exists>w1. r1 = Inr w1 \<and> (\<exists>w2. r2 = Inr w2 \<and> (\<exists>w3. r3 = Inr w3 \<and> (\<exists>w4. r4 = Inr w4 \<and>
      w1 = [] \<and> w2 = [] \<and> w3 = [] \<and> w4 = [])))) \<longleftrightarrow> r1 = Inr [] \<and> r2 = Inr [] \<and> r3 = Inr [] \<and> r4 = Inr []"
    for r1 r2 r3 r4 :: "contradiction + warning list"
    by blast
  show "check_compatibility s t = Inr [] \<longleftrightarrow>
      si_size_bytes s = si_size_bytes t \<and> si_dm_uuid s = si_dm_uuid t \<and> si_serial s = si_serial t \<and>
      si_wwn s = si_wwn t \<and> agrees (si_model s) (si_model t)"
    by (simp add: check_compatibility_def and_then_eq_Inr empty check_field_Inr_Nil model)
qed (rule check_compatibility_Inr_iff)

end
