(* ===== verification/Errors.thy ===== *)
theory Errors
  imports Identity
begin

text \<open>
  The error type of the tool (\<open>crates/dc-core/src/error.rs\<close>): every refusal, panic-free error
  return and failure of the sources is a value of \<open>dc_error\<close>. Formatted diagnostics are
  constructors that carry the values the message interpolates; the refusal's \<open>detail\<close> and
  \<open>hint\<close> prose is not modelled, its stable \<open>code\<close> is.
\<close>

record guardian_refusal =
  gr_code :: string

text \<open>Reasons of \<open>JournalCorrupt\<close>, one per site of \<open>journal.rs\<close> and of the resume command.\<close>

datatype corrupt_reason =
  LockFailed | SealedWithoutKey | InvalidHeadHex | InvalidHeadLength
| FileTooLarge | MagicUnreadable | InvalidMagic
| ZeroLenRecord | RecordTooLarge nat | ChainMismatch | JsonParse
| FirstRecordNotHeader | SealedMissingPubkey | InvalidPubkeyHex | InvalidPubkeyLength
| InvalidPubkey | MissingSignature | InvalidSignature | SealedUnverifiable
| JournalZeroTail nat | JournalEmpty | JournalAlreadyComplete | MissingHeader

text \<open>Reasons of \<open>Usage\<close>.\<close>

datatype usage_reason =
  NotRegularFile | UsageMsg string
| AuditLockFailed | AuditBadMagic | AuditBadLength nat nat | AuditTruncated nat nat
| AuditMismatch nat

datatype dc_error =
  Guardian guardian_refusal
| IdentityDrift stable_identity stable_identity
| Io string int "nat option"
| JournalCorrupt nat corrupt_reason
| VerificationFailed nat "nat list"
| Interrupted "(nat \<times> nat) option"
| OperatorAbort
| CertSigning string
| CertInvalid string
| Usage usage_reason
| Internal string
| Json
| StdIo
| Rng

fun exit_code :: "dc_error \<Rightarrow> int" where
  "exit_code (Guardian _) = 2"
| "exit_code (Interrupted _) = 3"
| "exit_code (VerificationFailed _ _) = 4"
| "exit_code (Io _ _ _) = 5"
| "exit_code (JournalCorrupt _ _) = 6"
| "exit_code (IdentityDrift _ _) = 7"
| "exit_code (Usage _) = 8"
| "exit_code OperatorAbort = 8"
| "exit_code (CertInvalid _) = 10"
| "exit_code _ = 1"

fun machine_code :: "dc_error \<Rightarrow> string" where
  "machine_code (Guardian _) = ''GUARDIAN_REFUSAL''"
| "machine_code (IdentityDrift _ _) = ''IDENTITY_DRIFT''"
| "machine_code (Io _ _ _) = ''IO_ERROR''"
| "machine_code (JournalCorrupt _ _) = ''JOURNAL_CORRUPT''"
| "machine_code (VerificationFailed _ _) = ''VERIFICATION_FAILED''"
| "machine_code (Interrupted _) = ''INTERRUPTED''"
| "machine_code OperatorAbort = ''OPERATOR_ABORT''"
| "machine_code (CertSigning _) = ''CERT_SIGNING''"
| "machine_code (CertInvalid _) = ''CERT_INVALID''"
| "machine_code (Usage _) = ''USAGE''"
| "machine_code (Internal _) = ''INTERNAL''"
| "machine_code Json = ''JSON''"
| "machine_code StdIo = ''STDIO''"
| "machine_code Rng = ''RNG''"

lemma exit_code_nonzero: "exit_code e \<noteq> 0"
  by (cases e) auto

lemma machine_code_determines_exit_code:
  "machine_code e = machine_code f \<Longrightarrow> exit_code e = exit_code f"
  by (cases e; cases f) simp_all

end
