(* ===== verification/Strategy.thy ===== *)
theory Strategy
  imports DC_Prelude
begin

text \<open>
  The strategy compiler (\<open>crates/dc-core/src/strategy.rs\<close>): from a transport class and the
  capabilities a controller attests, the ladder of purge mechanisms with their fallbacks.
\<close>

datatype transport_class = NvmeClass | SataSsd | SataHdd | ScsiSas

record capabilities =
  supports_sanitize_crypto :: bool
  supports_sanitize_block :: bool
  supports_format_nvm :: bool
  supports_ata_security_enhanced :: bool
  supports_dco_hpa :: bool
  supports_scsi_sanitize :: bool

record mechanism_step =
  ms_name :: string
  ms_grade :: string
  ms_nist_class :: string
  ms_readback :: string
  ms_fallback :: "string option"

type_synonym strategy_ladder = "mechanism_step list"

definition mstep ::
  "string \<Rightarrow> string \<Rightarrow> string \<Rightarrow> string \<Rightarrow> string option \<Rightarrow> mechanism_step" where
  "mstep n g c r f =
     \<lparr>ms_name = n, ms_grade = g, ms_nist_class = c, ms_readback = r, ms_fallback = f\<rparr>"

definition push_if :: "bool \<Rightarrow> 'a \<Rightarrow> 'a list" where
  "push_if b x = (if b then [x] else [])"

definition nvme_ladder :: "capabilities \<Rightarrow> bool \<Rightarrow> strategy_ladder" where
  "nvme_ladder caps request_purge =
     push_if (supports_sanitize_crypto caps \<and> request_purge)
       (mstep ''NvmeSanitizeCryptoErase'' ''ControllerAttested'' ''Purge'' ''VendorRandom''
          (Some ''NvmeSanitizeBlockErase''))
     @ push_if (supports_sanitize_block caps)
       (mstep ''NvmeSanitizeBlockErase'' ''ControllerAttested'' ''Purge'' ''VendorRandom''
          (Some ''NvmeFormatNvmCrypto''))
     @ push_if (supports_format_nvm caps)
       (mstep ''NvmeFormatNvmCrypto'' ''ControllerAttested'' ''Purge'' ''Zeros''
          (Some ''LogicalOverwriteZero''))
     @ [mstep ''LogicalOverwriteZero'' ''ToolVerified'' ''Clear'' ''Zeros'' None]"

definition sata_ssd_ladder :: "capabilities \<Rightarrow> strategy_ladder" where
  "sata_ssd_ladder caps =
     push_if (supports_sanitize_crypto caps)
       (mstep ''AtaSanitizeCryptoScramble'' ''ControllerAttested'' ''Purge'' ''VendorRandom''
          (Some ''AtaSanitizeBlockErase''))
     @ push_if (supports_sanitize_block caps)
       (mstep ''AtaSanitizeBlockErase'' ''ControllerAttested'' ''Purge'' ''VendorRandom''
          (Some ''AtaSecurityEraseEnhanced''))
     @ push_if (supports_ata_security_enhanced caps)
       (mstep ''AtaSecurityEraseEnhanced'' ''ControllerAttested'' ''Purge'' ''VendorRandom''
          (Some ''LogicalOverwriteZero''))
     @ [mstep ''LogicalOverwriteZero'' ''ToolVerified'' ''Clear'' ''Zeros'' None]"

definition sata_hdd_ladder :: "capabilities \<Rightarrow> strategy_ladder" where
  "sata_hdd_ladder caps =
     push_if (supports_dco_hpa caps)
       (mstep ''AtaGeometryRestoreDcoHpa'' ''EffectVerified'' ''Purge'' ''None'' None)
     @ [mstep ''LogicalOverwritePattern'' ''ToolVerified'' ''Clear'' ''Pattern'' None]"

definition scsi_sas_ladder :: "capabilities \<Rightarrow> strategy_ladder" where
  "scsi_sas_ladder caps =
     push_if (supports_sanitize_crypto caps)
       (mstep ''ScsiSanitizeCryptoErase'' ''ControllerAttested'' ''Purge'' ''VendorRandom''
          (Some ''ScsiSanitizeBlockErase''))
     @ push_if (supports_scsi_sanitize caps)
       (mstep ''ScsiSanitizeBlockErase'' ''ControllerAttested'' ''Purge'' ''VendorRandom''
          (Some ''ScsiFormatUnit''))
     @ [mstep ''ScsiFormatUnit'' ''FormatUnitGrade'' ''Clear'' ''Zeros'' None]"

text \<open>The compiler never takes its error branch: \<open>Result\<close> is always \<open>Ok\<close>.\<close>

fun compile_strategy ::
  "transport_class \<Rightarrow> capabilities \<Rightarrow> bool \<Rightarrow> string + strategy_ladder" where
  "compile_strategy NvmeClass caps request_purge = Inr (nvme_ladder caps request_purge)"
| "compile_strategy SataSsd caps request_purge = Inr (sata_ssd_ladder caps)"
| "compile_strategy SataHdd caps request_purge = Inr (sata_hdd_ladder caps)"
| "compile_strategy ScsiSas caps request_purge = Inr (scsi_sas_ladder caps)"

definition validate_plan_options :: "bool \<Rightarrow> bool \<Rightarrow> string + unit" where
  "validate_plan_options strategy_selected overwrite_profile_selected =
     (if strategy_selected \<and> overwrite_profile_selected
      then Inl ''CONFLICT_EXIT_8_CANNOT_MIX_STRATEGY_AND_PROFILE'' else Inr ())"

lemmas ladder_defs = nvme_ladder_def sata_ssd_ladder_def sata_hdd_ladder_def scsi_sas_ladder_def
  push_if_def mstep_def

text \<open>
  A ladder is well formed when it ends in an unattested \<open>Clear\<close> step without fallback, its
  mechanisms are distinct, and a fallback that is in the ladder is the very next rung.
\<close>

definition ladder_ok :: "strategy_ladder \<Rightarrow> bool" where
  "ladder_ok l \<longleftrightarrow> l \<noteq> [] \<and> ms_nist_class (last l) = ''Clear'' \<and> ms_fallback (last l) = None \<and>
     (\<forall>s \<in> set (butlast l). ms_nist_class s = ''Purge'') \<and> distinct (map ms_name l) \<and>
     (\<forall>i < length l. \<forall>t. ms_fallback (l ! i) = Some t \<longrightarrow> t \<in> ms_name ` set l \<longrightarrow>
        Suc i < length l \<and> ms_name (l ! Suc i) = t)"

lemma ladder_ok_nvme: "ladder_ok (nvme_ladder caps p)"
  by (auto simp: ladder_ok_def ladder_defs less_Suc_eq)

lemma ladder_ok_sata_ssd: "ladder_ok (sata_ssd_ladder caps)"
  by (auto simp: ladder_ok_def ladder_defs less_Suc_eq)

lemma ladder_ok_sata_hdd: "ladder_ok (sata_hdd_ladder caps)"
  by (auto simp: ladder_ok_def ladder_defs less_Suc_eq)

lemma ladder_ok_scsi_sas: "ladder_ok (scsi_sas_ladder caps)"
  by (auto simp: ladder_ok_def ladder_defs less_Suc_eq)

lemmas ladder_ok_all = ladder_ok_nvme ladder_ok_sata_ssd ladder_ok_sata_hdd ladder_ok_scsi_sas

section \<open>Properties\<close>

text \<open>Every compiled ladder is well formed: attested or effect-verified purge rungs first, then one
  unconditional clear rung without a fallback, no mechanism twice, and a fallback that is part of
  the ladder is the next rung.\<close>

theorem strategy_ladders_well_formed:
  "\<exists>l. compile_strategy c caps request_purge = Inr l \<and> ladder_ok l"
  by (cases c) (simp_all add: ladder_ok_all)

text \<open>A rung may name a fallback the ladder does not have: a drive that attests cryptographic but not
  block sanitize gets a ladder whose first rung falls back to a mechanism that was left out.\<close>

theorem strategy_fallback_dangles:
  "\<exists>caps l. compile_strategy NvmeClass caps True = Inr l \<and>
     Some ''NvmeSanitizeBlockErase'' \<in> ms_fallback ` set l \<and> ''NvmeSanitizeBlockErase'' \<notin> ms_name ` set l"
  by (rule exI [of _ "\<lparr>supports_sanitize_crypto = True, supports_sanitize_block = False,
        supports_format_nvm = False, supports_ata_security_enhanced = False,
        supports_dco_hpa = False, supports_scsi_sanitize = False\<rparr>"])
    (simp add: ladder_defs)

end
