(* ===== verification/Pattern.thy ===== *)
theory Pattern
  imports DC_Prelude
begin

text \<open>
  Overwrite patterns (\<open>crates/dc-core/src/pattern.rs\<close>). A pattern is data; a pattern source
  is the object that fills a window buffer. The ChaCha20 cipher is a crate outside the sources:
  it is the parameter \<open>ks\<close>, the keystream byte at a position for a key and a nonce, and
  \<open>apply_keystream\<close> XORs it into the buffer. BLAKE3 is the parameter \<open>blake3\<close>, \<open>hex::encode\<close>
  the parameter \<open>hex\<close>.

  The \<open>pattern_source\<close> interface states what the engine relies on: filling is a function of
  the window and the length, a shorter buffer gets a prefix, and a source that calls itself
  window-invariant fills every window alike.
\<close>

datatype prng_scheme = ChaCha20WindowV1
datatype vdf_scheme = WesolowskiRsaUfoV1

datatype pattern =
  ZeroP
| FixedP byte
| FixedWordP "byte list"                 \<comment> \<open>\<open>[u8; 4]\<close>\<close>
| DeterministicRandom prng_scheme digest
| VdfWoven vdf_scheme digest

record pattern_descriptor =
  pd_name :: string
  pd_pattern :: pattern
  pd_description :: string

text \<open>The structs that implement the trait \<open>PatternSource\<close>.\<close>

datatype source =
  ZeroSource
| FixedSource byte
| FixedWordSource "byte list"
| ChaChaSource digest
| VdfWeaveSource vdf_scheme digest byte digest  \<comment> \<open>scheme, seed commitment, pass, state seed\<close>

type_synonym keystream = "byte list \<Rightarrow> byte list \<Rightarrow> nat \<Rightarrow> byte"

section \<open>Filling a window\<close>

definition zero_fill :: "u64 \<Rightarrow> nat \<Rightarrow> byte list" where
  "zero_fill w n = replicate n 0"

definition fixed_fill :: "byte \<Rightarrow> u64 \<Rightarrow> nat \<Rightarrow> byte list" where
  "fixed_fill b w n = replicate n b"

definition fixed_word_fill :: "byte list \<Rightarrow> u64 \<Rightarrow> nat \<Rightarrow> byte list" where
  "fixed_word_fill bytes w n = map (\<lambda>i. bytes ! (i AND 3)) [0..<n]"

text \<open>The 12-byte nonce: the window index little-endian, then four zero bytes.\<close>

definition window_nonce :: "u64 \<Rightarrow> byte list" where
  "window_nonce w = u64_le w @ replicate 4 0"

definition chacha_fill :: "keystream \<Rightarrow> digest \<Rightarrow> u64 \<Rightarrow> nat \<Rightarrow> byte list" where
  "chacha_fill ks seed w n =
     (let buf = replicate n 0
      in map (\<lambda>i. (buf ! i) XOR ks (digest_bytes seed) (window_nonce w) i) [0..<n])"

fun fill :: "keystream \<Rightarrow> source \<Rightarrow> u64 \<Rightarrow> nat \<Rightarrow> byte list" where
  "fill ks ZeroSource w n = zero_fill w n"
| "fill ks (FixedSource b) w n = fixed_fill b w n"
| "fill ks (FixedWordSource bytes) w n = fixed_word_fill bytes w n"
| "fill ks (ChaChaSource seed) w n = chacha_fill ks seed w n"
| "fill ks (VdfWeaveSource scheme commitment pass state_seed) w n = chacha_fill ks state_seed w n"

fun window_invariant :: "source \<Rightarrow> bool" where
  "window_invariant ZeroSource \<longleftrightarrow> True"
| "window_invariant (FixedSource _) \<longleftrightarrow> True"
| "window_invariant (FixedWordSource _) \<longleftrightarrow> True"
| "window_invariant (ChaChaSource _) \<longleftrightarrow> False"
| "window_invariant (VdfWeaveSource _ _ _ _) \<longleftrightarrow> False"

section \<open>The interface of a pattern source\<close>

locale pattern_source =
  fixes fill_window :: "u64 \<Rightarrow> nat \<Rightarrow> byte list" and invariant :: bool
  assumes fill_length: "length (fill_window w n) = n"
    and fill_prefix: "m \<le> n \<Longrightarrow> take m (fill_window w n) = fill_window w m"
    and fill_invariant: "invariant \<Longrightarrow> fill_window v n = fill_window w n"
begin

text \<open>
  What the engine does with an invariant source: fill the whole buffer once for window 0 and
  use a prefix of it for every window. That equals filling each window.
\<close>

lemma invariant_prefix:
  assumes "invariant" and "m \<le> n"
  shows "take m (fill_window v n) = fill_window w m"
  using assms fill_invariant fill_prefix by metis

lemma fill_nth:
  assumes "i < m" and "m \<le> n"
  shows "fill_window w n ! i = fill_window w m ! i"
  using assms fill_prefix by (metis nth_take)

end

lemma take_map_upt: "m \<le> n \<Longrightarrow> take m (map f [0..<n]) = map f [0..<m]"
  by (simp add: take_map min_def)

interpretation zero_source: pattern_source zero_fill True
  by unfold_locales (simp_all add: zero_fill_def)

interpretation fixed_source: pattern_source "fixed_fill b" True for b
  by unfold_locales (simp_all add: fixed_fill_def)

interpretation fixed_word_source: pattern_source "fixed_word_fill bytes" True for bytes
  by unfold_locales (simp_all add: fixed_word_fill_def take_map_upt)

lemma chacha_fill_eq:
  "chacha_fill ks seed w n = map (ks (digest_bytes seed) (window_nonce w)) [0..<n]"
  by (auto simp: chacha_fill_def Let_def)

interpretation chacha_source: pattern_source "chacha_fill ks seed" False for ks seed
  by unfold_locales (simp_all add: chacha_fill_eq take_map_upt)

text \<open>Every source of the program satisfies the interface.\<close>

lemma fill_source_length: "length (fill ks s w n) = n"
  by (cases s) (simp_all add: zero_source.fill_length fixed_source.fill_length
    fixed_word_source.fill_length chacha_source.fill_length)

lemma fill_source_prefix: "m \<le> n \<Longrightarrow> take m (fill ks s w n) = fill ks s w m"
  by (cases s) (simp_all add: zero_source.fill_prefix fixed_source.fill_prefix
    fixed_word_source.fill_prefix chacha_source.fill_prefix)

lemma fill_source_invariant: "window_invariant s \<Longrightarrow> fill ks s v n = fill ks s w n"
  by (cases s) (simp_all add: zero_fill_def fixed_fill_def fixed_word_fill_def)

interpretation src: pattern_source "fill ks s" "window_invariant s" for ks s
  by unfold_locales
    (use fill_source_length fill_source_prefix fill_source_invariant in blast)+

section \<open>Descriptors and construction\<close>

definition hex_digit_upper :: "nat \<Rightarrow> char" where
  "hex_digit_upper d = (if d < 10 then char_of (48 + d) else char_of (55 + d))"

text \<open>\<open>{:02X}\<close> of a byte.\<close>

definition hex2_upper :: "byte \<Rightarrow> string" where
  "hex2_upper b = [hex_digit_upper (unat b div 16), hex_digit_upper (unat b mod 16)]"

fun descriptor :: "(byte list \<Rightarrow> string) \<Rightarrow> (nat \<Rightarrow> string) \<Rightarrow> source \<Rightarrow> pattern_descriptor" where
  "descriptor hex dec ZeroSource =
     \<lparr>pd_name = ''Zero'', pd_pattern = ZeroP, pd_description = ''All zero bytes (0x00)''\<rparr>"
| "descriptor hex dec (FixedSource b) =
     \<lparr>pd_name = ''Fixed(0x'' @ hex2_upper b @ '')'', pd_pattern = FixedP b,
      pd_description = ''Repeating byte 0x'' @ hex2_upper b\<rparr>"
| "descriptor hex dec (FixedWordSource bytes) =
     \<lparr>pd_name = ''FixedWord(0x'' @ hex bytes @ '')'', pd_pattern = FixedWordP bytes,
      pd_description = ''Repeating 4-byte word '' @ hex bytes\<rparr>"
| "descriptor hex dec (ChaChaSource seed) =
     \<lparr>pd_name = ''ChaCha20WindowV1'', pd_pattern = DeterministicRandom ChaCha20WindowV1 seed,
      pd_description = ''Deterministic CSPRNG (ChaCha20WindowV1, seed: ''
        @ hex (digest_bytes seed) @ '')''\<rparr>"
| "descriptor hex dec (VdfWeaveSource scheme commitment pass state_seed) =
     \<lparr>pd_name = ''VdfWeaveV1(pass '' @ dec (unat pass) @ '', seed-fp ''
        @ take 16 (hex (digest_bytes state_seed)) @ '')'',
      pd_pattern = VdfWoven scheme commitment,
      pd_description = ''VDF-woven pass '' @ [CHR 0xE2, CHR 0x80, CHR 0x94]
        @ '' ChaCha20 keystream keyed by time-lock state ''
        @ hex (digest_bytes state_seed)\<rparr>"

text \<open>
  \<open>create_pattern_source\<close> panics on a weave declaration, which only the executor's VDF state
  materialises: the panic is \<open>None\<close>.
\<close>

fun create_pattern_source :: "pattern \<Rightarrow> source option" where
  "create_pattern_source ZeroP = Some ZeroSource"
| "create_pattern_source (FixedP b) = Some (FixedSource b)"
| "create_pattern_source (FixedWordP bytes) = Some (FixedWordSource bytes)"
| "create_pattern_source (DeterministicRandom ChaCha20WindowV1 seed) = Some (ChaChaSource seed)"
| "create_pattern_source (VdfWoven _ _) = None"

definition ascii_bytes :: "string \<Rightarrow> byte list" where
  "ascii_bytes s = map (\<lambda>c. of_nat (of_char c)) s"

definition vdf_pass_seed :: "(byte list \<Rightarrow> digest) \<Rightarrow> byte list \<Rightarrow> byte \<Rightarrow> digest" where
  "vdf_pass_seed blake3 state_bytes pass_index =
     blake3 (ascii_bytes ''dc-vdf/weave/v1'' @ state_bytes @ [pass_index])"

definition create_vdf_pattern_source ::
  "(byte list \<Rightarrow> digest) \<Rightarrow> vdf_scheme \<Rightarrow> digest \<Rightarrow> byte \<Rightarrow> byte list \<Rightarrow> source" where
  "create_vdf_pattern_source blake3 scheme commitment pass_index state_bytes =
     VdfWeaveSource scheme commitment pass_index (vdf_pass_seed blake3 state_bytes pass_index)"

lemma create_pattern_source_descriptor:
  "create_pattern_source p = Some s \<Longrightarrow> pd_pattern (descriptor hex dec s) = p"
  by (cases p rule: create_pattern_source.cases) auto

lemma create_pattern_source_None:
  "create_pattern_source p = None \<longleftrightarrow> (\<exists>sc c. p = VdfWoven sc c)"
  by (cases p rule: create_pattern_source.cases) auto

end
