(* ===== verification/Plan.thy ===== *)
theory Plan
  imports Decimal Identity Strategy Pattern
begin

text \<open>
  Sanitization plans and the catalogue of standards profiles
  (\<open>crates/dc-core/src/plan.rs\<close>): verification levels and their journal tags, the pass matrices,
  and the compilation of a profile into the passes the engine executes. \<open>getrandom\<close> is the
  parameter \<open>rng\<close> (\<open>None\<close> when the system call fails), \<open>hex::encode\<close> the parameter \<open>hex\<close>;
  \<open>Option::expect\<close> on an absent seed is a panic, an outer \<open>None\<close>.
\<close>

section \<open>Verification levels\<close>

datatype verify_level = Full | Sampled nat | NoVerify

fun effective_stride :: "verify_level \<Rightarrow> nat" where
  "effective_stride Full = 1"
| "effective_stride NoVerify = 1"
| "effective_stride (Sampled stride) = max stride 1"

fun short_tag :: "verify_level \<Rightarrow> string" where
  "short_tag Full = ''full''"
| "short_tag NoVerify = ''none''"
| "short_tag (Sampled stride) = ''sample:'' @ dec stride"

definition from_short_tag :: "string \<Rightarrow> verify_level option" where
  "from_short_tag tag =
     (if tag = ''full'' then Some Full
      else if tag = ''none'' then Some NoVerify
      else case split_once (CHR '':'') tag of
             None \<Rightarrow> None
           | Some (kind, value) \<Rightarrow>
               if kind \<noteq> ''sample'' then None
               else case parse_u32 value of
                      None \<Rightarrow> None
                    | Some stride \<Rightarrow>
                        if 2 \<le> stride \<and> stride \<le> 65536 then Some (Sampled stride) else None)"

lemma split_once_sample: "split_once (CHR '':'') (''sample:'' @ s) = Some (''sample'', s)"
  using split_once_append [of "CHR '':''" "''sample''" s] by simp

section \<open>Plans\<close>

datatype fast_path_policy = PreferWriteZeroes | ForbidWriteZeroes

record pass =
  pa_pattern :: pattern
  pa_label :: string

datatype mechanism =
  LogicalOverwrite "pass list"
| HardwarePurge strategy_ladder string

record plan =
  pl_schema :: string
  pl_target :: stable_identity
  pl_mechanism :: mechanism
  pl_verification :: verify_level
  pl_window_bytes :: nat
  pl_fast_path :: fast_path_policy
  pl_strategy_ladder :: "strategy_ladder option"
  pl_legacy_note :: "string option"

definition default_window_bytes :: nat where
  "default_window_bytes = 2 * 1024 * 1024"

section \<open>The profile catalogue\<close>

datatype profile =
  NistClear | NistClearRandom | Dod5220_22M | Dod5220_22MEce | CsecItsg06 | BsiVsitr
| Schneier | CertinGoi | Gutmann

datatype pattern_spec = SZero | SFixed byte | SFixedWord "byte list" | SRandom

record spec =
  sp_pattern :: pattern_spec
  sp_label :: string
  sp_is_random :: bool

record pass_matrix =
  pm_passes :: "spec list"
  pm_total_passes :: nat

definition mk_spec :: "pattern_spec \<Rightarrow> string \<Rightarrow> bool \<Rightarrow> spec" where
  "mk_spec p l r = \<lparr>sp_pattern = p, sp_label = l, sp_is_random = r\<rparr>"

definition dod_specs :: "spec list" where
  "dod_specs =
     [mk_spec (SFixed 0xFF) ''Fixed 0xFF'' False,
      mk_spec SZero ''Fixed 0x00'' False,
      mk_spec SRandom ''Deterministic CSPRNG'' True]"

definition dod_ece_specs :: "spec list" where
  "dod_ece_specs =
     [mk_spec (SFixed 0xFF) ''Fixed 0xFF'' False,
      mk_spec SZero ''Fixed 0x00'' False,
      mk_spec SRandom ''Deterministic CSPRNG'' True,
      mk_spec (SFixed 0xFF) ''Fixed 0xFF (verify cycle)'' False,
      mk_spec SZero ''Fixed 0x00 (verify cycle)'' False,
      mk_spec SRandom ''Deterministic CSPRNG'' True,
      mk_spec SRandom ''Deterministic CSPRNG (final)'' True]"

definition csec_specs :: "spec list" where
  "csec_specs =
     [mk_spec SZero ''Fixed 0x00'' False,
      mk_spec SRandom ''Deterministic CSPRNG'' True,
      mk_spec SRandom ''Deterministic CSPRNG (final)'' True]"

definition bsi_specs :: "spec list" where
  "bsi_specs =
     [mk_spec SZero ''Fixed 0x00'' False,
      mk_spec (SFixed 0xFF) ''Fixed 0xFF'' False,
      mk_spec SZero ''Fixed 0x00'' False,
      mk_spec (SFixed 0xFF) ''Fixed 0xFF'' False,
      mk_spec SZero ''Fixed 0x00'' False,
      mk_spec (SFixed 0xFF) ''Fixed 0xFF'' False,
      mk_spec SZero ''Fixed 0x00 (final)'' False]"

definition schneier_specs :: "spec list" where
  "schneier_specs =
     [mk_spec (SFixed 0xFF) ''Fixed 0xFF'' False,
      mk_spec SZero ''Fixed 0x00'' False,
      mk_spec SRandom ''Deterministic CSPRNG'' True,
      mk_spec SRandom ''Deterministic CSPRNG'' True,
      mk_spec SRandom ''Deterministic CSPRNG'' True,
      mk_spec SRandom ''Deterministic CSPRNG'' True,
      mk_spec SRandom ''Deterministic CSPRNG (final)'' True]"

definition certin_specs :: "spec list" where
  "certin_specs =
     [mk_spec SZero ''Fixed 0x00'' False,
      mk_spec (SFixed 0xFF) ''Fixed 0xFF'' False,
      mk_spec SRandom ''Deterministic CSPRNG'' True]"

definition gutmann_words :: "byte list list" where
  "gutmann_words =
     [[0x55, 0x55, 0x55, 0x55], [0xAA, 0xAA, 0xAA, 0xAA], [0x92, 0x49, 0x24, 0x92],
      [0x49, 0x24, 0x92, 0x49], [0x24, 0x92, 0x49, 0x24], [0x00, 0x00, 0x00, 0x00],
      [0x11, 0x11, 0x11, 0x11], [0x22, 0x22, 0x22, 0x22], [0x33, 0x33, 0x33, 0x33],
      [0x44, 0x44, 0x44, 0x44], [0x55, 0x55, 0x55, 0x55], [0x66, 0x66, 0x66, 0x66],
      [0x77, 0x77, 0x77, 0x77], [0x88, 0x88, 0x88, 0x88], [0x99, 0x99, 0x99, 0x99],
      [0xAA, 0xAA, 0xAA, 0xAA], [0xBB, 0xBB, 0xBB, 0xBB], [0xCC, 0xCC, 0xCC, 0xCC],
      [0xDD, 0xDD, 0xDD, 0xDD], [0xEE, 0xEE, 0xEE, 0xEE], [0xFF, 0xFF, 0xFF, 0xFF],
      [0x92, 0x49, 0x24, 0x92], [0x49, 0x24, 0x92, 0x49], [0x24, 0x92, 0x49, 0x24],
      [0x6D, 0xB6, 0xDB, 0x6D], [0xB6, 0xDB, 0x6D, 0xB6], [0xDB, 0x6D, 0xB6, 0xDB]]"

definition gutmann_specs :: "(byte list \<Rightarrow> string) \<Rightarrow> spec list" where
  "gutmann_specs hex =
     replicate 4 (mk_spec SRandom ''Random'' True)
     @ map (\<lambda>w. mk_spec (SFixedWord w) (''MFM word 0x'' @ hex w) False) gutmann_words
     @ replicate 4 (mk_spec SRandom ''Random'' True)"

fun profile_specs :: "(byte list \<Rightarrow> string) \<Rightarrow> profile \<Rightarrow> spec list" where
  "profile_specs hex NistClear = [mk_spec SZero ''Zero overwrite'' False]"
| "profile_specs hex NistClearRandom = [mk_spec SRandom ''CSPRNG overwrite'' True]"
| "profile_specs hex Dod5220_22M = dod_specs"
| "profile_specs hex Dod5220_22MEce = dod_ece_specs"
| "profile_specs hex CsecItsg06 = csec_specs"
| "profile_specs hex BsiVsitr = bsi_specs"
| "profile_specs hex Schneier = schneier_specs"
| "profile_specs hex CertinGoi = certin_specs"
| "profile_specs hex Gutmann = gutmann_specs hex"

definition profile_matrix :: "(byte list \<Rightarrow> string) \<Rightarrow> profile \<Rightarrow> pass_matrix" where
  "profile_matrix hex p =
     (let specs = profile_specs hex p
      in \<lparr>pm_passes = specs, pm_total_passes = length specs\<rparr>)"

lemma profile_matrix_simps [simp]:
  "pm_passes (profile_matrix hex p) = profile_specs hex p"
  "pm_total_passes (profile_matrix hex p) = length (profile_specs hex p)"
  by (simp_all add: profile_matrix_def Let_def)

definition total_passes :: "(byte list \<Rightarrow> string) \<Rightarrow> profile \<Rightarrow> nat" where
  "total_passes hex p = pm_total_passes (profile_matrix hex p)"

definition catalog :: "profile list" where
  "catalog = [NistClear, NistClearRandom, CertinGoi, Dod5220_22M, Dod5220_22MEce, CsecItsg06,
     BsiVsitr, Schneier, Gutmann]"

definition default_verification :: "profile \<Rightarrow> verify_level" where
  "default_verification p = Full"

definition requires_full_verification :: "profile \<Rightarrow> bool" where
  "requires_full_verification p \<longleftrightarrow>
     p \<in> {Dod5220_22M, Dod5220_22MEce, CertinGoi, CsecItsg06, BsiVsitr}"

definition flash_suitable :: "profile \<Rightarrow> bool" where
  "flash_suitable p \<longleftrightarrow> p \<notin> {Gutmann, Dod5220_22MEce}"

definition legacy_note :: "profile \<Rightarrow> string option" where
  "legacy_note p =
     (case p of
        Dod5220_22M \<Rightarrow> Some (''Legacy contractual pattern. NIST SP 800-88 s2.4 supersedes DoD 5220.22-M pass ''
          @ ''matrices; provided for contractual compliance only.'')
      | Dod5220_22MEce \<Rightarrow> Some (''Legacy contractual pattern. NIST SP 800-88 s2.4 supersedes DoD 5220.22-M pass ''
          @ ''matrices; provided for contractual compliance only.'')
      | Gutmann \<Rightarrow> Some (''MFM/RLL-era 35-pass sequence. No measurable benefit on PRML/EPRML or flash ''
          @ ''media; 35 passes consume drive endurance and wall-clock. Provided for ''
          @ ''contractual compliance with legacy tenders only.'')
      | _ \<Rightarrow> None)"

section \<open>Compiling a profile\<close>

definition spec_pattern :: "digest option \<Rightarrow> pattern_spec \<Rightarrow> pattern option" where
  "spec_pattern default_seed ps =
     (case ps of
        SZero \<Rightarrow> Some ZeroP
      | SFixed b \<Rightarrow> Some (FixedP b)
      | SFixedWord bytes \<Rightarrow> Some (FixedWordP bytes)
      | SRandom \<Rightarrow> map_option (DeterministicRandom ChaCha20WindowV1) default_seed)"

definition pass_label :: "nat \<Rightarrow> nat \<Rightarrow> string \<Rightarrow> string" where
  "pass_label i tot l = ''Pass '' @ dec (i + 1) @ ''/'' @ dec tot @ '': '' @ l"

definition build_pass :: "digest option \<Rightarrow> nat \<Rightarrow> nat \<times> spec \<Rightarrow> pass option" where
  "build_pass default_seed tot = (\<lambda>(i, s).
     map_option (\<lambda>p. \<lparr>pa_pattern = p, pa_label = pass_label i tot (sp_label s)\<rparr>)
       (spec_pattern default_seed (sp_pattern s)))"

definition choose_seed :: "digest option \<Rightarrow> pass_matrix \<Rightarrow> digest option \<Rightarrow> unit + digest option" where
  "choose_seed rng matrix seed =
     (let total_random = length (filter sp_is_random (pm_passes matrix))
      in case seed of
           Some s \<Rightarrow> Inr (Some s)
         | None \<Rightarrow> if total_random > 0
                   then (case rng of None \<Rightarrow> Inl () | Some s \<Rightarrow> Inr (Some s))
                   else Inr None)"

definition logical_plan ::
  "pass list \<Rightarrow> stable_identity \<Rightarrow> fast_path_policy \<Rightarrow> verify_level \<Rightarrow> plan" where
  "logical_plan passes target fast_path verification =
     \<lparr>pl_schema = ''dc-plan/1'', pl_target = target, pl_mechanism = LogicalOverwrite passes,
      pl_verification = verification, pl_window_bytes = default_window_bytes,
      pl_fast_path = fast_path, pl_strategy_ladder = None, pl_legacy_note = None\<rparr>"

text \<open>\<open>Inl\<close>: the random generator failed; \<open>None\<close>: the panic of \<open>expect\<close>.\<close>

definition build_logical ::
  "digest option \<Rightarrow> pass_matrix \<Rightarrow> stable_identity \<Rightarrow> digest option \<Rightarrow> fast_path_policy \<Rightarrow>
   verify_level \<Rightarrow> (unit + plan) option" where
  "build_logical rng matrix target seed fast_path verification =
     (case choose_seed rng matrix seed of
        Inl e \<Rightarrow> Some (Inl e)
      | Inr default_seed \<Rightarrow>
          map_option (\<lambda>passes. Inr (logical_plan passes target fast_path verification))
            (those (map (build_pass default_seed (pm_total_passes matrix))
                      (List.enumerate 0 (pm_passes matrix)))))"

definition from_profile ::
  "(byte list \<Rightarrow> string) \<Rightarrow> digest option \<Rightarrow> profile \<Rightarrow> stable_identity \<Rightarrow> digest option \<Rightarrow>
   fast_path_policy \<Rightarrow> verify_level \<Rightarrow> (unit + plan) option" where
  "from_profile hex rng p target seed fast_path verification =
     map_option (map_sum id (\<lambda>pl. pl\<lparr>pl_legacy_note := legacy_note p\<rparr>))
       (build_logical rng (profile_matrix hex p) target seed fast_path verification)"

definition clear_zero :: "stable_identity \<Rightarrow> fast_path_policy \<Rightarrow> plan" where
  "clear_zero target fast_path =
     logical_plan [\<lparr>pa_pattern = ZeroP,
        pa_label = ''NIST SP 800-88 Clear (logical zero overwrite)''\<rparr>] target fast_path Full"

definition clear_random ::
  "digest option \<Rightarrow> stable_identity \<Rightarrow> digest option \<Rightarrow> fast_path_policy \<Rightarrow> unit + plan" where
  "clear_random rng target seed fast_path =
     (case (case seed of Some s \<Rightarrow> Some s | None \<Rightarrow> rng) of
        None \<Rightarrow> Inl ()
      | Some s \<Rightarrow> Inr (logical_plan [\<lparr>pa_pattern = DeterministicRandom ChaCha20WindowV1 s,
          pa_label = ''NIST SP 800-88 Clear (logical CSPRNG overwrite)''\<rparr>] target fast_path Full))"

definition legacy_dod3 ::
  "(byte list \<Rightarrow> string) \<Rightarrow> digest option \<Rightarrow> stable_identity \<Rightarrow> digest option \<Rightarrow> fast_path_policy \<Rightarrow>
   (unit + plan) option" where
  "legacy_dod3 hex rng target seed fast_path =
     from_profile hex rng Dod5220_22M target seed fast_path Full"


section \<open>What compilation guarantees\<close>

declare profile_specs.simps [simp del]

lemma those_map_Some: "(\<And>x. x \<in> set xs \<Longrightarrow> f x = Some (g x)) \<Longrightarrow> those (map f xs) = Some (map g xs)"
  by (induction xs) auto

text \<open>A spec asks for the seed exactly when it is flagged random: the catalogue keeps the two in step.\<close>

definition spec_ok :: "spec \<Rightarrow> bool" where
  "spec_ok s \<longleftrightarrow> (sp_pattern s = SRandom \<longleftrightarrow> sp_is_random s)"

lemma spec_ok_mk [simp]: "spec_ok (mk_spec p l r) \<longleftrightarrow> (p = SRandom \<longleftrightarrow> r)"
  by (simp add: spec_ok_def mk_spec_def)

lemmas specs_defs = dod_specs_def dod_ece_specs_def csec_specs_def bsi_specs_def schneier_specs_def
  certin_specs_def gutmann_specs_def

lemma profile_specs_ok: "s \<in> set (profile_specs hex p) \<Longrightarrow> spec_ok s"
  by (cases p) (auto simp: profile_specs.simps specs_defs)

lemma length_profile_specs:
  "length (profile_specs hex p) =
     (case p of NistClear \<Rightarrow> 1 | NistClearRandom \<Rightarrow> 1 | Dod5220_22M \<Rightarrow> 3 | Dod5220_22MEce \<Rightarrow> 7
      | CsecItsg06 \<Rightarrow> 3 | BsiVsitr \<Rightarrow> 7 | Schneier \<Rightarrow> 7 | CertinGoi \<Rightarrow> 3 | Gutmann \<Rightarrow> 35)"
  by (cases p) (simp_all add: profile_specs.simps specs_defs gutmann_words_def)

lemma profile_random:
  "filter sp_is_random (profile_specs hex p) = [] \<longleftrightarrow> p = NistClear \<or> p = BsiVsitr"
  by (cases p) (simp_all add: profile_specs.simps specs_defs mk_spec_def)

text \<open>The pattern a spec compiles to once the seed question is settled.\<close>

definition compiled_pattern :: "digest option \<Rightarrow> pattern_spec \<Rightarrow> pattern" where
  "compiled_pattern seed ps =
     (case ps of SZero \<Rightarrow> ZeroP | SFixed b \<Rightarrow> FixedP b | SFixedWord bytes \<Rightarrow> FixedWordP bytes
      | SRandom \<Rightarrow> DeterministicRandom ChaCha20WindowV1 (the seed))"

lemma spec_pattern_compiled:
  "(ps = SRandom \<Longrightarrow> seed \<noteq> None) \<Longrightarrow> spec_pattern seed ps = Some (compiled_pattern seed ps)"
  by (cases ps) (auto simp: spec_pattern_def compiled_pattern_def)

lemma compiled_pattern_materialises: "create_pattern_source (compiled_pattern seed ps) \<noteq> None"
  by (cases ps) (simp_all add: compiled_pattern_def)

definition compiled_passes :: "digest option \<Rightarrow> spec list \<Rightarrow> pass list" where
  "compiled_passes seed specs =
     map (\<lambda>(i, s). \<lparr>pa_pattern = compiled_pattern seed (sp_pattern s),
            pa_label = pass_label i (length specs) (sp_label s)\<rparr>) (List.enumerate 0 specs)"

lemma length_compiled_passes [simp]: "length (compiled_passes seed specs) = length specs"
  by (simp add: compiled_passes_def)

lemma map_pattern_compiled_passes:
  "map pa_pattern (compiled_passes seed specs) = map (compiled_pattern seed \<circ> sp_pattern) specs"
proof -
  have "map pa_pattern (compiled_passes seed specs) =
      map (compiled_pattern seed \<circ> sp_pattern) (map snd (List.enumerate 0 specs))"
    by (simp add: compiled_passes_def case_prod_unfold comp_def del: map_snd_enumerate)
  then show ?thesis by simp
qed

lemma build_passes:
  assumes "\<And>s. s \<in> set specs \<Longrightarrow> sp_pattern s = SRandom \<Longrightarrow> seed \<noteq> None"
  shows "those (map (build_pass seed (length specs)) (List.enumerate 0 specs)) =
    Some (compiled_passes seed specs)"
  unfolding compiled_passes_def
proof (rule those_map_Some)
  fix x
  assume "x \<in> set (List.enumerate 0 specs)"
  then have "fst x < length specs" and "specs ! fst x = snd x"
    by (simp_all add: in_set_enumerate_eq)
  then have "snd x \<in> set specs" by (metis nth_mem)
  with assms have "spec_pattern seed (sp_pattern (snd x)) = Some (compiled_pattern seed (sp_pattern (snd x)))"
    by (blast intro: spec_pattern_compiled)
  then show "build_pass seed (length specs) x =
    Some ((\<lambda>(i, s). \<lparr>pa_pattern = compiled_pattern seed (sp_pattern s),
        pa_label = pass_label i (length specs) (sp_label s)\<rparr>) x)"
    by (simp add: build_pass_def case_prod_unfold)
qed

text \<open>The whole of \<open>from_profile\<close> in closed form.\<close>

definition seed_for :: "digest option \<Rightarrow> profile \<Rightarrow> digest option \<Rightarrow> digest option" where
  "seed_for rng p seed =
     (case seed of Some s \<Rightarrow> Some s
      | None \<Rightarrow> if p = NistClear \<or> p = BsiVsitr then None else rng)"

lemma from_profile_eq:
  "from_profile hex rng p target seed fp v =
     (if p \<noteq> NistClear \<and> p \<noteq> BsiVsitr \<and> seed_for rng p seed = None then Some (Inl ())
      else Some (Inr ((logical_plan (compiled_passes (seed_for rng p seed) (profile_specs hex p))
                         target fp v)\<lparr>pl_legacy_note := legacy_note p\<rparr>)))"
proof -
  let ?specs = "profile_specs hex p"
  have choose: "choose_seed rng (profile_matrix hex p) seed =
      (if p \<noteq> NistClear \<and> p \<noteq> BsiVsitr \<and> seed_for rng p seed = None then Inl ()
       else Inr (seed_for rng p seed))"
    using profile_random [of hex p]
    by (auto simp: choose_seed_def Let_def seed_for_def split: option.splits)
  have "p \<noteq> NistClear \<and> p \<noteq> BsiVsitr" if "s \<in> set ?specs" "sp_pattern s = SRandom" for s
    using that profile_specs_ok [of s hex p] profile_random [of hex p]
    by (auto simp: spec_ok_def filter_empty_conv)
  then have "those (map (build_pass (seed_for rng p seed) (length ?specs)) (List.enumerate 0 ?specs)) =
      Some (compiled_passes (seed_for rng p seed) ?specs)"
    if "p = NistClear \<or> p = BsiVsitr \<or> seed_for rng p seed \<noteq> None"
    using that build_passes [of ?specs "seed_for rng p seed"] by auto
  then show ?thesis
    by (auto simp: from_profile_def build_logical_def choose)
qed

section \<open>Properties\<close>

text \<open>The journal tag of a verification level reads back as that level, for full and no verification
  and for every stride the parser admits; a stride outside 2..65536 is refused. The stride is a
  \<open>u32\<close>.\<close>

theorem short_tag_roundtrip:
  assumes "\<And>stride. v = Sampled stride \<Longrightarrow> stride < 2 ^ 32"
  shows "from_short_tag (short_tag v) =
    (case v of Sampled stride \<Rightarrow> if 2 \<le> stride \<and> stride \<le> 65536 then Some v else None | _ \<Rightarrow> Some v)"
proof (cases v)
  case (Sampled stride)
  then show ?thesis
    using assms parse_u32_dec [of stride] split_once_sample [of "dec stride"]
    by (simp add: from_short_tag_def)
qed (simp_all add: from_short_tag_def)

theorem short_tag_roundtrip_witness:
  "from_short_tag (short_tag (Sampled 7)) = Some (Sampled 7)"
  using short_tag_roundtrip [of "Sampled 7"] by simp

text \<open>Compiling a catalogued profile never panics. It fails only when the profile needs a random
  seed, none was given and the system's generator failed; otherwise the plan overwrites with as
  many passes as the catalogue announces, each of which the engine can materialise.\<close>

theorem profile_compiles:
  "\<exists>r. from_profile hex rng p target seed fast_path v = Some r \<and>
     (r = Inl () \<longleftrightarrow> seed = None \<and> rng = None \<and> p \<noteq> NistClear \<and> p \<noteq> BsiVsitr) \<and>
     (\<forall>pl. r = Inr pl \<longrightarrow> pl_target pl = target \<and> pl_verification pl = v \<and>
        (\<exists>passes. pl_mechanism pl = LogicalOverwrite passes \<and> length passes = total_passes hex p \<and>
           (\<forall>q \<in> set passes. create_pattern_source (pa_pattern q) \<noteq> None)))"
proof -
  have "\<forall>q \<in> set (compiled_passes s specs). create_pattern_source (pa_pattern q) \<noteq> None" for s specs
    using compiled_pattern_materialises by (auto simp: compiled_passes_def)
  moreover have "seed_for rng p seed = None \<longleftrightarrow> seed = None \<and> (rng = None \<or> p = NistClear \<or> p = BsiVsitr)"
    by (auto simp: seed_for_def split: option.splits)
  ultimately show ?thesis
    by (auto simp: from_profile_eq logical_plan_def total_passes_def)
qed

definition demo_target :: stable_identity where
  "demo_target = \<lparr>si_model = None, si_serial = Some ''S1'', si_wwn = None, si_size_bytes = 4096,
     si_bus = Sata, si_dm_name = None, si_dm_uuid = None\<rparr>"

theorem profile_compiles_witness:
  "\<exists>r. from_profile (\<lambda>_. ''w'') None Gutmann demo_target (Some 0) ForbidWriteZeroes Full = Some r \<and>
     r \<noteq> Inl () \<and> total_passes (\<lambda>_. ''w'') Gutmann = 35"
proof -
  have "total_passes (\<lambda>_. ''w'') Gutmann = 35" by (simp add: total_passes_def length_profile_specs)
  with profile_compiles [of "\<lambda>_. ''w''" None Gutmann demo_target "Some 0" ForbidWriteZeroes Full]
  show ?thesis by auto
qed

end
