(* ===== verification/Fsm.thy ===== *)
theory Fsm
  imports Errors Plan "HOL-Library.Sublist"
begin

text \<open>
  The lifecycle state machine of a run (\<open>crates/dc-core/src/fsm.rs\<close>), with the write permit the
  I/O engine demands, and the action alphabet and observation context of the exhaustive checker
  (\<open>crates/dc-verify-formal/src/fsm.rs\<close>). The plan hash (canonical JSON and BLAKE3, crates
  outside the sources) is the parameter \<open>plan_hash_of\<close>, \<open>None\<close> when serialisation fails.
\<close>

datatype write_permit = WritePermit

datatype fsm_state =
  Probed
| PlanCompiled plan string
| PlanApproved plan string
| Armed
| Executing nat nat       \<comment> \<open>pass, next window\<close>
| Flushing nat
| Verifying
| Certified
| Aborted
| Failed string string
| FsmInterrupted bool     \<comment> \<open>resumable\<close>

definition new_fsm :: fsm_state where "new_fsm = Probed"

section \<open>Operations\<close>

definition compile_plan ::
  "(plan \<Rightarrow> string option) \<Rightarrow> fsm_state \<Rightarrow> plan \<Rightarrow> dc_error + fsm_state \<times> string" where
  "compile_plan plan_hash_of st plan =
     (case st of
        Probed \<Rightarrow>
          and_then (ok_or Json (plan_hash_of plan)) (\<lambda>h. Inr (PlanCompiled plan h, h))
      | _ \<Rightarrow> Inl (Usage (UsageMsg ''Cannot compile plan: invalid state'')))"

definition approve_plan :: "fsm_state \<Rightarrow> dc_error + fsm_state" where
  "approve_plan st =
     (case st of
        PlanCompiled plan h \<Rightarrow> Inr (PlanApproved plan h)
      | _ \<Rightarrow> Inl (Usage (UsageMsg ''Cannot approve plan: plan not compiled'')))"

definition arm :: "fsm_state \<Rightarrow> dc_error + fsm_state" where
  "arm st =
     (case st of
        PlanApproved _ _ \<Rightarrow> Inr Armed
      | _ \<Rightarrow> Inl (Usage (UsageMsg ''Cannot arm: plan not approved'')))"

definition begin_pass :: "fsm_state \<Rightarrow> nat \<Rightarrow> dc_error + fsm_state \<times> write_permit" where
  "begin_pass st pass =
     (case st of
        Armed \<Rightarrow> Inr (Executing pass 0, WritePermit)
      | Flushing _ \<Rightarrow> Inr (Executing pass 0, WritePermit)
      | _ \<Rightarrow> Inl (Usage (UsageMsg ''Cannot begin pass: invalid state'')))"

definition begin_flush :: "fsm_state \<Rightarrow> nat \<Rightarrow> dc_error + fsm_state \<times> write_permit" where
  "begin_flush st pass =
     (case st of
        Executing _ _ \<Rightarrow> Inr (Flushing pass, WritePermit)
      | _ \<Rightarrow> Inl (Usage (UsageMsg ''Cannot begin flush: not executing'')))"

definition begin_verify :: "fsm_state \<Rightarrow> dc_error + fsm_state" where
  "begin_verify st =
     (case st of
        Flushing _ \<Rightarrow> Inr Verifying
      | _ \<Rightarrow> Inl (Usage (UsageMsg ''Cannot begin verification: media not flushed'')))"

definition certify :: "fsm_state \<Rightarrow> dc_error + fsm_state" where
  "certify st =
     (case st of
        Verifying \<Rightarrow> Inr Certified
      | _ \<Rightarrow> Inl (Usage (UsageMsg ''Cannot certify: not verified'')))"

definition fail :: "fsm_state \<Rightarrow> string \<Rightarrow> string \<Rightarrow> fsm_state" where
  "fail st code detail = Failed code detail"

definition interrupt :: "fsm_state \<Rightarrow> fsm_state" where
  "interrupt st = FsmInterrupted True"

definition abort :: "fsm_state \<Rightarrow> fsm_state" where
  "abort st = Aborted"

lemmas fsm_ops = compile_plan_def approve_plan_def arm_def begin_pass_def begin_flush_def
  begin_verify_def certify_def fail_def interrupt_def abort_def

section \<open>Runs: the alphabet of the model checker\<close>

datatype action =
  ACompile | AApprove | AArm | ABeginPass | ABeginFlush | ABeginVerify | ACertify
| AFail | AInterrupt | AAbort | ANoOp

record run_ctx =
  saw_ok_verify :: bool
  saw_permit :: bool

definition ctx_default :: run_ctx where
  "ctx_default = \<lparr>saw_ok_verify = False, saw_permit = False\<rparr>"

text \<open>
  One step of the checker: the action is applied to the orchestrator, a refused action leaves
  its state alone, and the context records a successful \<open>begin_verify\<close> and a minted permit. The
  last component is \<open>permit_minted\<close>.
\<close>

definition checker_step ::
  "(plan \<Rightarrow> string option) \<Rightarrow> plan \<Rightarrow> fsm_state \<Rightarrow> run_ctx \<Rightarrow> action \<Rightarrow>
   fsm_state \<times> run_ctx \<times> bool" where
  "checker_step hash plan st ctx a =
     (case a of
        ACompile \<Rightarrow> (case compile_plan hash st plan of
            Inl _ \<Rightarrow> (st, ctx, False) | Inr (st', _) \<Rightarrow> (st', ctx, False))
      | AApprove \<Rightarrow> (case approve_plan st of
            Inl _ \<Rightarrow> (st, ctx, False) | Inr st' \<Rightarrow> (st', ctx, False))
      | AArm \<Rightarrow> (case arm st of
            Inl _ \<Rightarrow> (st, ctx, False) | Inr st' \<Rightarrow> (st', ctx, False))
      | ABeginPass \<Rightarrow> (case begin_pass st 1 of
            Inl _ \<Rightarrow> (st, ctx, False)
          | Inr (st', _) \<Rightarrow> (st', ctx\<lparr>saw_permit := True\<rparr>, True))
      | ABeginFlush \<Rightarrow> (case begin_flush st 1 of
            Inl _ \<Rightarrow> (st, ctx, False)
          | Inr (st', _) \<Rightarrow> (st', ctx\<lparr>saw_permit := True\<rparr>, True))
      | ABeginVerify \<Rightarrow> (case begin_verify st of
            Inl _ \<Rightarrow> (st, ctx, False)
          | Inr st' \<Rightarrow> (st', ctx\<lparr>saw_ok_verify := True\<rparr>, False))
      | ACertify \<Rightarrow> (case certify st of
            Inl _ \<Rightarrow> (st, ctx, False) | Inr st' \<Rightarrow> (st', ctx, False))
      | AFail \<Rightarrow> (fail st ''E'' ''model'', ctx, False)
      | AInterrupt \<Rightarrow> (interrupt st, ctx, False)
      | AAbort \<Rightarrow> (abort st, ctx, False)
      | ANoOp \<Rightarrow> (st, ctx, False))"

text \<open>A run keeps, beside state and context, the history of the actions that succeeded.\<close>

definition succeeded :: "(plan \<Rightarrow> string option) \<Rightarrow> plan \<Rightarrow> fsm_state \<Rightarrow> action \<Rightarrow> bool" where
  "succeeded hash plan st a =
     (case a of
        ACompile \<Rightarrow> \<not> isl (compile_plan hash st plan)
      | AApprove \<Rightarrow> \<not> isl (approve_plan st)
      | AArm \<Rightarrow> \<not> isl (arm st)
      | ABeginPass \<Rightarrow> \<not> isl (begin_pass st 1)
      | ABeginFlush \<Rightarrow> \<not> isl (begin_flush st 1)
      | ABeginVerify \<Rightarrow> \<not> isl (begin_verify st)
      | ACertify \<Rightarrow> \<not> isl (certify st)
      | _ \<Rightarrow> True)"

type_synonym fsm_run = "fsm_state \<times> run_ctx \<times> action list"

definition run_step ::
  "(plan \<Rightarrow> string option) \<Rightarrow> plan \<Rightarrow> fsm_run \<Rightarrow> action \<Rightarrow> fsm_run" where
  "run_step hash plan r a =
     (case r of (st, ctx, log) \<Rightarrow>
        (case checker_step hash plan st ctx a of (st', ctx', _) \<Rightarrow>
           (st', ctx', if succeeded hash plan st a then log @ [a] else log)))"

definition fsm_run :: "(plan \<Rightarrow> string option) \<Rightarrow> plan \<Rightarrow> action list \<Rightarrow> fsm_run" where
  "fsm_run hash plan as = foldl (run_step hash plan) (new_fsm, ctx_default, []) as"

text \<open>
  The order every state certifies: what must already have succeeded, in this order, for the
  orchestrator to be in it.
\<close>

definition lifecycle :: "action list" where
  "lifecycle = [ACompile, AApprove, AArm, ABeginPass, ABeginFlush, ABeginVerify, ACertify]"

lemma lifecycle_length: "length lifecycle = 7"
  by (simp add: lifecycle_def)

fun stage :: "fsm_state \<Rightarrow> nat" where
  "stage (PlanCompiled _ _) = 1"
| "stage (PlanApproved _ _) = 2"
| "stage Armed = 3"
| "stage (Executing _ _) = 4"
| "stage (Flushing _) = 5"
| "stage Verifying = 6"
| "stage Certified = 7"
| "stage _ = 0"

definition run_inv :: "fsm_run \<Rightarrow> bool" where
  "run_inv r \<longleftrightarrow> (case r of (st, ctx, log) \<Rightarrow>
     subseq (take (stage st) lifecycle) log \<and>
     (saw_ok_verify ctx \<longleftrightarrow> ABeginVerify \<in> set log) \<and>
     (saw_permit ctx \<longleftrightarrow> ABeginPass \<in> set log \<or> ABeginFlush \<in> set log))"

lemma subseq_snoc: "subseq xs ys \<Longrightarrow> subseq (xs @ [a]) (ys @ [a])"
  by simp

lemma subseq_snoc_right: "subseq xs ys \<Longrightarrow> subseq xs (ys @ [a])"
  by (metis append_Nil2 list_emb_append_mono list_emb_Nil)

lemma stage_step:
  assumes "checker_step hash plan st ctx a = (st', ctx', m)"
  shows "stage st' = 0 \<or> (\<not> succeeded hash plan st a \<and> st' = st) \<or> a = ANoOp \<and> st' = st \<or>
    (succeeded hash plan st a \<and> stage st' = Suc (stage st) \<and> lifecycle ! stage st = a \<and> stage st < 7) \<or>
    (succeeded hash plan st a \<and> stage st' = 4 \<and> stage st = 5 \<and> a = ABeginPass)"
  using assms
  by (cases a; cases st)
    (auto simp: checker_step_def succeeded_def fsm_ops lifecycle_def and_then_def ok_or_def
       split: option.splits)


lemma run_inv_step:
  assumes "run_inv r"
  shows "run_inv (run_step hash plan r a)"
proof -
  obtain st ctx log where r: "r = (st, ctx, log)" by (cases r)
  obtain st' ctx' m where step: "checker_step hash plan st ctx a = (st', ctx', m)"
    by (metis prod_cases3)
  define log' where "log' = (if succeeded hash plan st a then log @ [a] else log)"
  have grow: "subseq xs log \<Longrightarrow> subseq xs log'" for xs
    by (simp add: log'_def subseq_snoc_right)
  have old: "subseq (take (stage st) lifecycle) log"
    using assms by (simp add: run_inv_def r)
  have "subseq (take (stage st') lifecycle) log'"
    using stage_step [OF step]
  proof (elim disjE conjE)
    assume "succeeded hash plan st a" "stage st' = Suc (stage st)" "lifecycle ! stage st = a"
      "stage st < 7"
    then have "take (stage st') lifecycle = take (stage st) lifecycle @ [a]"
      by (simp add: take_Suc_conv_app_nth lifecycle_length)
    with \<open>succeeded hash plan st a\<close> old show ?thesis by (simp add: log'_def)
  next
    assume "stage st' = 4" "stage st = 5"
    then have "subseq (take (stage st') lifecycle) (take (stage st) lifecycle)"
      by (simp add: lifecycle_def)
    then show ?thesis using old grow subseq_order.trans by blast
  qed (use old grow in simp_all)
  moreover have "(saw_ok_verify ctx' \<longleftrightarrow> ABeginVerify \<in> set log') \<and>
    (saw_permit ctx' \<longleftrightarrow> ABeginPass \<in> set log' \<or> ABeginFlush \<in> set log')"
    using assms step
    by (cases a) (auto simp: run_inv_def r log'_def checker_step_def succeeded_def
        split: sum.splits prod.splits)
  ultimately show ?thesis
    by (simp add: run_inv_def r run_step_def step log'_def)
qed

interpretation fsm: machine "run_step hash plan" run_inv for hash plan
  by unfold_locales (rule run_inv_step)

lemma run_inv_fsm_run: "run_inv (fsm_run hash plan as)"
  unfolding fsm_run_def
  by (rule fsm.run_inv) (simp add: run_inv_def new_fsm_def ctx_default_def)

section \<open>The exhaustive checker\<close>

definition all_actions :: "action list" where
  "all_actions = [ACompile, AApprove, AArm, ABeginPass, ABeginFlush, ABeginVerify, ACertify,
     AFail, AInterrupt, AAbort, ANoOp]"

lemma length_all_actions: "length all_actions = 11"
  by (simp add: all_actions_def)

text \<open>The fingerprint drops the plan of the two states that carry one and keeps its hash.\<close>

datatype fsm_fp =
  FpProbed | FpCompiled string | FpApproved string | FpArmed | FpExec nat nat | FpFlush nat
| FpVerifying | FpCertified | FpAborted | FpFailed string string | FpInterrupted bool

fun fingerprint :: "fsm_state \<Rightarrow> fsm_fp" where
  "fingerprint Probed = FpProbed"
| "fingerprint (PlanCompiled _ h) = FpCompiled h"
| "fingerprint (PlanApproved _ h) = FpApproved h"
| "fingerprint Armed = FpArmed"
| "fingerprint (Executing p w) = FpExec p w"
| "fingerprint (Flushing p) = FpFlush p"
| "fingerprint Verifying = FpVerifying"
| "fingerprint Certified = FpCertified"
| "fingerprint Aborted = FpAborted"
| "fingerprint (Failed c d) = FpFailed c d"
| "fingerprint (FsmInterrupted r) = FpInterrupted r"

text \<open>INV-2 and INV-3 as the checker tests them, on the fingerprint before the action.\<close>

definition permit_legal :: "action \<Rightarrow> fsm_fp \<Rightarrow> bool" where
  "permit_legal a pre =
     (case a of
        ABeginPass \<Rightarrow> (case pre of FpArmed \<Rightarrow> True | FpFlush _ \<Rightarrow> True | _ \<Rightarrow> False)
      | ABeginFlush \<Rightarrow> (case pre of FpExec _ _ \<Rightarrow> True | _ \<Rightarrow> False)
      | _ \<Rightarrow> False)"

definition certify_illegal :: "action \<Rightarrow> fsm_fp \<Rightarrow> fsm_state \<Rightarrow> bool" where
  "certify_illegal a pre st' \<longleftrightarrow> st' = Certified \<and> a = ACertify \<and> pre \<noteq> FpVerifying"

record check_state =
  ck_visited :: "(fsm_fp \<times> run_ctx) list"
  ck_inv1 :: "action list option"
  ck_inv2 :: "action list option"
  ck_inv3 :: "action list option"
  ck_explored :: nat

type_synonym frontier = "(fsm_state \<times> run_ctx \<times> action list) list"

definition get_or_insert :: "'a option \<Rightarrow> bool \<Rightarrow> 'a \<Rightarrow> 'a option" where
  "get_or_insert v hit path = (if hit \<and> v = None then Some path else v)"

text \<open>The body of the inner loop: one action tried on a clone of the popped node.\<close>

definition try_action ::
  "(plan \<Rightarrow> string option) \<Rightarrow> plan \<Rightarrow> fsm_state \<Rightarrow> run_ctx \<Rightarrow> action list \<Rightarrow> action \<Rightarrow>
   check_state \<times> frontier \<Rightarrow> check_state \<times> frontier" where
  "try_action hash plan st ctx path a cf =
     (let (ck, fr) = cf;
          (st', nctx, minted) = checker_step hash plan st ctx a;
          pre = fingerprint st;
          key = (fingerprint st', nctx);
          ck' = ck\<lparr>ck_inv2 := get_or_insert (ck_inv2 ck) (minted \<and> \<not> permit_legal a pre) (path @ [a]),
                   ck_inv3 := get_or_insert (ck_inv3 ck) (certify_illegal a pre st') (path @ [a])\<rparr>
      in if key \<in> set (ck_visited ck) then (ck', fr)
         else (ck'\<lparr>ck_visited := key # ck_visited ck\<rparr>, fr @ [(st', nctx, path @ [a])]))"

definition visit_node :: "fsm_state \<Rightarrow> run_ctx \<Rightarrow> action list \<Rightarrow> check_state \<Rightarrow> check_state" where
  "visit_node st ctx path ck =
     ck\<lparr>ck_explored := ck_explored ck + 1,
        ck_inv1 := get_or_insert (ck_inv1 ck) (st = Certified \<and> \<not> saw_ok_verify ctx) path\<rparr>"

text \<open>
  The work list is a \<open>Vec\<close>: nodes are popped from its end. A node at the depth bound is not
  expanded.
\<close>

definition node_weight :: "nat \<Rightarrow> fsm_state \<times> run_ctx \<times> action list \<Rightarrow> nat" where
  "node_weight depth n = 12 ^ (Suc depth - length (snd (snd n)))"

lemma try_action_weight:
  "sum_list (map (node_weight depth) (snd (try_action hash plan st ctx path a cf)))
     \<le> sum_list (map (node_weight depth) (snd cf)) + 12 ^ (depth - length path)"
  by (cases cf) (auto simp: try_action_def node_weight_def Let_def split: prod.splits)

lemma fold_try_action_weight:
  "sum_list (map (node_weight depth) (snd (fold (try_action hash plan st ctx path) as cf)))
     \<le> sum_list (map (node_weight depth) (snd cf)) + length as * 12 ^ (depth - length path)"
proof (induction as arbitrary: cf)
  case Nil
  then show ?case by simp
next
  case (Cons a as)
  show ?case
    using Cons.IH [of "try_action hash plan st ctx path a cf"]
      try_action_weight [of depth hash plan st ctx path a cf] by simp
qed

function explore ::
  "(plan \<Rightarrow> string option) \<Rightarrow> plan \<Rightarrow> nat \<Rightarrow> check_state \<times> frontier \<Rightarrow> check_state" where
  "explore hash plan depth (ck, fr) =
     (if fr = [] then ck
      else case last fr of (st, ctx, path) \<Rightarrow>
        let ck' = visit_node st ctx path ck
        in if length path \<ge> depth then explore hash plan depth (ck', butlast fr)
           else explore hash plan depth
             (fold (try_action hash plan st ctx path) all_actions (ck', butlast fr)))"
  by pat_completeness auto

termination explore
proof (relation "measure (\<lambda>(_, _, depth, _, fr). sum_list (map (node_weight depth) fr))", goal_cases)
  case 1
  then show ?case by simp
next
  case (2 hash plan depth ck fr st y ctx path ck')
  then show ?case
    by (cases fr rule: rev_cases) (auto simp: node_weight_def)
next
  case (3 hash plan depth ck fr st y ctx path ck')
  then obtain fr' where fr: "fr = fr' @ [(st, ctx, path)]"
    by (cases fr rule: rev_cases) auto
  have "Suc depth - length path = Suc (depth - length path)"
    using 3 by simp
  then have "node_weight depth (st, ctx, path) > 11 * 12 ^ (depth - length path)"
    by (simp add: node_weight_def)
  then show ?case
    using fold_try_action_weight [of depth hash plan st ctx path all_actions "(ck', fr')"]
    by (simp add: fr length_all_actions case_prod_beta)
qed

declare explore.simps [simp del]

lemma explore_Nil: "explore hash plan depth (ck, []) = ck"
  by (simp add: explore.simps)

lemma explore_snoc:
  "explore hash plan depth (ck, fr @ [(st, ctx, path)]) =
     (let ck' = visit_node st ctx path ck
      in if length path \<ge> depth then explore hash plan depth (ck', fr)
         else explore hash plan depth
           (fold (try_action hash plan st ctx path) all_actions (ck', fr)))"
  by (subst explore.simps) (simp add: Let_def butlast_append)

definition exhaustive_check ::
  "(plan \<Rightarrow> string option) \<Rightarrow> plan \<Rightarrow> nat \<Rightarrow> check_state" where
  "exhaustive_check hash plan depth =
     explore hash plan depth
       (\<lparr>ck_visited = [(fingerprint new_fsm, ctx_default)], ck_inv1 = None, ck_inv2 = None,
          ck_inv3 = None, ck_explored = 0\<rparr>,
        [(new_fsm, ctx_default, [])])"

definition all_passed :: "check_state \<Rightarrow> bool" where
  "all_passed ck \<longleftrightarrow> ck_inv1 ck = None \<and> ck_inv2 ck = None \<and> ck_inv3 ck = None"

text \<open>What makes the checker pass: INV-2 and INV-3 hold of every step, INV-1 of every node.\<close>

lemma checker_step_permit_legal:
  "checker_step hash plan st ctx a = (st', ctx', m) \<Longrightarrow> m \<Longrightarrow> permit_legal a (fingerprint st)"
  by (cases a; cases st) (auto simp: checker_step_def fsm_ops permit_legal_def and_then_def ok_or_def
      split: option.splits)

lemma checker_step_certify_legal:
  "checker_step hash plan st ctx a = (st', ctx', m) \<Longrightarrow> st \<noteq> Certified \<Longrightarrow>
   \<not> certify_illegal a (fingerprint st) st'"
  by (cases a; cases st) (auto simp: checker_step_def fsm_ops certify_illegal_def and_then_def ok_or_def
      split: option.splits)

text \<open>
  A node is sound when a state past verification carries the observation of it, and the path to
  it is at least as long as the part of the lifecycle behind it.
\<close>

definition node_sound :: "fsm_state \<times> run_ctx \<times> action list \<Rightarrow> bool" where
  "node_sound n \<longleftrightarrow> (case n of (st, ctx, path) \<Rightarrow>
     (stage st \<ge> 6 \<longrightarrow> saw_ok_verify ctx) \<and> stage st \<le> length path)"

lemma checker_step_sound:
  "checker_step hash plan st ctx a = (st', ctx', m) \<Longrightarrow> node_sound (st, ctx, path) \<Longrightarrow>
   node_sound (st', ctx', path @ [a])"
  by (cases a; cases st) (auto simp: checker_step_def fsm_ops node_sound_def and_then_def ok_or_def
      split: option.splits)

definition check_inv :: "check_state \<times> frontier \<Rightarrow> bool" where
  "check_inv cf \<longleftrightarrow> all_passed (fst cf) \<and> list_all node_sound (snd cf)"

lemma try_action_inv:
  assumes "check_inv cf" and "node_sound (st, ctx, path)" and "st \<noteq> Certified"
  shows "check_inv (try_action hash plan st ctx path a cf)"
proof -
  obtain st' nctx m where step: "checker_step hash plan st ctx a = (st', nctx, m)"
    by (metis prod_cases3)
  show ?thesis
    using assms step checker_step_permit_legal [OF step] checker_step_certify_legal [OF step]
      checker_step_sound [OF step]
    by (auto simp: check_inv_def all_passed_def try_action_def get_or_insert_def Let_def
        split: prod.splits)
qed

lemma fold_try_action_inv:
  assumes "check_inv cf" and "node_sound (st, ctx, path)" and "st \<noteq> Certified"
  shows "check_inv (fold (try_action hash plan st ctx path) as cf)"
  using assms(1)
proof (induction as arbitrary: cf)
  case (Cons a as)
  then show ?case
    using try_action_inv [OF Cons.prems assms(2,3), of hash plan a] by simp
qed simp

lemma explore_all_passed:
  "check_inv cf \<Longrightarrow> depth \<le> 7 \<Longrightarrow> all_passed (explore hash plan depth cf)"
proof (induction hash plan depth cf rule: explore.induct)
  case (1 hash plan depth ck fr)
  show ?case
  proof (cases fr rule: rev_cases)
    case Nil
    with 1(3) show ?thesis by (simp add: explore_Nil check_inv_def)
  next
    case (snoc fr' n)
    obtain st ctx path where n: "n = (st, ctx, path)" by (cases n)
    define ck' where "ck' = visit_node st ctx path ck"
    have sound: "node_sound (st, ctx, path)" and inv': "check_inv (ck', fr')"
      using 1(3) by (auto simp: snoc n check_inv_def ck'_def visit_node_def all_passed_def
          get_or_insert_def node_sound_def)
    have last: "(st, (ctx, path)) = last fr" and ne: "fr \<noteq> []" and fr': "butlast fr = fr'"
      by (simp_all add: snoc n)
    show ?thesis
    proof (cases "length path \<ge> depth")
      case True
      have "all_passed (explore hash plan depth (ck', butlast fr))"
        by (rule 1(1) [OF ne last refl ck'_def True]) (use inv' fr' 1(4) in simp_all)
      then show ?thesis
        using True unfolding snoc n explore_snoc Let_def ck'_def [symmetric] by simp
    next
      case False
      then have "st \<noteq> Certified" using sound 1(4) by (auto simp: node_sound_def)
      then have "check_inv (fold (try_action hash plan st ctx path) all_actions (ck', fr'))"
        by (rule fold_try_action_inv [OF inv' sound])
      then have "all_passed (explore hash plan depth
          (fold (try_action hash plan st ctx path) all_actions (ck', butlast fr)))"
        using 1(2) [OF ne last refl ck'_def False] 1(4) fr' by simp
      then show ?thesis
        using False fr' unfolding snoc n explore_snoc Let_def ck'_def [symmetric] by simp
    qed
  qed
qed

definition sample_plan :: plan where
  "sample_plan = clear_zero
     \<lparr>si_model = Some ''FORMAL-MODEL'', si_serial = Some ''FM001'', si_wwn = None,
      si_size_bytes = 2 ^ 30, si_bus = Loop, si_dm_name = None, si_dm_uuid = None\<rparr>
     ForbidWriteZeroes"

section \<open>Properties\<close>

text \<open>Up to the depth the tests use (7), the exhaustive checker reports all three invariants as
  held, for every plan and every hash function.\<close>

theorem exhaustive_check_passes:
  assumes "depth \<le> 7"
  shows "all_passed (exhaustive_check hash plan depth)"
  unfolding exhaustive_check_def
  by (rule explore_all_passed)
    (simp_all add: assms check_inv_def all_passed_def node_sound_def new_fsm_def ctx_default_def)

theorem exhaustive_check_passes_witness:
  "all_passed (exhaustive_check (\<lambda>_. Some ''h'') sample_plan 7)"
  by (rule exhaustive_check_passes) simp

text \<open>One step deeper the checker reports INV-3 as violated although it holds: it expands the
  certified node, a refused \<open>certify\<close> leaves the state \<open>Certified\<close>, and the test takes that for a
  transition into it from a state other than \<open>Verifying\<close>.\<close>

theorem exhaustive_check_false_alarm:
  "ck_inv3 (exhaustive_check (\<lambda>_. Some ''h'') plan 8) = Some (lifecycle @ [ACertify])"
  by code_simp

text \<open>C10: In every run of the machine, a certified orchestrator has gone through every stage of the
  lifecycle, in order: compile, approve, arm, a pass, a flush, verification and certification
  have each succeeded, whatever actions were interleaved.\<close>

theorem certified_lifecycle:
  assumes "fsm_run hash plan as = (Certified, ctx, log)"
  shows "subseq lifecycle log \<and> saw_ok_verify ctx"
proof
  show log: "subseq lifecycle log"
    using run_inv_fsm_run [of hash plan as] assms by (simp add: run_inv_def lifecycle_length)
  have "ABeginVerify \<in> set lifecycle" by (simp add: lifecycle_def)
  then have "ABeginVerify \<in> set log" using log by (blast elim: list_emb_set)
  then show "saw_ok_verify ctx"
    using run_inv_fsm_run [of hash plan as] assms by (simp add: run_inv_def)
qed

theorem certified_lifecycle_witness:
  "subseq lifecycle (ANoOp # lifecycle) \<and> saw_ok_verify \<lparr>saw_ok_verify = True, saw_permit = True\<rparr>"
proof (rule certified_lifecycle)
  show "fsm_run (\<lambda>_. Some ''h'') sample_plan (ANoOp # ACertify # lifecycle) =
      (Certified, \<lparr>saw_ok_verify = True, saw_permit = True\<rparr>, ANoOp # lifecycle)"
    by (simp add: fsm_run_def run_step_def checker_step_def succeeded_def fsm_ops lifecycle_def
        new_fsm_def ctx_default_def)
qed

end
