(* ===== verification/Orchestrator.thy ===== *)
theory Orchestrator
  imports DC_Prelude
begin

text \<open>
  The effect-driven orchestrator (\<open>crates/dc-core/src/orchestrator.rs\<close>): \<open>step\<close> consumes the
  success of the effect it last emitted and emits the next one. Pass indices are \<open>u8\<close>; the
  counter is only incremented below \<open>total_passes\<close>, so it never wraps.
\<close>

datatype orch_state =
  OInitialized | OClassified | OConfirmed | OArmed | OExecutingPass nat | OFlushed | OVerifying
| OCompleted | OInterrupted | OFailed

datatype orch_effect =
  ClassifyDevice | PromptConfirmation | AcquireLocksAndArm | ExecutePass nat | FlushDevice
| VerifyMedia | WriteCertificate | AppendAuditRecord string | Exit int

record orchestrator =
  or_state :: orch_state
  or_total_passes :: nat
  or_is_confirmed :: bool
  or_next_pass :: nat

definition new_orchestrator :: "nat \<Rightarrow> orchestrator" where
  "new_orchestrator n =
     \<lparr>or_state = OInitialized, or_total_passes = n, or_is_confirmed = False, or_next_pass = 0\<rparr>"

definition orch_step :: "orchestrator \<Rightarrow> bool \<Rightarrow> orchestrator \<times> orch_effect" where
  "orch_step o1 effect_success =
     (if \<not> effect_success then (o1\<lparr>or_state := OFailed\<rparr>, Exit 1)
      else case or_state o1 of
        OInitialized \<Rightarrow> (o1\<lparr>or_state := OClassified\<rparr>, PromptConfirmation)
      | OClassified \<Rightarrow> (o1\<lparr>or_is_confirmed := True, or_state := OConfirmed\<rparr>, AcquireLocksAndArm)
      | OConfirmed \<Rightarrow> (o1\<lparr>or_next_pass := 1, or_state := OArmed\<rparr>, ExecutePass 0)
      | OFlushed \<Rightarrow> (o1\<lparr>or_state := OVerifying\<rparr>, VerifyMedia)
      | OVerifying \<Rightarrow> (o1\<lparr>or_state := OCompleted\<rparr>, WriteCertificate)
      | OCompleted \<Rightarrow> (o1, Exit 0)
      | OInterrupted \<Rightarrow> (o1, Exit 3)
      | OFailed \<Rightarrow> (o1, Exit 1)
      | _ \<Rightarrow>
          (let next = or_next_pass o1
           in if next < or_total_passes o1
              then (o1\<lparr>or_next_pass := next + 1, or_state := OExecutingPass next\<rparr>, ExecutePass next)
              else (o1\<lparr>or_state := OFlushed\<rparr>, FlushDevice)))"

text \<open>The effects of a run, driven by the outcomes of the effects before.\<close>

fun effects :: "orchestrator \<Rightarrow> bool list \<Rightarrow> orch_effect list" where
  "effects o1 [] = []"
| "effects o1 (b # bs) = (let (o2, e) = orch_step o1 b in e # effects o2 bs)"

fun orch_run :: "orchestrator \<Rightarrow> bool list \<Rightarrow> orchestrator" where
  "orch_run o1 [] = o1"
| "orch_run o1 (b # bs) = orch_run (fst (orch_step o1 b)) bs"

lemma effects_append: "effects o1 (bs @ cs) = effects o1 bs @ effects (orch_run o1 bs) cs"
  by (induction o1 bs rule: effects.induct) (auto simp: Let_def split: prod.splits)

text \<open>From the first armed write to the flush, every remaining pass is dispatched once, in order.\<close>

lemma effects_passes:
  assumes "or_state o1 = OArmed \<or> (\<exists>i. or_state o1 = OExecutingPass i)"
    and "or_total_passes o1 = or_next_pass o1 + k"
  shows "effects o1 (replicate (k + 3) True) =
    map ExecutePass [or_next_pass o1..<or_next_pass o1 + k] @ [FlushDevice, VerifyMedia, WriteCertificate]"
  using assms
proof (induction k arbitrary: o1)
  case 0
  then show ?case by (auto simp: numeral_3_eq_3 orch_step_def Let_def)
next
  case (Suc k)
  let ?o2 = "o1\<lparr>or_next_pass := or_next_pass o1 + 1, or_state := OExecutingPass (or_next_pass o1)\<rparr>"
  have "orch_step o1 True = (?o2, ExecutePass (or_next_pass o1))"
    using Suc.prems by (auto simp: orch_step_def Let_def)
  moreover have "effects ?o2 (replicate (k + 3) True) = map ExecutePass [or_next_pass ?o2..<or_next_pass ?o2 + k]
      @ [FlushDevice, VerifyMedia, WriteCertificate]"
    by (rule Suc.IH) (use Suc.prems in simp_all)
  moreover have "replicate (Suc k + 3) True = True # replicate (k + 3) True"
    by (simp only: add_Suc replicate.simps)
  moreover have "[a..<a + Suc k] = a # [Suc a..<Suc a + k]" for a
    by (simp add: upt_conv_Cons del: upt_Suc)
  ultimately show ?case
    by (simp del: upt_Suc replicate.simps)
qed

text \<open>The machine invariant: the interrupted state is never entered, nothing is executed or
  certified unconfirmed, and the pass counter stays in range.\<close>

definition orch_inv :: "orchestrator \<Rightarrow> bool" where
  "orch_inv o1 \<longleftrightarrow> or_state o1 \<noteq> OInterrupted \<and> or_next_pass o1 \<le> max 1 (or_total_passes o1) \<and>
     (or_state o1 \<notin> {OInitialized, OClassified, OFailed} \<longrightarrow> or_is_confirmed o1)"

interpretation orch: machine "\<lambda>o1 b. fst (orch_step o1 b)" orch_inv
  by unfold_locales (auto simp: orch_inv_def orch_step_def Let_def split: orch_state.splits if_splits)

lemma orch_run_foldl: "orch_run o1 bs = foldl (\<lambda>o1 b. fst (orch_step o1 b)) o1 bs"
  by (induction o1 bs rule: orch_run.induct) simp_all

lemma orch_run_inv: "orch_inv (orch_run (new_orchestrator n) bs)"
  unfolding orch_run_foldl
  by (rule orch.run_inv) (simp add: orch_inv_def new_orchestrator_def)

lemma effects_failed:
  "or_state o1 = OFailed \<Longrightarrow> effects o1 bs = replicate (length bs) (Exit 1)"
  by (induction bs arbitrary: o1) (auto simp: orch_step_def)

section \<open>Properties\<close>

text \<open>With every effect successful, the orchestrator prompts, arms, executes every pass of the
  plan exactly once and in order, then flushes, verifies and certifies, whatever the number of
  passes.\<close>

theorem effects_of_successful_run:
  assumes "1 \<le> n"
  shows "effects (new_orchestrator n) (replicate (n + 5) True) =
    [PromptConfirmation, AcquireLocksAndArm] @ map ExecutePass [0..<n] @
    [FlushDevice, VerifyMedia, WriteCertificate]"
proof -
  let ?armed = "\<lparr>or_state = OArmed, or_total_passes = n, or_is_confirmed = True, or_next_pass = 1\<rparr>"
  have "replicate (n + 5) True = True # True # True # replicate ((n - 1) + 3) True"
    using assms by (cases n) (simp_all add: numeral_eq_Suc)
  moreover have "effects ?armed (replicate ((n - 1) + 3) True) =
      map ExecutePass [1..<1 + (n - 1)] @ [FlushDevice, VerifyMedia, WriteCertificate]"
    using effects_passes [of ?armed "n - 1"] assms by simp
  moreover have "[0..<n] = 0 # [1..<n]"
    using assms by (simp add: upt_conv_Cons)
  ultimately show ?thesis
    using assms by (simp add: new_orchestrator_def orch_step_def)
qed

theorem effects_of_successful_run_witness:
  "effects (new_orchestrator 3) (replicate 8 True) =
    [PromptConfirmation, AcquireLocksAndArm, ExecutePass 0, ExecutePass 1, ExecutePass 2,
     FlushDevice, VerifyMedia, WriteCertificate]"
  using effects_of_successful_run [of 3] by (simp add: upt_rec)

text \<open>A failed effect ends every run: from there on the orchestrator emits only the exit with
  code 1, whatever is reported to it later, and in particular neither a write nor a certificate.\<close>

theorem failure_is_final:
  "effects (new_orchestrator n) (bs @ False # cs) =
     effects (new_orchestrator n) bs @ replicate (Suc (length cs)) (Exit 1)"
  by (simp add: effects_append orch_step_def effects_failed)

end
