(* ===== verification/Hash_Chain.thy ===== *)
theory Hash_Chain
  imports DC_Prelude
begin

text \<open>
  The hash chain both append-only logs of the tool are built on (the \<open>DCJ1\<close> execution journal
  and the \<open>DCA1\<close> audit log): each record is linked to its predecessor by
  \<open>BLAKE3(record_bytes || prev_hash)\<close>, and the first to \<open>BLAKE3(magic)\<close>. BLAKE3 is a crate
  outside the sources, a parameter; nothing is assumed of it. What a chain head promises is
  therefore stated as a reduction: two logs with the same head hold the same records, or among
  the finitely many inputs hashed along the two of them there are two that collide.
\<close>

text \<open>The digests along a chain, the inputs hashed on the way, and a collision between two lists of inputs.\<close>

definition chain_head :: "('x \<Rightarrow> 'h) \<Rightarrow> ('r \<Rightarrow> 'h \<Rightarrow> 'x) \<Rightarrow> 'h \<Rightarrow> 'r list \<Rightarrow> 'h" where
  "chain_head H inp h rs = foldl (\<lambda>h r. H (inp r h)) h rs"

primrec chain_inputs :: "('x \<Rightarrow> 'h) \<Rightarrow> ('r \<Rightarrow> 'h \<Rightarrow> 'x) \<Rightarrow> 'h \<Rightarrow> 'r list \<Rightarrow> 'x list" where
  "chain_inputs H inp h [] = []"
| "chain_inputs H inp h (r # rs) = inp r h # chain_inputs H inp (H (inp r h)) rs"

definition collide :: "('x \<Rightarrow> 'h) \<Rightarrow> 'x list \<Rightarrow> 'x list \<Rightarrow> bool" where
  "collide H xs ys \<longleftrightarrow> list_ex (\<lambda>x. list_ex (\<lambda>y. x \<noteq> y \<and> H x = H y) ys) xs"

lemma collideI: "x \<in> set xs \<Longrightarrow> y \<in> set ys \<Longrightarrow> x \<noteq> y \<Longrightarrow> H x = H y \<Longrightarrow> collide H xs ys"
  by (auto simp: collide_def list_ex_iff)

lemma collide_mono:
  "collide H xs ys \<Longrightarrow> set xs \<subseteq> set xs' \<Longrightarrow> set ys \<subseteq> set ys' \<Longrightarrow> collide H xs' ys'"
  by (auto simp: collide_def list_ex_iff)

lemma chain_head_simps [simp]:
  "chain_head H inp h [] = h"
  "chain_head H inp h (r # rs) = chain_head H inp (H (inp r h)) rs"
  "chain_head H inp h (rs @ rs') = chain_head H inp (chain_head H inp h rs) rs'"
  by (simp_all add: chain_head_def)

lemma chain_inputs_append [simp]:
  "chain_inputs H inp h (rs @ rs') = chain_inputs H inp h rs @ chain_inputs H inp (chain_head H inp h rs) rs'"
  by (induction rs arbitrary: h) simp_all

text \<open>
  The interface of a chained log: how a record and the previous head make an input, and the
  input the empty chain starts from.
\<close>

locale hash_chain =
  fixes H :: "'x \<Rightarrow> 'h" and inp :: "'r \<Rightarrow> 'h \<Rightarrow> 'x" and seed_in :: 'x
  assumes inp_inject: "inp r h = inp r' h' \<Longrightarrow> r = r' \<and> h = h'"
    and inp_not_seed: "inp r h \<noteq> seed_in"
begin

lemma head_determines_records:
  assumes "chain_head H inp (H seed_in) rs = chain_head H inp (H seed_in) rs'"
    and "\<not> collide H (seed_in # chain_inputs H inp (H seed_in) rs)
           (seed_in # chain_inputs H inp (H seed_in) rs')"
  shows "rs = rs'"
  using assms
proof (induction rs arbitrary: rs' rule: rev_induct)
  case Nil
  show ?case
  proof (cases rs' rule: rev_cases)
    case (snoc qs q)
    with Nil.prems(1) have "H seed_in = H (inp q (chain_head H inp (H seed_in) qs))" by simp
    with Nil.prems(2) inp_not_seed [symmetric] show ?thesis by (auto simp: snoc collide_def)
  qed simp
next
  case (snoc r rs)
  show ?case
  proof (cases rs' rule: rev_cases)
    case Nil
    with snoc.prems(1) have "H (inp r (chain_head H inp (H seed_in) rs)) = H seed_in" by simp
    with snoc.prems(2) inp_not_seed show ?thesis by (auto simp: Nil collide_def)
  next
    case (snoc qs q)
    let ?h = "chain_head H inp (H seed_in)"
    have "H (inp r (?h rs)) = H (inp q (?h qs))"
      using snoc.prems(1) \<open>rs' = qs @ [q]\<close> by simp
    then have "inp r (?h rs) = inp q (?h qs)"
      using snoc.prems(2) by (auto simp: \<open>rs' = qs @ [q]\<close> collide_def)
    then have "r = q" and "?h rs = ?h qs" using inp_inject by blast+
    moreover have "\<not> collide H (seed_in # chain_inputs H inp (H seed_in) rs)
           (seed_in # chain_inputs H inp (H seed_in) qs)"
      using snoc.prems(2) by (rule contrapos_nn) (erule collide_mono; auto simp: \<open>rs' = qs @ [q]\<close>)
    ultimately show ?thesis using snoc.IH \<open>rs' = qs @ [q]\<close> by blast
  qed
qed

end

section \<open>The chains of the tool\<close>

definition link_input :: "byte list \<Rightarrow> digest \<Rightarrow> byte list" where
  "link_input r h = r @ digest_bytes h"

definition chain_link :: "(byte list \<Rightarrow> digest) \<Rightarrow> byte list \<Rightarrow> digest \<Rightarrow> digest" where
  "chain_link H r h = H (link_input r h)"

definition chain_from :: "(byte list \<Rightarrow> digest) \<Rightarrow> digest \<Rightarrow> byte list list \<Rightarrow> digest" where
  "chain_from H h rs = foldl (\<lambda>h r. chain_link H r h) h rs"

text \<open>All that is hashed to reach the head of a log with these record bodies.\<close>

definition hashed_inputs :: "(byte list \<Rightarrow> digest) \<Rightarrow> byte list \<Rightarrow> byte list list \<Rightarrow> byte list list" where
  "hashed_inputs H magic rs = magic # chain_inputs H link_input (H magic) rs"

lemma chain_from_simps [simp]:
  "chain_from H h [] = h"
  "chain_from H h (r # rs) = chain_from H (chain_link H r h) rs"
  "chain_from H h (rs @ rs') = chain_from H (chain_from H h rs) rs'"
  by (simp_all add: chain_from_def)

lemma chain_from_head: "chain_from H h rs = chain_head H link_input h rs"
  by (simp add: chain_from_def chain_head_def chain_link_def)

lemma link_input_inject: "link_input r h = link_input r' h' \<Longrightarrow> r = r' \<and> h = h'"
  by (simp add: link_input_def append_eq_append_conv)

lemma link_input_long: "length magic < 32 \<Longrightarrow> link_input r h \<noteq> magic"
  by (auto simp: link_input_def)

end
