(* ===== verification/Journal.thy ===== *)
theory Journal
  imports Errors Plan Hash_Chain
begin

text \<open>
  The \<open>DCJ1\<close> execution journal (\<open>crates/dc-core/src/journal.rs\<close>). The file is its list of bytes;
  a writer owns the file and appends at its end. The crates the code relies on (\<open>blake3\<close>,
  \<open>serde_json\<close>, \<open>hex\<close>, \<open>ed25519_dalek\<close>) are the fields of \<open>journal_deps\<close>. An I/O fault of an
  append is the number of bytes of the frame that reached the file before the error.
\<close>

section \<open>Records\<close>

record engine_tuning =
  et_qd :: nat
  et_pool_mib :: nat
  et_window_bytes :: nat
  et_checkpoint_mib :: nat
  et_checkpoint_ms :: nat

record tool_build =
  tb_name :: string
  tb_version :: string
  tb_build_hash :: string
  tb_target_triple :: string

record journal_header =
  jh_uuid :: string
  jh_sealed :: bool
  jh_operator_pubkey :: "string option"
  jh_plan :: plan
  jh_plan_hash :: string
  jh_identity :: device_identity
  jh_tool :: tool_build
  jh_engine :: string
  jh_tuning :: engine_tuning
  jh_argv_hash :: string
  jh_started_utc :: string

record verify_record =
  vr_level :: string
  vr_windows_checked :: nat
  vr_mismatch_count :: nat
  vr_first_mismatch_lbas :: "nat list"
  vr_stream_hash_blake3 :: string
  vr_stream_hash_sha256 :: "string option"
  vr_fast_path_used :: bool

record interrupt_record =
  ir_at :: string
  ir_hint :: string
  ir_completed_through_pass :: "nat option"
  ir_completed_through_window :: "nat option"
  ir_signals_received :: "nat option"

datatype journal_record =
  JHeader journal_header
| JArmed "string list" "string list" string
| JBeginPass nat pattern_descriptor nat
| JRangeCommit nat nat nat              \<comment> \<open>pass, first window, number of windows\<close>
| JEndPass nat
| JFlushed nat
| JVerify verify_record
| JInterrupted interrupt_record
| JResumed string nat nat nat string
| JFailed string "int option" "string option" "nat option" string
| JCompleted string nat

record journal_summary =
  js_chain_head :: string
  js_record_count :: nat
  js_discarded_tail_bytes :: nat
  js_uuid :: string
  js_sealed :: bool

record ('sk, 'vk) journal_deps =
  jd_blake3 :: "byte list \<Rightarrow> digest"
  jd_to_vec :: "journal_record \<Rightarrow> byte list option"
  jd_from_slice :: "byte list \<Rightarrow> journal_record option"
  jd_hex_encode :: "byte list \<Rightarrow> string"
  jd_hex_decode :: "string \<Rightarrow> byte list option"
  jd_sign :: "'sk \<Rightarrow> byte list \<Rightarrow> signature"
  jd_vk_from_bytes :: "byte list \<Rightarrow> 'vk option"
  jd_verify :: "'vk \<Rightarrow> byte list \<Rightarrow> byte list \<Rightarrow> bool"

definition journal_magic :: "byte list" where
  "journal_magic = [0x44, 0x43, 0x4A, 0x31]"

definition journal_max_record_bytes :: nat where
  "journal_max_record_bytes = 8 * 1024 * 1024"

definition journal_max_file_bytes :: nat where
  "journal_max_file_bytes = 64 * 1024 * 1024"

definition journal_seed :: "('sk, 'vk, 'z) journal_deps_scheme \<Rightarrow> digest" where
  "journal_seed d = jd_blake3 d journal_magic"

section \<open>Writer\<close>

record 'sk journal_writer =
  jw_file :: "byte list"
  jw_prev_hash :: digest
  jw_record_count :: nat
  jw_signing_key :: "'sk option"
  jw_uuid :: string
  jw_sealed :: bool

text \<open>
  \<open>create_new\<close> refuses an existing file; \<open>locked\<close> says that another process holds the lock.
\<close>

definition create_new ::
  "('sk, 'vk) journal_deps \<Rightarrow> byte list option \<Rightarrow> bool \<Rightarrow> string \<Rightarrow> 'sk option \<Rightarrow>
   dc_error + 'sk journal_writer" where
  "create_new d existing locked uuid signing_key =
     (if existing \<noteq> None then Inl StdIo
      else if locked then Inl (JournalCorrupt 0 LockFailed)
      else Inr \<lparr>jw_file = journal_magic, jw_prev_hash = journal_seed d, jw_record_count = 0,
             jw_signing_key = signing_key, jw_uuid = uuid, jw_sealed = signing_key \<noteq> None\<rparr>)"

text \<open>\<open>File::set_len\<close>: cut, or extend with zero bytes.\<close>

definition set_len :: "nat \<Rightarrow> byte list \<Rightarrow> byte list" where
  "set_len n file = take n file @ replicate (n - length file) 0"

text \<open>
  Resume: the bytes past the verified prefix move to the \<open>.tailsave\<close> file, behind a length
  prefix, and the journal is cut. File and tail-save contents come back with the result, for
  they have changed even when the chain head is then refused.
\<close>

definition save_tail :: "nat option \<Rightarrow> byte list \<times> byte list \<Rightarrow> byte list \<times> byte list" where
  "save_tail truncate_offset fs =
     (case fs of (file, tailsave) \<Rightarrow>
        (case truncate_offset of
           None \<Rightarrow> (file, tailsave)
         | Some trunc_len \<Rightarrow>
             (set_len trunc_len file,
              if length file > trunc_len
              then (let tail_bytes = drop trunc_len file
                    in tailsave @ u32_le (word_of_nat (length tail_bytes)) @ tail_bytes)
              else tailsave)))"

definition open_for_resume ::
  "('sk, 'vk) journal_deps \<Rightarrow> byte list \<times> byte list \<Rightarrow> bool \<Rightarrow> string \<Rightarrow> nat \<Rightarrow> nat option \<Rightarrow>
   string \<Rightarrow> bool \<Rightarrow> 'sk option \<Rightarrow> (byte list \<times> byte list) \<times> (dc_error + 'sk journal_writer)" where
  "open_for_resume d fs locked chain_head_hex record_count truncate_offset uuid sealed signing_key =
     (if sealed \<and> signing_key = None then (fs, Inl (JournalCorrupt record_count SealedWithoutKey))
      else if locked then (fs, Inl (JournalCorrupt record_count LockFailed))
      else
        (let fs' = save_tail truncate_offset fs
         in (fs', case jd_hex_decode d chain_head_hex of
                    None \<Rightarrow> Inl (JournalCorrupt record_count InvalidHeadHex)
                  | Some hash_bytes \<Rightarrow>
                      if length hash_bytes \<noteq> 32
                      then Inl (JournalCorrupt record_count InvalidHeadLength)
                      else Inr \<lparr>jw_file = fst fs', jw_prev_hash = of_le_bytes hash_bytes,
                             jw_record_count = record_count, jw_signing_key = signing_key,
                             jw_uuid = uuid, jw_sealed = sealed\<rparr>)))"

text \<open>One appended record on disk: length prefix, body, link, and the signature of a sealed journal.\<close>

definition raw_frame :: "(byte list \<Rightarrow> digest) \<Rightarrow> digest \<Rightarrow> byte list \<times> byte list \<Rightarrow> byte list" where
  "raw_frame H h e = (case e of (raw, sg) \<Rightarrow>
     u32_le (word_of_nat (length raw)) @ raw @ digest_bytes (chain_link H raw h) @ sg)"

definition signature_suffix ::
  "('sk, 'vk) journal_deps \<Rightarrow> 'sk option \<Rightarrow> digest \<Rightarrow> byte list \<Rightarrow> byte list" where
  "signature_suffix d key h raw =
     (case key of None \<Rightarrow> [] | Some sk \<Rightarrow> sig_bytes (jd_sign d sk (raw @ digest_bytes h)))"

definition append_record ::
  "('sk, 'vk) journal_deps \<Rightarrow> nat option \<Rightarrow> 'sk journal_writer \<Rightarrow> journal_record \<Rightarrow>
   'sk journal_writer \<times> (dc_error + string)" where
  "append_record d fault w r =
     (case jd_to_vec d r of
        None \<Rightarrow> (w, Inl Json)
      | Some record_bytes \<Rightarrow>
          (let prev = jw_prev_hash w;
               record_hash = chain_link (jd_blake3 d) record_bytes prev;
               frame = raw_frame (jd_blake3 d) prev
                 (record_bytes, signature_suffix d (jw_signing_key w) prev record_bytes)
           in case fault of
                Some n \<Rightarrow> (w\<lparr>jw_file := jw_file w @ take n frame\<rparr>, Inl StdIo)
              | None \<Rightarrow>
                  (w\<lparr>jw_file := jw_file w @ frame, jw_prev_hash := record_hash,
                     jw_record_count := jw_record_count w + 1\<rparr>,
                   Inr (jd_hex_encode d (digest_bytes record_hash)))))"

definition current_chain_head :: "('sk, 'vk) journal_deps \<Rightarrow> 'sk journal_writer \<Rightarrow> string" where
  "current_chain_head d w = jd_hex_encode d (digest_bytes (jw_prev_hash w))"

definition writer_summary :: "('sk, 'vk) journal_deps \<Rightarrow> 'sk journal_writer \<Rightarrow> journal_summary" where
  "writer_summary d w =
     \<lparr>js_chain_head = current_chain_head d w, js_record_count = jw_record_count w,
      js_discarded_tail_bytes = 0, js_uuid = jw_uuid w, js_sealed = jw_sealed w\<rparr>"

section \<open>Reader\<close>

record 'vk read_state =
  rs_rest :: "byte list"
  rs_prev :: digest
  rs_records :: "journal_record list"
  rs_good :: nat
  rs_uuid :: string
  rs_sealed :: bool
  rs_vk :: "'vk option"

datatype 'vk read_iter = Stop nat | Next "'vk read_state"

text \<open>The operator key of a sealed header, or the reason it is unusable.\<close>

definition header_key :: "('sk, 'vk) journal_deps \<Rightarrow> journal_header \<Rightarrow> dc_error + 'vk" where
  "header_key d h =
     and_then (ok_or (JournalCorrupt 0 SealedMissingPubkey) (jh_operator_pubkey h)) (\<lambda>pk_hex.
     and_then (ok_or (JournalCorrupt 0 InvalidPubkeyHex) (jd_hex_decode d pk_hex)) (\<lambda>pk_bytes.
       if length pk_bytes \<noteq> 32 then Inl (JournalCorrupt 0 InvalidPubkeyLength)
       else ok_or (JournalCorrupt 0 InvalidPubkey) (jd_vk_from_bytes d pk_bytes)))"

definition inspect_header ::
  "('sk, 'vk) journal_deps \<Rightarrow> nat \<Rightarrow> journal_record \<Rightarrow> string \<times> bool \<times> 'vk option \<Rightarrow>
   dc_error + string \<times> bool \<times> 'vk option" where
  "inspect_header d idx r st =
     (if idx \<noteq> 0 then Inr st
      else case r of
        JHeader h \<Rightarrow>
          if jh_sealed h
          then and_then (header_key d h) (\<lambda>vk. Inr (jh_uuid h, True, Some vk))
          else Inr (jh_uuid h, False, snd (snd st))
      | _ \<Rightarrow> Inl (JournalCorrupt 0 FirstRecordNotHeader))"

definition check_signature ::
  "('sk, 'vk) journal_deps \<Rightarrow> nat \<Rightarrow> byte list \<Rightarrow> digest \<Rightarrow> bool \<Rightarrow> 'vk option \<Rightarrow> byte list \<Rightarrow>
   dc_error + byte list" where
  "check_signature d idx record_bytes prev sealed vk rest =
     (if \<not> sealed then Inr rest
      else case read_exact 64 rest of
        None \<Rightarrow> Inl (JournalCorrupt idx MissingSignature)
      | Some (sg, rest') \<Rightarrow>
          (case vk of
             None \<Rightarrow> Inl (JournalCorrupt idx SealedUnverifiable)
           | Some k \<Rightarrow>
               if jd_verify d k (record_bytes @ digest_bytes prev) sg then Inr rest'
               else Inl (JournalCorrupt idx InvalidSignature)))"

text \<open>One turn of the reader's loop; \<open>Stop n\<close> leaves it with \<open>n\<close> discarded tail bytes.\<close>

definition read_iter ::
  "('sk, 'vk) journal_deps \<Rightarrow> nat \<Rightarrow> 'vk read_state \<Rightarrow> dc_error + 'vk read_iter" where
  "read_iter d fsize s =
     (let pos = fsize - length (rs_rest s);
          discard = fsize - rs_good s;
          idx = length (rs_records s);
          prev = rs_prev s
      in if pos = fsize then Inr (Stop 0)
      else case read_exact 4 (rs_rest s) of
        None \<Rightarrow> Inr (Stop discard)
      | Some (len_buf, rest1) \<Rightarrow>
      let len = unat (of_u32_le len_buf)
      in if len = 0 then Inl (JournalCorrupt idx ZeroLenRecord)
      else if len > journal_max_record_bytes then Inl (JournalCorrupt idx (RecordTooLarge len))
      else if pos + (if rs_sealed s then 4 + 32 + 64 else 4 + 32) + len > fsize
           then Inr (Stop discard)
      else case read_exact len rest1 of
        None \<Rightarrow> Inr (Stop discard)
      | Some (record_bytes, rest2) \<Rightarrow>
      case read_exact 32 rest2 of
        None \<Rightarrow> Inr (Stop discard)
      | Some (hash_bytes, rest3) \<Rightarrow>
      let expected = chain_link (jd_blake3 d) record_bytes prev
      in if hash_bytes \<noteq> digest_bytes expected then Inl (JournalCorrupt idx ChainMismatch)
      else case jd_from_slice d record_bytes of
        None \<Rightarrow> Inl (JournalCorrupt idx JsonParse)
      | Some r \<Rightarrow>
      and_then (inspect_header d idx r (rs_uuid s, rs_sealed s, rs_vk s)) (\<lambda>(uuid, sealed, vk).
      and_then (check_signature d idx record_bytes prev sealed vk rest3) (\<lambda>rest4.
        Inr (Next \<lparr>rs_rest = rest4, rs_prev = expected, rs_records = rs_records s @ [r],
          rs_good = fsize - length rest4, rs_uuid = uuid, rs_sealed = sealed, rs_vk = vk\<rparr>))))"

lemma read_iter_shorter:
  assumes "read_iter d fsize s = Inr (Next s')"
  shows "length (rs_rest s') < length (rs_rest s)"
  using assms
  by (auto simp: read_iter_def Let_def check_signature_def res dest!: read_exact_length
      split: if_splits option.splits prod.splits)

function read_loop ::
  "('sk, 'vk) journal_deps \<Rightarrow> nat \<Rightarrow> 'vk read_state \<Rightarrow> dc_error + 'vk read_state \<times> nat" where
  "read_loop d fsize s =
     (case read_iter d fsize s of
        Inl e \<Rightarrow> Inl e
      | Inr (Stop n) \<Rightarrow> Inr (s, n)
      | Inr (Next s') \<Rightarrow> read_loop d fsize s')"
  by pat_completeness auto
termination
  by (relation "measure (\<lambda>(_, _, s). length (rs_rest s))") (auto dest: read_iter_shorter)

declare read_loop.simps [simp del]

definition initial_read_state :: "('sk, 'vk) journal_deps \<Rightarrow> byte list \<Rightarrow> 'vk read_state" where
  "initial_read_state d rest =
     \<lparr>rs_rest = rest, rs_prev = journal_seed d, rs_records = [], rs_good = 4, rs_uuid = [],
      rs_sealed = False, rs_vk = None\<rparr>"

text \<open>The check of the discarded tail after the loop.\<close>

definition check_tail :: "byte list \<Rightarrow> nat \<Rightarrow> nat \<Rightarrow> nat \<Rightarrow> dc_error + unit" where
  "check_tail contents good idx discarded =
     (if discarded > 0 \<and> (let tail = drop good contents
            in length tail \<ge> 4 \<and> list_all (\<lambda>b. b = 0) tail)
      then Inl (JournalCorrupt idx (JournalZeroTail discarded)) else Inr ())"

definition read_and_verify_chain ::
  "('sk, 'vk) journal_deps \<Rightarrow> bool \<Rightarrow> byte list option \<Rightarrow>
   dc_error + journal_record list \<times> journal_summary" where
  "read_and_verify_chain d regular file =
     (case file of
        None \<Rightarrow> Inl StdIo
      | Some contents \<Rightarrow>
      if \<not> regular then Inl (Usage NotRegularFile)
      else if length contents > journal_max_file_bytes then Inl (JournalCorrupt 0 FileTooLarge)
      else case read_exact 4 contents of
        None \<Rightarrow> Inl (JournalCorrupt 0 MagicUnreadable)
      | Some (magic, rest) \<Rightarrow>
      if magic \<noteq> journal_magic then Inl (JournalCorrupt 0 InvalidMagic)
      else and_then (read_loop d (length contents) (initial_read_state d rest)) (\<lambda>(s, discarded).
           and_then (check_tail contents (rs_good s) (length (rs_records s)) discarded) (\<lambda>_.
             Inr (rs_records s,
               \<lparr>js_chain_head = jd_hex_encode d (digest_bytes (rs_prev s)),
                js_record_count = length (rs_records s), js_discarded_tail_bytes = discarded,
                js_uuid = rs_uuid s, js_sealed = rs_sealed s\<rparr>))))"

end
