(* ===== verification/Journal_Chain.thy ===== *)
theory Journal_Chain
  imports Journal
begin

text \<open>
  What the \<open>DCJ1\<close> reader guarantees. An abstract journal is a list of entries (body, signature
  bytes); \<open>frames\<close> is its encoding. The reader is related to it in both directions: whatever it
  accepts is the encoding of a well-linked, and if sealed well-signed, journal followed by the
  discarded tail; and it reads back what the writer wrote, cut anywhere.
\<close>

type_synonym entry = "byte list \<times> byte list"

primrec frames :: "(byte list \<Rightarrow> digest) \<Rightarrow> digest \<Rightarrow> entry list \<Rightarrow> byte list" where
  "frames H h [] = []"
| "frames H h (e # es) = raw_frame H h e @ frames H (chain_link H (fst e) h) es"

primrec all_signed :: "('sk, 'vk) journal_deps \<Rightarrow> 'vk \<Rightarrow> digest \<Rightarrow> entry list \<Rightarrow> bool" where
  "all_signed d vk h [] \<longleftrightarrow> True"
| "all_signed d vk h (e # es) \<longleftrightarrow>
     length (snd e) = 64 \<and> jd_verify d vk (fst e @ digest_bytes h) (snd e) \<and>
     all_signed d vk (chain_link (jd_blake3 d) (fst e) h) es"

lemma frames_append [simp]:
  "frames H h (es @ es') = frames H h es @ frames H (chain_from H h (map fst es)) es'"
  by (induction es arbitrary: h) simp_all

lemma all_signed_append [simp]:
  "all_signed d vk h (es @ es') \<longleftrightarrow>
     all_signed d vk h es \<and> all_signed d vk (chain_from (jd_blake3 d) h (map fst es)) es'"
  by (induction es arbitrary: h) auto

lemma length_raw_frame [simp]: "length (raw_frame H h e) = 36 + length (fst e) + length (snd e)"
  by (simp add: raw_frame_def split: prod.splits)

section \<open>Soundness of the reader\<close>

text \<open>
  What the reader knows of the header: nothing before record 0, then its fields, and the
  operator key when it is sealed.
\<close>

definition header_view ::
  "('sk, 'vk) journal_deps \<Rightarrow> journal_record list \<Rightarrow> string \<Rightarrow> bool \<Rightarrow> 'vk option \<Rightarrow> bool" where
  "header_view d rs uuid sealed vk \<longleftrightarrow>
     (case rs of
        [] \<Rightarrow> uuid = [] \<and> \<not> sealed \<and> vk = None
      | r # _ \<Rightarrow> (\<exists>h. r = JHeader h \<and> uuid = jh_uuid h \<and> sealed = jh_sealed h \<and>
           (if sealed then \<exists>k. vk = Some k \<and> header_key d h = Inr k else vk = None)))"

definition entries_ok ::
  "('sk, 'vk) journal_deps \<Rightarrow> bool \<Rightarrow> 'vk option \<Rightarrow> entry list \<Rightarrow> bool" where
  "entries_ok d sealed vk es \<longleftrightarrow>
     (if sealed then (\<exists>k. vk = Some k \<and> all_signed d k (journal_seed d) es)
      else (\<forall>e \<in> set es. snd e = []))"

definition parsed ::
  "('sk, 'vk) journal_deps \<Rightarrow> byte list \<Rightarrow> 'vk read_state \<Rightarrow> entry list \<Rightarrow> bool" where
  "parsed d contents s es \<longleftrightarrow>
     contents = journal_magic @ frames (jd_blake3 d) (journal_seed d) es @ rs_rest s \<and>
     rs_good s = length contents - length (rs_rest s) \<and>
     map (jd_from_slice d \<circ> fst) es = map Some (rs_records s) \<and>
     rs_prev s = chain_from (jd_blake3 d) (journal_seed d) (map fst es) \<and>
     header_view d (rs_records s) (rs_uuid s) (rs_sealed s) (rs_vk s) \<and>
     entries_ok d (rs_sealed s) (rs_vk s) es"

lemma check_signature_Inr:
  "check_signature d idx raw h sealed vk rest = Inr rest' \<longleftrightarrow>
     (if sealed then \<exists>k sg. vk = Some k \<and> rest = sg @ rest' \<and> length sg = 64 \<and>
         jd_verify d k (raw @ digest_bytes h) sg
      else rest' = rest)"
  by (auto simp: check_signature_def read_exact_Some read_exact_None split: option.splits)

lemma inspect_header_view:
  assumes "header_view d rs uuid sealed vk"
    and "inspect_header d (length rs) r (uuid, sealed, vk) = Inr (uuid', sealed', vk')"
  shows "header_view d (rs @ [r]) uuid' sealed' vk' \<and>
    (rs \<noteq> [] \<longrightarrow> sealed' = sealed \<and> vk' = vk)"
proof (cases rs)
  case Nil
  then show ?thesis
    using assms by (auto simp: header_view_def inspect_header_def res split: journal_record.splits if_splits)
next
  case (Cons r0 rs')
  then show ?thesis
    using assms by (auto simp: header_view_def inspect_header_def)
qed

lemma read_iter_Next:
  assumes "read_iter d fsize s = Inr (Next s')"
  obtains raw r sg where
    "rs_rest s = raw_frame (jd_blake3 d) (rs_prev s) (raw, sg) @ rs_rest s'"
    "jd_from_slice d raw = Some r"
    "rs_records s' = rs_records s @ [r]"
    "rs_prev s' = chain_link (jd_blake3 d) raw (rs_prev s)"
    "rs_good s' = fsize - length (rs_rest s')"
    "inspect_header d (length (rs_records s)) r (rs_uuid s, rs_sealed s, rs_vk s) =
       Inr (rs_uuid s', rs_sealed s', rs_vk s')"
    "if rs_sealed s' then \<exists>k. rs_vk s' = Some k \<and> length sg = 64 \<and>
       jd_verify d k (raw @ digest_bytes (rs_prev s)) sg else sg = []"
proof -
  let ?prev = "rs_prev s"
  obtain len_buf raw r rest3 where rest: "rs_rest s = len_buf @ raw @
        digest_bytes (chain_link (jd_blake3 d) raw ?prev) @ rest3"
    and len: "length len_buf = 4" "length raw = unat (of_u32_le len_buf)"
    and r: "jd_from_slice d raw = Some r"
    and sg: "and_then (inspect_header d (length (rs_records s)) r (rs_uuid s, rs_sealed s, rs_vk s))
       (\<lambda>(uuid, sealed, vk).
         and_then (check_signature d (length (rs_records s)) raw ?prev sealed vk rest3) (\<lambda>rest4.
           Inr (Next \<lparr>rs_rest = rest4, rs_prev = chain_link (jd_blake3 d) raw ?prev,
             rs_records = rs_records s @ [r], rs_good = fsize - length rest4, rs_uuid = uuid,
             rs_sealed = sealed, rs_vk = vk\<rparr>))) = Inr (Next s')"
    using assms unfolding read_iter_def Let_def
    by (auto simp: read_exact_Some split: if_splits option.splits)
  from len have "len_buf = u32_le (word_of_nat (length raw))"
    by simp
  with rest have frame: "rs_rest s = raw_frame (jd_blake3 d) ?prev (raw, []) @ rest3"
    by (simp add: raw_frame_def)
  from sg show ?thesis
    by (auto simp: res check_signature_Inr frame raw_frame_def r split: if_splits
        intro!: that [of raw _ r])
qed

lemma parsed_Next:
  assumes "parsed d contents s es" and "read_iter d (length contents) s = Inr (Next s')"
  shows "\<exists>e. parsed d contents s' (es @ [e])"
  using assms(2)
proof (rule read_iter_Next)
  fix raw r sg
  assume rest: "rs_rest s = raw_frame (jd_blake3 d) (rs_prev s) (raw, sg) @ rs_rest s'"
    and r: "jd_from_slice d raw = Some r"
    and recs: "rs_records s' = rs_records s @ [r]"
    and prev: "rs_prev s' = chain_link (jd_blake3 d) raw (rs_prev s)"
    and good: "rs_good s' = length contents - length (rs_rest s')"
    and ins: "inspect_header d (length (rs_records s)) r (rs_uuid s, rs_sealed s, rs_vk s) =
       Inr (rs_uuid s', rs_sealed s', rs_vk s')"
    and sg: "if rs_sealed s' then \<exists>k. rs_vk s' = Some k \<and> length sg = 64 \<and>
       jd_verify d k (raw @ digest_bytes (rs_prev s)) sg else sg = []"
  have view: "header_view d (rs_records s) (rs_uuid s) (rs_sealed s) (rs_vk s)"
    and ok: "entries_ok d (rs_sealed s) (rs_vk s) es" and "length es = length (rs_records s)"
    using assms(1) by (auto simp: parsed_def dest: map_eq_imp_length_eq)
  note view' = inspect_header_view [OF view ins]
  have "entries_ok d (rs_sealed s') (rs_vk s') (es @ [(raw, sg)])"
  proof (cases "rs_records s = []")
    case True
    then have "es = []" using \<open>length es = length (rs_records s)\<close> by simp
    with True sg show ?thesis using assms(1) by (auto simp: entries_ok_def parsed_def)
  next
    case False
    with view' ok sg show ?thesis using assms(1) by (auto simp: entries_ok_def parsed_def)
  qed
  with view' have "parsed d contents s' (es @ [(raw, sg)])"
    using assms(1) by (simp add: parsed_def rest r recs prev good)
  then show ?thesis ..
qed

lemma read_loop_parsed:
  assumes "read_loop d fsize s = Inr (s', n)" and "parsed d contents s es" and "fsize = length contents"
  shows "\<exists>es'. parsed d contents s' es' \<and> n = length (rs_rest s')"
  using assms
proof (induction d fsize s arbitrary: es rule: read_loop.induct)
  case (1 d fsize s)
  show ?case
  proof (cases "read_iter d fsize s")
    case (Inr i)
    show ?thesis
    proof (cases i)
      case (Stop m)
      with Inr 1(2) have "s' = s" "n = m" by (simp_all add: read_loop.simps)
      moreover have "m = length (rs_rest s)"
        using Inr 1(3,4) unfolding Stop read_iter_def Let_def parsed_def
        by (auto simp: res split: if_splits option.splits)
      ultimately show ?thesis using 1(3) by auto
    next
      case (Next t)
      with Inr 1 parsed_Next [of d contents s es t] show ?thesis
        by (auto simp: read_loop.simps [of d _ s])
    qed
  qed (use 1(2) in \<open>simp add: read_loop.simps\<close>)
qed

lemma parsed_initial: "parsed d (journal_magic @ rest) (initial_read_state d rest) []"
  by (simp add: parsed_def initial_read_state_def header_view_def entries_ok_def journal_magic_def)

text \<open>What an accepted journal is.\<close>

lemma read_sound:
  assumes "read_and_verify_chain d True (Some contents) = Inr (rs, sm)"
  obtains es tail vk where
    "contents = journal_magic @ frames (jd_blake3 d) (journal_seed d) es @ tail"
    "js_discarded_tail_bytes sm = length tail"
    "map (jd_from_slice d \<circ> fst) es = map Some rs"
    "js_chain_head sm = jd_hex_encode d (digest_bytes
       (chain_from (jd_blake3 d) (journal_seed d) (map fst es)))"
    "js_record_count sm = length rs"
    "header_view d rs (js_uuid sm) (js_sealed sm) vk"
    "entries_ok d (js_sealed sm) vk es"
proof -
  obtain rest s n where contents: "contents = journal_magic @ rest"
    and loop: "read_loop d (length contents) (initial_read_state d rest) = Inr (s, n)"
    and rs: "rs = rs_records s"
    and sm: "sm = \<lparr>js_chain_head = jd_hex_encode d (digest_bytes (rs_prev s)),
                js_record_count = length (rs_records s), js_discarded_tail_bytes = n,
                js_uuid = rs_uuid s, js_sealed = rs_sealed s\<rparr>"
    using assms unfolding read_and_verify_chain_def
    by (auto simp: res read_exact_Some split: if_splits option.splits)
  obtain es where "parsed d contents s es" and "n = length (rs_rest s)"
    using read_loop_parsed [OF loop, of contents "[]"] parsed_initial [of d rest]
    unfolding contents by blast
  then show ?thesis
    by (intro that [of es "rs_rest s" "rs_vk s"]) (auto simp: parsed_def rs sm)
qed

section \<open>Tamper evidence\<close>

interpretation journal_chain: hash_chain H link_input journal_magic for H
  by unfold_locales (erule link_input_inject, rule link_input_long, simp add: journal_magic_def)

text \<open>The record bodies of a journal file, and the inputs hashed to verify it.\<close>

definition journal_inputs :: "('sk, 'vk) journal_deps \<Rightarrow> entry list \<Rightarrow> byte list list" where
  "journal_inputs d es = hashed_inputs (jd_blake3 d) journal_magic (map fst es)"

lemma same_head_same_bodies:
  assumes "chain_from (jd_blake3 d) (journal_seed d) (map fst es) =
      chain_from (jd_blake3 d) (journal_seed d) (map fst es')"
    and "\<not> collide (jd_blake3 d) (journal_inputs d es) (journal_inputs d es')"
  shows "map fst es = map fst es'"
  using journal_chain.head_determines_records [of "jd_blake3 d" "map fst es" "map fst es'"] assms
  by (simp add: journal_inputs_def hashed_inputs_def chain_from_head journal_seed_def)

text \<open>C11: Two journal files, whatever bytes they hold, that the reader accepts with the same chain
  head carry the same records, unless two of the inputs hashed while reading them are a collision
  of BLAKE3 (which the files then exhibit).\<close>

theorem journal_tamper_evidence:
  assumes hex: "\<And>b. jd_hex_decode d (jd_hex_encode d b) = Some b"
    and "read_and_verify_chain d True (Some c) = Inr (rs, sm)"
    and "read_and_verify_chain d True (Some c') = Inr (rs', sm')"
    and "js_chain_head sm = js_chain_head sm'"
  shows "\<exists>es es' tail tail'.
    c = journal_magic @ frames (jd_blake3 d) (journal_seed d) es @ tail \<and>
    c' = journal_magic @ frames (jd_blake3 d) (journal_seed d) es' @ tail' \<and>
    map (jd_from_slice d \<circ> fst) es = map Some rs \<and>
    map (jd_from_slice d \<circ> fst) es' = map Some rs' \<and>
    (rs = rs' \<or> collide (jd_blake3 d) (journal_inputs d es) (journal_inputs d es'))"
proof -
  let ?head = "\<lambda>es. chain_from (jd_blake3 d) (journal_seed d) (map fst es)"
  obtain es tail where c: "c = journal_magic @ frames (jd_blake3 d) (journal_seed d) es @ tail"
    and rs: "map (jd_from_slice d \<circ> fst) es = map Some rs"
    and head: "js_chain_head sm = jd_hex_encode d (digest_bytes (?head es))"
    using assms(2) by (rule read_sound)
  obtain es' tail' where c': "c' = journal_magic @ frames (jd_blake3 d) (journal_seed d) es' @ tail'"
    and rs': "map (jd_from_slice d \<circ> fst) es' = map Some rs'"
    and head': "js_chain_head sm' = jd_hex_encode d (digest_bytes (?head es'))"
    using assms(3) by (rule read_sound)
  have "digest_bytes (?head es) = digest_bytes (?head es')"
    using assms(4) hex unfolding head head' by (metis option.inject)
  then have "?head es = ?head es'" by simp
  then have "rs = rs' \<or> collide (jd_blake3 d) (journal_inputs d es) (journal_inputs d es')"
  proof (cases "collide (jd_blake3 d) (journal_inputs d es) (journal_inputs d es')")
    case False
    with \<open>?head es = ?head es'\<close> have "map fst es = map fst es'" by (rule same_head_same_bodies)
    then have "map Some rs = map Some rs'" using rs rs' by (metis map_map)
    then show ?thesis by (simp add: inj_map_eq_map)
  qed simp
  with c c' rs rs' show ?thesis by blast
qed

text \<open>C27: A journal accepted as sealed starts with a sealed header whose operator key is valid, and
  every one of its records carries a signature over its body and the preceding chain head that
  verifies under that key: no record of it is unsigned.\<close>

theorem sealed_journal_is_signed:
  assumes "read_and_verify_chain d True (Some c) = Inr (rs, sm)" and "js_sealed sm"
  shows "\<exists>h rs' vk es tail. rs = JHeader h # rs' \<and> jh_sealed h \<and> header_key d h = Inr vk \<and>
    c = journal_magic @ frames (jd_blake3 d) (journal_seed d) es @ tail \<and>
    map (jd_from_slice d \<circ> fst) es = map Some rs \<and> all_signed d vk (journal_seed d) es"
  using assms(1)
proof (rule read_sound)
  fix es tail vk
  assume c: "c = journal_magic @ frames (jd_blake3 d) (journal_seed d) es @ tail"
    and rs: "map (jd_from_slice d \<circ> fst) es = map Some rs"
    and view: "header_view d rs (js_uuid sm) (js_sealed sm) vk"
    and ok: "entries_ok d (js_sealed sm) vk es"
  from view assms(2) obtain h rs' k where "rs = JHeader h # rs'" "jh_sealed h" "vk = Some k"
    "header_key d h = Inr k"
    by (auto simp: header_view_def split: list.splits)
  with c rs ok assms(2) show ?thesis
    by (auto simp: entries_ok_def)
qed

section \<open>The zero tail\<close>

lemma read_iter_Stop:
  assumes "read_iter d fsize s = Inr (Stop n)" and "n > 0" and "length (rs_rest s) \<le> fsize"
  shows "\<not> (length (rs_rest s) \<ge> 4 \<and> list_all (\<lambda>b. b = 0) (rs_rest s))"
proof
  assume zero: "length (rs_rest s) \<ge> 4 \<and> list_all (\<lambda>b. b = 0) (rs_rest s)"
  then obtain rest where rest: "rs_rest s = [0, 0, 0, 0] @ rest"
    by (auto simp: numeral_eq_Suc Suc_le_length_iff)
  then have "read_exact 4 (rs_rest s) = Some ([0, 0, 0, 0], rest)"
    by (simp add: read_exact_def)
  moreover have "unat (of_u32_le [0, 0, 0, 0]) = 0" by (simp add: of_u32_le_def)
  ultimately show False
    using assms unfolding read_iter_def Let_def by (simp split: if_splits)
qed

lemma read_iter_error:
  "read_iter d fsize s = Inl e \<Longrightarrow> e \<noteq> JournalCorrupt i (JournalZeroTail n)"
  by (auto simp: read_iter_def Let_def res check_signature_def inspect_header_def header_key_def ok_or_def
      split: if_splits option.splits journal_record.splits)

lemma read_loop_error:
  "read_loop d fsize s = Inl e \<Longrightarrow> e \<noteq> JournalCorrupt i (JournalZeroTail n)"
proof (induction d fsize s rule: read_loop.induct)
  case (1 d fsize s)
  then show ?case
    by (auto simp: read_loop.simps [of d fsize s] dest: read_iter_error
        split: sum.splits read_iter.splits)
qed

lemma read_loop_tail_ok:
  assumes "read_loop d (length contents) s = Inr (s', n)" and "parsed d contents s es"
  shows "check_tail contents (rs_good s') i n = Inr ()"
  using assms
proof (induction d "length contents" s arbitrary: es rule: read_loop.induct)
  case (1 d s)
  show ?case
  proof (cases "read_iter d (length contents) s")
    case (Inr it)
    show ?thesis
    proof (cases it)
      case (Stop m)
      with Inr 1(2) have "s' = s" "n = m" by (simp_all add: read_loop.simps)
      moreover have "drop (rs_good s) contents = rs_rest s" "length (rs_rest s) \<le> length contents"
        using 1(3) by (auto simp: parsed_def)
      ultimately show ?thesis
        using read_iter_Stop [OF Inr [unfolded Stop]] by (auto simp: check_tail_def)
    next
      case (Next t)
      with Inr 1 parsed_Next [of d contents s es t] show ?thesis
        by (auto simp: read_loop.simps [of d _ s])
    qed
  qed (use 1(2) in \<open>simp add: read_loop.simps\<close>)
qed

text \<open>The reader never reports a zero tail: a tail of four or more zero bytes is already refused
  as a record of length zero, so the power-loss diagnosis after the loop is dead code.\<close>

theorem zero_tail_unreachable:
  "read_and_verify_chain d regular file \<noteq> Inl (JournalCorrupt i (JournalZeroTail n))"
proof
  assume zero: "read_and_verify_chain d regular file = Inl (JournalCorrupt i (JournalZeroTail n))"
  obtain contents rest where some: "file = Some contents" "contents = journal_magic @ rest"
    and "\<And>s m. read_loop d (length contents) (initial_read_state d rest) = Inr (s, m) \<Longrightarrow>
      check_tail contents (rs_good s) (length (rs_records s)) m \<noteq> Inr ()"
    using zero unfolding read_and_verify_chain_def
    by (auto simp: res read_exact_Some dest: read_loop_error split: if_splits option.splits)
  then show False
    using read_loop_tail_ok [of d contents "initial_read_state d rest"] parsed_initial [of d rest] zero
    by (cases "read_loop d (length contents) (initial_read_state d rest)")
      (auto simp: read_and_verify_chain_def res read_exact_Some dest: read_loop_error split: if_splits option.splits)
qed

end
