(* ===== verification/Journal_Recovery.thy ===== *)
theory Journal_Recovery
  imports Journal_Chain
begin

text \<open>
  Crash recovery of the \<open>DCJ1\<close> journal: what the reader makes of the writer's own file when it
  is cut at an arbitrary byte, and what resuming from there produces.
\<close>

section \<open>The file a writer produces\<close>

definition body :: "('sk, 'vk) journal_deps \<Rightarrow> journal_record \<Rightarrow> byte list" where
  "body d r = the (jd_to_vec d r)"

text \<open>A record the format can carry: it serialises, is read back as itself, and fits the cap.\<close>

definition writable :: "('sk, 'vk) journal_deps \<Rightarrow> journal_record \<Rightarrow> bool" where
  "writable d r \<longleftrightarrow> (case jd_to_vec d r of
     None \<Rightarrow> False
   | Some b \<Rightarrow> jd_from_slice d b = Some r \<and> 0 < length b \<and> length b \<le> journal_max_record_bytes)"

lemma writable_body:
  "writable d r \<Longrightarrow> jd_to_vec d r = Some (body d r) \<and> jd_from_slice d (body d r) = Some r \<and>
     0 < length (body d r) \<and> length (body d r) \<le> journal_max_record_bytes"
  by (auto simp: writable_def body_def split: option.splits)

primrec signed_entries ::
  "('sk, 'vk) journal_deps \<Rightarrow> 'sk option \<Rightarrow> digest \<Rightarrow> byte list list \<Rightarrow> entry list" where
  "signed_entries d key h [] = []"
| "signed_entries d key h (raw # raws) =
     (raw, signature_suffix d key h raw) # signed_entries d key (chain_link (jd_blake3 d) raw h) raws"

lemma signed_entries_append [simp]:
  "signed_entries d key h (xs @ ys) =
     signed_entries d key h xs @ signed_entries d key (chain_from (jd_blake3 d) h xs) ys"
  by (induction xs arbitrary: h) simp_all

lemma map_fst_signed_entries [simp]: "map fst (signed_entries d key h raws) = raws"
  by (induction raws arbitrary: h) simp_all

definition head_after :: "('sk, 'vk) journal_deps \<Rightarrow> journal_record list \<Rightarrow> digest" where
  "head_after d rs = chain_from (jd_blake3 d) (journal_seed d) (map (body d) rs)"

definition record_frame ::
  "('sk, 'vk) journal_deps \<Rightarrow> 'sk option \<Rightarrow> journal_record list \<Rightarrow> journal_record \<Rightarrow> byte list" where
  "record_frame d key rs r = raw_frame (jd_blake3 d) (head_after d rs)
     (body d r, signature_suffix d key (head_after d rs) (body d r))"

definition journal_file ::
  "('sk, 'vk) journal_deps \<Rightarrow> 'sk option \<Rightarrow> journal_record list \<Rightarrow> byte list" where
  "journal_file d key rs = journal_magic @ frames (jd_blake3 d) (journal_seed d)
     (signed_entries d key (journal_seed d) (map (body d) rs))"

lemma journal_file_Nil [simp]: "journal_file d key [] = journal_magic"
  by (simp add: journal_file_def)

lemma journal_file_snoc: "journal_file d key (rs @ [r]) = journal_file d key rs @ record_frame d key rs r"
  by (simp add: journal_file_def record_frame_def head_after_def)

lemma head_after_snoc: "head_after d (rs @ [r]) = chain_link (jd_blake3 d) (body d r) (head_after d rs)"
  by (simp add: head_after_def)

lemma head_after_Nil [simp]: "head_after d [] = journal_seed d"
  by (simp add: head_after_def)

definition writer_after ::
  "('sk, 'vk) journal_deps \<Rightarrow> 'sk option \<Rightarrow> string \<Rightarrow> journal_record list \<Rightarrow> 'sk journal_writer" where
  "writer_after d key uuid rs =
     foldl (\<lambda>w r. fst (append_record d None w r))
       \<lparr>jw_file = journal_magic, jw_prev_hash = journal_seed d, jw_record_count = 0,
        jw_signing_key = key, jw_uuid = uuid, jw_sealed = key \<noteq> None\<rparr> rs"

lemma create_new_writer_after:
  "create_new d None False uuid key = Inr (writer_after d key uuid [])"
  by (simp add: create_new_def writer_after_def)

lemma writer_after_eq:
  "list_all (writable d) rs \<Longrightarrow> writer_after d key uuid rs =
     \<lparr>jw_file = journal_file d key rs, jw_prev_hash = head_after d rs,
      jw_record_count = length rs, jw_signing_key = key, jw_uuid = uuid, jw_sealed = key \<noteq> None\<rparr>"
proof (induction rs rule: rev_induct)
  case Nil
  then show ?case by (simp add: writer_after_def)
next
  case (snoc r rs)
  then have "writer_after d key uuid (rs @ [r]) =
      fst (append_record d None \<lparr>jw_file = journal_file d key rs, jw_prev_hash = head_after d rs,
        jw_record_count = length rs, jw_signing_key = key, jw_uuid = uuid, jw_sealed = key \<noteq> None\<rparr> r)"
    by (simp add: writer_after_def)
  with writable_body [of d r] snoc.prems show ?case
    by (simp add: append_record_def journal_file_snoc head_after_snoc record_frame_def Let_def)
qed

section \<open>Reading it back\<close>

text \<open>
  A journal the tool writes: its records are writable, the first is a header, sealed exactly when
  a key signs, and the key in the header is the verifying key of that signing key.
\<close>

definition key_matches :: "('sk, 'vk) journal_deps \<Rightarrow> 'sk option \<Rightarrow> journal_header \<Rightarrow> bool" where
  "key_matches d key h \<longleftrightarrow>
     (case key of
        None \<Rightarrow> \<not> jh_sealed h
      | Some sk \<Rightarrow> jh_sealed h \<and> (\<exists>vk. header_key d h = Inr vk \<and>
          (\<forall>m. jd_verify d vk m (sig_bytes (jd_sign d sk m)))))"

definition wf_journal :: "('sk, 'vk) journal_deps \<Rightarrow> 'sk option \<Rightarrow> journal_record list \<Rightarrow> bool" where
  "wf_journal d key rs \<longleftrightarrow> list_all (writable d) rs \<and>
     (case rs of [] \<Rightarrow> True | r # _ \<Rightarrow> (case r of JHeader h \<Rightarrow> key_matches d key h | _ \<Rightarrow> False))"

lemma wf_journal_appendD: "wf_journal d key (rs @ rs') \<Longrightarrow> wf_journal d key rs"
  by (cases rs) (auto simp: wf_journal_def)

fun header_fields :: "('sk, 'vk) journal_deps \<Rightarrow> journal_record list \<Rightarrow> string \<times> bool \<times> 'vk option" where
  "header_fields d (JHeader h # _) =
     (jh_uuid h, jh_sealed h,
      if jh_sealed h then (case header_key d h of Inl _ \<Rightarrow> None | Inr vk \<Rightarrow> Some vk) else None)"
| "header_fields d _ = ([], False, None)"

text \<open>The reader's state with the records \<open>rs\<close> behind it and the bytes \<open>rest\<close> ahead.\<close>

definition state_at ::
  "('sk, 'vk) journal_deps \<Rightarrow> nat \<Rightarrow> journal_record list \<Rightarrow> byte list \<Rightarrow> 'vk read_state" where
  "state_at d fsize rs rest =
     \<lparr>rs_rest = rest, rs_prev = head_after d rs, rs_records = rs, rs_good = fsize - length rest,
      rs_uuid = fst (header_fields d rs), rs_sealed = fst (snd (header_fields d rs)),
      rs_vk = snd (snd (header_fields d rs))\<rparr>"

lemma initial_state_at:
  "fsize = 4 + length rest \<Longrightarrow> initial_read_state d rest = state_at d fsize [] rest"
  by (simp add: initial_read_state_def state_at_def)

lemma signature_suffix_length: "length (signature_suffix d key h raw) = (if key = None then 0 else 64)"
  by (simp add: signature_suffix_def split: option.splits)

lemma wf_journal_sealed:
  assumes "wf_journal d key rs" and "rs \<noteq> []"
  shows "fst (snd (header_fields d rs)) \<longleftrightarrow> key \<noteq> None"
    and "key = Some sk \<Longrightarrow> \<exists>vk. snd (snd (header_fields d rs)) = Some vk \<and>
      (\<forall>m. jd_verify d vk m (sig_bytes (jd_sign d sk m)))"
  using assms by (cases rs; cases "hd rs"; auto simp: wf_journal_def key_matches_def split: option.splits)+

lemma wf_journal_inspect:
  assumes "wf_journal d key (rs @ [r])"
  shows "inspect_header d (length rs) r (header_fields d rs) = Inr (header_fields d (rs @ [r]))"
proof (cases rs)
  case Nil
  then show ?thesis
    using assms by (cases r) (auto simp: wf_journal_def inspect_header_def key_matches_def split: option.splits)
next
  case (Cons r0 rs')
  then show ?thesis
    using assms by (cases r0) (auto simp: inspect_header_def wf_journal_def)
qed

lemma unat_length_prefix:
  "length b \<le> journal_max_record_bytes \<Longrightarrow> unat (word_of_nat (length b) :: u32) = length b"
  by (rule unat_word_of_nat_u32) (simp add: journal_max_record_bytes_def)

lemma wf_journal_signature:
  assumes "wf_journal d key (rs @ [r])"
  shows "check_signature d i raw h (fst (snd (header_fields d (rs @ [r]))))
      (snd (snd (header_fields d (rs @ [r])))) (signature_suffix d key h raw @ rest) = Inr rest"
  using wf_journal_sealed [OF assms]
  by (cases key) (auto simp: check_signature_Inr signature_suffix_def)

lemma read_iter_frame:
  assumes wf: "wf_journal d key (rs @ [r])" and size: "length (record_frame d key rs r @ rest) < fsize"
  shows "read_iter d fsize (state_at d fsize rs (record_frame d key rs r @ rest)) =
    Inr (Next (state_at d fsize (rs @ [r]) rest))"
proof -
  have r: "writable d r" using wf by (auto simp: wf_journal_def)
  note b = writable_body [OF r]
  have "fst (snd (header_fields d rs)) \<longrightarrow> key \<noteq> None"
    using wf_journal_sealed(1) [OF wf_journal_appendD [OF wf]] by (cases "rs = []") auto
  then have fits: "\<not> fsize - length (record_frame d key rs r @ rest) +
      (if fst (snd (header_fields d rs)) then 4 + 32 + 64 else 4 + 32) + length (body d r) > fsize"
    using size by (auto simp: record_frame_def signature_suffix_length)
  have pos: "fsize - length (record_frame d key rs r @ rest) \<noteq> fsize"
    using size by (simp add: record_frame_def)
  show ?thesis
    using b fits pos
    by (simp add: read_iter_def state_at_def Let_def record_frame_def raw_frame_def
        unat_length_prefix wf_journal_inspect [OF wf] wf_journal_signature [OF wf]
        head_after_snoc case_prod_beta)
qed

text \<open>A strict prefix of a frame, short of the overhead the reader expects, ends the loop.\<close>

lemma read_iter_torn:
  assumes wf: "wf_journal d key (rs @ [r])"
    and m: "m < length (record_frame d key rs r)"
    and torn: "m < 36 + length (body d r) \<or> rs \<noteq> []"
    and size: "m < fsize"
  shows "read_iter d fsize (state_at d fsize rs (take m (record_frame d key rs r))) = Inr (Stop m)"
proof -
  let ?rest = "take m (record_frame d key rs r)"
  have r: "writable d r" using wf by (auto simp: wf_journal_def)
  note b = writable_body [OF r]
  have len: "length ?rest = m" using m by simp
  consider "m = 0" | "0 < m" "m < 4" | "4 \<le> m" by linarith
  then show ?thesis
  proof cases
    case 1
    then show ?thesis by (simp add: read_iter_def state_at_def)
  next
    case 2
    then have "read_exact 4 ?rest = None" using len by (simp add: read_exact_None)
    with 2 len size show ?thesis by (simp add: read_iter_def state_at_def Let_def)
  next
    case 3
    let ?suf = "take (m - 4) (body d r @ digest_bytes (chain_link (jd_blake3 d) (body d r) (head_after d rs))
        @ signature_suffix d key (head_after d rs) (body d r))"
    have rest: "?rest = u32_le (word_of_nat (length (body d r))) @ ?suf"
      using 3 by (simp add: record_frame_def raw_frame_def)
    have "read_exact 4 ?rest = Some (u32_le (word_of_nat (length (body d r))), ?suf)"
      unfolding rest by (rule read_exact_append) simp
    moreover have "fsize - m + (if fst (snd (header_fields d rs)) then 4 + 32 + 64 else 4 + 32) +
        length (body d r) > fsize"
    proof (cases "m < 36 + length (body d r)")
      case False
      with torn wf_journal_sealed(1) [OF wf_journal_appendD [OF wf]] m size show ?thesis
        by (auto simp: record_frame_def signature_suffix_length split: if_splits)
    qed (use size in auto)
    ultimately show ?thesis
      using b 3 len size
      by (simp add: read_iter_def state_at_def Let_def unat_length_prefix)
  qed
qed

lemma read_loop_records:
  assumes "wf_journal d key (rs @ rs')"
    and "journal_file d key (rs @ rs') = journal_file d key rs @ suf" and "length (suf @ tail) < fsize"
  shows "read_loop d fsize (state_at d fsize rs (suf @ tail)) = read_loop d fsize (state_at d fsize (rs @ rs') tail)"
  using assms
proof (induction rs' arbitrary: rs suf)
  case Nil
  then show ?case by simp
next
  case (Cons r rs')
  obtain suf' where suf': "journal_file d key ((rs @ [r]) @ rs') = journal_file d key (rs @ [r]) @ suf'"
    by (simp add: journal_file_def)
  then have suf: "suf = record_frame d key rs r @ suf'"
    using Cons.prems(2) by (simp add: journal_file_snoc)
  have wf: "wf_journal d key (rs @ [r])"
    using Cons.prems(1) wf_journal_appendD [of d key "rs @ [r]" rs'] by simp
  have "read_loop d fsize (state_at d fsize rs (suf @ tail)) =
      read_loop d fsize (state_at d fsize (rs @ [r]) (suf' @ tail))"
    using read_iter_frame [OF wf, of "suf' @ tail" fsize] Cons.prems(3)
    by (subst read_loop.simps) (simp add: suf)
  also have "\<dots> = read_loop d fsize (state_at d fsize ((rs @ [r]) @ rs') tail)"
    using Cons.prems(1,3) suf' suf by (intro Cons.IH) auto
  finally show ?case by simp
qed

section \<open>Cutting the file\<close>

text \<open>Every cut point past the magic falls within the frame that follows some number of whole ones.\<close>

lemma cut_point:
  assumes "4 \<le> n" and "n \<le> length (journal_file d key rs)"
  obtains k m where "k \<le> length rs" and "n = length (journal_file d key (take k rs)) + m"
    and "take n (journal_file d key rs) = journal_file d key (take k rs) @
        (if k < length rs then take m (record_frame d key (take k rs) (rs ! k)) else [])"
    and "if k < length rs then m < length (record_frame d key (take k rs) (rs ! k)) else m = 0"
  using assms
proof (induction rs arbitrary: thesis rule: rev_induct)
  case Nil
  then show ?case by (simp add: journal_magic_def)
next
  case (snoc r rs)
  show ?case
  proof (cases "n \<le> length (journal_file d key rs)")
    case True
    show ?thesis
    proof (cases "n = length (journal_file d key rs)")
      case True
      show ?thesis
        by (rule snoc.prems(1) [of "length rs" 0]) (simp_all add: True journal_file_snoc record_frame_def)
    next
      case False
      show ?thesis
      proof (rule snoc.IH [OF _ snoc.prems(2) True])
        fix k m
        assume k: "k \<le> length rs" "n = length (journal_file d key (take k rs)) + m"
          "take n (journal_file d key rs) = journal_file d key (take k rs) @
            (if k < length rs then take m (record_frame d key (take k rs) (rs ! k)) else [])"
          "if k < length rs then m < length (record_frame d key (take k rs) (rs ! k)) else m = 0"
        with False have "k < length rs" by (auto split: if_splits)
        with k True show ?thesis
          by (intro snoc.prems(1) [of k m]) (simp_all add: journal_file_snoc nth_append)
      qed
    qed
  next
    case False
    show ?thesis
    proof (cases "n = length (journal_file d key (rs @ [r]))")
      case True
      show ?thesis by (rule snoc.prems(1) [of "Suc (length rs)" 0]) (simp_all add: True)
    next
      case n: False
      then show ?thesis
        using False snoc.prems(3)
        by (intro snoc.prems(1) [of "length rs" "n - length (journal_file d key rs)"])
          (auto simp: journal_file_snoc)
    qed
  qed
qed

section \<open>Recovery\<close>

text \<open>
  The one cut the reader does not recover from: inside the signature of a sealed header, whose
  presence the reader only learns about after it has accepted the unsigned length.
\<close>

definition torn_sealed_header ::
  "('sk, 'vk) journal_deps \<Rightarrow> 'sk option \<Rightarrow> journal_record list \<Rightarrow> nat \<Rightarrow> bool" where
  "torn_sealed_header d key rs n \<longleftrightarrow> key \<noteq> None \<and> rs \<noteq> [] \<and> 40 + length (body d (hd rs)) \<le> n \<and>
     n < length (journal_file d key (take 1 rs))"

definition summary_at ::
  "('sk, 'vk) journal_deps \<Rightarrow> journal_record list \<Rightarrow> nat \<Rightarrow> journal_summary" where
  "summary_at d rs discarded =
     \<lparr>js_chain_head = jd_hex_encode d (digest_bytes (head_after d rs)),
      js_record_count = length rs, js_discarded_tail_bytes = discarded,
      js_uuid = fst (header_fields d rs), js_sealed = fst (snd (header_fields d rs))\<rparr>"

lemma read_split:
  assumes wf: "wf_journal d key rs"
    and loop: "read_loop d (length (journal_file d key rs @ tail))
        (state_at d (length (journal_file d key rs @ tail)) rs tail) = Inr (s, m)"
    and size: "length (journal_file d key rs @ tail) \<le> journal_max_file_bytes"
  shows "read_and_verify_chain d True (Some (journal_file d key rs @ tail)) = Inr (rs_records s,
      \<lparr>js_chain_head = jd_hex_encode d (digest_bytes (rs_prev s)),
       js_record_count = length (rs_records s), js_discarded_tail_bytes = m,
       js_uuid = rs_uuid s, js_sealed = rs_sealed s\<rparr>)"
proof -
  let ?c = "journal_file d key rs @ tail"
  obtain suf where suf: "journal_file d key rs = journal_magic @ suf"
    by (simp add: journal_file_def)
  have "read_loop d (length ?c) (initial_read_state d (suf @ tail)) = Inr (s, m)"
    using read_loop_records [of d key "[]" rs suf tail "length ?c"] wf loop
    by (simp add: suf initial_state_at [of "length ?c"] journal_magic_def)
  moreover from this have "check_tail ?c (rs_good s) i m = Inr ()" for i
    using read_loop_tail_ok [of d ?c] parsed_initial [of d "suf @ tail"] by (simp add: suf)
  moreover have "read_exact 4 ?c = Some (journal_magic, suf @ tail)"
    by (simp add: suf journal_magic_def read_exact_def)
  ultimately show ?thesis
    using size by (simp add: read_and_verify_chain_def)
qed

lemma read_cut:
  assumes wf: "wf_journal d key rs" and size: "length (journal_file d key rs) \<le> journal_max_file_bytes"
    and n: "4 \<le> n" "n \<le> length (journal_file d key rs)" and hdr: "\<not> torn_sealed_header d key rs n"
  obtains k where "k \<le> length rs"
    and "length (journal_file d key (take k rs)) \<le> n"
    and "k < length rs \<longrightarrow> n < length (journal_file d key (take (Suc k) rs))"
    and "take n (journal_file d key rs) =
      journal_file d key (take k rs) @ drop (length (journal_file d key (take k rs))) (take n (journal_file d key rs))"
    and "read_and_verify_chain d True (Some (take n (journal_file d key rs))) =
      Inr (take k rs, summary_at d (take k rs) (n - length (journal_file d key (take k rs))))"
  using n
proof (rule cut_point)
  fix k m
  assume k: "k \<le> length rs" and nm: "n = length (journal_file d key (take k rs)) + m"
    and cut: "take n (journal_file d key rs) = journal_file d key (take k rs) @
        (if k < length rs then take m (record_frame d key (take k rs) (rs ! k)) else [])"
    and m: "if k < length rs then m < length (record_frame d key (take k rs) (rs ! k)) else m = 0"
  let ?pre = "take k rs"
  let ?tail = "if k < length rs then take m (record_frame d key ?pre (rs ! k)) else []"
  let ?c = "journal_file d key ?pre @ ?tail"
  have wf': "wf_journal d key ?pre"
    using wf wf_journal_appendD [of d key ?pre "drop k rs"] by simp
  have len: "length ?c = n" using cut n by (metis length_take min.absorb2)
  have suc: "k < length rs \<Longrightarrow> take (Suc k) rs = ?pre @ [rs ! k]" by (rule take_Suc_conv_app_nth)
  have "read_iter d n (state_at d n ?pre ?tail) = Inr (Stop m)"
  proof (cases "k < length rs")
    case True
    have wf_k: "wf_journal d key (?pre @ [rs ! k])"
      using wf wf_journal_appendD [of d key "take (Suc k) rs" "drop (Suc k) rs"]
      unfolding suc [OF True, symmetric] append_take_drop_id by blast
    have "m < 36 + length (body d (rs ! k)) \<or> ?pre \<noteq> []"
    proof (cases "k = 0")
      case k0: True
      then have "n = 4 + m" and "hd rs = rs ! 0" and "take 1 rs = [] @ [rs ! 0]"
        using nm True suc by (auto simp: journal_magic_def hd_conv_nth)
      with hdr m True k0 show ?thesis
        by (auto simp: torn_sealed_header_def journal_file_snoc [of _ _ "[]", simplified] record_frame_def
            signature_suffix_length journal_magic_def split: if_splits)
    qed (use True in auto)
    with read_iter_torn [OF wf_k] m True nm n show ?thesis by (auto simp: journal_file_def journal_magic_def)
  next
    case False
    then show ?thesis using m by (simp add: read_iter_def state_at_def)
  qed
  then have loop: "read_loop d (length ?c) (state_at d (length ?c) ?pre ?tail) =
      Inr (state_at d (length ?c) ?pre ?tail, m)"
    unfolding len by (simp add: read_loop.simps)
  have "length ?c \<le> journal_max_file_bytes" unfolding len using size n by simp
  with wf' loop have "read_and_verify_chain d True (Some ?c) = Inr (?pre, summary_at d ?pre m)"
    unfolding summary_at_def by (subst read_split) (assumption | simp only: state_at_def read_state.simps)+
  then show ?thesis
    using k nm m cut suc by (intro that [of k]) (auto simp: journal_file_snoc)
qed

lemma read_whole:
  assumes wf: "wf_journal d key rs" and size: "length (journal_file d key rs) \<le> journal_max_file_bytes"
  shows "read_and_verify_chain d True (Some (journal_file d key rs)) = Inr (rs, summary_at d rs 0)"
proof -
  let ?n = "length (journal_file d key rs)"
  have pre: "length (journal_file d key (take k rs)) \<le> ?n" for k
  proof -
    have "journal_file d key rs = journal_file d key (take k rs @ drop k rs)" by simp
    then show ?thesis unfolding journal_file_def by (simp del: append_take_drop_id)
  qed
  then have torn: "\<not> torn_sealed_header d key rs ?n" by (simp add: torn_sealed_header_def not_less)
  show ?thesis
  proof (rule read_cut [OF wf size _ order_refl torn])
    fix k
    assume k: "k \<le> length rs" "k < length rs \<longrightarrow> ?n < length (journal_file d key (take (Suc k) rs))"
      and rd: "read_and_verify_chain d True (Some (take ?n (journal_file d key rs))) =
        Inr (take k rs, summary_at d (take k rs) (?n - length (journal_file d key (take k rs))))"
    have "k = length rs" using k pre [of "Suc k"] by auto
    then show ?thesis using rd by simp
  qed (simp_all add: journal_file_def journal_magic_def)
qed

text \<open>A crash inside the signature of a sealed header is not recoverable: the reader refuses the
  file as missing a signature, where any other torn append is a discarded tail.\<close>

lemma torn_sealed_header_refused:
  assumes "wf_journal d key rs" and "length (journal_file d key rs) \<le> journal_max_file_bytes"
    and "torn_sealed_header d key rs n"
  shows "read_and_verify_chain d True (Some (take n (journal_file d key rs))) =
    Inl (JournalCorrupt 0 MissingSignature)"
proof -
  obtain r rs' sk where rs: "rs = r # rs'" and key: "key = Some sk"
    using assms(3) by (cases rs) (auto simp: torn_sealed_header_def)
  let ?raw = "body d r" and ?h = "journal_seed d"
  let ?frame = "record_frame d key [] r"
  have wf: "wf_journal d key ([] @ [r])"
    using assms(1) wf_journal_appendD [of d key "[r]" rs'] rs by simp
  have r: "writable d r" using wf by (auto simp: wf_journal_def)
  note b = writable_body [OF r]
  have whole: "length (journal_file d key (take 1 rs)) = 4 + length ?frame"
    using journal_file_snoc [of d key "[]" r] by (simp add: rs journal_magic_def)
  define j where "j = n - (40 + length ?raw)"
  have n: "n = 4 + (36 + length ?raw + j)" and j: "j < 64"
    using assms(3) whole by (auto simp: torn_sealed_header_def rs j_def record_frame_def signature_suffix_length key)
  obtain sg where sg: "sg = take j (signature_suffix d key ?h ?raw)" and lsg: "length sg = j"
    using j by (simp add: signature_suffix_length key)
  let ?rest = "u32_le (word_of_nat (length ?raw)) @ ?raw @ digest_bytes (chain_link (jd_blake3 d) ?raw ?h) @ sg"
  have "journal_file d key rs = journal_magic @ ?frame @ suf" if "journal_file d key ([r] @ rs') = journal_file d key [r] @ suf" for suf
    using that journal_file_snoc [of d key "[]" r] by (simp add: rs)
  moreover obtain suf where "journal_file d key ([r] @ rs') = journal_file d key [r] @ suf"
    by (simp add: journal_file_def)
  moreover
  let ?P = "journal_magic @ u32_le (word_of_nat (length ?raw)) @ ?raw @ digest_bytes (chain_link (jd_blake3 d) ?raw ?h)"
  have "n = length ?P + j" by (simp add: n journal_magic_def)
  ultimately have cut: "take n (journal_file d key rs) = journal_magic @ ?rest"
    using j by (simp add: record_frame_def raw_frame_def signature_suffix_length key sg)
  have len: "length (journal_magic @ ?rest) = n"
    by (simp add: n journal_magic_def lsg)
  have "length ?rest = 36 + length ?raw + j" by (simp add: lsg)
  then have pos: "n - length ?rest \<noteq> n" and fits: "\<not> n < n - length ?rest + (4 + 32) + length ?raw"
    using n by linarith+
  have "fst (snd (header_fields d [r]))" using wf_journal_sealed(1) [OF wf] key by simp
  then have "check_signature d 0 ?raw ?h (fst (snd (header_fields d [r]))) (snd (snd (header_fields d [r]))) sg =
      Inl (JournalCorrupt 0 MissingSignature)"
    using j lsg by (simp add: check_signature_def read_exact_def)
  then have "read_iter d n (initial_read_state d ?rest) = Inl (JournalCorrupt 0 MissingSignature)"
    using b wf_journal_inspect [OF wf] pos fits
    by (simp add: read_iter_def initial_read_state_def Let_def unat_length_prefix case_prod_beta
        del: length_append)
  moreover have "n \<le> journal_max_file_bytes"
  proof -
    have "length (take n (journal_file d key rs)) = n" unfolding cut by (rule len)
    with assms(2) show ?thesis by simp
  qed
  moreover have "read_exact 4 (journal_magic @ ?rest) = Some (journal_magic, ?rest)"
    by (rule read_exact_append) (simp add: journal_magic_def)
  ultimately have "read_and_verify_chain d True (Some (journal_magic @ ?rest)) = Inl (JournalCorrupt 0 MissingSignature)"
    using len read_loop.simps [of d n "initial_read_state d ?rest"]
    unfolding read_and_verify_chain_def by (simp add: len del: length_append)
  with cut show ?thesis by simp
qed

text \<open>Every other cut past the magic is.\<close>

lemma journal_cut_recovers:
  assumes "wf_journal d key rs"
    and "length (jw_file (writer_after d key uuid rs)) \<le> journal_max_file_bytes"
    and "4 \<le> n" and "n \<le> length (jw_file (writer_after d key uuid rs))"
    and "\<not> torn_sealed_header d key rs n"
  shows "\<exists>k \<le> length rs.
    read_and_verify_chain d True (Some (take n (jw_file (writer_after d key uuid rs)))) =
      Inr (take k rs, summary_at d (take k rs) (n - length (jw_file (writer_after d key uuid (take k rs))))) \<and>
    js_chain_head (summary_at d (take k rs) 0) = current_chain_head d (writer_after d key uuid (take k rs)) \<and>
    length (jw_file (writer_after d key uuid (take k rs))) \<le> n \<and>
    (k < length rs \<longrightarrow> n < length (jw_file (writer_after d key uuid (take (Suc k) rs))))"
proof -
  have all: "list_all (writable d) (take j rs)" for j
    using assms(1) by (auto simp: wf_journal_def list_all_iff dest: in_set_takeD)
  have eq: "writer_after d key uuid (take j rs) =
      \<lparr>jw_file = journal_file d key (take j rs), jw_prev_hash = head_after d (take j rs),
       jw_record_count = length (take j rs), jw_signing_key = key, jw_uuid = uuid,
       jw_sealed = key \<noteq> None\<rparr>" for j
    by (rule writer_after_eq [OF all])
  have jfile: "jw_file (writer_after d key uuid rs) = journal_file d key rs"
    using eq [of "length rs"] by simp
  from assms(2-4) have len: "length (journal_file d key rs) \<le> journal_max_file_bytes"
    "n \<le> length (journal_file d key rs)"
    unfolding jfile by simp_all
  show ?thesis
  proof (rule read_cut [OF assms(1) len(1) assms(3) len(2) assms(5)])
    fix k
    assume "k \<le> length rs" "length (journal_file d key (take k rs)) \<le> n"
      "k < length rs \<longrightarrow> n < length (journal_file d key (take (Suc k) rs))"
      "read_and_verify_chain d True (Some (take n (journal_file d key rs))) =
        Inr (take k rs, summary_at d (take k rs) (n - length (journal_file d key (take k rs))))"
    then show ?thesis
      unfolding eq jfile current_chain_head_def summary_at_def by (intro exI [of _ k]) simp
  qed
qed

section \<open>A concrete instance\<close>

text \<open>
  A small instance of the parameters, on which the hypotheses of the properties are discharged:
  a three-record vocabulary, a hash that returns the length of its input, and a signature scheme
  with one key.
\<close>

definition demo_identity :: stable_identity where
  "demo_identity = \<lparr>si_model = Some ''M'', si_serial = Some ''S1'', si_wwn = None,
     si_size_bytes = 4096, si_bus = Sata, si_dm_name = None, si_dm_uuid = None\<rparr>"

definition demo_header :: "bool \<Rightarrow> journal_header" where
  "demo_header sealed =
     \<lparr>jh_uuid = ''u1'', jh_sealed = sealed,
      jh_operator_pubkey = (if sealed then Some (replicate 32 (CHR ''A'')) else None),
      jh_plan = clear_zero demo_identity ForbidWriteZeroes, jh_plan_hash = ''h'',
      jh_identity = \<lparr>di_stable = demo_identity, di_kernel = \<lparr>ki_major = 8, ki_minor = 0\<rparr>,
        di_kernel_name = ''sda'', di_dev_path = ''/dev/sda'', di_logical_block_size = 512,
        di_physical_block_size = 512\<rparr>,
      jh_tool = \<lparr>tb_name = ''dc'', tb_version = ''0'', tb_build_hash = ''0'', tb_target_triple = ''t''\<rparr>,
      jh_engine = ''sync'',
      jh_tuning = \<lparr>et_qd = 1, et_pool_mib = 1, et_window_bytes = 1, et_checkpoint_mib = 1,
        et_checkpoint_ms = 1\<rparr>,
      jh_argv_hash = ''a'', jh_started_utc = ''t''\<rparr>"

definition demo_deps :: "(unit, unit) journal_deps" where
  "demo_deps =
     \<lparr>jd_blake3 = (\<lambda>b. word_of_nat (length b)),
      jd_to_vec = (\<lambda>r. case r of JHeader h \<Rightarrow> Some [if jh_sealed h then 2 else 1]
        | JEndPass n \<Rightarrow> Some [3] | _ \<Rightarrow> None),
      jd_from_slice = (\<lambda>b. if b = [1] then Some (JHeader (demo_header False))
        else if b = [2] then Some (JHeader (demo_header True))
        else if b = [3] then Some (JEndPass 0) else None),
      jd_hex_encode = map (\<lambda>b. char_of (unat b)), jd_hex_decode = (\<lambda>s. Some (map of_char s)),
      jd_sign = (\<lambda>_ _. 0), jd_vk_from_bytes = (\<lambda>_. Some ()),
      jd_verify = (\<lambda>_ _ s. s = sig_bytes 0)\<rparr>"

definition demo_records :: "bool \<Rightarrow> journal_record list" where
  "demo_records sealed = [JHeader (demo_header sealed), JEndPass 0]"

definition demo_key :: "bool \<Rightarrow> unit option" where
  "demo_key sealed = (if sealed then Some () else None)"

lemma demo_wf: "wf_journal demo_deps (demo_key sealed) (demo_records sealed)"
  by (simp add: wf_journal_def demo_records_def writable_def demo_deps_def demo_header_def demo_key_def
      key_matches_def header_key_def journal_max_record_bytes_def)

lemma length_demo_records [simp]: "length (demo_records sealed) = 2"
  by (simp add: demo_records_def)

lemma demo_body: "r \<in> set (demo_records sealed) \<Longrightarrow> length (body demo_deps r) = 1"
  by (auto simp: demo_records_def body_def demo_deps_def)

lemma demo_length:
  "length (journal_file demo_deps (demo_key sealed) (demo_records sealed)) = (if sealed then 206 else 78)"
  "length (journal_file demo_deps (demo_key sealed) (take 1 (demo_records sealed))) = (if sealed then 105 else 41)"
  by (simp_all add: journal_file_def demo_records_def journal_magic_def signature_suffix_length
      demo_key_def demo_body)

lemma demo_hex: "jd_hex_decode demo_deps (jd_hex_encode demo_deps b) = Some b"
  by (simp add: demo_deps_def comp_def map_idI of_char_byte)

lemma demo_not_torn: "n < 41 \<or> 105 \<le> n \<Longrightarrow> \<not> torn_sealed_header demo_deps (demo_key sealed) (demo_records sealed) n"
proof -
  have "length (body demo_deps (hd (demo_records sealed))) = 1"
    by (simp add: demo_body demo_records_def)
  then show "n < 41 \<or> 105 \<le> n \<Longrightarrow> ?thesis"
    unfolding torn_sealed_header_def demo_length by (auto simp: demo_key_def split: if_splits)
qed

section \<open>Properties\<close>

text \<open>C9: Crash recovery, for every length at which the file of a writer can be cut. Inside the four bytes of
  the magic the reader reports that it cannot read them; inside the signature of a sealed header it
  reports the missing signature; at every other byte it returns exactly the records whose frames are
  whole, with the chain head, count, UUID and seal the writer had after them, and counts the rest as
  discarded tail. Only the 64 bytes of that signature make a written record unreadable.\<close>

theorem journal_crash_recovery:
  assumes "wf_journal d key rs"
    and "length (jw_file (writer_after d key uuid rs)) \<le> journal_max_file_bytes"
    and "n \<le> length (jw_file (writer_after d key uuid rs))"
  shows "let read = read_and_verify_chain d True (Some (take n (jw_file (writer_after d key uuid rs)))) in
    if n < 4 then read = Inl (JournalCorrupt 0 MagicUnreadable)
    else if torn_sealed_header d key rs n then read = Inl (JournalCorrupt 0 MissingSignature)
    else \<exists>k \<le> length rs.
      read = Inr (take k rs, summary_at d (take k rs) (n - length (jw_file (writer_after d key uuid (take k rs))))) \<and>
      js_chain_head (summary_at d (take k rs) 0) = current_chain_head d (writer_after d key uuid (take k rs)) \<and>
      length (jw_file (writer_after d key uuid (take k rs))) \<le> n \<and>
      (k < length rs \<longrightarrow> n < length (jw_file (writer_after d key uuid (take (Suc k) rs))))"
proof -
  have jfile: "jw_file (writer_after d key uuid rs) = journal_file d key rs"
    using assms(1) by (subst writer_after_eq) (simp_all add: wf_journal_def)
  have "read_and_verify_chain d True (Some (take n (journal_file d key rs))) = Inl (JournalCorrupt 0 MagicUnreadable)" if "n < 4"
    using that by (simp add: read_and_verify_chain_def read_exact_def journal_max_file_bytes_def)
  moreover have "read_and_verify_chain d True (Some (take n (journal_file d key rs))) = Inl (JournalCorrupt 0 MissingSignature)"
    if "torn_sealed_header d key rs n"
    using torn_sealed_header_refused [OF assms(1) _ that] assms(2) by (simp add: jfile)
  ultimately show ?thesis
    using journal_cut_recovers [OF assms(1,2) _ assms(3)] by (simp add: Let_def jfile)
qed

theorem journal_crash_recovery_witness:
  "\<exists>k \<le> 2. read_and_verify_chain demo_deps True
      (Some (take 150 (jw_file (writer_after demo_deps (demo_key True) ''u1'' (demo_records True))))) =
    Inr (take k (demo_records True), summary_at demo_deps (take k (demo_records True))
      (150 - length (jw_file (writer_after demo_deps (demo_key True) ''u1'' (take k (demo_records True))))))"
proof -
  have wf: "wf_journal demo_deps (demo_key True) (demo_records True)" by (rule demo_wf)
  then have "jw_file (writer_after demo_deps (demo_key True) ''u1'' (demo_records True)) =
      journal_file demo_deps (demo_key True) (demo_records True)"
    by (subst writer_after_eq) (simp_all add: wf_journal_def)
  then have "length (jw_file (writer_after demo_deps (demo_key True) ''u1'' (demo_records True))) = 206"
    by (simp add: demo_length)
  then show ?thesis
    using journal_crash_recovery [OF wf, of "''u1''" 150] demo_not_torn [of 150 True]
    unfolding length_demo_records by (auto simp: journal_max_file_bytes_def Let_def)
qed

text \<open>C26: Resuming after a crash. Whatever the reader recovered from the cut file, opening the
  journal for resume with that summary cuts the torn tail, keeps its bytes in the tail-save file,
  and yields the very writer that had appended just the recovered records: the chain continues as
  if the crash had not happened.\<close>

theorem journal_resume_after_crash:
  assumes "wf_journal d key rs" and "length (journal_file d key rs) \<le> journal_max_file_bytes"
    and "4 \<le> n" and "n \<le> length (journal_file d key rs)" and "\<not> torn_sealed_header d key rs n"
    and hex: "\<And>b. jd_hex_decode d (jd_hex_encode d b) = Some b"
    and read: "read_and_verify_chain d True (Some (take n (journal_file d key rs))) = Inr (rs0, sm)"
    and "rs0 \<noteq> []"
  shows "open_for_resume d (take n (journal_file d key rs), tailsave) False (js_chain_head sm)
      (js_record_count sm)
      (if js_discarded_tail_bytes sm > 0 then Some (n - js_discarded_tail_bytes sm) else None)
      (js_uuid sm) (js_sealed sm) key =
    ((jw_file (writer_after d key (js_uuid sm) rs0),
      if js_discarded_tail_bytes sm > 0
      then tailsave @ u32_le (word_of_nat (js_discarded_tail_bytes sm)) @
        drop (n - js_discarded_tail_bytes sm) (take n (journal_file d key rs))
      else tailsave),
     Inr (writer_after d key (js_uuid sm) rs0)) \<and> (\<exists>rs1. rs = rs0 @ rs1)"
proof (rule read_cut [OF assms(1-5)])
  fix k
  let ?pre = "journal_file d key (take k rs)" and ?c = "take n (journal_file d key rs)"
  assume pre: "length ?pre \<le> n" and cut: "?c = ?pre @ drop (length ?pre) ?c"
    and rd: "read_and_verify_chain d True (Some ?c) = Inr (take k rs, summary_at d (take k rs) (n - length ?pre))"
  have rs0: "rs0 = take k rs" and sm: "sm = summary_at d (take k rs) (n - length ?pre)"
    using trans [OF read [symmetric] rd] by simp_all
  have wf: "wf_journal d key rs0"
    using assms(1) wf_journal_appendD [of d key "take k rs" "drop k rs"] rs0 by simp
  then have "list_all (writable d) rs0" by (simp add: wf_journal_def)
  note writer = writer_after_eq [OF this]
  have sealed: "js_sealed sm \<longleftrightarrow> key \<noteq> None"
    using wf_journal_sealed(1) [OF wf \<open>rs0 \<noteq> []\<close>] by (simp add: sm summary_at_def rs0)
  have len: "length ?c = n" using assms(4) by simp
  have disc: "js_discarded_tail_bytes sm = n - length ?pre" by (simp add: sm summary_at_def)
  let ?n = "js_discarded_tail_bytes sm"
  let ?save = "if ?n > 0 then tailsave @ u32_le (word_of_nat ?n) @ drop (n - ?n) ?c else tailsave"
  have saved: "save_tail (if ?n > 0 then Some (n - ?n) else None) (?c, tailsave) = (?pre, ?save)"
  proof (cases "n = length ?pre")
    case True
    then have "?c = ?pre" using cut len by (metis append_Nil2 drop_all order_refl)
    then show ?thesis using True by (simp add: save_tail_def disc)
  next
    case False
    then have "n - (n - length ?pre) = length ?pre" "length ?pre < n" using pre by auto
    moreover have "set_len (length ?pre) ?c = ?pre"
      using cut len pre unfolding set_len_def by (metis append_Nil2 append_eq_conv_conj diff_is_0_eq replicate_0)
    ultimately show ?thesis using len by (simp add: save_tail_def Let_def disc)
  qed
  have head: "jd_hex_decode d (js_chain_head sm) = Some (digest_bytes (head_after d rs0))"
    and count: "js_record_count sm = length rs0"
    using hex by (simp_all add: sm summary_at_def rs0)
  have w: "writer_after d key (js_uuid sm) rs0 =
      \<lparr>jw_file = ?pre, jw_prev_hash = head_after d rs0, jw_record_count = length rs0,
       jw_signing_key = key, jw_uuid = js_uuid sm, jw_sealed = js_sealed sm\<rparr>"
    using writer [of key "js_uuid sm"] sealed rs0 by simp
  have ok: "\<not> (js_sealed sm \<and> key = None)" using sealed by auto
  have "open_for_resume d (?c, tailsave) False (js_chain_head sm) (js_record_count sm)
      (if ?n > 0 then Some (n - ?n) else None) (js_uuid sm) (js_sealed sm) key =
    ((jw_file (writer_after d key (js_uuid sm) rs0), ?save), Inr (writer_after d key (js_uuid sm) rs0))"
    unfolding open_for_resume_def if_not_P [OF ok] saved Let_def w count
    by (simp add: head) (simp add: digest_bytes_def)
  moreover have "\<exists>rs1. rs = rs0 @ rs1" unfolding rs0 by (metis append_take_drop_id)
  ultimately show ?thesis by simp
qed

theorem journal_resume_after_crash_witness:
  "\<exists>rs0 sm. rs0 \<noteq> [] \<and>
    read_and_verify_chain demo_deps True
      (Some (take 150 (journal_file demo_deps (demo_key True) (demo_records True)))) = Inr (rs0, sm) \<and>
    snd (open_for_resume demo_deps (take 150 (journal_file demo_deps (demo_key True) (demo_records True)), [])
      False (js_chain_head sm) (js_record_count sm)
      (if js_discarded_tail_bytes sm > 0 then Some (150 - js_discarded_tail_bytes sm) else None)
      (js_uuid sm) (js_sealed sm) (demo_key True)) = Inr (writer_after demo_deps (demo_key True) (js_uuid sm) rs0)"
proof -
  let ?d = demo_deps and ?key = "demo_key True" and ?rs = "demo_records True"
  have max: "length (journal_file ?d ?key ?rs) \<le> journal_max_file_bytes"
    and n: "4 \<le> (150 :: nat)" "150 \<le> length (journal_file ?d ?key ?rs)"
    by (simp_all add: demo_length journal_max_file_bytes_def)
  note torn = demo_not_torn [of 150 True]
  show ?thesis
  proof (rule read_cut [OF demo_wf max n])
    fix k
    assume k: "k < length ?rs \<longrightarrow> 150 < length (journal_file ?d ?key (take (Suc k) ?rs))"
      and read: "read_and_verify_chain ?d True (Some (take 150 (journal_file ?d ?key ?rs))) =
        Inr (take k ?rs, summary_at ?d (take k ?rs) (150 - length (journal_file ?d ?key (take k ?rs))))"
    have "k \<noteq> 0" using k demo_length(2) [of True] by (intro notI) simp
    then have ne: "take k ?rs \<noteq> []" by (simp add: demo_records_def)
    show ?thesis
      using journal_resume_after_crash [OF demo_wf max n _ demo_hex read ne, of "[]"] read ne torn by auto
  qed (use torn in simp)
qed

theorem torn_sealed_header_refused_witness:
  "read_and_verify_chain demo_deps True
      (Some (take 60 (journal_file demo_deps (demo_key True) (demo_records True)))) =
    Inl (JournalCorrupt 0 MissingSignature)"
proof (rule torn_sealed_header_refused [OF demo_wf])
  show "length (journal_file demo_deps (demo_key True) (demo_records True)) \<le> journal_max_file_bytes"
    by (simp add: demo_length journal_max_file_bytes_def)
  have "length (body demo_deps (hd (demo_records True))) = 1"
    by (simp add: demo_body demo_records_def)
  then show "torn_sealed_header demo_deps (demo_key True) (demo_records True) 60"
    unfolding torn_sealed_header_def demo_length by (simp add: demo_key_def demo_records_def)
qed

text \<open>The demo journal cut after its first record, on which the reader properties are instantiated.\<close>

lemma demo_read_one:
  assumes "105 \<le> n" and "n < 206"
  shows "read_and_verify_chain demo_deps True
      (Some (take n (journal_file demo_deps (demo_key True) (demo_records True)))) =
    Inr (take 1 (demo_records True), summary_at demo_deps (take 1 (demo_records True)) (n - 105))"
proof -
  let ?d = demo_deps and ?key = "demo_key True" and ?rs = "demo_records True"
  have max: "length (journal_file ?d ?key ?rs) \<le> journal_max_file_bytes"
    and n: "4 \<le> n" "n \<le> length (journal_file ?d ?key ?rs)"
    using assms by (simp_all add: demo_length journal_max_file_bytes_def)
  show ?thesis
  proof (rule read_cut [OF demo_wf max n])
    fix k
    assume k: "k \<le> length ?rs" "length (journal_file ?d ?key (take k ?rs)) \<le> n"
      "k < length ?rs \<longrightarrow> n < length (journal_file ?d ?key (take (Suc k) ?rs))"
      and read: "read_and_verify_chain ?d True (Some (take n (journal_file ?d ?key ?rs))) =
        Inr (take k ?rs, summary_at ?d (take k ?rs) (n - length (journal_file ?d ?key (take k ?rs))))"
    have "k \<noteq> 0" using k(3) demo_length(2) [of True] assms by (intro notI) simp
    moreover have "k \<noteq> 2" using k(2) demo_length(1) [of True] assms by (intro notI) simp
    ultimately have "k = 1" using k(1) by simp
    with read demo_length(2) [of True] show ?thesis by simp
  qed (use demo_not_torn [of n True] assms in simp)
qed

theorem sealed_journal_is_signed_witness:
  "\<exists>h vk es tail. take 1 (demo_records True) = [JHeader h] \<and> jh_sealed h \<and> header_key demo_deps h = Inr vk \<and>
    take 150 (journal_file demo_deps (demo_key True) (demo_records True)) =
      journal_magic @ frames (jd_blake3 demo_deps) (journal_seed demo_deps) es @ tail \<and>
    all_signed demo_deps vk (journal_seed demo_deps) es"
proof -
  have "js_sealed (summary_at demo_deps (take 1 (demo_records True)) (150 - 105))"
    by (simp add: summary_at_def demo_records_def demo_header_def)
  from sealed_journal_is_signed [OF demo_read_one this] show ?thesis
    by (auto simp: demo_records_def)
qed

theorem journal_tamper_evidence_witness:
  "\<exists>es es' tail tail'.
    take 105 (journal_file demo_deps (demo_key True) (demo_records True)) =
      journal_magic @ frames (jd_blake3 demo_deps) (journal_seed demo_deps) es @ tail \<and>
    take 150 (journal_file demo_deps (demo_key True) (demo_records True)) =
      journal_magic @ frames (jd_blake3 demo_deps) (journal_seed demo_deps) es' @ tail' \<and>
    map (jd_from_slice demo_deps \<circ> fst) es = map Some (take 1 (demo_records True)) \<and>
    map (jd_from_slice demo_deps \<circ> fst) es' = map Some (take 1 (demo_records True))"
proof -
  have "js_chain_head (summary_at demo_deps rs m) = js_chain_head (summary_at demo_deps rs m')" for rs m m'
    by (simp add: summary_at_def)
  from journal_tamper_evidence [OF demo_hex demo_read_one demo_read_one this, of 105 150]
  show ?thesis by auto
qed

end
