(* ===== verification/Audit_Log.thy ===== *)
theory Audit_Log
  imports Errors Hash_Chain
begin

text \<open>
  The \<open>DCA1\<close> audit log (\<open>crates/dc-core/src/audit.rs\<close>): opening (which scans to the last link),
  logging, and verification of a whole file. The file is its list of bytes, opened in append
  mode. \<open>blake3\<close>, \<open>serde_json\<close> and \<open>hex\<close> are the fields of \<open>audit_deps\<close>; what the file system does to an
  opening is \<open>audit_faults\<close>, and what it does to an append is the number of bytes that reach the file
  before it fails.
\<close>

datatype audit_outcome =
  AuRefusal string string | AuPlanCompiled string | AuArmed string | AuExecuted string string
| AuResumed string | AuVerifyOnly bool | AuError string

record audit_record =
  ar_timestamp_utc :: string
  ar_argv_hash :: string
  ar_target_path :: "string option"
  ar_outcome :: audit_outcome

record audit_deps =
  ad_blake3 :: "byte list \<Rightarrow> digest"
  ad_to_vec :: "audit_record \<Rightarrow> byte list option"
  ad_hex_encode :: "byte list \<Rightarrow> string"

record audit_logger =
  al_file :: "byte list"
  al_prev_hash :: digest

definition audit_magic :: "byte list" where
  "audit_magic = [0x44, 0x43, 0x41, 0x31]"

definition audit_max_record_bytes :: nat where
  "audit_max_record_bytes = 1024 * 1024"

definition audit_seed :: "audit_deps \<Rightarrow> digest" where
  "audit_seed d = ad_blake3 d audit_magic"

section \<open>Operations\<close>

text \<open>The scan for the last link: it trusts the stored hashes, and a torn record ends it.\<close>

function audit_scan :: "nat \<Rightarrow> digest \<Rightarrow> byte list \<Rightarrow> dc_error + digest" where
  "audit_scan pos prev rest =
     (case read_exact 4 rest of
        None \<Rightarrow> Inr prev
      | Some (len_buf, rest1) \<Rightarrow>
          let len = unat (of_u32_le len_buf)
          in if len = 0 \<or> len > audit_max_record_bytes then Inl (Usage (AuditBadLength len pos))
          else case read_exact len rest1 of
            None \<Rightarrow> Inr prev
          | Some (_, rest2) \<Rightarrow>
              (case read_exact 32 rest2 of
                 None \<Rightarrow> Inr prev
               | Some (h, rest3) \<Rightarrow> audit_scan (pos + 4 + len + 32) (of_le_bytes h) rest3))"
  by pat_completeness auto
termination
  by (relation "measure (\<lambda>(_, _, rest). length rest)") (auto dest!: read_exact_length)

declare audit_scan.simps [simp del]

text \<open>
  Opening can fail before the lock (\<open>create_dir_all\<close>, \<open>open\<close>), behind it (\<open>metadata\<close>, seeking), in the write of
  the magic, after some bytes of it, and a read can fail from some byte on: the scan takes that for the end.
\<close>

record audit_faults =
  af_open :: bool
  af_stat :: bool
  af_readable :: "nat option"
  af_magic :: "nat option"

definition no_faults :: audit_faults where
  "no_faults = \<lparr>af_open = False, af_stat = False, af_readable = None, af_magic = None\<rparr>"

text \<open>The file after it, and the logger or the error.\<close>

definition open_or_create ::
  "audit_deps \<Rightarrow> audit_faults \<Rightarrow> byte list \<Rightarrow> bool \<Rightarrow> byte list \<times> (dc_error + audit_logger)" where
  "open_or_create d flt file locked =
     (if af_open flt then (file, Inl StdIo)
      else if locked then (file, Inl (Usage AuditLockFailed))
      else if af_stat flt then (file, Inl StdIo)
      else if file \<noteq> []
      then (file,
            case read_exact 4 (case af_readable flt of None \<Rightarrow> file | Some n \<Rightarrow> take n file) of
              None \<Rightarrow> Inl (Usage AuditBadMagic)
            | Some (magic, rest) \<Rightarrow>
                if magic \<noteq> audit_magic then Inl (Usage AuditBadMagic)
                else and_then (audit_scan 4 (audit_seed d) rest) (\<lambda>prev.
                  Inr \<lparr>al_file = file, al_prev_hash = prev\<rparr>))
      else (case af_magic flt of
              Some n \<Rightarrow> (take n audit_magic, Inl StdIo)
            | None \<Rightarrow> (audit_magic, Inr \<lparr>al_file = audit_magic, al_prev_hash = audit_seed d\<rparr>)))"

definition audit_frame :: "(byte list \<Rightarrow> digest) \<Rightarrow> digest \<Rightarrow> byte list \<Rightarrow> byte list" where
  "audit_frame H h raw = u32_le (word_of_nat (length raw)) @ raw @ digest_bytes (chain_link H raw h)"

text \<open>
  The writes, the flush and the sync of an append that fails leave the first \<open>n\<close> bytes of its frame in the
  file, all of them when only the sync fails, and the logger where it was.
\<close>

definition log_record ::
  "audit_deps \<Rightarrow> nat option \<Rightarrow> audit_logger \<Rightarrow> audit_record \<Rightarrow> audit_logger \<times> (dc_error + string)" where
  "log_record d fault l r =
     (case ad_to_vec d r of
        None \<Rightarrow> (l, Inl Json)
      | Some record_bytes \<Rightarrow>
          let h = chain_link (ad_blake3 d) record_bytes (al_prev_hash l);
              frame = audit_frame (ad_blake3 d) (al_prev_hash l) record_bytes
          in (case fault of
                Some n \<Rightarrow> (l\<lparr>al_file := al_file l @ take n frame\<rparr>, Inl StdIo)
              | None \<Rightarrow> (\<lparr>al_file = al_file l @ frame, al_prev_hash = h\<rparr>, Inr (ad_hex_encode d (digest_bytes h)))))"

function verify_loop ::
  "audit_deps \<Rightarrow> nat \<Rightarrow> nat \<Rightarrow> digest \<Rightarrow> byte list \<Rightarrow> dc_error + nat \<times> digest" where
  "verify_loop d fsize count prev rest =
     (let rec_start = fsize - length rest
      in case read_exact 4 rest of
        None \<Rightarrow> Inr (count, prev)
      | Some (len_buf, rest1) \<Rightarrow>
          let len = unat (of_u32_le len_buf)
          in if len = 0 \<or> len > audit_max_record_bytes
             then Inl (Usage (AuditBadLength len rec_start))
          else if rec_start + 4 + len + 32 > fsize then Inl (Usage (AuditTruncated rec_start len))
          else case read_exact len rest1 of
            None \<Rightarrow> Inl StdIo
          | Some (rec, rest2) \<Rightarrow>
              (case read_exact 32 rest2 of
                 None \<Rightarrow> Inl StdIo
               | Some (h, rest3) \<Rightarrow>
                   if h \<noteq> digest_bytes (chain_link (ad_blake3 d) rec prev)
                   then Inl (Usage (AuditMismatch count))
                   else verify_loop d fsize (count + 1) (chain_link (ad_blake3 d) rec prev) rest3))"
  by pat_completeness auto
termination
  by (relation "measure (\<lambda>(_, _, _, _, rest). length rest)") (auto dest!: read_exact_length)

declare verify_loop.simps [simp del]

definition verify_audit_file :: "audit_deps \<Rightarrow> byte list option \<Rightarrow> dc_error + nat \<times> string" where
  "verify_audit_file d file =
     (case file of
        None \<Rightarrow> Inl StdIo
      | Some contents \<Rightarrow>
          (case read_exact 4 contents of
             None \<Rightarrow> Inl StdIo
           | Some (magic, rest) \<Rightarrow>
               if magic \<noteq> audit_magic then Inl (Usage AuditBadMagic)
               else and_then (verify_loop d (length contents) 0 (audit_seed d) rest)
                 (\<lambda>(count, prev). Inr (count, ad_hex_encode d (digest_bytes prev)))))"

section \<open>Frames\<close>

primrec audit_frames :: "(byte list \<Rightarrow> digest) \<Rightarrow> digest \<Rightarrow> byte list list \<Rightarrow> byte list" where
  "audit_frames H h [] = []"
| "audit_frames H h (r # rs) = audit_frame H h r @ audit_frames H (chain_link H r h) rs"

lemma audit_frames_append [simp]:
  "audit_frames H h (rs @ rs') = audit_frames H h rs @ audit_frames H (chain_from H h rs) rs'"
  by (induction rs arbitrary: h) simp_all

definition fits :: "byte list \<Rightarrow> bool" where
  "fits r \<longleftrightarrow> 0 < length r \<and> length r \<le> audit_max_record_bytes"

lemma unat_fits: "fits r \<Longrightarrow> unat (word_of_nat (length r) :: u32) = length r"
  by (rule unat_word_of_nat_u32) (simp add: fits_def audit_max_record_bytes_def)

definition audit_bytes :: "audit_deps \<Rightarrow> byte list list \<Rightarrow> byte list" where
  "audit_bytes d rs = audit_magic @ audit_frames (ad_blake3 d) (audit_seed d) rs"

lemma audit_scan_frames:
  assumes "list_all fits rs"
  shows "audit_scan pos h (audit_frames H h rs) = Inr (chain_from H h rs)"
  using assms
proof (induction rs arbitrary: pos h)
  case Nil
  then show ?case by (simp add: audit_scan.simps read_exact_def)
next
  case (Cons r rs)
  then show ?case
    by (subst audit_scan.simps)
      (simp add: audit_frame_def Let_def unat_fits fits_def digest_bytes_def)
qed

lemma verify_loop_frames:
  assumes "list_all fits rs" and "length (audit_frames (ad_blake3 d) h rs @ tail) \<le> fsize"
  shows "verify_loop d fsize n h (audit_frames (ad_blake3 d) h rs @ tail) =
    verify_loop d fsize (n + length rs) (chain_from (ad_blake3 d) h rs) tail"
  using assms
proof (induction rs arbitrary: n h)
  case (Cons r rs)
  have "\<not> fsize - length (audit_frames (ad_blake3 d) h (r # rs) @ tail) + 4 + length r + 32 > fsize"
    using Cons.prems(2) by (simp add: audit_frame_def)
  then have "verify_loop d fsize n h (audit_frames (ad_blake3 d) h (r # rs) @ tail) =
      verify_loop d fsize (n + 1) (chain_link (ad_blake3 d) r h)
        (audit_frames (ad_blake3 d) (chain_link (ad_blake3 d) r h) rs @ tail)"
    using Cons.prems(1)
    by (subst verify_loop.simps) (simp add: audit_frame_def Let_def unat_fits fits_def)
  with Cons show ?case by simp
qed simp

lemma verify_loop_sound:
  assumes "verify_loop d fsize n h rest = Inr (n', h')"
  shows "\<exists>rs tail. rest = audit_frames (ad_blake3 d) h rs @ tail \<and> length tail < 4 \<and>
    n' = n + length rs \<and> h' = chain_from (ad_blake3 d) h rs"
  using assms
proof (induction d fsize n h rest rule: verify_loop.induct)
  case (1 d fsize n h rest)
  show ?case
  proof (cases "read_exact 4 rest")
    case None
    then show ?thesis
      using 1(2) by (intro exI [of _ "[]"] exI [of _ rest])
        (simp add: verify_loop.simps [of d fsize n h rest] None Let_def flip: read_exact_None)
  next
    case (Some p)
    then obtain len_buf rest1 where p: "read_exact 4 rest = Some (len_buf, rest1)" by (cases p) auto
    define len where "len = unat (of_u32_le len_buf)"
    from 1(2) p obtain r rest2 rest3 where
      r: "read_exact len rest1 = Some (r, rest2)"
      and h: "read_exact 32 rest2 = Some (digest_bytes (chain_link (ad_blake3 d) r h), rest3)"
      and ok: "\<not> (len = 0 \<or> len > audit_max_record_bytes)"
        "\<not> fsize - length rest + 4 + len + 32 > fsize"
      and rec: "verify_loop d fsize (n + 1) (chain_link (ad_blake3 d) r h) rest3 = Inr (n', h')"
      by (subst (asm) verify_loop.simps) (auto simp: Let_def len_def split: if_splits option.splits)
    have "length r = len" and "rest = len_buf @ rest1" "length len_buf = 4" "rest1 = r @ rest2"
      "rest2 = digest_bytes (chain_link (ad_blake3 d) r h) @ rest3"
      using p r h by (auto simp: read_exact_Some)
    moreover have "len_buf = u32_le (word_of_nat (length r))"
      using \<open>length r = len\<close> \<open>length len_buf = 4\<close> by (simp add: len_def)
    ultimately have "rest = audit_frame (ad_blake3 d) h r @ rest3"
      by (simp add: audit_frame_def)
    moreover from 1(1) [OF refl p refl len_def ok r refl h] rec
    obtain rs tail where "rest3 = audit_frames (ad_blake3 d) (chain_link (ad_blake3 d) r h) rs @ tail"
      "length tail < 4" "n' = n + 1 + length rs" "h' = chain_from (ad_blake3 d) (chain_link (ad_blake3 d) r h) rs"
      by auto
    ultimately show ?thesis by (intro exI [of _ "r # rs"]) simp
  qed
qed

lemma verify_audit_sound:
  assumes "verify_audit_file d (Some c) = Inr (n, head)"
  obtains rs tail where "c = audit_bytes d rs @ tail" "length tail < 4" "n = length rs"
    "head = ad_hex_encode d (digest_bytes (chain_from (ad_blake3 d) (audit_seed d) rs))"
  using assms
  by (auto simp: verify_audit_file_def res read_exact_Some audit_bytes_def dest!: verify_loop_sound
      split: option.splits if_splits)

lemma verify_audit_frames:
  assumes "list_all fits rs"
  shows "verify_audit_file d (Some (audit_bytes d rs @ tail)) =
    and_then (verify_loop d (length (audit_bytes d rs @ tail)) (length rs) (chain_from (ad_blake3 d) (audit_seed d) rs) tail)
      (\<lambda>(count, prev). Inr (count, ad_hex_encode d (digest_bytes prev)))"
proof -
  let ?c = "audit_bytes d rs @ tail"
  have "read_exact 4 ?c = Some (audit_magic, audit_frames (ad_blake3 d) (audit_seed d) rs @ tail)"
    by (simp add: audit_bytes_def audit_magic_def read_exact_def)
  then show ?thesis
    using verify_loop_frames [OF assms, of d "audit_seed d" tail "length ?c" 0]
    by (simp add: verify_audit_file_def audit_bytes_def)
qed

definition head_over :: "audit_deps \<Rightarrow> byte list list \<Rightarrow> string" where
  "head_over d rs = ad_hex_encode d (digest_bytes (chain_from (ad_blake3 d) (audit_seed d) rs))"

lemma verify_audit_complete:
  assumes "list_all fits rs" and "length tail < 4"
  shows "verify_audit_file d (Some (audit_bytes d rs @ tail)) = Inr (length rs, head_over d rs)"
proof -
  have "verify_loop d k n h tail = Inr (n, h)" for k n h
    using assms(2) verify_loop.simps [of d k n h tail] by (simp add: Let_def flip: read_exact_None)
  then show ?thesis by (simp add: verify_audit_frames [OF assms(1)] head_over_def)
qed

text \<open>A tail that begins with the length of a record the file does not hold in full, or of one over the cap.\<close>

lemma verify_audit_torn:
  assumes "list_all fits rs" and "fits r" and "4 \<le> n" and "n < 36 + length r"
  shows "verify_audit_file d (Some (audit_bytes d rs @ take n (audit_frame (ad_blake3 d) h r))) =
    Inl (Usage (AuditTruncated (length (audit_bytes d rs)) (length r)))"
proof -
  let ?tail = "take n (audit_frame (ad_blake3 d) h r)" and ?k = "length (audit_bytes d rs)"
  have len: "length ?tail = n" using assms(4) by (simp add: audit_frame_def)
  have "take n (u32_le (word_of_nat (length r)) @ xs) = u32_le (word_of_nat (length r)) @ take (n - 4) xs" for xs
    using assms(3) by simp
  then obtain rest where t: "?tail = u32_le (word_of_nat (length r)) @ rest" unfolding audit_frame_def by blast
  have "read_exact 4 ?tail = Some (u32_le (word_of_nat (length r)), rest)"
    unfolding t by (rule read_exact_append) simp
  then have "verify_loop d (length (audit_bytes d rs @ ?tail)) c g ?tail = Inl (Usage (AuditTruncated ?k (length r)))" for c g
    using assms(2,4) len verify_loop.simps [of d "length (audit_bytes d rs @ ?tail)" c g ?tail]
    by (simp add: Let_def unat_fits fits_def)
  then show ?thesis by (simp add: verify_audit_frames [OF assms(1)])
qed

lemma verify_audit_oversize:
  assumes "list_all fits rs" and "audit_max_record_bytes < length r" and "length r < 2 ^ 32"
  shows "verify_audit_file d (Some (audit_bytes d rs @ audit_frame (ad_blake3 d) h r)) =
    Inl (Usage (AuditBadLength (length r) (length (audit_bytes d rs))))"
proof -
  let ?tail = "audit_frame (ad_blake3 d) h r" and ?k = "length (audit_bytes d rs)"
  have "read_exact 4 ?tail = Some (u32_le (word_of_nat (length r)), r @ digest_bytes (chain_link (ad_blake3 d) r h))"
    unfolding audit_frame_def by (rule read_exact_append) simp
  moreover have "unat (word_of_nat (length r) :: u32) = length r" by (rule unat_word_of_nat_u32) (use assms(3) in simp)
  ultimately have "verify_loop d (length (audit_bytes d rs @ ?tail)) c g ?tail = Inl (Usage (AuditBadLength (length r) ?k))" for c g
    using assms(2) verify_loop.simps [of d "length (audit_bytes d rs @ ?tail)" c g ?tail] by (simp add: Let_def)
  then show ?thesis by (simp add: verify_audit_frames [OF assms(1)])
qed

section \<open>Sessions\<close>

text \<open>
  A process opens the log, logs its records, some of which may fail, and exits; the next one opens it again.
  With the file come the records whose logging returned a chain head.
\<close>

fun log_all :: "audit_deps \<Rightarrow> audit_logger \<Rightarrow> (audit_record \<times> nat option) list \<Rightarrow> audit_logger \<times> audit_record list" where
  "log_all d l [] = (l, [])"
| "log_all d l ((r, fault) # rs) =
     (case log_record d fault l r of (l, res) \<Rightarrow>
      (case log_all d l rs of (l, acks) \<Rightarrow> (l, case res of Inl _ \<Rightarrow> acks | Inr _ \<Rightarrow> r # acks)))"

definition audit_session ::
  "audit_deps \<Rightarrow> byte list \<Rightarrow> audit_faults \<times> (audit_record \<times> nat option) list \<Rightarrow> byte list \<times> audit_record list" where
  "audit_session d file s =
     (case open_or_create d (fst s) file False of
        (file, Inl _) \<Rightarrow> (file, [])
      | (_, Inr l) \<Rightarrow> (case log_all d l (snd s) of (l, acks) \<Rightarrow> (al_file l, acks)))"

fun audit_run ::
  "audit_deps \<Rightarrow> byte list \<Rightarrow> (audit_faults \<times> (audit_record \<times> nat option) list) list \<Rightarrow> byte list \<times> audit_record list" where
  "audit_run d file [] = (file, [])"
| "audit_run d file (s # ss) =
     (case audit_session d file s of (file, acks) \<Rightarrow>
      (case audit_run d file ss of (file, acks') \<Rightarrow> (file, acks @ acks')))"

definition raw_of :: "audit_deps \<Rightarrow> audit_record \<Rightarrow> byte list" where
  "raw_of d r = the (ad_to_vec d r)"

text \<open>
  Failures that leave no part of a frame or of the magic behind: an append that fails writes nothing, one that
  succeeds is within the cap, reading does not fail, and the magic is written whole or not at all.
\<close>

definition clean_append :: "audit_deps \<Rightarrow> audit_record \<times> nat option \<Rightarrow> bool" where
  "clean_append d a \<longleftrightarrow> (case ad_to_vec d (fst a) of None \<Rightarrow> True | Some b \<Rightarrow> snd a = Some 0 \<or> snd a = None \<and> fits b)"

definition clean_session :: "audit_deps \<Rightarrow> audit_faults \<times> (audit_record \<times> nat option) list \<Rightarrow> bool" where
  "clean_session d s \<longleftrightarrow> af_readable (fst s) = None \<and> (\<forall>n. af_magic (fst s) = Some n \<longrightarrow> n = 0 \<or> 4 \<le> n) \<and>
     list_all (clean_append d) (snd s)"

lemma log_all_clean:
  assumes "list_all (clean_append d) as" and "log_all d l as = (l', acks)"
  shows "l' = \<lparr>al_file = al_file l @ audit_frames (ad_blake3 d) (al_prev_hash l) (map (raw_of d) acks),
      al_prev_hash = chain_from (ad_blake3 d) (al_prev_hash l) (map (raw_of d) acks)\<rparr> \<and> list_all fits (map (raw_of d) acks)"
  using assms
proof (induction d l as arbitrary: l' acks rule: log_all.induct)
  case (2 d l r fault rs)
  obtain l1 res where r: "log_record d fault l r = (l1, res)" by fastforce
  obtain l2 acks' where rest: "log_all d l1 rs = (l2, acks')" by fastforce
  from 2 r rest have ih: "l2 = \<lparr>al_file = al_file l1 @ audit_frames (ad_blake3 d) (al_prev_hash l1) (map (raw_of d) acks'),
      al_prev_hash = chain_from (ad_blake3 d) (al_prev_hash l1) (map (raw_of d) acks')\<rparr>" "list_all fits (map (raw_of d) acks')"
    by simp_all
  have "l' = l2" "acks = (case res of Inl _ \<Rightarrow> acks' | Inr _ \<Rightarrow> r # acks')" using 2(3) r rest by simp_all
  moreover have "raw_of d r = b" if "ad_to_vec d r = Some b" for b using that by (simp add: raw_of_def)
  ultimately show ?case
    using ih r 2(2) by (auto simp: log_record_def clean_append_def Let_def split: option.splits)
qed simp

lemma open_audit_bytes:
  assumes "list_all fits rs" and "af_readable flt = None"
  shows "open_or_create d flt (audit_bytes d rs) False = (audit_bytes d rs, Inl StdIo) \<or>
    open_or_create d flt (audit_bytes d rs) False =
      (audit_bytes d rs, Inr \<lparr>al_file = audit_bytes d rs, al_prev_hash = chain_from (ad_blake3 d) (audit_seed d) rs\<rparr>)"
proof -
  have "read_exact 4 (audit_bytes d rs) = Some (audit_magic, audit_frames (ad_blake3 d) (audit_seed d) rs)"
    by (simp add: audit_bytes_def audit_magic_def read_exact_def)
  moreover have "audit_bytes d rs \<noteq> []" by (simp add: audit_bytes_def audit_magic_def)
  ultimately show ?thesis
    by (simp add: open_or_create_def audit_scan_frames [OF assms(1)] assms(2))
qed

lemma open_audit_whole:
  assumes "list_all fits rs"
  shows "open_or_create d no_faults (audit_bytes d rs) False =
    (audit_bytes d rs, Inr \<lparr>al_file = audit_bytes d rs, al_prev_hash = chain_from (ad_blake3 d) (audit_seed d) rs\<rparr>)"
proof -
  have "read_exact 4 (audit_bytes d rs) = Some (audit_magic, audit_frames (ad_blake3 d) (audit_seed d) rs)"
    "audit_bytes d rs \<noteq> []"
    by (simp_all add: audit_bytes_def audit_magic_def read_exact_def)
  then show ?thesis by (simp add: open_or_create_def no_faults_def audit_scan_frames [OF assms])
qed

lemma audit_session_bytes:
  assumes "clean_session d s" and "list_all fits raws" and "audit_session d (audit_bytes d raws) s = (file', acks)"
  shows "file' = audit_bytes d (raws @ map (raw_of d) acks) \<and> list_all fits (map (raw_of d) acks)"
proof -
  have clean: "af_readable (fst s) = None" "list_all (clean_append d) (snd s)" using assms(1) by (simp_all add: clean_session_def)
  from open_audit_bytes [OF assms(2) clean(1), of d] show ?thesis
  proof
    assume "open_or_create d (fst s) (audit_bytes d raws) False = (audit_bytes d raws, Inl StdIo)"
    then show ?thesis using assms(3) by (auto simp: audit_session_def)
  next
    let ?l = "\<lparr>al_file = audit_bytes d raws, al_prev_hash = chain_from (ad_blake3 d) (audit_seed d) raws\<rparr>"
    assume o: "open_or_create d (fst s) (audit_bytes d raws) False = (audit_bytes d raws, Inr ?l)"
    obtain l' acks' where l: "log_all d ?l (snd s) = (l', acks')" by fastforce
    show ?thesis using log_all_clean [OF clean(2) l] assms(3) o l by (auto simp: audit_session_def audit_bytes_def)
  qed
qed

lemma audit_session_empty:
  assumes "clean_session d s" and "audit_session d [] s = (file', acks)"
  shows "(file' = [] \<and> acks = []) \<or> (file' = audit_bytes d (map (raw_of d) acks) \<and> list_all fits (map (raw_of d) acks))"
proof (cases "af_open (fst s) \<or> af_stat (fst s)")
  case True
  then have "open_or_create d (fst s) [] False = ([], Inl StdIo)" by (auto simp: open_or_create_def)
  then show ?thesis using assms(2) by (simp add: audit_session_def)
next
  case False
  show ?thesis
  proof (cases "af_magic (fst s)")
    case (Some n)
    then have "n = 0 \<or> 4 \<le> n" using assms(1) by (simp add: clean_session_def)
    then have "take n audit_magic = [] \<or> take n audit_magic = audit_bytes d []" by (auto simp: audit_bytes_def audit_magic_def)
    moreover have "open_or_create d (fst s) [] False = (take n audit_magic, Inl StdIo)" using False Some by (simp add: open_or_create_def)
    ultimately show ?thesis using assms(2) by (auto simp: audit_session_def)
  next
    case None
    let ?l = "\<lparr>al_file = audit_magic, al_prev_hash = audit_seed d\<rparr>"
    obtain l' acks' where l: "log_all d ?l (snd s) = (l', acks')" by fastforce
    have "list_all (clean_append d) (snd s)" using assms(1) by (simp add: clean_session_def)
    from log_all_clean [OF this l] show ?thesis
      using False None assms(2) l by (auto simp: audit_session_def open_or_create_def audit_bytes_def)
  qed
qed

lemma audit_run_bytes:
  assumes "list_all (clean_session d) ss" and "list_all fits raws" and "audit_run d (audit_bytes d raws) ss = (file', acks)"
  shows "file' = audit_bytes d (raws @ map (raw_of d) acks) \<and> list_all fits (map (raw_of d) acks)"
  using assms
proof (induction ss arbitrary: raws acks)
  case (Cons s ss)
  obtain file1 acks1 where s: "audit_session d (audit_bytes d raws) s = (file1, acks1)" by fastforce
  obtain file2 acks2 where rest: "audit_run d file1 ss = (file2, acks2)" by fastforce
  have 1: "file1 = audit_bytes d (raws @ map (raw_of d) acks1)" "list_all fits (map (raw_of d) acks1)"
    using audit_session_bytes [OF _ Cons.prems(2) s] Cons.prems(1) by simp_all
  have "list_all fits (raws @ map (raw_of d) acks1)" using 1(2) Cons.prems(2) by simp
  from Cons.IH [OF _ this, of acks2] 1 rest Cons.prems(1,3) s show ?case by auto
qed simp

lemma audit_run_empty:
  assumes "list_all (clean_session d) ss" and "audit_run d [] ss = (file', acks)"
  shows "(file' = [] \<and> acks = []) \<or> (file' = audit_bytes d (map (raw_of d) acks) \<and> list_all fits (map (raw_of d) acks))"
  using assms
proof (induction ss arbitrary: acks)
  case (Cons s ss)
  obtain file1 acks1 where s: "audit_session d [] s = (file1, acks1)" by fastforce
  obtain file2 acks2 where rest: "audit_run d file1 ss = (file2, acks2)" by fastforce
  have r: "file' = file2" "acks = acks1 @ acks2" using Cons.prems(2) s rest by simp_all
  have clean: "clean_session d s" "list_all (clean_session d) ss" using Cons.prems(1) by simp_all
  from audit_session_empty [OF clean(1) s] show ?case
  proof
    assume "file1 = [] \<and> acks1 = []"
    then show ?thesis using Cons.IH [OF clean(2), of acks2] rest by (simp add: r)
  next
    assume 1: "file1 = audit_bytes d (map (raw_of d) acks1) \<and> list_all fits (map (raw_of d) acks1)"
    then show ?thesis using audit_run_bytes [OF clean(2), of "map (raw_of d) acks1" file2 acks2] rest by (simp add: r)
  qed
qed simp

section \<open>Properties\<close>

interpretation audit_chain: hash_chain H link_input audit_magic for H
  by unfold_locales (erule link_input_inject, rule link_input_long, simp add: audit_magic_def)

definition audit_inputs :: "audit_deps \<Rightarrow> byte list list \<Rightarrow> byte list list" where
  "audit_inputs d rs = hashed_inputs (ad_blake3 d) audit_magic rs"

text \<open>C40: What a sequence of sessions leaves, in which opening may fail, records may not serialise, and appends may
  fail. As long as a failure leaves no bytes behind and no record is over the cap, the log verifies, with exactly
  the records whose logging was acknowledged and the chain head over them. One more append that fails after \<open>n\<close>
  bytes shows as follows: below four bytes the log still verifies as before; short of the whole frame it is refused as
  truncated; with the whole frame in the file (the sync failed) the record counts, although it was not
  acknowledged. And one acknowledged record over the cap, which the logger does not check, makes the log
  fail for good.\<close>

theorem audit_sessions_verify:
  assumes "list_all (clean_session d) ss" and "audit_run d [] ss = (file', acks)" and "file' \<noteq> []"
    and "open_or_create d no_faults file' False = (file', Inr l)" and "ad_to_vec d r = Some raw" and "raw \<noteq> []"
    and "length raw < 2 ^ 32"
  shows "let good = Inr (length acks, head_over d (map (raw_of d) acks)) in
    verify_audit_file d (Some file') = good \<and>
    (length raw \<le> audit_max_record_bytes \<longrightarrow>
      verify_audit_file d (Some (al_file (fst (log_record d (Some n) l r)))) =
        (if n < 4 then good
         else if n < 36 + length raw then Inl (Usage (AuditTruncated (length file') (length raw)))
         else Inr (Suc (length acks), head_over d (map (raw_of d) acks @ [raw])))) \<and>
    (audit_max_record_bytes < length raw \<longrightarrow>
      verify_audit_file d (Some (al_file (fst (log_record d None l r)))) =
        Inl (Usage (AuditBadLength (length raw) (length file'))))"
proof -
  let ?rs = "map (raw_of d) acks"
  have b: "file' = audit_bytes d ?rs" and fits: "list_all fits ?rs" using audit_run_empty [OF assms(1,2)] assms(3) by auto
  have l: "l = \<lparr>al_file = audit_bytes d ?rs, al_prev_hash = chain_from (ad_blake3 d) (audit_seed d) ?rs\<rparr>"
    using open_audit_whole [OF fits, of d] assms(4) by (simp add: b)
  let ?frame = "audit_frame (ad_blake3 d) (al_prev_hash l) raw"
  have whole: "length ?frame = 36 + length raw" by (simp add: audit_frame_def)
  have failed: "al_file (fst (log_record d (Some n) l r)) = audit_bytes d ?rs @ take n ?frame"
    and logged: "al_file (fst (log_record d None l r)) = audit_bytes d ?rs @ ?frame"
    by (simp_all add: log_record_def assms(5) Let_def l)
  have good: "verify_audit_file d (Some file') = Inr (length acks, head_over d ?rs)"
    using verify_audit_complete [OF fits, of "[]" d] by (simp add: b)
  have torn: "verify_audit_file d (Some (audit_bytes d ?rs @ take n ?frame)) =
        (if n < 4 then Inr (length acks, head_over d ?rs)
         else if n < 36 + length raw then Inl (Usage (AuditTruncated (length file') (length raw)))
         else Inr (Suc (length acks), head_over d (?rs @ [raw])))" if "length raw \<le> audit_max_record_bytes"
  proof -
    have raw: "fits raw" using that assms(6) by (simp add: fits_def)
    have "audit_bytes d ?rs @ ?frame = audit_bytes d (?rs @ [raw])" by (simp add: audit_bytes_def l)
    then show ?thesis
      using verify_audit_complete [OF fits, of "take n ?frame" d] verify_audit_torn [OF fits raw, of n d]
        verify_audit_complete [of "?rs @ [raw]" "[]" d] fits raw whole by (simp add: b)
  qed
  show ?thesis
    using good torn verify_audit_oversize [OF fits _ assms(7), of d] unfolding failed logged by (simp add: b)
qed

text \<open>Two audit logs that verify with the same chain head hold the same record bodies, as many of
  them, up to less than four trailing bytes, unless the inputs hashed while verifying them
  contain a collision of BLAKE3.\<close>

theorem audit_tamper_evidence:
  assumes hex: "\<And>x y. ad_hex_encode d x = ad_hex_encode d y \<Longrightarrow> x = y"
    and "verify_audit_file d (Some c) = Inr (n, head)"
    and "verify_audit_file d (Some c') = Inr (n', head)"
  shows "\<exists>rs rs' tail tail'. c = audit_bytes d rs @ tail \<and> c' = audit_bytes d rs' @ tail' \<and>
    length tail < 4 \<and> length tail' < 4 \<and> n = length rs \<and> n' = length rs' \<and>
    (rs = rs' \<or> collide (ad_blake3 d) (audit_inputs d rs) (audit_inputs d rs'))"
proof -
  obtain rs tail where 1: "c = audit_bytes d rs @ tail" "length tail < 4" "n = length rs"
    "head = ad_hex_encode d (digest_bytes (chain_from (ad_blake3 d) (audit_seed d) rs))"
    using assms(2) by (rule verify_audit_sound)
  obtain rs' tail' where 2: "c' = audit_bytes d rs' @ tail'" "length tail' < 4" "n' = length rs'"
    "head = ad_hex_encode d (digest_bytes (chain_from (ad_blake3 d) (audit_seed d) rs'))"
    using assms(3) by (rule verify_audit_sound)
  have "digest_bytes (chain_from (ad_blake3 d) (audit_seed d) rs) =
      digest_bytes (chain_from (ad_blake3 d) (audit_seed d) rs')"
    by (rule hex) (use 1(4) 2(4) in simp)
  then have "rs = rs' \<or> collide (ad_blake3 d) (audit_inputs d rs) (audit_inputs d rs')"
    using audit_chain.head_determines_records [of "ad_blake3 d" rs rs']
    by (auto simp: audit_inputs_def hashed_inputs_def chain_from_head audit_seed_def)
  with 1 2 show ?thesis by blast
qed

section \<open>A torn append\<close>

definition demo_audit :: audit_deps where
  "demo_audit = \<lparr>ad_blake3 = (\<lambda>b. word_of_nat (length b)), ad_to_vec = (\<lambda>r. Some [7]),
     ad_hex_encode = map (\<lambda>b. char_of (unat b))\<rparr>"

definition demo_audit_record :: audit_record where
  "demo_audit_record = \<lparr>ar_timestamp_utc = ''t'', ar_argv_hash = ''h'', ar_target_path = None,
     ar_outcome = AuVerifyOnly True\<rparr>"

lemma raw_demo: "raw_of demo_audit r = [7]" "ad_to_vec demo_audit r = Some [7]"
  by (simp_all add: raw_of_def demo_audit_def)

definition demo_digest :: "byte list" where
  "demo_digest = 33 # replicate 31 0"

lemma not_demo_digest: "33 # 0 # 0 # 0 # 1 # xs \<noteq> demo_digest"
proof -
  have "demo_digest ! 4 = 0" by (simp add: demo_digest_def nth_Cons')
  moreover have "(33 # 0 # 0 # 0 # 1 # xs) ! 4 = (1 :: byte)" by (simp add: nth_Cons')
  ultimately show ?thesis by (metis zero_neq_one)
qed

lemma length_demo_digest: "length demo_digest = 32"
  by (simp add: demo_digest_def)

lemma demo_digest: "digest_bytes 33 = demo_digest"
  by (simp add: demo_digest_def digest_bytes_def le_bytes_def upt_rec) (simp add: numeral_eq_Suc)

lemma u32_le_1: "u32_le 1 = [1, 0, 0, 0]"
  by (simp add: u32_le_def le_bytes_def upt_rec)

lemma of_u32_le_1: "of_u32_le [1, 0, 0, 0] = 1"
  using u32_le_simps(2) [of 1] by (simp only: u32_le_1)

text \<open>Two sessions: the second append of the first one fails, and so does the first opening of the second.\<close>

definition demo_sessions :: "(audit_faults \<times> (audit_record \<times> nat option) list) list" where
  "demo_sessions = [(no_faults, [(demo_audit_record, None), (demo_audit_record, Some 0)]),
     (no_faults\<lparr>af_open := True\<rparr>, [(demo_audit_record, None)]), (no_faults, [(demo_audit_record, None)])]"

theorem audit_sessions_verify_witness:
  "\<exists>file' l. audit_run demo_audit [] demo_sessions = (file', [demo_audit_record, demo_audit_record]) \<and>
    verify_audit_file demo_audit (Some file') = Inr (2, head_over demo_audit [[7], [7]]) \<and>
    verify_audit_file demo_audit (Some (al_file (fst (log_record demo_audit (Some 9) l demo_audit_record)))) =
      Inl (Usage (AuditTruncated (length file') 1))"
proof -
  have clean: "list_all (clean_session demo_audit) demo_sessions"
    by (simp add: demo_sessions_def clean_session_def clean_append_def no_faults_def demo_audit_def fits_def audit_max_record_bytes_def)
  have fits: "list_all fits [[7]]" "list_all fits [[7], [7]]" by (simp_all add: fits_def audit_max_record_bytes_def)
  have first: "audit_session demo_audit [] (no_faults, [(demo_audit_record, None), (demo_audit_record, Some 0)]) =
      (audit_bytes demo_audit [[7]], [demo_audit_record])"
    by (simp add: audit_session_def open_or_create_def no_faults_def log_record_def raw_demo Let_def audit_bytes_def)
  have second: "audit_session demo_audit (audit_bytes demo_audit [[7]]) (no_faults\<lparr>af_open := True\<rparr>, as) =
      (audit_bytes demo_audit [[7]], [])" for as
    by (simp add: audit_session_def open_or_create_def)
  have third: "audit_session demo_audit (audit_bytes demo_audit [[7]]) (no_faults, [(demo_audit_record, None)]) =
      (audit_bytes demo_audit [[7], [7]], [demo_audit_record])"
    by (simp add: audit_session_def open_audit_whole [OF fits(1)] log_record_def raw_demo Let_def)
      (simp add: audit_bytes_def)
  have run: "audit_run demo_audit [] demo_sessions = (audit_bytes demo_audit [[7], [7]], [demo_audit_record, demo_audit_record])"
    by (simp add: demo_sessions_def first second third)
  have "audit_bytes demo_audit [[7], [7]] \<noteq> []" by (simp add: audit_bytes_def audit_magic_def)
  from audit_sessions_verify [OF clean run this open_audit_whole [OF fits(2)] raw_demo(2), of 9 demo_audit_record] run
  show ?thesis by (auto simp: raw_demo Let_def audit_max_record_bytes_def)
qed

theorem audit_tamper_evidence_witness:
  "\<exists>rs rs' tail tail'. audit_bytes demo_audit [[7]] = audit_bytes demo_audit rs @ tail \<and>
    audit_bytes demo_audit [[7]] @ [9] = audit_bytes demo_audit rs' @ tail' \<and> length rs = 1 \<and> length rs' = 1"
proof -
  have hex: "x = y" if "ad_hex_encode demo_audit x = ad_hex_encode demo_audit y" for x y
  proof -
    have "map ((of_char :: char \<Rightarrow> byte) \<circ> (\<lambda>b :: byte. char_of (unat b))) x = map (of_char \<circ> (\<lambda>b :: byte. char_of (unat b))) y"
      using that unfolding demo_audit_def by (metis audit_deps.select_convs(3) map_map)
    then show ?thesis by (simp add: comp_def of_char_byte)
  qed
  have "list_all fits [[7]]" by (simp add: fits_def audit_max_record_bytes_def)
  note complete = verify_audit_complete [OF this, of _ demo_audit]
  have "verify_audit_file demo_audit (Some (audit_bytes demo_audit [[7]])) =
      verify_audit_file demo_audit (Some (audit_bytes demo_audit [[7]] @ [9]))"
    using complete [of "[]"] complete [of "[9]"] by simp
  moreover have "verify_audit_file demo_audit (Some (audit_bytes demo_audit [[7]])) =
      Inr (1, ad_hex_encode demo_audit (digest_bytes (chain_from (ad_blake3 demo_audit) (audit_seed demo_audit) [[7]])))"
    using complete [of "[]"] by (simp add: head_over_def)
  ultimately obtain rs rs' tail tail' where "audit_bytes demo_audit [[7]] = audit_bytes demo_audit rs @ tail"
    "audit_bytes demo_audit [[7]] @ [9] = audit_bytes demo_audit rs' @ tail'" "1 = length rs" "1 = length rs'"
    using audit_tamper_evidence [of demo_audit "audit_bytes demo_audit [[7]]" 1 _ "audit_bytes demo_audit [[7]] @ [9]" 1] hex
    by (metis (no_types, lifting))
  then show ?thesis by metis
qed

text \<open>Appending to a log whose last record was torn by a crash destroys it: opening accepts the log
  (a torn record only ends the scan) and appends behind the torn bytes instead of cutting them, and
  the log no longer verifies.\<close>

theorem audit_torn_append_breaks_chain:
  "\<exists>l. let torn = take 50 (fst (audit_session demo_audit [] (no_faults, [(demo_audit_record, None), (demo_audit_record, None)])))
    in open_or_create demo_audit no_faults torn False = (torn, Inr l) \<and> al_file l = torn \<and>
       al_prev_hash l = chain_from (ad_blake3 demo_audit) (audit_seed demo_audit) [[7]] \<and>
       verify_audit_file demo_audit (Some (al_file (fst (log_record demo_audit None l demo_audit_record)))) =
         Inl (Usage (AuditMismatch 1))"
proof -
  let ?H = "ad_blake3 demo_audit" and ?seed = "audit_seed demo_audit" and ?frame = "[1, 0, 0, 0, 7] @ demo_digest"
  have link: "chain_link ?H [7] h = 33" for h
    by (simp add: chain_link_def link_input_def demo_audit_def)
  have frame: "audit_frame ?H h [7] = ?frame" for h
    by (simp add: audit_frame_def link demo_digest u32_le_1)
  have session: "fst (audit_session demo_audit [] (no_faults, [(demo_audit_record, None), (demo_audit_record, None)])) =
      audit_magic @ ?frame @ ?frame"
    by (simp add: audit_session_def open_or_create_def no_faults_def log_record_def raw_demo Let_def frame)
  let ?torn = "audit_magic @ ?frame @ [1, 0, 0, 0, 7, 33, 0, 0, 0]"
  have torn: "take 50 (audit_magic @ ?frame @ ?frame) = ?torn"
    by (simp add: audit_magic_def demo_digest_def numeral_eq_Suc)
  let ?l = "\<lparr>al_file = ?torn, al_prev_hash = chain_from ?H ?seed [[7]]\<rparr>"
  have "open_or_create demo_audit no_faults ?torn False = (?torn, Inr ?l)"
    unfolding open_or_create_def
    by (simp add: no_faults_def audit_magic_def read_exact_def length_demo_digest audit_scan.simps of_u32_le_1
        audit_max_record_bytes_def link demo_digest [symmetric] digest_bytes_def)
  moreover have "verify_audit_file demo_audit (Some (al_file (fst (log_record demo_audit None ?l demo_audit_record)))) =
         Inl (Usage (AuditMismatch 1))"
    by (simp add: log_record_def raw_demo frame link verify_audit_file_def audit_magic_def read_exact_def
        length_demo_digest verify_loop.simps of_u32_le_1 audit_max_record_bytes_def demo_digest
        not_demo_digest)
  ultimately show ?thesis unfolding session torn Let_def by (intro exI [of _ ?l]) simp
qed

end
