(* ===== verification/Tracker.thy ===== *)
theory Tracker
  imports DC_Prelude "HOL-Library.FSet"
begin

text \<open>
  The completion tracker of the asynchronous engine (\<open>crates/dc-io/src/tracker.rs\<close>): windows
  complete in any order, and the tracker commits only a contiguous prefix of them. The
  \<open>BTreeSet\<close> of harvested windows is a finite set.
\<close>

record tracker =
  tr_committed :: nat
  tr_contiguous :: nat
  tr_holes :: "nat fset"

record range_commit_spec =
  rc_first_window :: nat
  rc_num_windows :: nat

definition new_tracker :: "nat \<Rightarrow> tracker" where
  "new_tracker start = \<lparr>tr_committed = start, tr_contiguous = start, tr_holes = {||}\<rparr>"

text \<open>\<open>while harvested_holes.remove(&contiguous)\<close>.\<close>

function advance :: "nat \<Rightarrow> nat fset \<Rightarrow> nat \<times> nat fset" where
  "advance c hs = (if c |\<in>| hs then advance (c + 1) (hs |-| {|c|}) else (c, hs))"
  by pat_completeness auto
termination
  by (relation "measure (\<lambda>(_, hs). fcard hs)") (simp, simp only: in_measure case_prod_conv fcard_fminus1_less)

declare advance.simps [simp del]

definition on_cqe :: "tracker \<Rightarrow> nat \<Rightarrow> tracker" where
  "on_cqe t window =
     (if window < tr_contiguous t then t
      else let (c, hs) = advance (tr_contiguous t) (finsert window (tr_holes t))
           in t\<lparr>tr_contiguous := c, tr_holes := hs\<rparr>)"

definition can_commit :: "tracker \<Rightarrow> bool" where
  "can_commit t \<longleftrightarrow> tr_contiguous t > tr_committed t"

definition commit :: "tracker \<Rightarrow> nat \<Rightarrow> tracker \<times> range_commit_spec option" where
  "commit t lim =
     (let target = min lim (tr_contiguous t)
      in if target > tr_committed t
         then (t\<lparr>tr_committed := target\<rparr>,
               Some \<lparr>rc_first_window = tr_committed t, rc_num_windows = target - tr_committed t\<rparr>)
         else (t, None))"

definition commit_all_contiguous :: "tracker \<Rightarrow> tracker \<times> range_commit_spec option" where
  "commit_all_contiguous t = commit t (tr_contiguous t)"

section \<open>Runs\<close>

datatype tracker_op = Cqe nat | Commit nat | CommitAll

text \<open>The state of a run: the tracker, the windows harvested so far and the windows of the ranges committed.\<close>

type_synonym tracker_run = "tracker \<times> nat set \<times> nat list"

definition spec_windows :: "range_commit_spec option \<Rightarrow> nat list" where
  "spec_windows s = (case s of None \<Rightarrow> []
     | Some r \<Rightarrow> [rc_first_window r..<rc_first_window r + rc_num_windows r])"

fun tracker_step :: "tracker_run \<Rightarrow> tracker_op \<Rightarrow> tracker_run" where
  "tracker_step (t, seen, done) (Cqe w) = (on_cqe t w, insert w seen, done)"
| "tracker_step (t, seen, done) (Commit lim) =
     (let (t', s) = commit t lim in (t', seen, done @ spec_windows s))"
| "tracker_step (t, seen, done) CommitAll =
     (let (t', s) = commit_all_contiguous t in (t', seen, done @ spec_windows s))"

definition tracker_run :: "nat \<Rightarrow> tracker_op list \<Rightarrow> tracker_run" where
  "tracker_run start ops = foldl tracker_step (new_tracker start, {}, []) ops"

text \<open>
  Exactness: the watermark is the first window from \<open>start\<close> on that has not been harvested, the
  holes are the harvested windows past it, and the ranges committed so far are, in order, the
  windows from \<open>start\<close> to the committed mark.
\<close>

definition watermark :: "nat \<Rightarrow> nat set \<Rightarrow> nat \<Rightarrow> bool" where
  "watermark start seen c \<longleftrightarrow> start \<le> c \<and> {start..<c} \<subseteq> seen \<and> c \<notin> seen"

definition tracker_inv :: "nat \<Rightarrow> tracker_run \<Rightarrow> bool" where
  "tracker_inv start r \<longleftrightarrow> (case r of (t, seen, done) \<Rightarrow>
     watermark start seen (tr_contiguous t) \<and>
     (\<forall>h. h |\<in>| tr_holes t \<longleftrightarrow> h \<in> seen \<and> tr_contiguous t \<le> h) \<and>
     start \<le> tr_committed t \<and> tr_committed t \<le> tr_contiguous t \<and>
     done = [start..<tr_committed t])"

lemma advance_watermark:
  assumes "advance c hs = (c', hs')" and "start \<le> c" and "{start..<c} \<subseteq> seen"
    and "\<And>h. h |\<in>| hs \<longleftrightarrow> h \<in> seen \<and> c \<le> h"
  shows "watermark start seen c' \<and> c \<le> c' \<and> (\<forall>h. h |\<in>| hs' \<longleftrightarrow> h \<in> seen \<and> c' \<le> h)"
  using assms
proof (induction c hs rule: advance.induct)
  case (1 c hs)
  show ?case
  proof (cases "c |\<in>| hs")
    case True
    have "watermark start seen c' \<and> c + 1 \<le> c' \<and> (\<forall>h. h |\<in>| hs' \<longleftrightarrow> h \<in> seen \<and> c' \<le> h)"
    proof (rule 1(1) [OF True])
      show "advance (c + 1) (hs |-| {|c|}) = (c', hs')"
        using 1(2) True by (simp add: advance.simps [of c hs])
      show "{start..<c + 1} \<subseteq> seen"
        using 1(4,5) True by (auto simp: less_Suc_eq)
    qed (use 1 in auto)
    then show ?thesis by simp
  next
    case False
    then show ?thesis
      using 1 by (auto simp: advance.simps [of c hs] watermark_def)
  qed
qed

lemma on_cqe_inv:
  assumes "tracker_inv start (t, seen, done)"
  shows "tracker_inv start (on_cqe t w, insert w seen, done)"
proof (cases "w < tr_contiguous t")
  case True
  then show ?thesis
    using assms by (auto simp: tracker_inv_def on_cqe_def watermark_def)
next
  case False
  obtain c hs where adv: "advance (tr_contiguous t) (finsert w (tr_holes t)) = (c, hs)"
    by fastforce
  have "watermark start (insert w seen) c \<and> tr_contiguous t \<le> c \<and>
      (\<forall>h. h |\<in>| hs \<longleftrightarrow> h \<in> insert w seen \<and> c \<le> h)"
    by (rule advance_watermark [OF adv]) (use assms False in \<open>auto simp: tracker_inv_def watermark_def\<close>)
  then show ?thesis
    using assms False adv by (auto simp: tracker_inv_def on_cqe_def)
qed

lemma commit_inv:
  assumes "tracker_inv start (t, seen, done)" and "commit t lim = (t', s)"
  shows "tracker_inv start (t', seen, done @ spec_windows s)"
proof -
  define m where "m = min lim (tr_contiguous t)"
  have le: "m \<le> tr_contiguous t" by (simp add: m_def)
  have t': "t' = (if m > tr_committed t then t\<lparr>tr_committed := m\<rparr> else t)"
    and s: "spec_windows s = (if m > tr_committed t then [tr_committed t..<m] else [])"
    using assms(2) by (auto simp: commit_def m_def [symmetric] Let_def spec_windows_def split: if_splits)
  show ?thesis
  proof (cases "m > tr_committed t")
    case True
    then have "[start..<tr_committed t] @ [tr_committed t..<m] = [start..<m]"
      using assms(1) upt_add_eq_append [of start "tr_committed t" "m - tr_committed t"]
      by (simp add: tracker_inv_def)
    with assms(1) True le show ?thesis unfolding t' s tracker_inv_def by simp
  next
    case False
    with assms(1) show ?thesis unfolding t' s by simp
  qed
qed

interpretation completion: machine tracker_step "tracker_inv start" for start
proof
  fix start r op
  assume inv: "tracker_inv start r"
  obtain t seen dn where r: "r = (t, seen, dn)" by (cases r)
  show "tracker_inv start (tracker_step r op)"
  proof (cases op)
    case (Cqe w)
    with inv show ?thesis by (simp only: r tracker_step.simps on_cqe_inv)
  next
    case (Commit lim)
    obtain t' s where "commit t lim = (t', s)" by fastforce
    with inv Commit show ?thesis
      by (simp only: r tracker_step.simps Let_def case_prod_conv commit_inv)
  next
    case CommitAll
    obtain t' s where "commit t (tr_contiguous t) = (t', s)" by fastforce
    with inv CommitAll show ?thesis
      by (simp only: r tracker_step.simps Let_def case_prod_conv commit_all_contiguous_def commit_inv)
  qed
qed

section \<open>Properties\<close>

text \<open>C30: Whatever the order of completions, duplicates and commits, the ranges the tracker has
  committed are exactly the windows from its start up to the committed mark, each once and in
  order, and every one of them had completed: a committed range never contains a hole. Its
  watermark is the first window that has not completed, so nothing completed before it is held back.\<close>

theorem tracker_commits_no_hole:
  "case tracker_run start ops of (t, seen, done) \<Rightarrow>
     done = [start..<tr_committed t] \<and> set done \<subseteq> seen \<and>
     tr_contiguous t = (LEAST w. start \<le> w \<and> w \<notin> seen)"
proof -
  obtain t seen dn where run: "tracker_run start ops = (t, seen, dn)" by (cases "tracker_run start ops")
  have init: "tracker_inv start (new_tracker start, {}, [])"
    by (auto simp: tracker_inv_def new_tracker_def watermark_def)
  then have inv: "tracker_inv start (t, seen, dn)"
    using completion.run_inv [OF init, of ops] run by (simp only: tracker_run_def)
  then have "(LEAST w. start \<le> w \<and> w \<notin> seen) = tr_contiguous t"
    by (intro Least_equality) (auto simp: tracker_inv_def watermark_def not_le[symmetric])
  with inv show ?thesis
    by (auto simp: run tracker_inv_def watermark_def)
qed

end
