(* ===== verification/Wipe_Geometry.thy ===== *)
theory Wipe_Geometry
  imports DC_Prelude
begin

text \<open>
  How a device is cut into windows: \<open>WindowGeometry\<close> (\<open>crates/dc-io/src/geometry.rs\<close>) and
  \<open>LbaSpan\<close> (\<open>crates/dc-io/src/traits.rs\<close>). Sizes are \<open>u64\<close>, here \<open>nat\<close> with the checked and
  saturating operations of the source written out.
\<close>

section \<open>\<open>WindowGeometry\<close>\<close>

record window_geometry =
  wg_total_size_bytes :: nat
  wg_block_size :: nat
  wg_window_bytes :: nat
  wg_total_windows :: nat
  wg_short_window_bytes :: "nat option"

datatype geometry_error =
  InvalidBlockSize nat
| WindowNotMultiple nat nat
| TotalTooSmall nat nat

definition new_geometry :: "nat \<Rightarrow> nat \<Rightarrow> nat \<Rightarrow> geometry_error + window_geometry" where
  "new_geometry total_size block_size window_bytes =
     (if block_size = 0 \<or> block_size AND (block_size - 1) \<noteq> 0 then Inl (InvalidBlockSize block_size)
      else if window_bytes = 0 \<or> window_bytes mod block_size \<noteq> 0
      then Inl (WindowNotMultiple window_bytes block_size)
      else if total_size < window_bytes \<and> total_size < block_size
      then Inl (TotalTooSmall total_size block_size)
      else
        (let full_windows = total_size div window_bytes;
             remainder = total_size mod window_bytes;
             (total_windows, short) =
               (if remainder = 0 then (full_windows, None) else (full_windows + 1, Some remainder))
         in Inr \<lparr>wg_total_size_bytes = total_size, wg_block_size = block_size,
                 wg_window_bytes = window_bytes, wg_total_windows = total_windows,
                 wg_short_window_bytes = short\<rparr>))"

definition window_len_bytes :: "window_geometry \<Rightarrow> nat \<Rightarrow> nat" where
  "window_len_bytes g index =
     (if index + 1 = wg_total_windows g
      then case_option (wg_window_bytes g) id (wg_short_window_bytes g)
      else wg_window_bytes g)"

definition window_offset_bytes :: "window_geometry \<Rightarrow> nat \<Rightarrow> nat" where
  "window_offset_bytes g index = index * wg_window_bytes g"

section \<open>\<open>LbaSpan\<close>\<close>

record lba_span =
  ls_start_byte :: nat
  ls_total_bytes :: nat
  ls_logical_block_size :: nat
  ls_window_bytes :: nat

definition new_span :: "nat \<Rightarrow> nat \<Rightarrow> nat \<Rightarrow> lba_span" where
  "new_span total_bytes logical_block_size window_bytes =
     \<lparr>ls_start_byte = 0, ls_total_bytes = total_bytes,
      ls_logical_block_size = max logical_block_size 512, ls_window_bytes = max window_bytes 4096\<rparr>"

definition window_is_sampled :: "nat \<Rightarrow> nat \<Rightarrow> bool" where
  "window_is_sampled w stride \<longleftrightarrow> stride \<le> 1 \<or> w mod stride = 0"

definition div_ceil :: "nat \<Rightarrow> nat \<Rightarrow> nat" where
  "div_ceil a b = (if a mod b = 0 then a div b else a div b + 1)"

definition span_windows :: "lba_span \<Rightarrow> nat" where
  "span_windows sp = (if ls_window_bytes sp = 0 then 0 else div_ceil (ls_total_bytes sp) (ls_window_bytes sp))"

definition window_byte_range :: "lba_span \<Rightarrow> nat \<Rightarrow> nat \<times> nat" where
  "window_byte_range sp w =
     (let prod = w * ls_window_bytes sp;
          off = ls_start_byte sp + prod;
          offset = (if prod > u64_max \<or> off > u64_max then u64_max else off);
          remaining = ls_total_bytes sp - offset
      in (offset, min remaining (ls_window_bytes sp)))"

section \<open>Windows partition the device\<close>

text \<open>The byte length of window \<open>w\<close> of a device of \<open>t\<close> bytes in windows of \<open>b\<close>.\<close>

definition wlen :: "nat \<Rightarrow> nat \<Rightarrow> nat \<Rightarrow> nat" where
  "wlen t b w = min (t - w * b) b"

lemma div_ceil_le: "0 < b \<Longrightarrow> w < div_ceil t b \<longleftrightarrow> w * b < t"
proof -
  assume b: "0 < b"
  then have "w * b \<le> t \<longleftrightarrow> w \<le> t div b" by (simp add: less_eq_div_iff_mult_less_eq)
  moreover have "w * b = t \<longleftrightarrow> w = t div b \<and> t mod b = 0" using b by auto
  ultimately have "w * b < t \<longleftrightarrow> w < t div b \<or> (w = t div b \<and> t mod b \<noteq> 0)"
    by (auto simp: order.strict_iff_order [of "w * b"] order.strict_iff_order [of w])
  then show ?thesis by (auto simp: div_ceil_def)
qed

lemma wlen_pos: "0 < b \<Longrightarrow> w < div_ceil t b \<Longrightarrow> 0 < wlen t b w"
  by (simp add: div_ceil_le wlen_def)

lemma div_ceil_mult: "0 < b \<Longrightarrow> t \<le> div_ceil t b * b"
  using div_ceil_le [of b "div_ceil t b" t] by auto

lemma wlen_step:
  assumes "0 < b" and "w < div_ceil t b"
  shows "min (w * b) t + wlen t b w = min (Suc w * b) t"
  using assms by (auto simp: wlen_def div_ceil_le min_def)

lemma sum_wlen:
  assumes "0 < b" and "n \<le> div_ceil t b"
  shows "(\<Sum>w<n. wlen t b w) = min (n * b) t"
  using assms(2)
proof (induction n)
  case (Suc n)
  then show ?case using wlen_step [OF assms(1), of n t] by simp
qed simp

lemma window_byte_range_eq:
  assumes "ls_start_byte sp = 0" and "ls_total_bytes sp \<le> u64_max"
    and "0 < ls_window_bytes sp" and "w < span_windows sp"
  shows "window_byte_range sp w = (w * ls_window_bytes sp, wlen (ls_total_bytes sp) (ls_window_bytes sp) w)"
proof -
  have "w * ls_window_bytes sp < ls_total_bytes sp"
    using assms by (simp add: span_windows_def div_ceil_le split: if_splits)
  with assms show ?thesis by (simp add: window_byte_range_def Let_def wlen_def)
qed

lemma new_geometry_Inr:
  assumes "new_geometry t bs b = Inr g"
  shows "0 < b" and "wg_total_windows g = div_ceil t b" and "wg_window_bytes g = b"
    and "w < wg_total_windows g \<Longrightarrow> window_len_bytes g w = wlen t b w"
proof -
  show b: "0 < b" and n: "wg_total_windows g = div_ceil t b" and wb: "wg_window_bytes g = b"
    using assms by (auto simp: new_geometry_def Let_def div_ceil_def split: if_splits)
  assume w: "w < wg_total_windows g"
  then have lt: "w * b < t" using b n by (simp add: div_ceil_le)
  show "window_len_bytes g w = wlen t b w"
  proof (cases "w + 1 = wg_total_windows g")
    case False
    then have "Suc w * b < t" using w n b div_ceil_le [of b "Suc w" t] by simp
    then show ?thesis using False wb by (simp add: window_len_bytes_def wlen_def)
  next
    case True
    have short: "wg_short_window_bytes g = (if t mod b = 0 then None else Some (t mod b))"
      using assms by (auto simp: new_geometry_def Let_def split: if_splits)
    show ?thesis
    proof (cases "t mod b = 0")
      case True
      then have "Suc w * b = t"
        using \<open>w + 1 = wg_total_windows g\<close> n by (auto simp: div_ceil_def)
      then have "t - w * b = b" by (metis add_diff_cancel_right' mult_Suc)
      then show ?thesis
        using True short wb \<open>w + 1 = wg_total_windows g\<close> by (simp add: window_len_bytes_def wlen_def)
    next
      case False
      then have "w = t div b" using \<open>w + 1 = wg_total_windows g\<close> n by (simp add: div_ceil_def)
      then have "t - w * b = t mod b" by (simp add: minus_div_mult_eq_mod)
      then show ?thesis
        using False short b \<open>w + 1 = wg_total_windows g\<close> by (simp add: window_len_bytes_def wlen_def min_def)
    qed
  qed
qed

section \<open>Properties\<close>

text \<open>A geometry that is accepted partitions the device: its windows are non-empty, each starts where
  the one before it ends, the first at byte 0, and their lengths add up to the device's size.\<close>

theorem geometry_partitions_device:
  assumes "new_geometry total_size block_size window_bytes = Inr g"
  shows "(\<Sum>w<wg_total_windows g. window_len_bytes g w) = total_size \<and>
    (\<forall>w < wg_total_windows g. 0 < window_len_bytes g w \<and>
       window_offset_bytes g w = (\<Sum>v<w. window_len_bytes g v))"
proof -
  note g = new_geometry_Inr [OF assms]
  have sum: "(\<Sum>v<w. window_len_bytes g v) = min (w * window_bytes) total_size"
    if "w \<le> wg_total_windows g" for w
    using that sum_wlen [OF g(1), of w total_size] g(2,4) by simp
  have "total_size \<le> wg_total_windows g * window_bytes" using div_ceil_mult [OF g(1)] g(2) by simp
  moreover have "window_offset_bytes g w = min (w * window_bytes) total_size" if "w < wg_total_windows g" for w
    using that g(1-3) div_ceil_le [of window_bytes w total_size] by (simp add: window_offset_bytes_def)
  ultimately show ?thesis
    using sum g(1,2,4) wlen_pos [of window_bytes _ total_size] by simp
qed

theorem geometry_partitions_device_witness:
  "\<exists>g. new_geometry 10240 512 4096 = Inr g \<and> wg_short_window_bytes g = Some 2048 \<and>
     (\<Sum>w<wg_total_windows g. window_len_bytes g w) = 10240"
proof -
  let ?g = "\<lparr>wg_total_size_bytes = 10240, wg_block_size = 512, wg_window_bytes = 4096,
     wg_total_windows = 3, wg_short_window_bytes = Some 2048\<rparr>"
  have "new_geometry 10240 512 4096 = Inr ?g" by (simp add: new_geometry_def Let_def)
  with geometry_partitions_device [OF this] show ?thesis by auto
qed

end
