(* ===== verification/Wipe_Engine.thy ===== *)
theory Wipe_Engine
  imports Errors Pattern Wipe_Geometry
begin

text \<open>
  The synchronous I/O engine (\<open>crates/dc-io/src/sync_engine.rs\<close>): the write pass, the zero
  fast path and the read-back pass. The target is its bytes; the kernel is the list of outcomes
  of the system calls in the order they are made, so every pattern of short transfers, \<open>EINTR\<close>
  and errors is a value of it, and a call with no outcome left has not returned (\<open>Blocked\<close>).
  Whether the cancel flag is seen is a function of the window (or byte offset) at which it is
  tested. The progress callback only observes, the engine's buffer is scratch that every use
  fills first, and durations are not modelled.
\<close>

datatype 'a io = Blocked | Panic | Done 'a

datatype syscall = Moved nat | SysErr int

definition EINTR :: int where "EINTR = 4"

record pass_outcome =
  po_windows_written :: nat
  po_bytes_written :: nat
  po_fast_path_used :: bool

record engine =
  en_buffer :: "byte list"
  en_supports_write_zeroes :: bool
  en_max_write_zeroes_bytes :: nat

definition new_engine :: "nat \<Rightarrow> bool \<Rightarrow> engine" where
  "new_engine window_bytes supports =
     \<lparr>en_buffer = replicate window_bytes 0, en_supports_write_zeroes = supports,
      en_max_write_zeroes_bytes = 2 * 1024 * 1024 * 1024\<rparr>"

definition write_at :: "byte list \<Rightarrow> nat \<Rightarrow> byte list \<Rightarrow> byte list" where
  "write_at disk off data = take off disk @ data @ drop (off + length data) disk"

section \<open>The write pass\<close>

text \<open>The inner loop: \<open>pwrite\<close> until the window is out.\<close>

fun pwrite_all ::
  "syscall list \<Rightarrow> nat \<Rightarrow> nat \<Rightarrow> byte list \<Rightarrow> nat \<Rightarrow> byte list \<Rightarrow>
   ((dc_error + unit) \<times> syscall list \<times> byte list) option" where
  "pwrite_all [] lbs off buf written disk =
     (if written < length buf then None else Some (Inr (), [], disk))"
| "pwrite_all (e # env) lbs off buf written disk =
     (if \<not> written < length buf then Some (Inr (), e # env, disk)
      else case e of
        SysErr errno \<Rightarrow>
          if errno = EINTR then pwrite_all env lbs off buf written disk
          else Some (Inl (Io ''pwrite'' errno (Some (off div lbs))), env, disk)
      | Moved k \<Rightarrow>
          let n = min k (length buf - written)
          in if n = 0 then Some (Inl (Io ''pwrite'' 5 (Some ((off + written) div lbs))), env, disk)
             else pwrite_all env lbs off buf (written + n)
               (write_at disk (off + written) (take n (drop written buf))))"

fun write_windows ::
  "keystream \<Rightarrow> source \<Rightarrow> (nat \<Rightarrow> bool) \<Rightarrow> nat \<Rightarrow> lba_span \<Rightarrow> nat list \<Rightarrow> byte list \<Rightarrow> nat \<Rightarrow>
   syscall list \<Rightarrow> byte list \<Rightarrow> ((dc_error + nat) \<times> syscall list \<times> byte list) io" where
  "write_windows ks pat cancelled pass sp [] buffer bytes env disk = Done (Inr bytes, env, disk)"
| "write_windows ks pat cancelled pass sp (w # ws) buffer bytes env disk =
     (if cancelled w then Done (Inl (Interrupted (Some (pass, w - 1))), env, disk)
      else let (offset, len) = window_byte_range sp w
      in if len = 0 then Done (Inr bytes, env, disk)
      else if length buffer < len then Panic
      else let buffer' = (if window_invariant pat then buffer
                          else fill ks pat (word_of_nat w) len @ drop len buffer)
      in case pwrite_all env (ls_logical_block_size sp) offset (take len buffer') 0 disk of
        None \<Rightarrow> Blocked
      | Some (Inl e, env', disk') \<Rightarrow> Done (Inl e, env', disk')
      | Some (Inr _, env', disk') \<Rightarrow>
          write_windows ks pat cancelled pass sp ws buffer' (bytes + len) env' disk')"

definition write_pass ::
  "keystream \<Rightarrow> source \<Rightarrow> (nat \<Rightarrow> bool) \<Rightarrow> engine \<Rightarrow> nat \<Rightarrow> lba_span \<Rightarrow> nat \<Rightarrow> syscall list \<Rightarrow>
   byte list \<Rightarrow> ((dc_error + pass_outcome) \<times> syscall list \<times> byte list) io" where
  "write_pass ks pat cancelled en pass sp start_window env disk =
     (let tot = span_windows sp;
          buffer = (if window_invariant pat then fill ks pat 0 (length (en_buffer en)) else en_buffer en)
      in case write_windows ks pat cancelled pass sp [start_window..<tot] buffer 0 env disk of
        Blocked \<Rightarrow> Blocked
      | Panic \<Rightarrow> Panic
      | Done (Inl e, env', disk') \<Rightarrow> Done (Inl e, env', disk')
      | Done (Inr bytes, env', disk') \<Rightarrow>
          Done (Inr \<lparr>po_windows_written = tot - start_window, po_bytes_written = bytes,
                 po_fast_path_used = False\<rparr>, env', disk'))"

section \<open>The zero fast path\<close>

text \<open>
  \<open>BLKZEROOUT\<close> in chunks; a refused ioctl (any non-zero return) falls back to the write pass from
  the window the current offset lies in.
\<close>

fun zero_chunks ::
  "keystream \<Rightarrow> (nat \<Rightarrow> bool) \<Rightarrow> (nat \<Rightarrow> bool) \<Rightarrow> engine \<Rightarrow> nat \<Rightarrow> lba_span \<Rightarrow> nat \<Rightarrow> nat \<Rightarrow> nat \<Rightarrow>
   syscall list \<Rightarrow> byte list \<Rightarrow> ((dc_error + pass_outcome) \<times> syscall list \<times> byte list) io" where
  "zero_chunks ks ccancelled wcancelled en pass sp start current zeroed env disk =
     (if \<not> current < ls_total_bytes sp
      then Done (Inr \<lparr>po_windows_written = span_windows sp - start, po_bytes_written = zeroed,
                   po_fast_path_used = True\<rparr>, env, disk)
      else if ccancelled current
      then Done (Inl (Interrupted (Some (pass, current div ls_window_bytes sp - 1))), env, disk)
      else let this_chunk = min (ls_total_bytes sp - current) (en_max_write_zeroes_bytes en)
      in case env of
        [] \<Rightarrow> Blocked
      | e # env' \<Rightarrow>
          if e \<noteq> Moved 0
          then write_pass ks ZeroSource wcancelled en pass sp (current div ls_window_bytes sp) env' disk
          else zero_chunks ks ccancelled wcancelled en pass sp start (current + this_chunk)
            (zeroed + this_chunk) env' (write_at disk current (replicate this_chunk 0)))"

declare zero_chunks.simps [simp del]

definition zero_pass ::
  "keystream \<Rightarrow> (nat \<Rightarrow> bool) \<Rightarrow> (nat \<Rightarrow> bool) \<Rightarrow> engine \<Rightarrow> nat \<Rightarrow> lba_span \<Rightarrow> nat \<Rightarrow> syscall list \<Rightarrow>
   byte list \<Rightarrow> ((dc_error + pass_outcome) \<times> syscall list \<times> byte list) io" where
  "zero_pass ks ccancelled wcancelled en pass sp start_window env disk =
     (if en_supports_write_zeroes en
      then zero_chunks ks ccancelled wcancelled en pass sp start_window
        (start_window * ls_window_bytes sp) 0 env disk
      else write_pass ks ZeroSource wcancelled en pass sp start_window env disk)"

section \<open>The read-back pass\<close>

text \<open>\<open>pread\<close> until the window is in; past the end of the target nothing is moved.\<close>

fun pread_all ::
  "syscall list \<Rightarrow> nat \<Rightarrow> nat \<Rightarrow> nat \<Rightarrow> byte list \<Rightarrow> byte list \<Rightarrow>
   ((dc_error + byte list) \<times> syscall list) option" where
  "pread_all [] lbs off len got disk =
     (if length got < len then None else Some (Inr got, []))"
| "pread_all (e # env) lbs off len got disk =
     (if \<not> length got < len then Some (Inr got, e # env)
      else case e of
        SysErr errno \<Rightarrow>
          if errno = EINTR then pread_all env lbs off len got disk
          else Some (Inl (Io ''pread'' errno (Some (off div lbs))), env)
      | Moved k \<Rightarrow>
          let chunk = take (min k (len - length got)) (drop (off + length got) disk)
          in if chunk = [] then Some (Inl (Io ''pread'' 5 (Some ((off + length got) div lbs))), env)
             else pread_all env lbs off len (got @ chunk) disk)"

text \<open>The sink is a function; \<open>expected\<close> is the second buffer of the engine.\<close>

fun read_windows ::
  "keystream \<Rightarrow> source \<Rightarrow> (nat \<Rightarrow> bool) \<Rightarrow> lba_span \<Rightarrow> nat \<Rightarrow> nat \<Rightarrow>
   ('k \<Rightarrow> nat \<Rightarrow> bool \<Rightarrow> byte list \<Rightarrow> dc_error + 'k) \<Rightarrow> nat list \<Rightarrow> byte list \<Rightarrow> syscall list \<Rightarrow>
   byte list \<Rightarrow> 'k \<Rightarrow> ((dc_error + 'k) \<times> syscall list) io" where
  "read_windows ks pat cancelled sp stride blen on_window [] expected env disk k = Done (Inr k, env)"
| "read_windows ks pat cancelled sp stride blen on_window (w # ws) expected env disk k =
     (if cancelled w then Done (Inl (Interrupted None), env)
      else if \<not> window_is_sampled w stride
      then read_windows ks pat cancelled sp stride blen on_window ws expected env disk k
      else let (offset, len) = window_byte_range sp w
      in if len = 0 then Done (Inr k, env)
      else if blen < len then Panic
      else case pread_all env (ls_logical_block_size sp) offset len [] disk of
        None \<Rightarrow> Blocked
      | Some (Inl e, env') \<Rightarrow> Done (Inl e, env')
      | Some (Inr buf, env') \<Rightarrow>
          (let expected' = (if window_invariant pat then expected
                            else fill ks pat (word_of_nat w) len @ drop len expected);
               is_valid = (buf = take len expected')
           in case on_window k w is_valid buf of
                Inl e \<Rightarrow> Done (Inl e, env')
              | Inr k' \<Rightarrow>
                  read_windows ks pat cancelled sp stride blen on_window ws expected' env' disk k'))"

definition read_verify ::
  "keystream \<Rightarrow> source \<Rightarrow> (nat \<Rightarrow> bool) \<Rightarrow> engine \<Rightarrow> lba_span \<Rightarrow> nat \<Rightarrow>
   ('k \<Rightarrow> nat \<Rightarrow> bool \<Rightarrow> byte list \<Rightarrow> dc_error + 'k) \<Rightarrow> syscall list \<Rightarrow> byte list \<Rightarrow> 'k \<Rightarrow>
   ((dc_error + 'k) \<times> syscall list) io" where
  "read_verify ks pat cancelled en sp stride on_window env disk k =
     (let expected = (if window_invariant pat then fill ks pat 0 (ls_window_bytes sp)
                      else replicate (ls_window_bytes sp) 0)
      in read_windows ks pat cancelled sp (max stride 1) (length (en_buffer en)) on_window
           [0..<span_windows sp] expected env disk k)"

section \<open>What the loops leave on the device\<close>

text \<open>The intended contents: every window filled by the pattern.\<close>

definition win :: "keystream \<Rightarrow> source \<Rightarrow> lba_span \<Rightarrow> nat \<Rightarrow> byte list" where
  "win ks pat sp w = fill ks pat (word_of_nat w) (wlen (ls_total_bytes sp) (ls_window_bytes sp) w)"

definition wipe_image :: "keystream \<Rightarrow> source \<Rightarrow> lba_span \<Rightarrow> nat list \<Rightarrow> byte list" where
  "wipe_image ks pat sp ws = concat (map (win ks pat sp) ws)"

text \<open>A span the engine can serve: from byte 0, within \<open>u64\<close>, its windows within the buffer.\<close>

definition span_ok :: "lba_span \<Rightarrow> engine \<Rightarrow> byte list \<Rightarrow> bool" where
  "span_ok sp en disk \<longleftrightarrow> ls_start_byte sp = 0 \<and> ls_total_bytes sp \<le> u64_max \<and>
     0 < ls_window_bytes sp \<and> ls_window_bytes sp \<le> length (en_buffer en) \<and>
     ls_total_bytes sp \<le> length disk"

lemma length_write_at [simp]: "off + length data \<le> length disk \<Longrightarrow> length (write_at disk off data) = length disk"
  by (simp add: write_at_def)

lemma write_at_append:
  "off + length xs + length ys \<le> length disk \<Longrightarrow>
   write_at (write_at disk off xs) (off + length xs) ys = write_at disk off (xs @ ys)"
  by (simp add: write_at_def ac_simps min_absorb2)

lemma write_at_Nil [simp]: "write_at disk off [] = disk"
  by (simp add: write_at_def)

lemma pwrite_all_ok:
  assumes "pwrite_all env lbs off buf written disk = Some (r, env', disk')"
    and "written \<le> length buf" and "off + length buf \<le> length disk"
  shows "\<exists>m. disk' = write_at disk (off + written) (take m (drop written buf)) \<and>
    (r = Inr () \<longrightarrow> length buf \<le> written + m) \<and> (\<forall>c. r \<noteq> Inl (Interrupted c))"
  using assms
proof (induction env lbs off buf written disk rule: pwrite_all.induct)
  case (1 lbs off buf written disk)
  then show ?case by (intro exI [of _ 0]) (auto split: if_splits)
next
  case (2 e env lbs off buf written disk)
  show ?case
  proof (cases "written < length buf")
    case False
    with 2(3) show ?thesis by (intro exI [of _ 0]) auto
  next
    case lt: True
    show ?thesis
    proof (cases e)
      case (SysErr n)
      show ?thesis
      proof (cases "n = EINTR")
        case True
        with 2(2) [OF _ SysErr True] 2(3-) lt SysErr show ?thesis by simp
      next
        case False
        with 2(3) lt SysErr show ?thesis by (intro exI [of _ 0]) auto
      qed
    next
      case (Moved k)
      define n where "n = min k (length buf - written)"
      show ?thesis
      proof (cases "n = 0")
        case True
        then show ?thesis using 2(3) lt Moved by (intro exI [of _ 0]) (auto simp: n_def Let_def)
      next
        case False
        let ?xs = "take n (drop written buf)"
        have len: "length ?xs = n" using n_def by simp
        have rec: "pwrite_all env lbs off buf (written + n) (write_at disk (off + written) ?xs) =
            Some (r, env', disk')"
          using 2(3) lt Moved False by (simp add: n_def [symmetric] Let_def)
        have "\<exists>m. disk' = write_at (write_at disk (off + written) ?xs) (off + (written + n))
            (take m (drop (written + n) buf)) \<and> (r = Inr () \<longrightarrow> length buf \<le> written + n + m) \<and>
            (\<forall>c. r \<noteq> Inl (Interrupted c))"
        proof (rule 2(1) [OF _ Moved n_def False rec])
          show "written + n \<le> length buf" using lt by (simp add: n_def)
          show "off + length buf \<le> length (write_at disk (off + written) ?xs)"
            using 2(5) lt len by (subst length_write_at) (simp_all add: n_def)
        qed (use lt in simp)
        then obtain m where m: "disk' = write_at (write_at disk (off + written) ?xs) (off + (written + n))
            (take m (drop (written + n) buf))" and r: "r = Inr () \<longrightarrow> length buf \<le> written + n + m"
            "\<forall>c. r \<noteq> Inl (Interrupted c)"
          by blast
        have "disk' = write_at disk (off + written) (?xs @ take m (drop (written + n) buf))"
          using write_at_append [of "off + written" ?xs "take m (drop (written + n) buf)" disk] 2(5) lt len
          by (simp add: m add.assoc)
        also have "?xs @ take m (drop (written + n) buf) = take (n + m) (drop written buf)"
          by (simp add: take_add add.commute [of written n])
        finally show ?thesis using r by (intro exI [of _ "n + m"]) auto
      qed
    qed
  qed
qed

lemma fill_take [simp]: "m \<le> n \<Longrightarrow> take m (fill ks s w n) = fill ks s w m"
  by (rule fill_source_prefix)

text \<open>
  The buffer the loop carries: for an invariant source a fill of the whole buffer, whose prefixes
  serve every window.
\<close>

definition buffer_ok :: "keystream \<Rightarrow> source \<Rightarrow> nat \<Rightarrow> byte list \<Rightarrow> bool" where
  "buffer_ok ks pat n buffer \<longleftrightarrow> length buffer = n \<and>
     (window_invariant pat \<longrightarrow> buffer = fill ks pat 0 n)"

lemma buffer_prefix:
  assumes "buffer_ok ks pat n buffer" and "len \<le> n"
  shows "take len (if window_invariant pat then buffer else fill ks pat w len @ drop len buffer) =
    fill ks pat w len"
    and "buffer_ok ks pat n (if window_invariant pat then buffer else fill ks pat w len @ drop len buffer)"
  using assms src.invariant_prefix [of pat len n ks 0 w]
  by (auto simp: buffer_ok_def fill_source_length)

text \<open>
  The contents of a device of which the windows \<open>ws\<close> from \<open>k\<close> on have been written.
\<close>

abbreviation off_of :: "lba_span \<Rightarrow> nat \<Rightarrow> nat" where
  "off_of sp k \<equiv> min (k * ls_window_bytes sp) (ls_total_bytes sp)"

definition written_upto :: "keystream \<Rightarrow> source \<Rightarrow> lba_span \<Rightarrow> nat \<Rightarrow> nat \<Rightarrow> byte list \<Rightarrow> byte list" where
  "written_upto ks pat sp k n disk = write_at disk (off_of sp k) (wipe_image ks pat sp [k..<n])"

lemma length_win: "length (win ks pat sp w) = wlen (ls_total_bytes sp) (ls_window_bytes sp) w"
  by (simp add: win_def fill_source_length)

lemma length_image:
  assumes "0 < ls_window_bytes sp" and "k \<le> n" and "n \<le> span_windows sp"
  shows "off_of sp k + length (wipe_image ks pat sp [k..<n]) = off_of sp n"
  using assms(2,3)
proof (induction n rule: dec_induct)
  case base
  then show ?case by (simp add: wipe_image_def)
next
  case (step n)
  have "min (n * ls_window_bytes sp) (ls_total_bytes sp) + wlen (ls_total_bytes sp) (ls_window_bytes sp) n =
      min (Suc n * ls_window_bytes sp) (ls_total_bytes sp)"
    by (rule wlen_step) (use assms(1) step in \<open>auto simp: span_windows_def split: if_splits\<close>)
  with step show ?case by (simp add: wipe_image_def length_win)
qed

lemma off_of_last:
  "0 < ls_window_bytes sp \<Longrightarrow> off_of sp (span_windows sp) = ls_total_bytes sp"
  using div_ceil_mult [of "ls_window_bytes sp" "ls_total_bytes sp"]
  by (simp add: span_windows_def)

lemma window_starts_inside: "0 < ls_window_bytes sp \<Longrightarrow> k < span_windows sp \<Longrightarrow> k * ls_window_bytes sp < ls_total_bytes sp"
  by (simp add: span_windows_def div_ceil_le)

lemma written_upto_step:
  assumes "span_ok sp en disk" and "k < n" and "n \<le> span_windows sp"
  shows "written_upto ks pat sp (Suc k) n (write_at disk (k * ls_window_bytes sp) (win ks pat sp k)) =
    written_upto ks pat sp k n disk"
proof -
  have pos: "0 < ls_window_bytes sp" using assms(1) by (simp add: span_ok_def)
  have k: "off_of sp k = k * ls_window_bytes sp"
    using window_starts_inside [OF pos, of k] assms(2,3) by simp
  have len: "off_of sp k + length (win ks pat sp k) = off_of sp (Suc k)"
    using length_image [of sp k "Suc k" ks pat] pos assms(2,3) by (simp add: wipe_image_def)
  have "off_of sp n \<le> ls_total_bytes sp" by simp
  then have "off_of sp k + length (wipe_image ks pat sp [k..<n]) \<le> length disk"
    using length_image [of sp k n ks pat] pos assms unfolding span_ok_def by linarith
  moreover have "wipe_image ks pat sp [k..<n] = win ks pat sp k @ wipe_image ks pat sp [Suc k..<n]"
    using assms(2) by (simp add: wipe_image_def upt_conv_Cons)
  ultimately show ?thesis
    using write_at_append [of "off_of sp k" "win ks pat sp k" "wipe_image ks pat sp [Suc k..<n]" disk] len
    unfolding written_upto_def k by simp
qed

lemma write_windows_ok:
  assumes "write_windows ks pat cancelled pass sp [k..<n] buffer bytes env disk = Done (r, env', disk')"
    and "span_ok sp en disk" and "n \<le> span_windows sp" and "k \<le> n"
    and "buffer_ok ks pat (length (en_buffer en)) buffer"
  shows "(\<forall>b. r = Inr b \<longrightarrow> disk' = written_upto ks pat sp k n disk \<and>
      b = bytes + (off_of sp n - off_of sp k)) \<and>
    (\<forall>c. r = Inl (Interrupted c) \<longrightarrow> (\<exists>w. k \<le> w \<and> w < n \<and> cancelled w \<and> c = Some (pass, w - 1) \<and>
      disk' = written_upto ks pat sp k w disk))"
  using assms
proof (induction "n - k" arbitrary: k buffer bytes env disk)
  case 0
  then show ?case by (auto simp: written_upto_def wipe_image_def)
next
  case (Suc m)
  let ?b = "ls_window_bytes sp" and ?t = "ls_total_bytes sp"
  let ?len = "wlen ?t ?b k"
  have kn: "k < n" and upt: "[k..<n] = k # [Suc k..<n]" using Suc.hyps(2) by (simp_all add: upt_conv_Cons)
  have pos: "0 < ?b" and blen: "?b \<le> length (en_buffer en)" using Suc.prems(2) by (simp_all add: span_ok_def)
  have range: "window_byte_range sp k = (k * ?b, ?len)"
    using Suc.prems(2,3) kn by (intro window_byte_range_eq) (auto simp: span_ok_def)
  have len: "?len \<noteq> 0" "?len \<le> length buffer"
    using wlen_pos [of ?b k ?t] Suc.prems(3,5) kn pos blen
    by (auto simp: span_windows_def wlen_def buffer_ok_def split: if_splits)
  let ?buf = "if window_invariant pat then buffer else fill ks pat (word_of_nat k) ?len @ drop ?len buffer"
  have buf: "take ?len ?buf = win ks pat sp k" "buffer_ok ks pat (length (en_buffer en)) ?buf"
    using buffer_prefix [OF Suc.prems(5), of ?len "word_of_nat k"] len(2) Suc.prems(5)
    by (simp_all add: win_def buffer_ok_def)
  show ?case
  proof (cases "cancelled k")
    case True
    then show ?thesis
      using Suc.prems(1) kn by (auto simp: upt written_upto_def wipe_image_def intro!: exI [of _ k])
  next
    case False
    then obtain r1 env1 disk1 where pw: "pwrite_all env (ls_logical_block_size sp) (k * ?b) (take ?len ?buf) 0 disk =
        Some (r1, env1, disk1)"
      and rest: "(case r1 of Inl e \<Rightarrow> Done (Inl e, env1, disk1)
        | Inr _ \<Rightarrow> write_windows ks pat cancelled pass sp [Suc k..<n] ?buf (bytes + ?len) env1 disk1) =
        Done (r, env', disk')"
      using Suc.prems(1) range len
      by (simp add: upt Let_def split: option.splits prod.splits sum.splits)
    have fits: "k * ?b + length (take ?len ?buf) \<le> length disk"
    proof -
      have "k * ?b + ?len \<le> ?t"
        using Suc.prems(3) kn window_starts_inside [OF pos, of k] by (simp add: wlen_def)
      then show ?thesis using Suc.prems(2) unfolding buf(1) length_win span_ok_def by linarith
    qed
    from pwrite_all_ok [OF pw _ fits] obtain q where q: "disk1 = write_at disk (k * ?b) (take q (win ks pat sp k))"
      "r1 = Inr () \<longrightarrow> ?len \<le> q" "\<forall>c. r1 \<noteq> Inl (Interrupted c)"
      by (auto simp: buf length_win)
    show ?thesis
    proof (cases r1)
      case (Inl e)
      then show ?thesis using rest q(3) by auto
    next
      case (Inr u)
      then have disk1: "disk1 = write_at disk (k * ?b) (win ks pat sp k)"
        using q by (simp add: length_win)
      have span1: "span_ok sp en disk1"
        using Suc.prems(2) fits unfolding disk1 by (simp add: span_ok_def buf)
      have "off_of sp k + ?len = off_of sp (Suc k)" "off_of sp (Suc k) \<le> off_of sp n"
        using length_image [of sp k "Suc k" ks pat] length_image [of sp "Suc k" n ks pat] pos kn Suc.prems(3)
        by (simp_all add: wipe_image_def length_win)
      moreover have "written_upto ks pat sp (Suc k) w disk1 = written_upto ks pat sp k w disk"
        if "k < w" "w \<le> n" for w
        unfolding disk1 by (rule written_upto_step [OF Suc.prems(2)]) (use that Suc.prems(3) in auto)
      moreover have "(\<forall>b. r = Inr b \<longrightarrow> disk' = written_upto ks pat sp (Suc k) n disk1 \<and>
          b = bytes + ?len + (off_of sp n - off_of sp (Suc k))) \<and>
        (\<forall>c. r = Inl (Interrupted c) \<longrightarrow> (\<exists>w. Suc k \<le> w \<and> w < n \<and> cancelled w \<and> c = Some (pass, w - 1) \<and>
          disk' = written_upto ks pat sp (Suc k) w disk1))"
        by (rule Suc.hyps(1) [OF _ _ span1 Suc.prems(3) _ buf(2)])
          (use rest Inr Suc.hyps(2) kn in auto)
      ultimately show ?thesis
      proof (intro conjI allI impI)
        fix c
        assume ih: "(\<forall>b. r = Inr b \<longrightarrow> disk' = written_upto ks pat sp (Suc k) n disk1 \<and>
            b = bytes + ?len + (off_of sp n - off_of sp (Suc k))) \<and>
          (\<forall>c. r = Inl (Interrupted c) \<longrightarrow> (\<exists>w. Suc k \<le> w \<and> w < n \<and> cancelled w \<and> c = Some (pass, w - 1) \<and>
            disk' = written_upto ks pat sp (Suc k) w disk1))"
          and upto: "\<And>w. k < w \<Longrightarrow> w \<le> n \<Longrightarrow>
            written_upto ks pat sp (Suc k) w disk1 = written_upto ks pat sp k w disk"
          and "r = Inl (Interrupted c)"
        then obtain w where "Suc k \<le> w" "w < n" "cancelled w" "c = Some (pass, w - 1)"
          "disk' = written_upto ks pat sp (Suc k) w disk1"
          by blast
        then show "\<exists>w. k \<le> w \<and> w < n \<and> cancelled w \<and> c = Some (pass, w - 1) \<and>
            disk' = written_upto ks pat sp k w disk"
          using upto [of w] by (intro exI [of _ w]) simp
      qed (use kn in auto)
    qed
  qed
qed

end
