(* ===== verification/Wipe_Verify.thy ===== *)
theory Wipe_Verify
  imports Wipe_Engine Plan
begin

text \<open>
  Read-back verification: the streaming verifier (\<open>crates/dc-verify/src/verifier.rs\<close>) behind the
  \<open>VerifySink\<close> interface the engine's read pass talks to, and what the wipe guarantees end to
  end. The running hashers are the bytes fed to them; the entropy diagnostic (floating point) is
  not modelled.
\<close>

section \<open>The sink interface\<close>

definition seg :: "lba_span \<Rightarrow> byte list \<Rightarrow> nat \<Rightarrow> byte list" where
  "seg sp disk w =
     take (wlen (ls_total_bytes sp) (ls_window_bytes sp) w) (drop (w * ls_window_bytes sp) disk)"

definition sampled :: "nat \<Rightarrow> nat list \<Rightarrow> nat list" where
  "sampled stride ws = filter (\<lambda>w. window_is_sampled w stride) ws"

lemma pread_all_ok:
  assumes "pread_all env lbs off len got disk = Some (Inr data, env')"
    and "got = take (length got) (drop off disk)" and "length got \<le> len"
  shows "data = take len (drop off disk) \<and> length data = len"
  using assms
proof (induction env lbs off len got disk rule: pread_all.induct)
  case (1 lbs off len got disk)
  then show ?case by (auto split: if_splits)
next
  case (2 e env lbs off len got disk)
  show ?case
  proof (cases "length got < len")
    case False
    with 2(3-) show ?thesis by auto
  next
    case lt: True
    show ?thesis
    proof (cases e)
      case (SysErr n)
      show ?thesis
      proof (cases "n = EINTR")
        case True
        have "pread_all env lbs off len got disk = Some (Inr data, env')"
          using 2(3) lt SysErr True by simp
        from 2(2) [OF _ SysErr True this 2(4,5)] lt show ?thesis by blast
      next
        case False
        with 2(3) lt SysErr show ?thesis by simp
      qed
    next
      case (Moved k)
      define chunk where "chunk = take (min k (len - length got)) (drop (off + length got) disk)"
      have ne: "chunk \<noteq> []" and rec: "pread_all env lbs off len (got @ chunk) disk = Some (Inr data, env')"
        using 2(3) lt Moved by (auto simp: Let_def chunk_def [symmetric] split: if_splits)
      have "got @ chunk = take (length got + min k (len - length got)) (drop off disk)"
        unfolding take_add chunk_def using 2(4) by (simp add: add.commute)
      then have pre: "got @ chunk = take (length (got @ chunk)) (drop off disk)"
        by (metis length_take min.cobounded1 nat_le_linear take_all take_take min.absorb1 min.absorb2)
      have "length (got @ chunk) \<le> len" using lt by (simp add: chunk_def)
      from 2(1) [OF _ Moved chunk_def ne rec pre this] lt show ?thesis by blast
    qed
  qed
qed

locale counting_sink =
  fixes on_window :: "'k \<Rightarrow> nat \<Rightarrow> bool \<Rightarrow> byte list \<Rightarrow> dc_error + 'k"
    and checked :: "'k \<Rightarrow> nat" and mismatches :: "'k \<Rightarrow> nat" and stream :: "'k \<Rightarrow> byte list"
  assumes accepts: "\<exists>k'. on_window k w valid data = Inr k' \<and> checked k' = checked k + 1 \<and>
      mismatches k' = mismatches k + (if valid then 0 else 1) \<and> stream k' = stream k @ data"
begin

text \<open>
  What the read pass delivers to a sink: every sampled window once and in order, its bytes, and a
  mismatch exactly where the device differs from the pattern.
\<close>

lemma read_windows_counts:
  assumes "read_windows ks pat cancelled sp stride blen on_window [k..<n] expected env disk s = Done (Inr s', env')"
    and "ls_start_byte sp = 0" "ls_total_bytes sp \<le> u64_max" "0 < ls_window_bytes sp"
    and "n \<le> span_windows sp" and "k \<le> n"
    and "buffer_ok ks pat (ls_window_bytes sp) expected"
  shows "checked s' = checked s + length (sampled stride [k..<n]) \<and>
    mismatches s' = mismatches s + length (filter (\<lambda>w. seg sp disk w \<noteq> win ks pat sp w) (sampled stride [k..<n])) \<and>
    stream s' = stream s @ concat (map (seg sp disk) (sampled stride [k..<n])) \<and>
    (\<forall>w \<in> set (sampled stride [k..<n]). length (seg sp disk w) = wlen (ls_total_bytes sp) (ls_window_bytes sp) w)"
  using assms
proof (induction "n - k" arbitrary: k expected env s)
  case 0
  then show ?case by (simp add: sampled_def)
next
  case (Suc m)
  let ?b = "ls_window_bytes sp" and ?t = "ls_total_bytes sp"
  let ?len = "wlen ?t ?b k"
  have kn: "k < n" and upt: "[k..<n] = k # [Suc k..<n]" using Suc.hyps(2) by (simp_all add: upt_conv_Cons)
  note IH = Suc.hyps(1) [OF _ _ Suc.prems(2-5)]
  have m: "m = n - Suc k" and le: "Suc k \<le> n" using Suc.hyps(2) kn by simp_all
  have nc: "\<not> cancelled k" using Suc.prems(1) by (auto simp: upt split: if_splits)
  show ?case
  proof (cases "window_is_sampled k stride")
    case False
    then have "read_windows ks pat cancelled sp stride blen on_window [Suc k..<n] expected env disk s = Done (Inr s', env')"
      using Suc.prems(1) nc by (simp add: upt)
    from IH [OF m this le Suc.prems(7)] False show ?thesis by (simp add: upt sampled_def)
  next
    case True
    have range: "window_byte_range sp k = (k * ?b, ?len)"
      using Suc.prems(2-5) kn by (intro window_byte_range_eq) auto
    have len: "?len \<noteq> 0" "?len \<le> ?b"
      using wlen_pos [of ?b k ?t] Suc.prems(4,5) kn by (auto simp: span_windows_def wlen_def split: if_splits)
    let ?exp = "if window_invariant pat then expected else fill ks pat (word_of_nat k) ?len @ drop ?len expected"
    have exp: "take ?len ?exp = win ks pat sp k" "buffer_ok ks pat ?b ?exp"
      using buffer_prefix [OF Suc.prems(7), of ?len "word_of_nat k"] len(2) by (simp_all add: win_def)
    obtain data env1 s1 where rd: "pread_all env (ls_logical_block_size sp) (k * ?b) ?len [] disk = Some (Inr data, env1)"
      and ow: "on_window s k (data = take ?len ?exp) data = Inr s1"
      and rest: "read_windows ks pat cancelled sp stride blen on_window [Suc k..<n] ?exp env1 disk s1 = Done (Inr s', env')"
      using Suc.prems(1) True nc range len
      by (simp add: upt Let_def split: option.splits prod.splits sum.splits if_split_asm)
    have d: "data = take ?len (drop (k * ?b) disk) \<and> length data = ?len"
      by (rule pread_all_ok [OF rd]) simp_all
    have data: "data = seg sp disk k" "length data = ?len"
      using conjunct1 [OF d] conjunct2 [OF d] unfolding seg_def by blast+
    have "checked s1 = checked s + 1 \<and> mismatches s1 = mismatches s + (if seg sp disk k = win ks pat sp k then 0 else 1) \<and>
        stream s1 = stream s @ seg sp disk k"
      using accepts [of s k "data = take ?len ?exp" data] ow unfolding exp(1) data(1) by auto
    with IH [OF m rest le exp(2)] True data show ?thesis by (simp add: upt sampled_def)
  qed
qed

end

section \<open>The streaming verifier\<close>

record stream_verifier =
  sv_level :: verify_level
  sv_window_bytes :: nat
  sv_logical_block_size :: nat
  sv_blake3_input :: "byte list"
  sv_sha256_input :: "byte list option"
  sv_windows_checked :: nat
  sv_mismatch_count :: nat
  sv_first_mismatch_lbas :: "nat list"

record verification_report =
  vp_level :: verify_level
  vp_windows_checked :: nat
  vp_mismatch_count :: nat
  vp_first_mismatch_lbas :: "nat list"
  vp_stream_hash_blake3 :: string
  vp_stream_hash_sha256 :: "string option"

definition new_verifier :: "verify_level \<Rightarrow> nat \<Rightarrow> nat \<Rightarrow> bool \<Rightarrow> stream_verifier" where
  "new_verifier level window_bytes lbs enable_sha256 =
     \<lparr>sv_level = level, sv_window_bytes = window_bytes, sv_logical_block_size = max lbs 512,
      sv_blake3_input = [], sv_sha256_input = (if enable_sha256 then Some [] else None),
      sv_windows_checked = 0, sv_mismatch_count = 0, sv_first_mismatch_lbas = []\<rparr>"

definition on_window :: "stream_verifier \<Rightarrow> nat \<Rightarrow> bool \<Rightarrow> byte list \<Rightarrow> dc_error + stream_verifier" where
  "on_window v w is_valid data =
     (let v1 = v\<lparr>sv_windows_checked := sv_windows_checked v + 1\<rparr>;
          v2 = (if \<not> is_valid
                then v1\<lparr>sv_mismatch_count := sv_mismatch_count v1 + 1,
                       sv_first_mismatch_lbas := sv_first_mismatch_lbas v1 @
                         (if length (sv_first_mismatch_lbas v1) < 64
                          then [w * sv_window_bytes v1 div sv_logical_block_size v1] else [])\<rparr>
                else v1)
      in Inr (v2\<lparr>sv_blake3_input := sv_blake3_input v2 @ data,
                sv_sha256_input := map_option (\<lambda>x. x @ data) (sv_sha256_input v2)\<rparr>))"

definition finalize ::
  "(byte list \<Rightarrow> string) \<Rightarrow> (byte list \<Rightarrow> string) \<Rightarrow> stream_verifier \<Rightarrow> verification_report" where
  "finalize blake3_hex sha256_hex v =
     \<lparr>vp_level = sv_level v, vp_windows_checked = sv_windows_checked v,
      vp_mismatch_count = sv_mismatch_count v, vp_first_mismatch_lbas = sv_first_mismatch_lbas v,
      vp_stream_hash_blake3 = blake3_hex (sv_blake3_input v),
      vp_stream_hash_sha256 = map_option sha256_hex (sv_sha256_input v)\<rparr>"

interpretation verifier: counting_sink on_window sv_windows_checked sv_mismatch_count sv_blake3_input
  by unfold_locales (simp add: on_window_def Let_def)

section \<open>What a device holds\<close>

text \<open>A device whose windows all match the pattern holds the wipe image, and conversely.\<close>

lemma take_write_at: "off + length data \<le> length disk \<Longrightarrow> drop (off + length data) (write_at disk off data) = drop (off + length data) disk"
  by (simp add: write_at_def)

lemma concat_segs:
  assumes "0 < ls_window_bytes sp" and "n \<le> span_windows sp"
  shows "concat (map (seg sp disk) [0..<n]) = take (off_of sp n) disk"
  using assms(2)
proof (induction n)
  case 0
  then show ?case by simp
next
  case (Suc n)
  have "off_of sp n = n * ls_window_bytes sp"
    using window_starts_inside [OF assms(1), of n] Suc.prems by simp
  moreover have "off_of sp n + wlen (ls_total_bytes sp) (ls_window_bytes sp) n = off_of sp (Suc n)"
    by (rule wlen_step) (use assms(1) Suc.prems in \<open>auto simp: span_windows_def split: if_splits\<close>)
  ultimately show ?case
    using Suc by (simp add: seg_def take_add flip: Suc.IH) (metis take_add)
qed

lemma concat_eq_iff_segs:
  assumes "\<And>w. w \<in> set ws \<Longrightarrow> length (f w) = length (g w)"
  shows "concat (map f ws) = concat (map g ws) \<longleftrightarrow> (\<forall>w \<in> set ws. f w = g w)"
  using assms by (induction ws) auto

lemma image_iff_segs:
  assumes "0 < ls_window_bytes sp" and "ls_total_bytes sp \<le> length disk"
  shows "take (ls_total_bytes sp) disk = wipe_image ks pat sp [0..<span_windows sp] \<longleftrightarrow>
    (\<forall>w < span_windows sp. seg sp disk w = win ks pat sp w)"
proof -
  have "length (seg sp disk w) = length (win ks pat sp w)" if "w < span_windows sp" for w
    using window_starts_inside [OF assms(1) that] assms(2) by (simp add: seg_def length_win wlen_def)
  then have "concat (map (seg sp disk) [0..<span_windows sp]) = concat (map (win ks pat sp) [0..<span_windows sp]) \<longleftrightarrow>
      (\<forall>w < span_windows sp. seg sp disk w = win ks pat sp w)"
    by (subst concat_eq_iff_segs) auto
  then show ?thesis
    using concat_segs [OF assms(1) order_refl, of disk] off_of_last [OF assms(1)]
    by (simp add: wipe_image_def)
qed

lemma initial_buffer_ok: "buffer_ok ks pat n (if window_invariant pat then fill ks pat 0 n else replicate n b)"
  by (simp add: buffer_ok_def fill_source_length)

lemma read_verify_counts:
  assumes "read_verify ks pat cancelled en sp stride on_window env disk v = Done (Inr v', env')"
    and "span_ok sp en disk"
  shows "sv_windows_checked v' = sv_windows_checked v + length (sampled (max stride 1) [0..<span_windows sp]) \<and>
    sv_mismatch_count v' = sv_mismatch_count v +
      length (filter (\<lambda>w. seg sp disk w \<noteq> win ks pat sp w) (sampled (max stride 1) [0..<span_windows sp])) \<and>
    sv_blake3_input v' = sv_blake3_input v @ concat (map (seg sp disk) (sampled (max stride 1) [0..<span_windows sp]))"
  using verifier.read_windows_counts [of ks pat cancelled sp "max stride 1" "length (en_buffer en)" 0 "span_windows sp"
      _ env disk v v' env'] assms initial_buffer_ok [of ks pat "ls_window_bytes sp" 0]
  by (auto simp: read_verify_def span_ok_def Let_def)

lemma sampled_full: "sampled (Suc 0) ws = ws"
  by (simp add: sampled_def window_is_sampled_def)

lemma write_pass_ok:
  assumes "write_pass ks pat cancelled en pass sp start env disk = Done (Inr out, env', disk')"
    and "span_ok sp en disk" and "start \<le> span_windows sp"
  shows "disk' = written_upto ks pat sp start (span_windows sp) disk \<and>
    out = \<lparr>po_windows_written = span_windows sp - start,
           po_bytes_written = ls_total_bytes sp - off_of sp start, po_fast_path_used = False\<rparr>"
proof -
  let ?buf = "if window_invariant pat then fill ks pat 0 (length (en_buffer en)) else en_buffer en"
  obtain b where "write_windows ks pat cancelled pass sp [start..<span_windows sp] ?buf 0 env disk =
      Done (Inr b, env', disk')" and out: "out = \<lparr>po_windows_written = span_windows sp - start,
           po_bytes_written = b, po_fast_path_used = False\<rparr>"
    using assms(1) by (auto simp: write_pass_def Let_def split: io.splits prod.splits sum.splits)
  moreover have "buffer_ok ks pat (length (en_buffer en)) ?buf"
    by (simp add: buffer_ok_def fill_source_length)
  ultimately show ?thesis
    using write_windows_ok [of ks pat cancelled pass sp start "span_windows sp" ?buf 0 env disk "Inr b" env' disk' en]
      assms(2,3) off_of_last [of sp]
    by (simp add: span_ok_def)
qed

lemma written_upto_whole:
  assumes "span_ok sp en disk"
  shows "written_upto ks pat sp 0 (span_windows sp) disk =
    wipe_image ks pat sp [0..<span_windows sp] @ drop (ls_total_bytes sp) disk"
    and "length (wipe_image ks pat sp [0..<span_windows sp]) = ls_total_bytes sp"
  using length_image [of sp 0 "span_windows sp" ks pat] off_of_last [of sp] assms
  by (simp_all add: written_upto_def write_at_def span_ok_def)

section \<open>The zero fast path\<close>

lemma zero_image: "wipe_image ks ZeroSource sp ws = replicate (length (wipe_image ks ZeroSource sp ws)) 0"
proof (induction ws)
  case (Cons w ws)
  have "win ks ZeroSource sp w = replicate (length (win ks ZeroSource sp w)) 0"
    by (simp add: win_def zero_fill_def)
  with Cons.IH show ?case
    by (simp add: wipe_image_def) (metis replicate_add)
qed (simp add: wipe_image_def)

text \<open>The prefix of a device below \<open>c\<close> is zeroed, the rest past the span is untouched.\<close>

definition zeroed_to :: "nat \<Rightarrow> nat \<Rightarrow> byte list \<Rightarrow> byte list \<Rightarrow> bool" where
  "zeroed_to c t disk0 disk \<longleftrightarrow> length disk = length disk0 \<and> take c disk = replicate c 0 \<and>
     drop t disk = drop t disk0"

lemma zeroed_to_write_at:
  assumes "zeroed_to c t disk0 disk" and "c + n \<le> t" and "t \<le> length disk0"
  shows "zeroed_to (c + n) t disk0 (write_at disk c (replicate n 0))"
  using assms by (simp add: zeroed_to_def write_at_def replicate_add)

lemma zero_fallback:
  assumes "write_pass ks ZeroSource cancelled en pass sp k env disk = Done (Inr out, env', disk')"
    and "span_ok sp en disk" and "k \<le> span_windows sp" and "zeroed_to c (ls_total_bytes sp) disk0 disk"
    and "off_of sp k \<le> c"
  shows "zeroed_to (ls_total_bytes sp) (ls_total_bytes sp) disk0 disk'"
proof -
  let ?t = "ls_total_bytes sp" and ?n = "span_windows sp"
  have pos: "0 < ls_window_bytes sp" and t: "?t \<le> length disk" using assms(2) by (simp_all add: span_ok_def)
  have len: "off_of sp k + length (wipe_image ks ZeroSource sp [k..<?n]) = ?t"
    using length_image [OF pos assms(3) order_refl, of ks ZeroSource] off_of_last [OF pos] by simp
  have disk': "disk' = take (off_of sp k) disk @ wipe_image ks ZeroSource sp [k..<?n] @ drop ?t disk"
    using write_pass_ok [OF assms(1-3)] len by (simp add: written_upto_def write_at_def)
  have "take (off_of sp k) disk = replicate (off_of sp k) 0"
    using assms(4,5) by (metis min.absorb1 take_replicate take_take zeroed_to_def)
  then have "disk' = replicate ?t 0 @ drop ?t disk"
    unfolding disk' by (subst zero_image) (metis append.assoc len replicate_add)
  with t assms(4) show ?thesis by (simp add: zeroed_to_def)
qed

lemma zero_chunks_ok:
  assumes "zero_chunks ks cc wc en pass sp start current zeroed env disk = Done (Inr out, env', disk')"
    and "span_ok sp en disk0" and "zeroed_to current (ls_total_bytes sp) disk0 disk"
    and "current \<le> ls_total_bytes sp"
  shows "zeroed_to (ls_total_bytes sp) (ls_total_bytes sp) disk0 disk'"
  using assms
proof (induction env arbitrary: current zeroed disk)
  case Nil
  then show ?case by (subst (asm) zero_chunks.simps) (auto simp: Let_def split: if_splits)
next
  case (Cons e env)
  let ?t = "ls_total_bytes sp" and ?b = "ls_window_bytes sp"
  have span: "span_ok sp en disk" using Cons.prems(2,3) by (simp add: span_ok_def zeroed_to_def)
  show ?case
  proof (cases "current < ?t")
    case False
    then show ?thesis
      using Cons.prems by (subst (asm) zero_chunks.simps) auto
  next
    case lt: True
    have nc: "\<not> cc current"
      using Cons.prems(1) lt by (subst (asm) zero_chunks.simps) (auto split: if_splits)
    show ?thesis
    proof (cases "e = Moved 0")
      case True
      let ?n = "min (?t - current) (en_max_write_zeroes_bytes en)"
      have rec: "zero_chunks ks cc wc en pass sp start (current + ?n) (zeroed + ?n) env
          (write_at disk current (replicate ?n 0)) = Done (Inr out, env', disk')"
        using Cons.prems(1) lt nc True by (subst (asm) zero_chunks.simps) (simp add: Let_def)
      have le: "current + ?n \<le> ?t" using lt by simp
      have "?t \<le> length disk0" using Cons.prems(2) by (simp add: span_ok_def)
      from Cons.IH [OF rec Cons.prems(2) zeroed_to_write_at [OF Cons.prems(3) le this] le] show ?thesis .
    next
      case False
      have wp: "write_pass ks ZeroSource wc en pass sp (current div ?b) env disk = Done (Inr out, env', disk')"
        using Cons.prems(1) lt nc False by (subst (asm) zero_chunks.simps) (simp add: Let_def)
      have pos: "0 < ?b" using span by (simp add: span_ok_def)
      have "current div ?b * ?b < ?t" using lt by (meson div_times_less_eq_dividend le_less_trans)
      then have "current div ?b < span_windows sp"
        using pos by (simp add: span_windows_def div_ceil_le)
      moreover have "off_of sp (current div ?b) \<le> current"
        by (meson div_times_less_eq_dividend min.coboundedI1)
      ultimately show ?thesis
        using zero_fallback [OF wp span _ Cons.prems(3)] by simp
    qed
  qed
qed

lemma verify_after_write_core:
  assumes "write_pass ks pat c1 en pass sp 0 env disk = Done (Inr out, env1, disk')"
    and "read_verify ks pat c2 en sp 1 on_window env2 disk' (new_verifier Full wb lbs sha) = Done (Inr v, env3)"
    and "span_ok sp en disk"
  shows "sv_mismatch_count v = 0 \<and> sv_windows_checked v = span_windows sp"
proof -
  have disk': "disk' = wipe_image ks pat sp [0..<span_windows sp] @ drop (ls_total_bytes sp) disk"
    and len: "length (wipe_image ks pat sp [0..<span_windows sp]) = ls_total_bytes sp"
    using write_pass_ok [OF assms(1,3)] written_upto_whole [OF assms(3), of ks pat] by simp_all
  have ok: "span_ok sp en disk'" using assms(3) len by (simp add: disk' span_ok_def)
  have pos: "0 < ls_window_bytes sp" "ls_total_bytes sp \<le> length disk'"
    using ok by (simp_all add: span_ok_def)
  have "\<forall>w < span_windows sp. seg sp disk' w = win ks pat sp w"
    unfolding image_iff_segs [OF pos, symmetric] using len by (simp add: disk')
  then show ?thesis
    using read_verify_counts [OF assms(2) ok]
    by (simp add: sampled_full new_verifier_def)
qed


lemma zero_pass_ok:
  assumes "zero_pass ks cc wc en pass sp 0 env disk = Done (Inr out, env', disk')"
    and "span_ok sp en disk"
  shows "zeroed_to (ls_total_bytes sp) (ls_total_bytes sp) disk disk'"
proof -
  have z: "zeroed_to 0 (ls_total_bytes sp) disk disk" by (simp add: zeroed_to_def)
  show ?thesis
  proof (cases "en_supports_write_zeroes en")
    case True
    then show ?thesis
      using assms zero_chunks_ok [of ks cc wc en pass sp 0 0 0 env disk out env' disk' disk] z
      by (simp add: zero_pass_def)
  next
    case False
    then show ?thesis
      using assms zero_fallback [of ks wc en pass sp 0 env disk out env' disk' 0 disk] z
      by (simp add: zero_pass_def)
  qed
qed

lemma write_pass_windows:
  "write_pass ks pat c en pass sp k env disk = Done (Inr out, env', disk') \<Longrightarrow>
     po_windows_written out \<le> span_windows sp"
  by (auto simp: write_pass_def Let_def split: io.splits prod.splits sum.splits)

lemma zero_chunks_windows:
  "zero_chunks ks cc wc en pass sp start current zeroed env disk = Done (Inr out, env', disk') \<Longrightarrow>
     po_windows_written out \<le> span_windows sp"
proof (induction ks cc wc en pass sp start current zeroed env disk rule: zero_chunks.induct)
  case (1 ks cc wc en pass sp start current zeroed env disk)
  show ?case
    using 1(2) write_pass_windows
    by (subst (asm) zero_chunks.simps) (auto simp: Let_def split: if_splits list.splits dest: 1(1) [rotated 3])
qed

lemma zero_pass_windows:
  "zero_pass ks cc wc en pass sp start env disk = Done (Inr out, env', disk') \<Longrightarrow>
     po_windows_written out \<le> span_windows sp"
  by (auto simp: zero_pass_def dest: zero_chunks_windows write_pass_windows split: if_splits)


section \<open>Properties\<close>

text \<open>C7: A write pass that returns success has filled every window of the span with the pattern and
  left the rest of the device alone, whatever short writes, \<open>EINTR\<close> returns and buffer reuse
  occurred on the way; it reports the whole span as written.\<close>

theorem write_pass_wipes:
  assumes "write_pass ks pat cancelled en pass sp 0 env disk = Done (Inr out, env', disk')"
    and "span_ok sp en disk"
  shows "disk' = wipe_image ks pat sp [0..<span_windows sp] @ drop (ls_total_bytes sp) disk \<and>
    length (wipe_image ks pat sp [0..<span_windows sp]) = ls_total_bytes sp \<and>
    out = \<lparr>po_windows_written = span_windows sp, po_bytes_written = ls_total_bytes sp,
           po_fast_path_used = False\<rparr>"
  using write_pass_ok [OF assms] written_upto_whole [OF assms(2), of ks pat] by simp

text \<open>C28: The zero pass, fast path or not, leaves the span all zero when it returns success, also when
  the ioctl is refused midway and the engine falls back to writing from the window it had reached.\<close>

theorem zero_pass_zeroes:
  assumes "zero_pass ks cc wc en pass sp 0 env disk = Done (Inr out, env', disk')"
    and "span_ok sp en disk"
  shows "take (ls_total_bytes sp) disk' = replicate (ls_total_bytes sp) 0 \<and>
    drop (ls_total_bytes sp) disk' = drop (ls_total_bytes sp) disk"
  using zero_pass_ok [OF assms] by (simp add: zeroed_to_def)

text \<open>C8: A full read-back that completes is exact: it has checked every window, its mismatch count is
  zero if and only if the device holds the pattern in every byte of the span, and the reported
  stream hash is the hash of the span as read.\<close>

theorem full_verification_exact:
  assumes "read_verify ks pat cancelled en sp 1 on_window env disk (new_verifier Full wb lbs sha) = Done (Inr v, env')"
    and "span_ok sp en disk"
  shows "vp_windows_checked (finalize b3 s2 v) = span_windows sp \<and>
    (vp_mismatch_count (finalize b3 s2 v) = 0 \<longleftrightarrow>
       take (ls_total_bytes sp) disk = wipe_image ks pat sp [0..<span_windows sp]) \<and>
    vp_stream_hash_blake3 (finalize b3 s2 v) = b3 (take (ls_total_bytes sp) disk)"
proof -
  have pos: "0 < ls_window_bytes sp" "ls_total_bytes sp \<le> length disk"
    using assms(2) by (simp_all add: span_ok_def)
  have "concat (map (seg sp disk) [0..<span_windows sp]) = take (ls_total_bytes sp) disk"
    using concat_segs [OF pos(1) order_refl, of disk] off_of_last [OF pos(1)] by simp
  then show ?thesis
    using read_verify_counts [OF assms] image_iff_segs [OF pos, of ks pat]
    by (auto simp: sampled_full new_verifier_def finalize_def filter_empty_conv)
qed

text \<open>Sampled verification is exact for what it samples: it checks the windows whose index the
  stride divides, and counts no mismatch if and only if each of those holds the pattern.\<close>

theorem sampled_verification_exact:
  assumes "read_verify ks pat cancelled en sp stride on_window env disk (new_verifier (Sampled stride) wb lbs sha) =
      Done (Inr v, env')"
    and "span_ok sp en disk" and "2 \<le> stride"
  shows "vp_windows_checked (finalize b3 s2 v) = length (filter (\<lambda>w. stride dvd w) [0..<span_windows sp]) \<and>
    (vp_mismatch_count (finalize b3 s2 v) = 0 \<longleftrightarrow>
       (\<forall>w < span_windows sp. stride dvd w \<longrightarrow> seg sp disk w = win ks pat sp w))"
proof -
  have "sampled (max stride 1) [0..<span_windows sp] = filter (\<lambda>w. stride dvd w) [0..<span_windows sp]"
    using assms(3) by (auto simp: sampled_def window_is_sampled_def dvd_eq_mod_eq_0 intro!: filter_cong)
  then show ?thesis
    using read_verify_counts [OF assms(1,2)]
    by (auto simp: new_verifier_def finalize_def filter_empty_conv)
qed

text \<open>Write then verify: a full read-back, with the same pattern, of the device a successful write
  pass left behind reports no mismatch.\<close>

theorem verify_after_write:
  assumes "write_pass ks pat c1 en pass sp 0 env disk = Done (Inr out, env1, disk')"
    and "read_verify ks pat c2 en sp 1 on_window env2 disk' (new_verifier Full wb lbs sha) = Done (Inr v, env3)"
    and "span_ok sp en disk"
  shows "vp_mismatch_count (finalize b3 s2 v) = 0 \<and> vp_windows_checked (finalize b3 s2 v) = span_windows sp"
  using verify_after_write_core [OF assms] by (simp add: finalize_def)

end
