(* ===== verification/Execution.thy ===== *)
theory Execution
  imports Fsm Journal_Recovery Wipe_Verify
begin

text \<open>
  The logical overwrite of one device (\<open>execute_device_inner\<close> in \<open>crates/dc-cli/src/execute.rs\<close>,
  from the plan to the \<open>Completed\<close> record): the lifecycle machine, the journal, the I/O
  engine and the verifier, composed the way the command composes them. What the command reads
  from the outside is \<open>run_world\<close>: clocks, cancel flags, thermal pacer and acoustic guard verdicts,
  the time-lock states, the text of an error. The certificate built after the last record is
  \<open>dc-cert\<close>'s and is not part of this model; the audit entry of a failed write and progress output
  are left out.
\<close>

section \<open>State\<close>

record 'sk exec_state =
  es_fsm :: fsm_state
  es_journal :: "'sk journal_writer"
  es_faults :: "nat option list"       \<comment> \<open>I/O faults of the coming journal appends, none when exhausted\<close>
  es_env :: "syscall list"
  es_disk :: "byte list"

record run_world =
  rw_ks :: keystream
  rw_blake3 :: "byte list \<Rightarrow> digest"
  rw_hex :: "byte list \<Rightarrow> string"
  rw_cancel :: "nat \<Rightarrow> nat \<Rightarrow> bool"          \<comment> \<open>pass, window\<close>
  rw_ccancel :: "nat \<Rightarrow> nat \<Rightarrow> bool"         \<comment> \<open>pass, byte offset of a zero chunk\<close>
  rw_vcancel :: "nat \<Rightarrow> bool"                 \<comment> \<open>window of the read-back\<close>
  rw_thermal :: "nat \<Rightarrow> bool"                 \<comment> \<open>did the pacer abort this pass\<close>
  rw_prepare :: "dc_error + unit"               \<comment> \<open>time lock, acoustic check, buffer pool, in this order\<close>
  rw_guard :: "dc_error + unit"                \<comment> \<open>acoustic check after pass 0\<close>
  rw_weave :: "(nat \<Rightarrow> dc_error + byte list) option"
  rw_now :: string
  rw_ms :: nat
  rw_signals :: nat
  rw_display :: "dc_error \<Rightarrow> string"
  rw_sha256 :: bool
  rw_blake3_hex :: "byte list \<Rightarrow> string"
  rw_sha256_hex :: "byte list \<Rightarrow> string"

type_synonym ('a, 'sk) exec = "((dc_error + 'a) \<times> 'sk exec_state) io"

section \<open>Journalling\<close>

definition journal_append ::
  "('sk, 'vk) journal_deps \<Rightarrow> journal_record \<Rightarrow> 'sk exec_state \<Rightarrow> 'sk exec_state \<times> (dc_error + string)" where
  "journal_append d r st =
     (let fault = (case es_faults st of [] \<Rightarrow> None | f # _ \<Rightarrow> f);
          (w, res) = append_record d fault (es_journal st) r
      in (st\<lparr>es_journal := w, es_faults := tl (es_faults st)\<rparr>, res))"

text \<open>\<open>journal.append(..)?\<close> and \<open>let _ = journal.append(..)\<close>.\<close>

definition log_then ::
  "('sk, 'vk) journal_deps \<Rightarrow> journal_record \<Rightarrow> 'sk exec_state \<Rightarrow> ('sk exec_state \<Rightarrow> ('a, 'sk) exec) \<Rightarrow>
   ('a, 'sk) exec" where
  "log_then d r st k =
     (case journal_append d r st of
        (st', Inl e) \<Rightarrow> Done (Inl e, st')
      | (st', Inr _) \<Rightarrow> k st')"

definition log_ignore ::
  "('sk, 'vk) journal_deps \<Rightarrow> journal_record \<Rightarrow> 'sk exec_state \<Rightarrow> 'sk exec_state" where
  "log_ignore d r st = fst (journal_append d r st)"

section \<open>One pass\<close>

text \<open>
  The pattern source of a pass: the time-lock state keys a woven pass when the run has a lock;
  otherwise \<open>create_pattern_source\<close>, which panics on a woven pattern (\<open>None\<close>).
\<close>

definition pass_source :: "run_world \<Rightarrow> nat \<Rightarrow> pattern \<Rightarrow> dc_error + source option" where
  "pass_source rw i pat =
     (case (rw_weave rw, pat) of
        (Some state_of, VdfWoven scheme commitment) \<Rightarrow>
          and_then (state_of i) (\<lambda>bytes.
            Inr (Some (create_vdf_pattern_source (rw_blake3 rw) scheme commitment (word_of_nat i) bytes)))
      | _ \<Rightarrow> Inr (create_pattern_source pat))"

definition failed_record :: "run_world \<Rightarrow> string \<Rightarrow> dc_error \<Rightarrow> journal_record" where
  "failed_record rw op e =
     (let (errno, at_lba) = (case e of Io _ n lba \<Rightarrow> (Some n, lba) | _ \<Rightarrow> (None, None))
      in JFailed ''EIO'' errno (Some op) at_lba (rw_display rw e))"

definition interrupted_record ::
  "run_world \<Rightarrow> string \<Rightarrow> nat option \<Rightarrow> nat option \<Rightarrow> journal_record" where
  "interrupted_record rw hint through_pass through_window =
     JInterrupted \<lparr>ir_at = rw_now rw, ir_hint = hint, ir_completed_through_pass = through_pass,
       ir_completed_through_window = through_window, ir_signals_received = Some (rw_signals rw)\<rparr>"

definition run_write ::
  "run_world \<Rightarrow> engine \<Rightarrow> nat \<Rightarrow> nat \<Rightarrow> pass \<Rightarrow> source \<Rightarrow> lba_span \<Rightarrow> nat \<Rightarrow> 'sk exec_state \<Rightarrow>
   ((dc_error + pass_outcome) \<times> 'sk exec_state) io" where
  "run_write rw en i k p src sp start st =
     (case (if pa_pattern p = ZeroP \<and> en_supports_write_zeroes en
            then zero_pass (rw_ks rw) (rw_ccancel rw i) (rw_cancel rw i) en k sp start (es_env st) (es_disk st)
            else write_pass (rw_ks rw) src (rw_cancel rw i) en k sp start (es_env st) (es_disk st)) of
        Blocked \<Rightarrow> Blocked
      | Panic \<Rightarrow> Panic
      | Done (res, env', disk') \<Rightarrow> Done (res, st\<lparr>es_env := env', es_disk := disk'\<rparr>))"

definition flush_device :: "'sk exec_state \<Rightarrow> (unit, 'sk) exec" where
  "flush_device st =
     (case es_env st of
        [] \<Rightarrow> Blocked
      | Moved 0 # env \<Rightarrow> Done (Inr (), st\<lparr>es_env := env\<rparr>)
      | SysErr n # env \<Rightarrow> Done (Inl (Io ''fsync'' n None), st\<lparr>es_env := env\<rparr>)
      | Moved _ # env \<Rightarrow> Done (Inl (Io ''fsync'' 5 None), st\<lparr>es_env := env\<rparr>))"

text \<open>The error arms of the write, in their order.\<close>

definition write_failed ::
  "('sk, 'vk) journal_deps \<Rightarrow> run_world \<Rightarrow> nat \<Rightarrow> nat \<Rightarrow> dc_error \<Rightarrow> 'sk exec_state \<Rightarrow> ('a, 'sk) exec" where
  "write_failed d rw i k e st =
     (case e of
        Interrupted c \<Rightarrow>
          if rw_thermal rw i
          then Done (Inl (Guardian \<lparr>gr_code = ''THERMAL_CRITICAL''\<rparr>),
            log_ignore d (JFailed ''THERMAL_CRITICAL'' None (Some ''write'') None ''thermal'') st)
          else let (p, w) = (case c of Some (p, w) \<Rightarrow> (Some p, Some w) | None \<Rightarrow> (Some k, None))
               in Done (Inl (Interrupted c),
                 log_ignore d (interrupted_record rw ''Graceful drain on termination signal'' p w) st)
      | _ \<Rightarrow> Done (Inl e, log_ignore d (failed_record rw ''write'' e) st))"

text \<open>After a successful write: the commit records and the flush, behind the mid-run acoustic check.\<close>

definition commit_records ::
  "('sk, 'vk) journal_deps \<Rightarrow> nat \<Rightarrow> nat \<Rightarrow> nat \<Rightarrow> 'sk exec_state \<Rightarrow> (unit, 'sk) exec" where
  "commit_records d k first n st =
      log_then d (JRangeCommit k first n) st (\<lambda>st.
      log_then d (JEndPass k) st (\<lambda>st.
      case begin_flush (es_fsm st) k of
        Inl e \<Rightarrow> Done (Inl e, st)
      | Inr (f, _) \<Rightarrow>
      (case flush_device (st\<lparr>es_fsm := f\<rparr>) of
        Blocked \<Rightarrow> Blocked
      | Panic \<Rightarrow> Panic
      | Done (Inl e, st) \<Rightarrow> Done (Inl e, st)
      | Done (Inr _, st) \<Rightarrow>
      log_then d (JFlushed k) st (\<lambda>st. Done (Inr (), st)))))"

definition commit_pass ::
  "('sk, 'vk) journal_deps \<Rightarrow> run_world \<Rightarrow> nat \<Rightarrow> nat \<Rightarrow> pass_outcome \<Rightarrow> 'sk exec_state \<Rightarrow>
   (unit, 'sk) exec" where
  "commit_pass d rw i k out st =
     (case (if i = 0 then rw_guard rw else Inr ()) of
        Inl e \<Rightarrow> Done (Inl e, st)
      | Inr _ \<Rightarrow> commit_records d k 0 (po_windows_written out) st)"

definition write_and_commit ::
  "('sk, 'vk) journal_deps \<Rightarrow> run_world \<Rightarrow> engine \<Rightarrow> lba_span \<Rightarrow> nat \<Rightarrow> nat \<Rightarrow> pass \<Rightarrow> source \<Rightarrow>
   'sk exec_state \<Rightarrow> (unit, 'sk) exec" where
  "write_and_commit d rw en sp i k p src st =
     (case run_write rw en i k p src sp 0 st of
        Blocked \<Rightarrow> Blocked
      | Panic \<Rightarrow> Panic
      | Done (Inl e, st) \<Rightarrow> write_failed d rw i k e st
      | Done (Inr out, st) \<Rightarrow> commit_pass d rw i k out st)"

text \<open>A pass; the code counts passes in a byte (\<open>pass_idx as u8\<close>).\<close>

definition run_pass ::
  "('sk, 'vk) journal_deps \<Rightarrow> run_world \<Rightarrow> engine \<Rightarrow> lba_span \<Rightarrow> nat \<Rightarrow> nat \<Rightarrow> pass \<Rightarrow>
   'sk exec_state \<Rightarrow> (unit, 'sk) exec" where
  "run_pass d rw en sp window_bytes i p st =
     (let k = i mod 256 in
      case begin_pass (es_fsm st) k of
        Inl e \<Rightarrow> Done (Inl e, st)
      | Inr (f, _) \<Rightarrow>
      let st = st\<lparr>es_fsm := f\<rparr>
      in case pass_source rw i (pa_pattern p) of
        Inl e \<Rightarrow> Done (Inl e, st)
      | Inr None \<Rightarrow> Panic
      | Inr (Some src) \<Rightarrow>
      log_then d (JBeginPass k (descriptor (rw_hex rw) dec src) window_bytes) st
        (write_and_commit d rw en sp i k p src))"

fun run_passes ::
  "('sk, 'vk) journal_deps \<Rightarrow> run_world \<Rightarrow> engine \<Rightarrow> lba_span \<Rightarrow> nat \<Rightarrow> (nat \<times> pass) list \<Rightarrow>
   'sk exec_state \<Rightarrow> (unit, 'sk) exec" where
  "run_passes d rw en sp window_bytes [] st = Done (Inr (), st)"
| "run_passes d rw en sp window_bytes ((i, p) # ps) st =
     (case run_pass d rw en sp window_bytes i p st of
        Blocked \<Rightarrow> Blocked
      | Panic \<Rightarrow> Panic
      | Done (Inl e, st') \<Rightarrow> Done (Inl e, st')
      | Done (Inr _, st') \<Rightarrow> run_passes d rw en sp window_bytes ps st')"

section \<open>Verification and completion\<close>

definition run_read_back ::
  "('sk, 'vk) journal_deps \<Rightarrow> run_world \<Rightarrow> engine \<Rightarrow> lba_span \<Rightarrow> source \<Rightarrow> nat \<Rightarrow> string \<Rightarrow> string \<Rightarrow>
   stream_verifier \<Rightarrow> 'sk exec_state \<Rightarrow> (verification_report, 'sk) exec" where
  "run_read_back d rw en sp src stride op hint v st =
     (case read_verify (rw_ks rw) src (rw_vcancel rw) en sp stride on_window (es_env st) (es_disk st) v of
        Blocked \<Rightarrow> Blocked
      | Panic \<Rightarrow> Panic
      | Done (Inl (Interrupted c), env) \<Rightarrow>
          Done (Inl (Interrupted c), log_ignore d
            (interrupted_record rw hint (map_option fst c) (map_option snd c)) (st\<lparr>es_env := env\<rparr>))
      | Done (Inl e, env) \<Rightarrow>
          Done (Inl e, log_ignore d (failed_record rw op e) (st\<lparr>es_env := env\<rparr>))
      | Done (Inr v', env) \<Rightarrow>
          Done (Inr (finalize (rw_blake3_hex rw) (rw_sha256_hex rw) v'), st\<lparr>es_env := env\<rparr>))"

definition verify_record_of :: "verify_level \<Rightarrow> verification_report \<Rightarrow> bool \<Rightarrow> verify_record" where
  "verify_record_of level rep fast =
     \<lparr>vr_level = short_tag level, vr_windows_checked = vp_windows_checked rep,
      vr_mismatch_count = vp_mismatch_count rep, vr_first_mismatch_lbas = vp_first_mismatch_lbas rep,
      vr_stream_hash_blake3 = vp_stream_hash_blake3 rep,
      vr_stream_hash_sha256 = vp_stream_hash_sha256 rep, vr_fast_path_used = fast\<rparr>"

definition read_back_phase ::
  "('sk, 'vk) journal_deps \<Rightarrow> run_world \<Rightarrow> engine \<Rightarrow> lba_span \<Rightarrow> plan \<Rightarrow> nat \<Rightarrow> pass list \<Rightarrow>
   'sk exec_state \<Rightarrow> (verification_report, 'sk) exec" where
  "read_back_phase d rw en sp pl lbs passes st =
     (let v = new_verifier (pl_verification pl) (pl_window_bytes pl) lbs (rw_sha256 rw)
      in if pl_verification pl = NoVerify
         then Done (Inr (finalize (rw_blake3_hex rw) (rw_sha256_hex rw) v), st)
         else if passes = [] then Panic
         else case pass_source rw (length passes - 1) (pa_pattern (last passes)) of
           Inl e \<Rightarrow> Done (Inl e, st)
         | Inr None \<Rightarrow> Panic
         | Inr (Some src) \<Rightarrow>
             run_read_back d rw en sp src (effective_stride (pl_verification pl)) ''verify-read''
               ''Graceful drain on termination signal during verification'' v st)"

definition complete ::
  "('sk, 'vk) journal_deps \<Rightarrow> run_world \<Rightarrow> verification_report \<Rightarrow> 'sk exec_state \<Rightarrow>
   (verification_report, 'sk) exec" where
  "complete d rw rep st =
     (case certify (es_fsm st) of
        Inl e \<Rightarrow> Done (Inl e, st)
      | Inr f \<Rightarrow>
      log_then d (JCompleted (rw_now rw) (rw_ms rw)) (st\<lparr>es_fsm := f\<rparr>) (\<lambda>st. Done (Inr rep, st)))"

definition verify_phase ::
  "('sk, 'vk) journal_deps \<Rightarrow> run_world \<Rightarrow> engine \<Rightarrow> lba_span \<Rightarrow> plan \<Rightarrow> nat \<Rightarrow> pass list \<Rightarrow>
   'sk exec_state \<Rightarrow> (verification_report, 'sk) exec" where
  "verify_phase d rw en sp pl lbs passes st =
     (case begin_verify (es_fsm st) of
        Inl e \<Rightarrow> Done (Inl e, st)
      | Inr f \<Rightarrow>
      (case read_back_phase d rw en sp pl lbs passes (st\<lparr>es_fsm := f\<rparr>) of
        Blocked \<Rightarrow> Blocked
      | Panic \<Rightarrow> Panic
      | Done (Inl e, st) \<Rightarrow> Done (Inl e, st)
      | Done (Inr rep, st) \<Rightarrow>
      log_then d (JVerify (verify_record_of (pl_verification pl) rep (en_supports_write_zeroes en))) st (\<lambda>st.
      if vp_mismatch_count rep > 0
      then log_then d (JFailed ''VERIFICATION_FAILED'' None (Some ''verify'')
             (if vp_first_mismatch_lbas rep = [] then None else Some (hd (vp_first_mismatch_lbas rep)))
             (''Found '' @ dec (vp_mismatch_count rep) @ '' mismatching windows'')) st
             (\<lambda>st. Done (Inl (VerificationFailed (vp_mismatch_count rep) (vp_first_mismatch_lbas rep)), st))
      else complete d rw rep st)))"

text \<open>The passes of the plan and the span of the device.\<close>

definition plan_passes :: "plan \<Rightarrow> pass list" where
  "plan_passes pl = (case pl_mechanism pl of LogicalOverwrite ps \<Rightarrow> ps | HardwarePurge _ _ \<Rightarrow> [])"

definition device_span :: "device_identity \<Rightarrow> plan \<Rightarrow> lba_span" where
  "device_span dev pl =
     new_span (si_size_bytes (di_stable dev)) (di_logical_block_size dev) (pl_window_bytes pl)"

definition execute_device ::
  "('sk, 'vk) journal_deps \<Rightarrow> run_world \<Rightarrow> engine \<Rightarrow> lba_span \<Rightarrow> plan \<Rightarrow> nat \<Rightarrow> 'sk exec_state \<Rightarrow>
   (verification_report, 'sk) exec" where
  "execute_device d rw en sp pl lbs st =
     (case run_passes d rw en sp (pl_window_bytes pl) (List.enumerate 0 (plan_passes pl)) st of
        Blocked \<Rightarrow> Blocked
      | Panic \<Rightarrow> Panic
      | Done (Inl e, st') \<Rightarrow> Done (Inl e, st')
      | Done (Inr _, st') \<Rightarrow> verify_phase d rw en sp pl lbs (plan_passes pl) st')"

section \<open>The whole run of a device\<close>

record 'sk device_job =
  dj_plan :: plan
  dj_plan_hash :: string
  dj_identity :: device_identity
  dj_uuid :: string
  dj_key :: "'sk option"
  dj_pubkey_hex :: string                   \<comment> \<open>of the key, when there is one\<close>
  dj_tool :: tool_build
  dj_engine_name :: string
  dj_checkpoint_mib :: nat
  dj_checkpoint_ms :: nat
  dj_started :: string
  dj_overrides :: "string list"
  dj_can_write_zeroes :: bool

definition run_header :: "'sk device_job \<Rightarrow> journal_record" where
  "run_header jb = JHeader
     \<lparr>jh_uuid = dj_uuid jb, jh_sealed = (dj_key jb \<noteq> None),
      jh_operator_pubkey = (if dj_key jb \<noteq> None then Some (dj_pubkey_hex jb) else None),
      jh_plan = dj_plan jb, jh_plan_hash = dj_plan_hash jb, jh_identity = dj_identity jb,
      jh_tool = dj_tool jb, jh_engine = dj_engine_name jb,
      jh_tuning = \<lparr>et_qd = 64, et_pool_mib = 128, et_window_bytes = pl_window_bytes (dj_plan jb),
        et_checkpoint_mib = dj_checkpoint_mib jb, et_checkpoint_ms = dj_checkpoint_ms jb\<rparr>,
      jh_argv_hash = ''cli-exec'', jh_started_utc = dj_started jb\<rparr>"

definition run_armed :: "run_world \<Rightarrow> 'sk device_job \<Rightarrow> journal_record" where
  "run_armed rw jb = JArmed (dj_overrides jb)
     [dec (ki_major (di_kernel (dj_identity jb))) @ '':'' @ dec (ki_minor (di_kernel (dj_identity jb)))]
     (rw_now rw)"

definition armed_fsm :: "(plan \<Rightarrow> string option) \<Rightarrow> plan \<Rightarrow> dc_error + fsm_state" where
  "armed_fsm hash pl =
     and_then (compile_plan hash new_fsm pl) (\<lambda>(f, _).
     and_then (approve_plan f) (\<lambda>f.
     and_then (arm f) Inr))"

definition job_engine :: "'sk device_job \<Rightarrow> engine" where
  "job_engine jb = new_engine (pl_window_bytes (dj_plan jb))
     (dj_can_write_zeroes jb \<and> pl_fast_path (dj_plan jb) = PreferWriteZeroes)"

text \<open>
  \<open>existing\<close> and \<open>locked\<close> describe the journal path. Without a state, the run ended before it had a
  journal.
\<close>

definition execute_device_inner ::
  "('sk, 'vk) journal_deps \<Rightarrow> (plan \<Rightarrow> string option) \<Rightarrow> run_world \<Rightarrow> 'sk device_job \<Rightarrow>
   byte list option \<Rightarrow> bool \<Rightarrow> nat option list \<Rightarrow> syscall list \<Rightarrow> byte list \<Rightarrow>
   ((dc_error + verification_report) \<times> 'sk exec_state option) io" where
  "execute_device_inner d hash rw jb existing locked faults env disk =
     (case pl_mechanism (dj_plan jb) of
        HardwarePurge _ selected \<Rightarrow>
          Done (Inl (Usage (UsageMsg (''plan targets a hardware purge ('' @ selected @ '')''))), None)
      | LogicalOverwrite _ \<Rightarrow>
     (case armed_fsm hash (dj_plan jb) of
        Inl e \<Rightarrow> Done (Inl e, None)
      | Inr f \<Rightarrow>
     (case create_new d existing locked (dj_uuid jb) (dj_key jb) of
        Inl e \<Rightarrow> Done (Inl e, None)
      | Inr w \<Rightarrow>
     (case log_then d (run_header jb)
         \<lparr>es_fsm = f, es_journal = w, es_faults = faults, es_env = env, es_disk = disk\<rparr> (\<lambda>st.
         log_then d (run_armed rw jb) st (\<lambda>st.
         case rw_prepare rw of
           Inl e \<Rightarrow> Done (Inl e, st)
         | Inr _ \<Rightarrow> execute_device d rw (job_engine jb) (device_span (dj_identity jb) (dj_plan jb))
             (dj_plan jb) (di_logical_block_size (dj_identity jb)) st)) of
        Blocked \<Rightarrow> Blocked
      | Panic \<Rightarrow> Panic
      | Done (r, st) \<Rightarrow> Done (r, Some st)))))"

section \<open>What the pieces keep\<close>

lemma journal_append_fields:
  assumes "journal_append d r st = (st', res)"
  shows "es_fsm st' = es_fsm st \<and> es_env st' = es_env st \<and> es_disk st' = es_disk st"
  using assms by (auto simp: journal_append_def Let_def split: prod.splits)

lemma flush_device_Inr:
  "flush_device st = Done (Inr u, st') \<Longrightarrow>
     es_fsm st' = es_fsm st \<and> es_disk st' = es_disk st \<and> es_journal st' = es_journal st \<and>
     es_faults st' = es_faults st \<and> es_env st = Moved 0 # es_env st'"
  by (auto simp: flush_device_def split: list.splits syscall.splits nat.splits)

end
