(* ===== verification/Execution_Run.thy ===== *)
theory Execution_Run
  imports Execution
begin

text \<open>
  What a run of a device (\<open>Execution\<close>) guarantees: on success, the image on the device, the state
  of the lifecycle machine and the contents of the journal; on any outcome, that the journal only
  grows and runs ahead of the data.
\<close>

section \<open>Successful runs\<close>

text \<open>What appending leaves in the writer when no append fails.\<close>

definition logged :: "('sk, 'vk) journal_deps \<Rightarrow> 'sk journal_writer \<Rightarrow> journal_record list \<Rightarrow> 'sk journal_writer" where
  "logged d w rs = foldl (\<lambda>w r. fst (append_record d None w r)) w rs"

lemma logged_Nil [simp]: "logged d w [] = w"
  and logged_logged [simp]: "logged d (logged d w rs) rs' = logged d w (rs @ rs')"
  by (simp_all add: logged_def)

lemma append_record_Inr: "append_record d fault w r = (w', Inr h) \<Longrightarrow> w' = logged d w [r]"
  by (auto simp: append_record_def logged_def Let_def split: option.splits)

lemma log_then_ok:
  assumes "log_then d r st k = Done (Inr x, st'')"
  obtains st' where "k st' = Done (Inr x, st'')" "es_fsm st' = es_fsm st" "es_env st' = es_env st"
    "es_disk st' = es_disk st" "es_journal st' = logged d (es_journal st) [r]"
proof -
  obtain st' res where ap: "journal_append d r st = (st', res)" by fastforce
  with assms obtain h where k: "k st' = Done (Inr x, st'')" and res: "res = Inr h"
    by (auto simp: log_then_def split: sum.splits)
  have "es_journal st' = logged d (es_journal st) [r]"
    using ap res append_record_Inr by (fastforce simp: journal_append_def Let_def split: prod.splits)
  with journal_append_fields [OF ap] k that show ?thesis by blast
qed

definition wiped :: "keystream \<Rightarrow> source \<Rightarrow> lba_span \<Rightarrow> byte list \<Rightarrow> byte list \<Rightarrow> bool" where
  "wiped ks src sp disk disk' \<longleftrightarrow>
     take (ls_total_bytes sp) disk' = wipe_image ks src sp [0..<span_windows sp] \<and>
     drop (ls_total_bytes sp) disk' = drop (ls_total_bytes sp) disk"

lemma length_whole_image:
  "span_ok sp en disk \<Longrightarrow> length (wipe_image ks src sp [0..<span_windows sp]) = ls_total_bytes sp"
  using written_upto_whole [of sp en disk ks src] by simp

lemma wiped_span_ok: "wiped ks src sp disk disk' \<Longrightarrow> span_ok sp en disk \<Longrightarrow> span_ok sp en disk'"
  using length_whole_image [of sp en disk ks src]
  by (auto simp: wiped_def span_ok_def dest: arg_cong [of _ _ length])

lemma run_write_ok:
  assumes "run_write rw en i k p src sp 0 st = Done (Inr out, st')"
    and "span_ok sp en (es_disk st)" and "pass_source rw i (pa_pattern p) = Inr (Some src)"
  shows "wiped (rw_ks rw) src sp (es_disk st) (es_disk st') \<and> es_fsm st' = es_fsm st \<and>
    es_journal st' = es_journal st \<and> po_windows_written out \<le> span_windows sp"
proof (cases "pa_pattern p = ZeroP \<and> en_supports_write_zeroes en")
  case True
  then have "src = ZeroSource" using assms(3) by (simp add: pass_source_def split: option.splits)
  moreover obtain env' where z: "zero_pass (rw_ks rw) (rw_ccancel rw i) (rw_cancel rw i) en k sp 0 (es_env st)
      (es_disk st) = Done (Inr out, env', es_disk st')" and st': "es_fsm st' = es_fsm st" "es_journal st' = es_journal st"
    using assms(1) True by (auto simp: run_write_def split: io.splits)
  ultimately show ?thesis
    using zero_pass_ok [OF z assms(2)] zero_pass_windows [OF z] zero_image [of "rw_ks rw" sp "[0..<span_windows sp]"]
      length_whole_image [OF assms(2), of "rw_ks rw" ZeroSource]
    by (simp add: wiped_def zeroed_to_def st')
next
  case False
  then obtain env' where w: "write_pass (rw_ks rw) src (rw_cancel rw i) en k sp 0 (es_env st) (es_disk st) =
      Done (Inr out, env', es_disk st')" and st': "es_fsm st' = es_fsm st" "es_journal st' = es_journal st"
    using assms(1) by (auto simp: run_write_def split: io.splits if_splits)
  show ?thesis
    using write_pass_windows [OF w] write_pass_ok [OF w assms(2)] written_upto_whole [OF assms(2), of "rw_ks rw" src]
    by (simp add: wiped_def st')
qed

definition pass_records :: "run_world \<Rightarrow> nat \<Rightarrow> nat \<Rightarrow> source \<Rightarrow> nat \<Rightarrow> journal_record list" where
  "pass_records rw window_bytes k src n =
     [JBeginPass k (descriptor (rw_hex rw) dec src) window_bytes, JRangeCommit k 0 n, JEndPass k, JFlushed k]"


lemma begin_pass_Inr: "begin_pass st k = Inr (f, m) \<Longrightarrow> f = Executing k 0"
  by (auto simp: begin_pass_def split: fsm_state.splits)

lemma begin_flush_Inr: "begin_flush st k = Inr (f, m) \<Longrightarrow> f = Flushing k"
  by (auto simp: begin_flush_def split: fsm_state.splits)

lemma write_failed_Inl: "write_failed d rw i k e st \<noteq> Done (Inr x, st')"
  by (cases e) (auto simp: write_failed_def Let_def split: option.splits)

lemma commit_records_ok:
  assumes "commit_records d k first n st = Done (Inr u, st')"
  shows "es_disk st' = es_disk st \<and> es_fsm st' = Flushing k \<and>
    es_journal st' = logged d (es_journal st) [JRangeCommit k first n, JEndPass k, JFlushed k]"
proof -
  from assms obtain st3 f m where 3: "es_journal st3 = logged d (es_journal st)
        [JRangeCommit k first n, JEndPass k]" "es_disk st3 = es_disk st"
    and bf: "begin_flush (es_fsm st3) k = Inr (f, m)"
    and "(case flush_device (st3\<lparr>es_fsm := f\<rparr>) of
        Blocked \<Rightarrow> Blocked | Panic \<Rightarrow> Panic
      | Done (Inl e, st) \<Rightarrow> Done (Inl e, st)
      | Done (Inr _, st) \<Rightarrow>
      log_then d (JFlushed k) st (\<lambda>st. Done (Inr (), st))) = Done (Inr u, st')"
    unfolding commit_records_def by (force elim!: log_then_ok split: sum.splits prod.splits)
  then obtain st4 where 4: "es_journal st4 = es_journal st3" "es_disk st4 = es_disk st3" "es_fsm st4 = f"
    and "log_then d (JFlushed k) st4 (\<lambda>st. Done (Inr (), st)) = Done (Inr u, st')"
    by (auto split: io.splits sum.splits prod.splits dest!: flush_device_Inr)
  then have "es_journal st' = logged d (es_journal st4) [JFlushed k]" "es_disk st' = es_disk st4" "es_fsm st' = f"
    by (auto elim!: log_then_ok)
  then show ?thesis using 3 4 begin_flush_Inr [OF bf] by simp
qed

lemma commit_pass_ok:
  assumes "commit_pass d rw i k out st = Done (Inr u, st')"
  shows "es_disk st' = es_disk st \<and> es_fsm st' = Flushing k \<and>
    es_journal st' = logged d (es_journal st) [JRangeCommit k 0 (po_windows_written out), JEndPass k, JFlushed k]"
  using assms commit_records_ok [of d k 0 "po_windows_written out" st u st']
  by (simp add: commit_pass_def split: sum.splits if_splits)

lemma run_pass_ok:
  assumes "run_pass d rw en sp wb i p st = Done (Inr u, st')" and "span_ok sp en (es_disk st)"
  obtains src n where "pass_source rw i (pa_pattern p) = Inr (Some src)"
    "wiped (rw_ks rw) src sp (es_disk st) (es_disk st')" "es_fsm st' = Flushing (i mod 256)"
    "es_journal st' = logged d (es_journal st) (pass_records rw wb (i mod 256) src n)"
    "n \<le> span_windows sp"
proof -
  let ?k = "i mod 256"
  obtain f m src where bp: "begin_pass (es_fsm st) ?k = Inr (f, m)"
    and src: "pass_source rw i (pa_pattern p) = Inr (Some src)"
    using assms(1) by (fastforce simp: run_pass_def Let_def split: sum.splits option.splits prod.splits)
  from assms(1) obtain st1 where
    1: "es_journal st1 = logged d (es_journal st) [JBeginPass ?k (descriptor (rw_hex rw) dec src) wb]"
      "es_disk st1 = es_disk st"
    and k1: "write_and_commit d rw en sp i ?k p src st1 = Done (Inr u, st')"
    unfolding run_pass_def Let_def by (auto simp: bp src elim!: log_then_ok)
  from k1 obtain out st2 where rw: "run_write rw en i ?k p src sp 0 st1 = Done (Inr out, st2)"
    and cp: "commit_pass d rw i ?k out st2 = Done (Inr u, st')"
    by (auto simp: write_and_commit_def write_failed_Inl split: io.splits prod.splits sum.splits)
  have "wiped (rw_ks rw) src sp (es_disk st) (es_disk st2)" "es_journal st2 = es_journal st1"
    "po_windows_written out \<le> span_windows sp"
    using run_write_ok [OF rw _ src] assms(2) by (simp_all add: 1)
  with commit_pass_ok [OF cp] show thesis
    using that [OF src, of "po_windows_written out"] 1 by (simp add: pass_records_def)
qed

lemma wiped_trans: "wiped ks src sp a b \<Longrightarrow> wiped ks src' sp b c \<Longrightarrow> wiped ks src' sp a c"
  by (simp add: wiped_def)

definition source_of :: "run_world \<Rightarrow> nat \<Rightarrow> pass \<Rightarrow> source" where
  "source_of rw i p = the (projr (pass_source rw i (pa_pattern p)))"

definition passes_records :: "run_world \<Rightarrow> nat \<Rightarrow> (nat \<times> pass) list \<Rightarrow> nat list \<Rightarrow> journal_record list" where
  "passes_records rw wb ps ns =
     concat (map2 (\<lambda>(i, p) n. pass_records rw wb (i mod 256) (source_of rw i p) n) ps ns)"

lemma run_passes_ok:
  assumes "run_passes d rw en sp wb ps st = Done (Inr u, st')" and "span_ok sp en (es_disk st)"
  shows "(\<exists>ns. length ns = length ps \<and> set ns \<subseteq> {..span_windows sp} \<and> es_journal st' = logged d (es_journal st) (passes_records rw wb ps ns)) \<and>
    (if ps = [] then es_fsm st' = es_fsm st \<and> es_disk st' = es_disk st
     else (case last ps of (i, p) \<Rightarrow> pass_source rw i (pa_pattern p) = Inr (Some (source_of rw i p)) \<and>
       wiped (rw_ks rw) (source_of rw i p) sp (es_disk st) (es_disk st')))"
  using assms
proof (induction ps arbitrary: st)
  case Nil
  then show ?case by (simp add: passes_records_def)
next
  case (Cons ip ps)
  obtain i p where ip: "ip = (i, p)" by (cases ip)
  from Cons.prems(1) obtain st1 where rp: "run_pass d rw en sp wb i p st = Done (Inr (), st1)"
    and rest: "run_passes d rw en sp wb ps st1 = Done (Inr u, st')"
    by (auto simp: ip split: io.splits sum.splits prod.splits)
  from run_pass_ok [OF rp Cons.prems(2)] obtain src n where
    src: "pass_source rw i (pa_pattern p) = Inr (Some src)"
    and w: "wiped (rw_ks rw) src sp (es_disk st) (es_disk st1)"
    and j: "es_journal st1 = logged d (es_journal st) (pass_records rw wb (i mod 256) src n)"
    and n: "n \<le> span_windows sp"
    by blast
  have so: "source_of rw i p = src" by (simp add: source_of_def src)
  note ih = Cons.IH [OF rest wiped_span_ok [OF w Cons.prems(2)]]
  from ih obtain ns where "length ns = length ps" "set ns \<subseteq> {..span_windows sp}" "es_journal st' = logged d (es_journal st1) (passes_records rw wb ps ns)"
    by blast
  then have "\<exists>ns. length ns = length (ip # ps) \<and> set ns \<subseteq> {..span_windows sp} \<and>
      es_journal st' = logged d (es_journal st) (passes_records rw wb (ip # ps) ns)"
    by (intro exI [of _ "n # ns"]) (simp add: passes_records_def ip so j n)
  moreover have "case last (ip # ps) of (i, p) \<Rightarrow> pass_source rw i (pa_pattern p) = Inr (Some (source_of rw i p)) \<and>
       wiped (rw_ks rw) (source_of rw i p) sp (es_disk st) (es_disk st')"
    using ih w src so wiped_trans [OF w] by (cases "ps = []") (auto simp: ip split: prod.splits)
  ultimately show ?case by simp
qed

lemma run_read_back_ok:
  assumes "run_read_back d rw en sp src stride op hint v st = Done (Inr rep, st')"
  shows "\<exists>env v'. st' = st\<lparr>es_env := env\<rparr> \<and> rep = finalize (rw_blake3_hex rw) (rw_sha256_hex rw) v' \<and>
    read_verify (rw_ks rw) src (rw_vcancel rw) en sp stride on_window (es_env st) (es_disk st) v = Done (Inr v', env)"
proof (cases "read_verify (rw_ks rw) src (rw_vcancel rw) en sp stride on_window (es_env st) (es_disk st) v")
  case (Done x)
  obtain r env where x: "x = (r, env)" by (cases x)
  show ?thesis
  proof (cases r)
    case (Inl e)
    then show ?thesis using assms Done x by (cases e) (simp_all add: run_read_back_def)
  next
    case (Inr v')
    then show ?thesis using assms Done x by (auto simp: run_read_back_def)
  qed
qed (use assms in \<open>simp_all add: run_read_back_def\<close>)

lemma read_back_phase_ok:
  assumes "read_back_phase d rw en sp pl lbs passes st = Done (Inr rep, st')"
  shows "es_fsm st' = es_fsm st \<and> es_disk st' = es_disk st \<and> es_journal st' = es_journal st"
  using assms
  by (auto simp: read_back_phase_def Let_def dest!: run_read_back_ok split: if_splits sum.splits option.splits)

lemma begin_verify_Inr: "begin_verify st = Inr f \<Longrightarrow> f = Verifying \<and> (\<exists>k. st = Flushing k)"
  by (auto simp: begin_verify_def split: fsm_state.splits)

lemma certify_Inr: "certify st = Inr f \<Longrightarrow> f = Certified"
  by (auto simp: certify_def split: fsm_state.splits)

lemma complete_ok:
  assumes "complete d rw rep st = Done (Inr rep', st')"
  shows "es_fsm st' = Certified \<and> es_disk st' = es_disk st \<and> rep' = rep \<and>
    es_journal st' = logged d (es_journal st) [JCompleted (rw_now rw) (rw_ms rw)]"
proof (cases "certify (es_fsm st)")
  case (Inr f)
  have "log_then d (JCompleted (rw_now rw) (rw_ms rw)) (st\<lparr>es_fsm := f\<rparr>) (\<lambda>st. Done (Inr rep, st)) = Done (Inr rep', st')"
    using assms by (simp add: complete_def Inr)
  then show ?thesis by (rule log_then_ok) (simp add: certify_Inr [OF Inr])
qed (use assms in \<open>simp add: complete_def\<close>)

lemma verify_phase_ok:
  assumes "verify_phase d rw en sp pl lbs passes st = Done (Inr rep, st')"
  shows "es_fsm st' = Certified \<and> (\<exists>k. es_fsm st = Flushing k) \<and> es_disk st' = es_disk st \<and>
    vp_mismatch_count rep = 0 \<and>
    es_journal st' = logged d (es_journal st)
      [JVerify (verify_record_of (pl_verification pl) rep (en_supports_write_zeroes en)),
       JCompleted (rw_now rw) (rw_ms rw)]"
proof (cases "begin_verify (es_fsm st)")
  case (Inr f)
  show ?thesis
  proof (cases "read_back_phase d rw en sp pl lbs passes (st\<lparr>es_fsm := f\<rparr>)")
    case (Done x)
    obtain rep' st1 where x: "x = (Inr rep', st1)"
      using assms by (cases x; cases "fst x") (simp_all add: verify_phase_def Inr Done)
    have "log_then d (JVerify (verify_record_of (pl_verification pl) rep' (en_supports_write_zeroes en))) st1 (\<lambda>st.
      if vp_mismatch_count rep' > 0
      then log_then d (JFailed ''VERIFICATION_FAILED'' None (Some ''verify'')
             (if vp_first_mismatch_lbas rep' = [] then None else Some (hd (vp_first_mismatch_lbas rep')))
             (''Found '' @ dec (vp_mismatch_count rep') @ '' mismatching windows'')) st
             (\<lambda>st. Done (Inl (VerificationFailed (vp_mismatch_count rep') (vp_first_mismatch_lbas rep')), st))
      else complete d rw rep' st) = Done (Inr rep, st')"
      using assms by (simp add: verify_phase_def Inr Done x)
    then show ?thesis
    proof (rule log_then_ok)
      fix st2
      assume k: "(if vp_mismatch_count rep' > 0
          then log_then d (JFailed ''VERIFICATION_FAILED'' None (Some ''verify'')
             (if vp_first_mismatch_lbas rep' = [] then None else Some (hd (vp_first_mismatch_lbas rep')))
             (''Found '' @ dec (vp_mismatch_count rep') @ '' mismatching windows'')) st2
             (\<lambda>st. Done (Inl (VerificationFailed (vp_mismatch_count rep') (vp_first_mismatch_lbas rep')), st))
          else complete d rw rep' st2) = Done (Inr rep, st')"
        and 2: "es_fsm st2 = es_fsm st1" "es_disk st2 = es_disk st1"
          "es_journal st2 = logged d (es_journal st1)
            [JVerify (verify_record_of (pl_verification pl) rep' (en_supports_write_zeroes en))]"
      have mm: "vp_mismatch_count rep' = 0"
      proof (rule ccontr)
        assume "vp_mismatch_count rep' \<noteq> 0"
        with k show False by (simp only: neq0_conv if_True) (erule log_then_ok, simp)
      qed
      then have "complete d rw rep' st2 = Done (Inr rep, st')" using k by simp
      from complete_ok [OF this] show ?thesis
        using 2 mm read_back_phase_ok [OF Done [unfolded x]] begin_verify_Inr [OF Inr] by simp
    qed
  qed (use assms in \<open>simp_all add: verify_phase_def Inr\<close>)
qed (use assms in \<open>simp add: verify_phase_def\<close>)

lemma armed_fsm_Inr: "armed_fsm hash pl = Inr f \<Longrightarrow> f = Armed"
  by (auto simp: armed_fsm_def fsm_ops new_fsm_def res ok_or_def split: option.splits fsm_state.splits)

definition run_records ::
  "run_world \<Rightarrow> 'sk device_job \<Rightarrow> nat list \<Rightarrow> verification_report \<Rightarrow> journal_record list" where
  "run_records rw jb ns rep =
     [run_header jb, run_armed rw jb] @
     passes_records rw (pl_window_bytes (dj_plan jb)) (List.enumerate 0 (plan_passes (dj_plan jb))) ns @
     [JVerify (verify_record_of (pl_verification (dj_plan jb)) rep (en_supports_write_zeroes (job_engine jb))),
      JCompleted (rw_now rw) (rw_ms rw)]"

lemma execute_ok:
  assumes "execute_device_inner d hash rw jb existing locked faults env disk = Done (Inr rep, Some st)"
    and "span_ok (device_span (dj_identity jb) (dj_plan jb)) (job_engine jb) disk"
  shows "es_fsm st = Certified \<and> vp_mismatch_count rep = 0 \<and> existing = None \<and>
    (\<exists>ns. length ns = length (plan_passes (dj_plan jb)) \<and>
       set ns \<subseteq> {..span_windows (device_span (dj_identity jb) (dj_plan jb))} \<and>
       es_journal st = writer_after d (dj_key jb) (dj_uuid jb) (run_records rw jb ns rep)) \<and>
    (let ps = plan_passes (dj_plan jb); i = length ps - 1 in ps \<noteq> [] \<and>
       pass_source rw i (pa_pattern (last ps)) = Inr (Some (source_of rw i (last ps))) \<and>
       wiped (rw_ks rw) (source_of rw i (last ps)) (device_span (dj_identity jb) (dj_plan jb)) disk (es_disk st))"
proof -
  let ?ps = "plan_passes (dj_plan jb)" and ?eps = "List.enumerate 0 (plan_passes (dj_plan jb))"
    and ?sp = "device_span (dj_identity jb) (dj_plan jb)" and ?lbs = "di_logical_block_size (dj_identity jb)"
  obtain w where cn: "create_new d existing locked (dj_uuid jb) (dj_key jb) = Inr w"
    and lt: "log_then d (run_header jb)
         \<lparr>es_fsm = Armed, es_journal = w, es_faults = faults, es_env = env, es_disk = disk\<rparr> (\<lambda>st.
         log_then d (run_armed rw jb) st (\<lambda>st.
         case rw_prepare rw of
           Inl e \<Rightarrow> Done (Inl e, st)
         | Inr _ \<Rightarrow> execute_device d rw (job_engine jb) ?sp (dj_plan jb) ?lbs st)) = Done (Inr rep, st)"
    using assms(1) armed_fsm_Inr [of hash "dj_plan jb"]
    by (auto simp: execute_device_inner_def split: mechanism.splits sum.splits io.splits prod.splits)
  have w: "w = writer_after d (dj_key jb) (dj_uuid jb) []" and ex: "existing = None"
    using cn create_new_writer_after [of d "dj_uuid jb" "dj_key jb"] by (auto simp: create_new_def split: if_splits)
  from lt obtain st1 where 1: "es_disk st1 = disk" "es_fsm st1 = Armed"
    "es_journal st1 = logged d w [run_header jb, run_armed rw jb]"
    and k: "execute_device d rw (job_engine jb) ?sp (dj_plan jb) ?lbs st1 = Done (Inr rep, st)"
    by (auto elim!: log_then_ok split: sum.splits)
  from k obtain st2 where rp: "run_passes d rw (job_engine jb) ?sp (pl_window_bytes (dj_plan jb)) ?eps st1 = Done (Inr (), st2)"
    and vp: "verify_phase d rw (job_engine jb) ?sp (dj_plan jb) ?lbs ?ps st2 = Done (Inr rep, st)"
    by (auto simp: execute_device_def split: io.splits sum.splits)
  note p = run_passes_ok [OF rp, unfolded 1, OF assms(2)] and v = verify_phase_ok [OF vp]
  have ne: "?ps \<noteq> []" using p v by (auto simp: enumerate_eq_zip)
  have neq: "?eps \<noteq> []" using ne by (metis length_enumerate length_0_conv)
  then have last: "last ?eps = (length ?ps - 1, last ?ps)"
    using ne by (simp add: last_conv_nth nth_enumerate_eq)
  from p obtain ns where ns: "length ns = length ?eps" "set ns \<subseteq> {..span_windows ?sp}"
    "es_journal st2 = logged d (logged d w [run_header jb, run_armed rw jb])
      (passes_records rw (pl_window_bytes (dj_plan jb)) ?eps ns)" by blast
  have "es_journal st = writer_after d (dj_key jb) (dj_uuid jb) (run_records rw jb ns rep)"
    using v ns(3) by (simp add: run_records_def w writer_after_def logged_def)
  then show ?thesis
    using v p ns(1,2) ne ex by (auto simp: Let_def last neq)
qed

section \<open>The journal only grows\<close>

text \<open>Whatever the outcome of an operation, it has only appended to the journal file.\<close>

definition grows :: "'sk exec_state \<Rightarrow> 'sk exec_state \<Rightarrow> bool" where
  "grows st st' \<longleftrightarrow> prefix (jw_file (es_journal st)) (jw_file (es_journal st'))"

lemma grows_refl [simp]: "grows st st" by (simp add: grows_def)

lemma grows_trans: "grows a b \<Longrightarrow> grows b c \<Longrightarrow> grows a c"
  by (auto simp: grows_def intro: prefix_order.trans)

lemma grows_update [simp]:
  "grows (st\<lparr>es_fsm := f\<rparr>) st' = grows st st'" "grows (st\<lparr>es_env := e\<rparr>) st' = grows st st'"
  "grows st (st'\<lparr>es_fsm := f\<rparr>) = grows st st'" "grows st (st'\<lparr>es_env := e\<rparr>) = grows st st'"
  by (simp_all add: grows_def)

lemma journal_append_grows: "grows st (fst (journal_append d r st))"
  by (auto simp: grows_def journal_append_def append_record_def Let_def split: prod.splits option.splits)

lemma log_ignore_grows: "grows st (log_ignore d r st)"
  by (simp add: log_ignore_def journal_append_grows)

lemma log_then_grows:
  assumes "log_then d r st k = Done (x, st'')"
    and "\<And>st'. k st' = Done (x, st'') \<Longrightarrow> grows st' st''"
  shows "grows st st''"
proof -
  obtain st' res where ap: "journal_append d r st = (st', res)" by fastforce
  have "grows st st'" using journal_append_grows [of st d r] ap by simp
  moreover have "grows st' st''"
    using assms ap by (cases res) (simp_all add: log_then_def)
  ultimately show ?thesis by (rule grows_trans)
qed

lemma log_then_grows_fsm:
  assumes "log_then d r (st\<lparr>es_fsm := f\<rparr>) k = Done (x, st'')"
    and "\<And>st'. k st' = Done (x, st'') \<Longrightarrow> grows st' st''"
  shows "grows st st''"
  using log_then_grows [OF assms] by simp

lemma write_failed_grows: "write_failed d rw i k e st = Done (x, st') \<Longrightarrow> grows st st'"
  by (cases e) (auto simp: write_failed_def log_ignore_grows Let_def split: option.splits if_splits)

lemma run_write_grows: "run_write rw en i k p src sp s st = Done (x, st') \<Longrightarrow> grows st st'"
  by (auto simp: run_write_def grows_def split: io.splits)

lemma flush_device_grows: "flush_device st = Done (x, st') \<Longrightarrow> grows st st'"
  by (auto simp: flush_device_def split: list.splits syscall.splits nat.splits)


lemma commit_records_grows:
  assumes "commit_records d k first n st = Done (x, st')"
  shows "grows st st'"
proof -
  have "log_then d (JFlushed k) s (\<lambda>st. Done (Inr (), st)) = Done (x, st') \<Longrightarrow> grows s st'" for s
    by (erule log_then_grows) simp
  then have fl: "(case flush_device (s\<lparr>es_fsm := f\<rparr>) of Blocked \<Rightarrow> Blocked | Panic \<Rightarrow> Panic
      | Done (Inl e, st) \<Rightarrow> Done (Inl e, st)
      | Done (Inr _, st) \<Rightarrow> log_then d (JFlushed k) st (\<lambda>st. Done (Inr (), st))) = Done (x, st') \<Longrightarrow> grows s st'" for s f
    by (auto split: io.splits prod.splits sum.splits dest!: flush_device_grows intro: grows_trans)
  show ?thesis
    using assms unfolding commit_records_def
    by (auto dest: fl elim!: log_then_grows split: prod.splits sum.splits)
qed

lemma commit_pass_grows: "commit_pass d rw i k out st = Done (x, st') \<Longrightarrow> grows st st'"
  by (auto simp: commit_pass_def dest: commit_records_grows split: sum.splits)

lemma write_and_commit_grows: "write_and_commit d rw en sp i k p src st = Done (x, st') \<Longrightarrow> grows st st'"
  by (auto simp: write_and_commit_def split: io.splits prod.splits sum.splits
      dest!: run_write_grows write_failed_grows commit_pass_grows intro: grows_trans)

lemma run_pass_grows: "run_pass d rw en sp wb i p st = Done (x, st') \<Longrightarrow> grows st st'"
  by (auto simp: run_pass_def Let_def split: sum.splits option.splits prod.splits
      elim!: log_then_grows_fsm dest: write_and_commit_grows)

lemma run_passes_grows: "run_passes d rw en sp wb ps st = Done (x, st') \<Longrightarrow> grows st st'"
proof (induction ps arbitrary: st)
  case (Cons ip ps)
  obtain i p where ip: "ip = (i, p)" by (cases ip)
  show ?case
  proof (cases "run_pass d rw en sp wb i p st")
    case (Done y)
    obtain r st1 where y: "y = (r, st1)" by (cases y)
    have g: "grows st st1" using run_pass_grows Done y by blast
    show ?thesis
    proof (cases r)
      case (Inr u)
      then show ?thesis using Cons.IH [of st1] Cons.prems g by (auto simp: ip Done y intro: grows_trans)
    qed (use Cons.prems g in \<open>simp add: ip Done y\<close>)
  qed (use Cons.prems in \<open>simp_all add: ip\<close>)
qed simp

lemma run_read_back_grows:
  assumes "run_read_back d rw en sp src stride op hint v st = Done (x, st')"
  shows "grows st st'"
proof (cases "read_verify (rw_ks rw) src (rw_vcancel rw) en sp stride on_window (es_env st) (es_disk st) v")
  case (Done y)
  obtain r env where y: "y = (r, env)" by (cases y)
  have g: "grows st (log_ignore d rec (st\<lparr>es_env := env\<rparr>))" for rec
    using log_ignore_grows [of "st\<lparr>es_env := env\<rparr>" d rec] by simp
  show ?thesis
  proof (cases r)
    case (Inl e)
    then show ?thesis using assms Done y g by (cases e) (auto simp: run_read_back_def)
  next
    case (Inr v')
    then show ?thesis using assms Done y by (auto simp: run_read_back_def)
  qed
qed (use assms in \<open>simp_all add: run_read_back_def\<close>)

lemma read_back_phase_grows: "read_back_phase d rw en sp pl lbs passes st = Done (x, st') \<Longrightarrow> grows st st'"
  by (auto simp: read_back_phase_def Let_def dest: run_read_back_grows split: if_splits sum.splits option.splits)

lemma verify_phase_grows:
  assumes "verify_phase d rw en sp pl lbs passes st = Done (x, st')"
  shows "grows st st'"
proof (cases "begin_verify (es_fsm st)")
  case (Inr f)
  have c: "complete d rw rep s = Done (x, st') \<Longrightarrow> grows s st'" for rep s
    by (auto simp: complete_def split: sum.splits elim!: log_then_grows_fsm)
  show ?thesis
  proof (cases "read_back_phase d rw en sp pl lbs passes (st\<lparr>es_fsm := f\<rparr>)")
    case (Done y)
    obtain r st1 where y: "y = (r, st1)" by (cases y)
    have g: "grows st st1" using read_back_phase_grows [OF Done [unfolded y]] by simp
    show ?thesis
    proof (cases r)
      case r: (Inr rep)
      have "log_then d (JVerify (verify_record_of (pl_verification pl) rep (en_supports_write_zeroes en))) st1 (\<lambda>st.
      if vp_mismatch_count rep > 0
      then log_then d (JFailed ''VERIFICATION_FAILED'' None (Some ''verify'')
             (if vp_first_mismatch_lbas rep = [] then None else Some (hd (vp_first_mismatch_lbas rep)))
             (''Found '' @ dec (vp_mismatch_count rep) @ '' mismatching windows'')) st
             (\<lambda>st. Done (Inl (VerificationFailed (vp_mismatch_count rep) (vp_first_mismatch_lbas rep)), st))
      else complete d rw rep st) = Done (x, st')"
        using assms by (simp add: verify_phase_def Inr Done y r)
      then have "grows st1 st'"
        by (rule log_then_grows) (auto elim!: log_then_grows dest: c split: if_splits)
      with g show ?thesis by (rule grows_trans)
    qed (use assms Inr Done y g in \<open>simp add: verify_phase_def\<close>)
  qed (use assms Inr in \<open>simp_all add: verify_phase_def\<close>)
qed (use assms in \<open>simp add: verify_phase_def\<close>)

section \<open>The journal runs ahead\<close>

lemma log_then_cases:
  assumes "log_then d r st k = Done (x, st'')"
  obtains (failed) e where "x = Inl e" "es_disk st'' = es_disk st"
  | (appended) st1 where "k st1 = Done (x, st'')" "es_disk st1 = es_disk st"
      "es_journal st1 = logged d (es_journal st) [r]" "es_fsm st1 = es_fsm st"
proof -
  obtain st1 res where ap: "journal_append d r st = (st1, res)" by fastforce
  show thesis
  proof (cases res)
    case (Inl e)
    then show thesis using assms ap journal_append_fields [OF ap] failed by (auto simp: log_then_def)
  next
    case (Inr h)
    have "es_journal st1 = logged d (es_journal st) [r]"
      using ap Inr append_record_Inr by (fastforce simp: journal_append_def Let_def split: prod.splits)
    then show thesis
      using assms ap journal_append_fields [OF ap] Inr appended by (auto simp: log_then_def)
  qed
qed

text \<open>A pass that touches the device has its \<open>BeginPass\<close> record in the journal first.\<close>

lemma run_pass_logs_first:
  assumes "run_pass d rw en sp wb i p st = Done (x, st')"
  shows "(isl x \<and> es_disk st' = es_disk st) \<or>
    (\<exists>src. prefix (jw_file (logged d (es_journal st) [JBeginPass (i mod 256) (descriptor (rw_hex rw) dec src) wb]))
      (jw_file (es_journal st')))"
proof -
  let ?k = "i mod 256"
  consider (early) e where "x = Inl e" "es_disk st' = es_disk st"
    | (go) f src where "log_then d (JBeginPass ?k (descriptor (rw_hex rw) dec src) wb) (st\<lparr>es_fsm := f\<rparr>)
        (write_and_commit d rw en sp i ?k p src) = Done (x, st')"
    using assms by (fastforce simp: run_pass_def Let_def split: sum.splits option.splits prod.splits)
  then show ?thesis
  proof cases
    case go
    from go show ?thesis
    proof (cases rule: log_then_cases)
      case (appended st1)
      then show ?thesis using write_and_commit_grows [OF appended(1)] by (auto simp: grows_def)
    qed auto
  qed simp
qed

lemma execute_device_logs_first:
  assumes "execute_device d rw en sp pl lbs st = Done (x, st')" and "es_fsm st = Armed"
  shows "es_disk st' = es_disk st \<or>
    (\<exists>src. prefix (jw_file (logged d (es_journal st) [JBeginPass 0 (descriptor (rw_hex rw) dec src) (pl_window_bytes pl)]))
      (jw_file (es_journal st')))"
proof (cases "plan_passes pl")
  case Nil
  then show ?thesis using assms by (auto simp: execute_device_def verify_phase_def begin_verify_def)
next
  case (Cons p ps)
  note ps = this
  let ?wb = "pl_window_bytes pl" and ?rest = "List.enumerate 1 ps"
  show ?thesis
  proof (cases "run_pass d rw en sp ?wb 0 p st")
    case (Done y)
    obtain r st1 where y: "y = (r, st1)" by (cases y)
    have "grows st1 st'" if "\<not> isl r"
    proof (cases "run_passes d rw en sp ?wb ?rest st1")
      case d2: (Done z)
      obtain r2 st2 where z: "z = (r2, st2)" by (cases z)
      have "grows st1 st2" using run_passes_grows d2 z by blast
      moreover have "grows st2 st'"
        using assms(1) that Done y d2 z verify_phase_grows
        by (cases r; cases r2) (auto simp: execute_device_def ps)
      ultimately show ?thesis by (rule grows_trans)
    qed (use assms(1) that Done y in \<open>cases r; simp add: execute_device_def ps\<close>)+
    moreover have "st' = st1" if "isl r"
      using assms(1) that Done y by (cases r) (auto simp: execute_device_def ps)
    ultimately show ?thesis
      using run_pass_logs_first [OF Done [unfolded y]]
      by (cases "isl r") (auto simp: grows_def intro: prefix_order.trans)
  qed (use assms(1) in \<open>simp_all add: execute_device_def ps\<close>)
qed

section \<open>Properties\<close>

text \<open>C2: Write-ahead. However a run of a device ends, if it has changed a byte of the device then its
  journal file begins with the header, the \<open>Armed\<close> record and the \<open>BeginPass\<close> of pass 0: no data is
  overwritten before the journal says so.\<close>

theorem journal_before_data:
  assumes "execute_device_inner d hash rw jb existing locked faults env disk = Done (r, Some st)"
    and "es_disk st \<noteq> disk"
  shows "\<exists>src. prefix
    (jw_file (writer_after d (dj_key jb) (dj_uuid jb)
      [run_header jb, run_armed rw jb, JBeginPass 0 (descriptor (rw_hex rw) dec src) (pl_window_bytes (dj_plan jb))]))
    (jw_file (es_journal st))"
proof -
  let ?sp = "device_span (dj_identity jb) (dj_plan jb)" and ?lbs = "di_logical_block_size (dj_identity jb)"
  obtain w where cn: "create_new d existing locked (dj_uuid jb) (dj_key jb) = Inr w"
    and lt: "log_then d (run_header jb)
         \<lparr>es_fsm = Armed, es_journal = w, es_faults = faults, es_env = env, es_disk = disk\<rparr> (\<lambda>st.
         log_then d (run_armed rw jb) st (\<lambda>st.
         case rw_prepare rw of
           Inl e \<Rightarrow> Done (Inl e, st)
         | Inr _ \<Rightarrow> execute_device d rw (job_engine jb) ?sp (dj_plan jb) ?lbs st)) = Done (r, st)"
    using assms(1) armed_fsm_Inr [of hash "dj_plan jb"]
    by (auto simp: execute_device_inner_def split: mechanism.splits sum.splits io.splits prod.splits)
  have w: "w = writer_after d (dj_key jb) (dj_uuid jb) []"
    using cn create_new_writer_after [of d "dj_uuid jb" "dj_key jb"] by (auto simp: create_new_def split: if_splits)
  obtain st1 where 1: "es_disk st1 = disk" "es_fsm st1 = Armed"
      "es_journal st1 = logged d w [run_header jb, run_armed rw jb]"
    and "execute_device d rw (job_engine jb) ?sp (dj_plan jb) ?lbs st1 = Done (r, st)"
    using lt assms(2) by (elim log_then_cases) (auto split: sum.splits)
  from execute_device_logs_first [OF this(4) this(2)] assms(2) show ?thesis
    by (simp add: 1 w logged_def writer_after_def)
qed

text \<open>C1: End to end. When the run of a device returns its verification report, the lifecycle machine
  is certified, the read-back found no mismatch, and the device holds the image of the plan's last
  pass over its whole size, with the bytes past it untouched, whatever faults, short transfers and
  fallbacks happened on the way.\<close>

theorem successful_run_wipes:
  assumes "execute_device_inner d hash rw jb existing locked faults env disk = Done (Inr rep, Some st)"
    and "si_size_bytes (di_stable (dj_identity jb)) \<le> u64_max"
    and "si_size_bytes (di_stable (dj_identity jb)) \<le> length disk"
    and "4096 \<le> pl_window_bytes (dj_plan jb)"
  shows "es_fsm st = Certified \<and> vp_mismatch_count rep = 0 \<and>
    (\<exists>src. pass_source rw (length (plan_passes (dj_plan jb)) - 1)
         (pa_pattern (last (plan_passes (dj_plan jb)))) = Inr (Some src) \<and>
       es_disk st = wipe_image (rw_ks rw) src (device_span (dj_identity jb) (dj_plan jb))
           [0..<span_windows (device_span (dj_identity jb) (dj_plan jb))] @
         drop (si_size_bytes (di_stable (dj_identity jb))) disk)"
proof -
  have "span_ok (device_span (dj_identity jb) (dj_plan jb)) (job_engine jb) disk"
    using assms(2-4) by (simp add: span_ok_def device_span_def new_span_def job_engine_def new_engine_def)
  from execute_ok [OF assms(1) this] show ?thesis
    by (auto simp: Let_def wiped_def device_span_def new_span_def) (metis append_take_drop_id)
qed

text \<open>C6: The journal of a successful run, read back from its file, verifies and consists of exactly
  the header, the \<open>Armed\<close> record, the four records of every pass in order, the verification result
  and the completion, with no torn tail.\<close>

theorem successful_run_journal:
  assumes "execute_device_inner d hash rw jb existing locked faults env disk = Done (Inr rep, Some st)"
    and "si_size_bytes (di_stable (dj_identity jb)) \<le> u64_max"
    and "si_size_bytes (di_stable (dj_identity jb)) \<le> length disk"
    and "4096 \<le> pl_window_bytes (dj_plan jb)"
    and "\<And>ns. length ns = length (plan_passes (dj_plan jb)) \<Longrightarrow>
      set ns \<subseteq> {..span_windows (device_span (dj_identity jb) (dj_plan jb))} \<Longrightarrow>
      wf_journal d (dj_key jb) (run_records rw jb ns rep)"
    and "length (jw_file (es_journal st)) \<le> journal_max_file_bytes"
  shows "\<exists>ns. length ns = length (plan_passes (dj_plan jb)) \<and>
    read_and_verify_chain d True (Some (jw_file (es_journal st))) =
      Inr (run_records rw jb ns rep, summary_at d (run_records rw jb ns rep) 0)"
proof -
  have "span_ok (device_span (dj_identity jb) (dj_plan jb)) (job_engine jb) disk"
    using assms(2-4) by (simp add: span_ok_def device_span_def new_span_def job_engine_def new_engine_def)
  from execute_ok [OF assms(1) this] obtain ns where ns: "length ns = length (plan_passes (dj_plan jb))"
      "set ns \<subseteq> {..span_windows (device_span (dj_identity jb) (dj_plan jb))}"
    and j: "es_journal st = writer_after d (dj_key jb) (dj_uuid jb) (run_records rw jb ns rep)" by blast
  let ?rs = "run_records rw jb ns rep" and ?key = "dj_key jb"
  have wf: "wf_journal d ?key ?rs" using assms(5) [OF ns] .
  then have f: "jw_file (es_journal st) = journal_file d ?key ?rs"
    by (simp add: j writer_after_eq wf_journal_def)
  have "length (journal_file d ?key ?rs) \<le> journal_max_file_bytes" using assms(6) by (simp add: f)
  from read_whole [OF wf this] ns(1) f show ?thesis by auto
qed

end
