(* ===== verification/Resume.thy ===== *)
theory Resume
  imports Execution_Run
begin

text \<open>
  Resuming an interrupted run from its journal (\<open>cmd_resume\<close> in \<open>crates/dc-cli/src/lib.rs\<close>): the
  journal is verified, the position is read off its records, the device is guarded and locked
  again, the writer is reopened behind the verified prefix, and the remaining passes and the
  read-back run with the engine of \<open>Wipe_Engine\<close>. What the command reads from outside is
  \<open>run_world\<close> and \<open>resume_world\<close>; the certificate built at the end is not part of this model.
\<close>

section \<open>Where the run stopped\<close>

record resume_position =
  rp_last_pass :: nat
  rp_committed :: nat
  rp_verify_reached :: bool

definition scan_record :: "resume_position \<Rightarrow> journal_record \<Rightarrow> resume_position" where
  "scan_record rp r =
     (case r of
        JBeginPass k _ _ \<Rightarrow> rp\<lparr>rp_last_pass := k, rp_committed := 0\<rparr>
      | JRangeCommit k _ n \<Rightarrow>
          if k = rp_last_pass rp then rp\<lparr>rp_committed := rp_committed rp + n\<rparr> else rp
      | JFlushed _ \<Rightarrow> rp\<lparr>rp_verify_reached := True\<rparr>
      | _ \<Rightarrow> rp)"

definition resume_scan :: "journal_record list \<Rightarrow> resume_position" where
  "resume_scan rs = foldl scan_record
     \<lparr>rp_last_pass = 0, rp_committed = 0, rp_verify_reached = False\<rparr> rs"

fun journal_header_of :: "journal_record list \<Rightarrow> journal_header option" where
  "journal_header_of [] = None"
| "journal_header_of (JHeader h # rs) = Some h"
| "journal_header_of (r # rs) = journal_header_of rs"

definition is_completed :: "journal_record \<Rightarrow> bool" where
  "is_completed r = (case r of JCompleted _ _ \<Rightarrow> True | _ \<Rightarrow> False)"

section \<open>The remaining passes\<close>

definition resume_write_failed ::
  "('sk, 'vk) journal_deps \<Rightarrow> run_world \<Rightarrow> nat \<Rightarrow> dc_error \<Rightarrow> 'sk exec_state \<Rightarrow> ('a, 'sk) exec" where
  "resume_write_failed d rw k e st =
     (case e of
        Interrupted c \<Rightarrow>
          (let (p, w) = (case c of Some (p, w) \<Rightarrow> (Some p, Some w) | None \<Rightarrow> (Some k, None))
           in Done (Inl (Interrupted c), log_ignore d
                (interrupted_record rw ''Graceful drain on termination signal during resume'' p w) st))
      | _ \<Rightarrow> Done (Inl e, log_ignore d (failed_record rw ''resume-write'' e) st))"

definition resume_write ::
  "('sk, 'vk) journal_deps \<Rightarrow> run_world \<Rightarrow> engine \<Rightarrow> lba_span \<Rightarrow> nat \<Rightarrow> nat \<Rightarrow> pass \<Rightarrow> source \<Rightarrow>
   'sk exec_state \<Rightarrow> (unit, 'sk) exec" where
  "resume_write d rw en sp idx start p src st =
     (case run_write rw en idx (idx mod 256) p src sp start st of
        Blocked \<Rightarrow> Blocked
      | Panic \<Rightarrow> Panic
      | Done (Inl e, st) \<Rightarrow> resume_write_failed d rw (idx mod 256) e st
      | Done (Inr out, st) \<Rightarrow> commit_records d (idx mod 256) start (po_windows_written out) st)"

text \<open>\<open>offset\<close> is the position in the plan: the code adds the last pass to it once more.\<close>

definition resume_pass ::
  "('sk, 'vk) journal_deps \<Rightarrow> run_world \<Rightarrow> engine \<Rightarrow> lba_span \<Rightarrow> nat \<Rightarrow> resume_position \<Rightarrow> nat \<Rightarrow> pass \<Rightarrow>
   'sk exec_state \<Rightarrow> (unit, 'sk) exec" where
  "resume_pass d rw en sp window_bytes rp offset p st =
     (let idx = rp_last_pass rp + offset;
          start = (if idx = rp_last_pass rp then rp_committed rp else 0)
      in case begin_pass (es_fsm st) (idx mod 256) of
        Inl e \<Rightarrow> Done (Inl e, st)
      | Inr (f, _) \<Rightarrow>
      let st = st\<lparr>es_fsm := f\<rparr>
      in case create_pattern_source (pa_pattern p) of
        None \<Rightarrow> Panic
      | Some src \<Rightarrow>
          if start = 0
          then log_then d (JBeginPass (idx mod 256) (descriptor (rw_hex rw) dec src) window_bytes) st
                 (resume_write d rw en sp idx start p src)
          else resume_write d rw en sp idx start p src st)"

fun resume_passes ::
  "('sk, 'vk) journal_deps \<Rightarrow> run_world \<Rightarrow> engine \<Rightarrow> lba_span \<Rightarrow> nat \<Rightarrow> resume_position \<Rightarrow>
   (nat \<times> pass) list \<Rightarrow> 'sk exec_state \<Rightarrow> (unit, 'sk) exec" where
  "resume_passes d rw en sp window_bytes rp [] st = Done (Inr (), st)"
| "resume_passes d rw en sp window_bytes rp ((offset, p) # ps) st =
     (case resume_pass d rw en sp window_bytes rp offset p st of
        Blocked \<Rightarrow> Blocked
      | Panic \<Rightarrow> Panic
      | Done (Inl e, st') \<Rightarrow> Done (Inl e, st')
      | Done (Inr _, st') \<Rightarrow> resume_passes d rw en sp window_bytes rp ps st')"

section \<open>The read-back\<close>

text \<open>The mismatch count is journalled and goes into the certificate; it does not stop the command.\<close>

definition resume_verify ::
  "('sk, 'vk) journal_deps \<Rightarrow> run_world \<Rightarrow> engine \<Rightarrow> lba_span \<Rightarrow> plan \<Rightarrow> nat \<Rightarrow> pass list \<Rightarrow>
   'sk exec_state \<Rightarrow> (verification_report, 'sk) exec" where
  "resume_verify d rw en sp pl lbs passes st =
     (case begin_verify (es_fsm st) of
        Inl e \<Rightarrow> Done (Inl e, st)
      | Inr f \<Rightarrow>
      if passes = [] then Panic
      else case create_pattern_source (pa_pattern (last passes)) of
        None \<Rightarrow> Panic
      | Some src \<Rightarrow>
      (case run_read_back d rw en sp src (effective_stride (pl_verification pl)) ''resume-verify-read''
          ''Graceful drain on termination signal during resume verification''
          (new_verifier (pl_verification pl) (pl_window_bytes pl) lbs False) (st\<lparr>es_fsm := f\<rparr>) of
        Blocked \<Rightarrow> Blocked
      | Panic \<Rightarrow> Panic
      | Done (Inl e, st) \<Rightarrow> Done (Inl e, st)
      | Done (Inr rep, st) \<Rightarrow>
      log_then d (JVerify ((verify_record_of (pl_verification pl) rep (en_supports_write_zeroes en))
          \<lparr>vr_stream_hash_sha256 := None\<rparr>)) st
        (complete d rw rep)))"

section \<open>The command\<close>

text \<open>
  \<open>sw_live\<close>: probing, guardian and lock; \<open>sw_key\<close>: the \<open>--key\<close> argument as loaded, with its public
  key; \<open>sw_can_write_zeroes\<close>: the layer stack of the device.
\<close>

record 'sk resume_world =
  sw_live :: "dc_error + unit"
  sw_key :: "(dc_error + 'sk \<times> string) option"
  sw_can_write_zeroes :: bool

definition resume_key ::
  "'sk resume_world \<Rightarrow> journal_record list \<Rightarrow> bool \<Rightarrow> dc_error + 'sk option" where
  "resume_key sw records sealed =
     (case sw_key sw of
        Some (Inl e) \<Rightarrow> Inl e
      | Some (Inr (sk, pk)) \<Rightarrow>
          (case records of
             JHeader h # _ \<Rightarrow>
               if sealed \<and> jh_operator_pubkey h \<noteq> None \<and> jh_operator_pubkey h \<noteq> Some pk
               then Inl (CertSigning ''Key mismatch for sealed journal!'')
               else Inr (if sealed then Some sk else None)
           | _ \<Rightarrow> Inr (if sealed then Some sk else None))
      | None \<Rightarrow>
          if sealed then Inl (Usage (UsageMsg ''This journal is SEALED with digital signatures.''))
          else Inr None)"

definition resume_run ::
  "('sk, 'vk) journal_deps \<Rightarrow> run_world \<Rightarrow> 'sk resume_world \<Rightarrow> journal_header \<Rightarrow> journal_record list \<Rightarrow>
   journal_summary \<Rightarrow> 'sk exec_state \<Rightarrow> (verification_report, 'sk) exec" where
  "resume_run d rw sw h records sm st =
     (let rp = resume_scan records;
          pl = jh_plan h;
          sp = device_span (jh_identity h) pl;
          en = new_engine (pl_window_bytes pl)
                 (sw_can_write_zeroes sw \<and> pl_fast_path pl = PreferWriteZeroes);
          ps = plan_passes pl
      in log_then d (JArmed []
           [dec (ki_major (di_kernel (jh_identity h))) @ '':'' @ dec (ki_minor (di_kernel (jh_identity h)))]
           (rw_now rw)) st (\<lambda>st.
         log_then d (JResumed (if rp_verify_reached rp then ''verify'' else ''pass_'' @ dec (rp_last_pass rp))
           (rp_last_pass rp) (rp_committed rp) (js_discarded_tail_bytes sm) (rw_now rw)) st (\<lambda>st.
         case rw_prepare rw of
           Inl e \<Rightarrow> Done (Inl e, st)
         | Inr _ \<Rightarrow>
         (case (if rp_verify_reached rp then Done (Inr (), st)
                else resume_passes d rw en sp (pl_window_bytes pl) rp
                  (drop (rp_last_pass rp) (List.enumerate 0 ps)) st) of
            Blocked \<Rightarrow> Blocked
          | Panic \<Rightarrow> Panic
          | Done (Inl e, st) \<Rightarrow> Done (Inl e, st)
          | Done (Inr _, st) \<Rightarrow>
              resume_verify d rw en sp pl (di_logical_block_size (jh_identity h)) ps st))))"

text \<open>\<open>fs\<close>: the journal and its tail-save file. Without a state, the command ended before it had a writer.\<close>

definition cmd_resume ::
  "('sk, 'vk) journal_deps \<Rightarrow> (plan \<Rightarrow> string option) \<Rightarrow> run_world \<Rightarrow> 'sk resume_world \<Rightarrow>
   byte list \<times> byte list \<Rightarrow> bool \<Rightarrow> nat option list \<Rightarrow> syscall list \<Rightarrow> byte list \<Rightarrow>
   ((dc_error + verification_report) \<times> 'sk exec_state option) io" where
  "cmd_resume d hash rw sw fs locked faults env disk =
     (case read_and_verify_chain d True (Some (fst fs)) of
        Inl e \<Rightarrow> Done (Inl e, None)
      | Inr (records, sm) \<Rightarrow>
      if records = [] then Done (Inl (JournalCorrupt 0 JournalEmpty), None)
      else if is_completed (last records)
      then Done (Inl (JournalCorrupt (js_record_count sm) JournalAlreadyComplete), None)
      else (case journal_header_of records of
        None \<Rightarrow> Done (Inl (JournalCorrupt 0 MissingHeader), None)
      | Some h \<Rightarrow>
      (case and_then (sw_live sw) (\<lambda>_.
            and_then (armed_fsm hash (jh_plan h)) (\<lambda>f.
            and_then (resume_key sw records (js_sealed sm)) (\<lambda>key. Inr (f, key)))) of
        Inl e \<Rightarrow> Done (Inl e, None)
      | Inr (f, key) \<Rightarrow>
      (case snd (open_for_resume d fs locked (js_chain_head sm) (js_record_count sm)
          (if js_discarded_tail_bytes sm > 0 then Some (length (fst fs) - js_discarded_tail_bytes sm) else None)
          (js_uuid sm) (js_sealed sm) key) of
        Inl e \<Rightarrow> Done (Inl e, None)
      | Inr w \<Rightarrow>
      (case resume_run d rw sw h records sm
          \<lparr>es_fsm = f, es_journal = w, es_faults = faults, es_env = env, es_disk = disk\<rparr> of
        Blocked \<Rightarrow> Blocked
      | Panic \<Rightarrow> Panic
      | Done (r, st) \<Rightarrow> Done (r, Some st))))))"

section \<open>What the pieces keep\<close>

lemma plain_source:
  "create_pattern_source pat = Some src \<Longrightarrow> pass_source rw i pat = Inr (Some src)"
  by (cases pat) (auto simp: pass_source_def split: option.splits)

lemma resume_write_failed_Inl: "resume_write_failed d rw k e st \<noteq> Done (Inr x, st')"
  by (cases e) (auto simp: resume_write_failed_def Let_def split: option.splits)

lemma resume_write_Inr:
  assumes "resume_write d rw en sp idx start p src st = Done (Inr u, st')"
  obtains out st1 where "run_write rw en idx (idx mod 256) p src sp start st = Done (Inr out, st1)"
    "es_disk st' = es_disk st1" "es_fsm st' = Flushing (idx mod 256)"
proof -
  obtain out st1 where rw: "run_write rw en idx (idx mod 256) p src sp start st = Done (Inr out, st1)"
    and c: "commit_records d (idx mod 256) start (po_windows_written out) st1 = Done (Inr u, st')"
    using assms by (auto simp: resume_write_def resume_write_failed_Inl split: io.splits prod.splits sum.splits)
  with that commit_records_ok [OF c] show thesis by blast
qed

lemma resume_pass_Inr:
  fixes st :: "'sk exec_state"
  assumes "resume_pass d rw en sp wb rp offset p st = Done (Inr u, st')"
  obtains src out and st1 st2 :: "'sk exec_state" where "create_pattern_source (pa_pattern p) = Some src"
    "es_disk st1 = es_disk st"
    "run_write rw en (rp_last_pass rp + offset) ((rp_last_pass rp + offset) mod 256) p src sp
       (if offset = 0 then rp_committed rp else 0) st1 = Done (Inr out, st2)"
    "es_disk st' = es_disk st2" "es_fsm st' = Flushing ((rp_last_pass rp + offset) mod 256)"
proof -
  let ?idx = "rp_last_pass rp + offset" and ?start = "if offset = 0 then rp_committed rp else 0"
  obtain f m src where bp: "begin_pass (es_fsm st) (?idx mod 256) = Inr (f, m)"
    and src: "create_pattern_source (pa_pattern p) = Some src"
    using assms by (fastforce simp: resume_pass_def Let_def split: sum.splits option.splits prod.splits)
  have "\<exists>st1. es_disk st1 = es_disk st \<and> resume_write d rw en sp ?idx ?start p src st1 = Done (Inr u, st')"
  proof (cases "?start = 0")
    case True
    then have "log_then d (JBeginPass (?idx mod 256) (descriptor (rw_hex rw) dec src) wb) (st\<lparr>es_fsm := f\<rparr>)
        (resume_write d rw en sp ?idx ?start p src) = Done (Inr u, st')"
      using assms by (simp add: resume_pass_def Let_def bp src)
    then show ?thesis by (auto elim!: log_then_ok)
  next
    case False
    then have "resume_write d rw en sp ?idx ?start p src (st\<lparr>es_fsm := f\<rparr>) = Done (Inr u, st')"
      using assms by (simp add: resume_pass_def Let_def bp src split: if_splits)
    then show ?thesis by (intro exI [of _ "st\<lparr>es_fsm := f\<rparr>"]) simp
  qed
  then obtain st1 where 1: "es_disk st1 = es_disk st" and w: "resume_write d rw en sp ?idx ?start p src st1 = Done (Inr u, st')"
    by blast
  from w show thesis by (rule resume_write_Inr) (rule that [OF src 1])
qed

lemma resume_passes_ok:
  fixes st st' :: "'sk exec_state"
  assumes "resume_passes d rw en sp wb rp ps st = Done (Inr u, st')" and "span_ok sp en (es_disk st)"
    and "\<forall>(offset, p) \<in> set ps. offset = 0 \<longrightarrow> rp_committed rp = 0" and "ps \<noteq> []"
  shows "\<exists>src. create_pattern_source (pa_pattern (snd (last ps))) = Some src \<and>
    wiped (rw_ks rw) src sp (es_disk st) (es_disk st')"
  using assms
proof (induction ps arbitrary: st)
  case (Cons op ps)
  obtain offset p where op: "op = (offset, p)" by (cases op)
  from Cons.prems(1) obtain sta where rp: "resume_pass d rw en sp wb rp offset p st = Done (Inr (), sta)"
    and rest: "resume_passes d rw en sp wb rp ps sta = Done (Inr u, st')"
    by (auto simp: op split: io.splits sum.splits prod.splits)
  from rp obtain src out and st1 st2 :: "'sk exec_state" where src: "create_pattern_source (pa_pattern p) = Some src"
    and 1: "es_disk st1 = es_disk st" "es_disk sta = es_disk st2"
    and w: "run_write rw en (rp_last_pass rp + offset) ((rp_last_pass rp + offset) mod 256) p src sp
       (if offset = 0 then rp_committed rp else 0) st1 = Done (Inr out, st2)"
    by (elim resume_pass_Inr) blast
  have "(if offset = 0 then rp_committed rp else 0) = 0" using Cons.prems(3) by (auto simp: op)
  with w have w0: "run_write rw en (rp_last_pass rp + offset) ((rp_last_pass rp + offset) mod 256) p src sp
       0 st1 = Done (Inr out, st2)" by simp
  have wp: "wiped (rw_ks rw) src sp (es_disk st) (es_disk sta)"
    using run_write_ok [OF w0 _ plain_source [OF src]] Cons.prems(2) by (simp add: 1)
  show ?case
  proof (cases "ps = []")
    case True
    then show ?thesis using rest src wp by (simp add: op)
  next
    case False
    with Cons.IH [OF rest wiped_span_ok [OF wp Cons.prems(2)]] Cons.prems(3) show ?thesis
      using wiped_trans [OF wp] by auto
  qed
qed simp

lemma resume_verify_Inr:
  assumes "resume_verify d rw en sp pl lbs passes st = Done (Inr rep, st')"
  shows "es_fsm st' = Certified \<and> (\<exists>k. es_fsm st = Flushing k) \<and> es_disk st' = es_disk st \<and> passes \<noteq> []"
proof (cases "begin_verify (es_fsm st)")
  case (Inr f)
  note ne = assms [unfolded resume_verify_def Inr, simplified]
  then have passes: "passes \<noteq> []" by (auto split: if_splits)
  obtain src where src: "create_pattern_source (pa_pattern (last passes)) = Some src"
    using ne passes by (auto split: option.splits)
  obtain rep' st1 where rb: "run_read_back d rw en sp src (effective_stride (pl_verification pl)) ''resume-verify-read''
          ''Graceful drain on termination signal during resume verification''
          (new_verifier (pl_verification pl) (pl_window_bytes pl) lbs False) (st\<lparr>es_fsm := f\<rparr>) = Done (Inr rep', st1)"
    and k: "log_then d (JVerify ((verify_record_of (pl_verification pl) rep' (en_supports_write_zeroes en))
          \<lparr>vr_stream_hash_sha256 := None\<rparr>)) st1 (complete d rw rep') = Done (Inr rep, st')"
    using ne passes src by (auto split: io.splits prod.splits sum.splits)
  obtain st2 where "complete d rw rep' st2 = Done (Inr rep, st')" "es_disk st2 = es_disk st1"
    using k by (elim log_then_ok) blast
  then show ?thesis
    using complete_ok run_read_back_ok [OF rb] begin_verify_Inr [OF Inr] passes by fastforce
qed (use assms in \<open>simp add: resume_verify_def\<close>)

text \<open>The steps of a successful resume.\<close>

lemma cmd_resume_Inr:
  assumes "cmd_resume d hash rw sw fs locked faults env disk = Done (Inr rep, Some st)"
  obtains records sm h st1 st2 where "read_and_verify_chain d True (Some (fst fs)) = Inr (records, sm)"
    "journal_header_of records = Some h" "es_fsm st1 = Armed" "es_disk st1 = disk"
    "(if rp_verify_reached (resume_scan records) then Done (Inr (), st1)
      else resume_passes d rw (new_engine (pl_window_bytes (jh_plan h))
          (sw_can_write_zeroes sw \<and> pl_fast_path (jh_plan h) = PreferWriteZeroes))
        (device_span (jh_identity h) (jh_plan h)) (pl_window_bytes (jh_plan h)) (resume_scan records)
        (drop (rp_last_pass (resume_scan records)) (List.enumerate 0 (plan_passes (jh_plan h)))) st1) = Done (Inr (), st2)"
    "resume_verify d rw (new_engine (pl_window_bytes (jh_plan h))
          (sw_can_write_zeroes sw \<and> pl_fast_path (jh_plan h) = PreferWriteZeroes))
        (device_span (jh_identity h) (jh_plan h)) (jh_plan h) (di_logical_block_size (jh_identity h))
        (plan_passes (jh_plan h)) st2 = Done (Inr rep, st)"
proof -
  obtain records sm h w where rd: "read_and_verify_chain d True (Some (fst fs)) = Inr (records, sm)"
    and h: "journal_header_of records = Some h"
    and run: "resume_run d rw sw h records sm
          \<lparr>es_fsm = Armed, es_journal = w, es_faults = faults, es_env = env, es_disk = disk\<rparr> = Done (Inr rep, st)"
    using assms
    by (auto simp: cmd_resume_def and_then_def split: sum.splits prod.splits if_splits option.splits io.splits
        dest!: armed_fsm_Inr)
  let ?en = "new_engine (pl_window_bytes (jh_plan h))
          (sw_can_write_zeroes sw \<and> pl_fast_path (jh_plan h) = PreferWriteZeroes)"
  let ?rp = "resume_scan records" and ?sp = "device_span (jh_identity h) (jh_plan h)" and ?ps = "plan_passes (jh_plan h)"
  obtain st1 where 1: "es_fsm st1 = Armed" "es_disk st1 = disk"
    and k: "(case rw_prepare rw of
           Inl e \<Rightarrow> Done (Inl e, st1)
         | Inr _ \<Rightarrow>
         (case (if rp_verify_reached ?rp then Done (Inr (), st1)
                else resume_passes d rw ?en ?sp (pl_window_bytes (jh_plan h)) ?rp
                  (drop (rp_last_pass ?rp) (List.enumerate 0 ?ps)) st1) of
            Blocked \<Rightarrow> Blocked
          | Panic \<Rightarrow> Panic
          | Done (Inl e, st) \<Rightarrow> Done (Inl e, st)
          | Done (Inr _, st) \<Rightarrow>
              resume_verify d rw ?en ?sp (jh_plan h) (di_logical_block_size (jh_identity h)) ?ps st)) = Done (Inr rep, st)"
    using run unfolding resume_run_def Let_def by (elim log_then_ok) auto
  from k obtain st2 where "(if rp_verify_reached ?rp then Done (Inr (), st1)
                else resume_passes d rw ?en ?sp (pl_window_bytes (jh_plan h)) ?rp
                  (drop (rp_last_pass ?rp) (List.enumerate 0 ?ps)) st1) = Done (Inr (), st2)"
     "resume_verify d rw ?en ?sp (jh_plan h) (di_logical_block_size (jh_identity h)) ?ps st2 = Done (Inr rep, st)"
    by (auto split: sum.splits io.splits prod.splits)
  with that [OF rd h 1] show thesis by blast
qed

section \<open>Properties of the scan and of a finished pass\<close>

lemma scan_keeps_flush: "rp_verify_reached rp \<Longrightarrow> rp_verify_reached (foldl scan_record rp rs)"
  by (induction rs arbitrary: rp) (auto simp: scan_record_def split: journal_record.splits)

lemma scan_finds_flush: "JFlushed k \<in> set rs \<Longrightarrow> rp_verify_reached (foldl scan_record rp rs)"
  by (induction rs arbitrary: rp) (auto simp: scan_record_def intro: scan_keeps_flush)

lemma last_drop_enumerate:
  "n < length ps \<Longrightarrow> snd (last (drop n (List.enumerate 0 ps))) = last ps"
  by (cases "ps = []") (auto simp: last_conv_nth nth_enumerate_eq)

lemma drop_enumerate_offset: "(offset, p) \<in> set (drop n (List.enumerate 0 ps)) \<Longrightarrow> n \<le> offset"
  by (auto simp: in_set_conv_nth nth_enumerate_eq)

lemma run_write_past_end:
  assumes "run_write rw en i k p src sp start st = Done (Inr out, st')" and "span_windows sp \<le> start"
    and "0 < ls_window_bytes sp"
  shows "es_disk st' = es_disk st"
proof -
  have "ls_total_bytes sp \<le> span_windows sp * ls_window_bytes sp"
    using assms(3) by (simp add: span_windows_def div_ceil_mult)
  also have "\<dots> \<le> start * ls_window_bytes sp" using assms(2) by simp
  finally have z: "\<not> start * ls_window_bytes sp < ls_total_bytes sp" by simp
  have w: "write_pass ks pat c en k sp start env disk = Done (Inr out', env', disk') \<Longrightarrow> disk' = disk" for ks pat c env disk out' env' disk'
    using assms(2) by (simp add: write_pass_def)
  show ?thesis
    using assms(1) z w
    by (auto simp: run_write_def zero_pass_def zero_chunks.simps split: if_splits io.splits)
qed

section \<open>Properties\<close>

text \<open>C3: Resume completes the wipe. When the journal shows no flushed pass and no committed window of
  pass 0, a resume that returns its report has certified and left the image of the plan's last pass
  over the whole device, whatever was on it when the run was cut.\<close>

theorem resume_completes_wipe:
  assumes "cmd_resume d hash rw sw fs locked faults env disk = Done (Inr rep, Some st)"
    and "read_and_verify_chain d True (Some (fst fs)) = Inr (records, sm)"
    and "journal_header_of records = Some h"
    and "rp_committed (resume_scan records) = 0 \<or> rp_last_pass (resume_scan records) \<noteq> 0"
    and "si_size_bytes (di_stable (jh_identity h)) \<le> u64_max"
    and "si_size_bytes (di_stable (jh_identity h)) \<le> length disk"
    and "4096 \<le> pl_window_bytes (jh_plan h)"
  shows "es_fsm st = Certified \<and>
    (\<exists>src. create_pattern_source (pa_pattern (last (plan_passes (jh_plan h)))) = Some src \<and>
       es_disk st = wipe_image (rw_ks rw) src (device_span (jh_identity h) (jh_plan h))
           [0..<span_windows (device_span (jh_identity h) (jh_plan h))] @
         drop (si_size_bytes (di_stable (jh_identity h))) disk)"
proof (rule cmd_resume_Inr [OF assms(1)])
  fix records' sm' and h' :: journal_header and st1 st2 :: "'a exec_state"
  let ?rp = "resume_scan records'" and ?pl = "jh_plan h'" and ?sp = "device_span (jh_identity h') (jh_plan h')"
  let ?en = "new_engine (pl_window_bytes ?pl) (sw_can_write_zeroes sw \<and> pl_fast_path ?pl = PreferWriteZeroes)"
  let ?ps = "plan_passes ?pl"
  let ?rest = "drop (rp_last_pass ?rp) (List.enumerate 0 ?ps)"
  assume "read_and_verify_chain d True (Some (fst fs)) = Inr (records', sm')" "journal_header_of records' = Some h'"
    and 1: "es_fsm st1 = Armed" "es_disk st1 = disk"
    and go: "(if rp_verify_reached ?rp then Done (Inr (), st1)
        else resume_passes d rw ?en ?sp (pl_window_bytes ?pl) ?rp ?rest st1) = Done (Inr (), st2)"
    and rv: "resume_verify d rw ?en ?sp ?pl (di_logical_block_size (jh_identity h')) ?ps st2 = Done (Inr rep, st)"
  then have eq: "records' = records" "h' = h" using assms(2,3) by auto
  note v = resume_verify_Inr [OF rv]
  have rest: "?rest \<noteq> []"
  proof
    assume "?rest = []"
    with go have "st2 = st1" by (auto split: if_splits)
    with v 1 show False by simp
  qed
  have rp: "resume_passes d rw ?en ?sp (pl_window_bytes ?pl) ?rp ?rest st1 = Done (Inr (), st2)"
    using go v 1 by (auto split: if_splits)
  have span: "span_ok ?sp ?en (es_disk st1)"
    using assms(5-7) by (simp add: eq 1 span_ok_def device_span_def new_span_def new_engine_def)
  have "\<forall>(offset, p) \<in> set ?rest. offset = 0 \<longrightarrow> rp_committed ?rp = 0"
    using assms(4) drop_enumerate_offset by (fastforce simp: eq)
  from resume_passes_ok [OF rp span this rest] obtain src where
    "create_pattern_source (pa_pattern (last ?ps)) = Some src" "wiped (rw_ks rw) src ?sp disk (es_disk st2)"
    using last_drop_enumerate [of "rp_last_pass ?rp" ?ps] rest by (auto simp: 1)
  then show ?thesis
    using v by (auto simp: eq wiped_def device_span_def new_span_def) (metis append_take_drop_id)
qed

text \<open>C5: A journal that has any \<open>Flushed\<close> record can never be resumed: the command takes it for a run
  that has only the read-back left, enters verification with a machine that is armed and not
  flushed, and ends in an error, also when passes are still to be written.\<close>

theorem resume_after_flush_fails:
  assumes "cmd_resume d hash rw sw fs locked faults env disk = Done (r, st)"
    and "read_and_verify_chain d True (Some (fst fs)) = Inr (records, sm)"
    and "JFlushed k \<in> set records"
  shows "\<exists>e. r = Inl e"
proof (cases r)
  case (Inr rep)
  with assms(1) obtain st' where "cmd_resume d hash rw sw fs locked faults env disk = Done (Inr rep, Some st')"
    by (cases st) (auto simp: cmd_resume_def split: sum.splits prod.splits if_splits option.splits io.splits)
  then show ?thesis
  proof (rule cmd_resume_Inr)
    fix records' sm' and h' :: journal_header and st1 st2 :: "'a exec_state"
    let ?en = "new_engine (pl_window_bytes (jh_plan h'))
        (sw_can_write_zeroes sw \<and> pl_fast_path (jh_plan h') = PreferWriteZeroes)"
    assume "read_and_verify_chain d True (Some (fst fs)) = Inr (records', sm')" "es_fsm st1 = Armed"
      and "(if rp_verify_reached (resume_scan records') then Done (Inr (), st1)
        else resume_passes d rw ?en (device_span (jh_identity h') (jh_plan h')) (pl_window_bytes (jh_plan h'))
          (resume_scan records') (drop (rp_last_pass (resume_scan records'))
            (List.enumerate 0 (plan_passes (jh_plan h')))) st1) = Done (Inr (), st2)"
      and rv: "resume_verify d rw ?en (device_span (jh_identity h') (jh_plan h')) (jh_plan h')
        (di_logical_block_size (jh_identity h')) (plan_passes (jh_plan h')) st2 = Done (Inr rep, st')"
    then have "es_fsm st2 = Armed"
      using assms(2,3) scan_finds_flush by (auto simp: resume_scan_def split: if_splits)
    with resume_verify_Inr [OF rv] show ?thesis by simp
  qed
qed simp

text \<open>C4: A one-pass plan whose journal commits every window and ends before the flush, as a crash between the
  \<open>RangeCommit\<close> and the flush leaves it: a resume that returns has trusted the commit, written nothing,
  and certified the device as it found it, also when the data had not reached the media. The read-back is
  recorded, but its mismatch count is not looked at. (A plan with further passes writes those.)\<close>

theorem resume_certifies_unflushed_data:
  assumes "cmd_resume d hash rw sw fs locked faults env disk = Done (Inr rep, Some st)"
    and "read_and_verify_chain d True (Some (fst fs)) = Inr (records, sm)"
    and "journal_header_of records = Some h"
    and "length (plan_passes (jh_plan h)) = 1"
    and "span_windows (device_span (jh_identity h) (jh_plan h)) \<le> rp_committed (resume_scan records)"
  shows "es_fsm st = Certified \<and> es_disk st = disk"
proof (rule cmd_resume_Inr [OF assms(1)])
  fix records' sm' and h' :: journal_header and st1 st2 :: "'a exec_state"
  let ?rp = "resume_scan records'" and ?pl = "jh_plan h'" and ?sp = "device_span (jh_identity h') (jh_plan h')"
  let ?en = "new_engine (pl_window_bytes ?pl) (sw_can_write_zeroes sw \<and> pl_fast_path ?pl = PreferWriteZeroes)"
  assume "read_and_verify_chain d True (Some (fst fs)) = Inr (records', sm')" "journal_header_of records' = Some h'"
    and 1: "es_fsm st1 = Armed" "es_disk st1 = disk"
    and go: "(if rp_verify_reached ?rp then Done (Inr (), st1)
        else resume_passes d rw ?en ?sp (pl_window_bytes ?pl) ?rp
          (drop (rp_last_pass ?rp) (List.enumerate 0 (plan_passes ?pl))) st1) = Done (Inr (), st2)"
    and rv: "resume_verify d rw ?en ?sp ?pl (di_logical_block_size (jh_identity h')) (plan_passes ?pl) st2 = Done (Inr rep, st)"
  then have eq: "records' = records" "h' = h" using assms(2,3) by auto
  obtain p where p: "plan_passes ?pl = [p]" using assms(4) by (auto simp: eq length_Suc_conv)
  note v = resume_verify_Inr [OF rv]
  have "resume_pass d rw ?en ?sp (pl_window_bytes ?pl) ?rp 0 p st1 = Done (Inr (), st2)"
    using go v 1 by (cases "rp_last_pass ?rp") (auto simp: p [unfolded eq] eq split: if_splits io.splits sum.splits prod.splits)
  then have "es_disk st2 = disk"
  proof (rule resume_pass_Inr)
    fix src out and sta stb :: "'a exec_state"
    assume sta: "es_disk sta = es_disk st1" "es_disk st2 = es_disk stb"
      and w: "run_write rw ?en (rp_last_pass ?rp + 0) ((rp_last_pass ?rp + 0) mod 256) p src ?sp
         (if (0 :: nat) = 0 then rp_committed ?rp else 0) sta = Done (Inr out, stb)"
    have "0 < ls_window_bytes ?sp" by (simp add: device_span_def new_span_def)
    with run_write_past_end [OF w _ this] assms(5) show ?thesis by (simp add: eq sta 1)
  qed
  with v show ?thesis by simp
qed

end
