(* ===== verification/Wipe_Progress.thy ===== *)
theory Wipe_Progress
  imports Wipe_Engine
begin

text \<open>
  That the write pass returns, and what an interrupted one leaves behind.
\<close>

text \<open>A kernel that only ever moves some bytes or is interrupted by a signal.\<close>

definition benign :: "syscall list \<Rightarrow> bool" where
  "benign env \<longleftrightarrow> list_all (\<lambda>e. case e of Moved k \<Rightarrow> 0 < k | SysErr n \<Rightarrow> n = EINTR) env"

definition moves :: "syscall list \<Rightarrow> nat" where
  "moves env = length (filter (\<lambda>e. e \<noteq> SysErr EINTR) env)"

lemma pwrite_all_progress:
  assumes "benign env" and "length buf - written \<le> moves env"
  shows "\<exists>env' disk'. pwrite_all env lbs off buf written disk = Some (Inr (), env', disk') \<and>
    benign env' \<and> moves env \<le> moves env' + (length buf - written)"
  using assms
proof (induction env arbitrary: written disk)
  case Nil
  then show ?case by (simp add: moves_def)
next
  case (Cons e env)
  show ?case
  proof (cases "written < length buf")
    case False
    with Cons.prems show ?thesis by simp
  next
    case lt: True
    show ?thesis
    proof (cases e)
      case (SysErr n)
      with Cons.prems have "n = EINTR" "benign env" "moves (e # env) = moves env"
        by (simp_all add: benign_def moves_def)
      with Cons.IH [of written disk] Cons.prems(2) lt SysErr show ?thesis by simp
    next
      case (Moved k)
      let ?n = "min k (length buf - written)"
      have k: "0 < k" "benign env" "moves (e # env) = Suc (moves env)"
        using Cons.prems(1) Moved by (simp_all add: benign_def moves_def)
      have "length buf - (written + ?n) \<le> moves env" using Cons.prems(2) k lt by auto
      from Cons.IH [OF k(2) this, of "write_at disk (off + written) (take ?n (drop written buf))"]
      obtain env' disk' where
        "pwrite_all env lbs off buf (written + ?n) (write_at disk (off + written) (take ?n (drop written buf))) =
          Some (Inr (), env', disk')" "benign env'" "moves env \<le> moves env' + (length buf - (written + ?n))"
        by blast
      moreover have "length buf - written = length buf - (written + ?n) + ?n" "0 < ?n" using lt k by auto
      ultimately show ?thesis using k lt Moved by (auto simp: Let_def)
    qed
  qed
qed

lemma write_windows_progress:
  assumes "benign env" and "off_of sp n - off_of sp k \<le> moves env" and "\<And>w. \<not> cancelled w"
    and "span_ok sp en disk" and "n \<le> span_windows sp" and "k \<le> n"
    and "buffer_ok ks pat (length (en_buffer en)) buffer"
  shows "\<exists>b env' disk'. write_windows ks pat cancelled pass sp [k..<n] buffer bytes env disk = Done (Inr b, env', disk')"
  using assms(1,2,4-)
proof (induction "n - k" arbitrary: k buffer bytes env disk)
  case 0
  then show ?case by simp
next
  case (Suc m)
  let ?b = "ls_window_bytes sp" and ?t = "ls_total_bytes sp"
  let ?len = "wlen ?t ?b k"
  have kn: "k < n" and upt: "[k..<n] = k # [Suc k..<n]" using Suc.hyps(2) by (simp_all add: upt_conv_Cons)
  have pos: "0 < ?b" and blen: "?b \<le> length (en_buffer en)" using Suc.prems(3) by (simp_all add: span_ok_def)
  have range: "window_byte_range sp k = (k * ?b, ?len)"
    using Suc.prems(3,4) kn by (intro window_byte_range_eq) (auto simp: span_ok_def)
  have len: "?len \<noteq> 0" "?len \<le> length (en_buffer en)" "length buffer = length (en_buffer en)"
    using wlen_pos [of ?b k ?t] Suc.prems(4,6) kn pos blen
    by (auto simp: span_windows_def wlen_def buffer_ok_def split: if_splits)
  let ?buf = "if window_invariant pat then buffer else fill ks pat (word_of_nat k) ?len @ drop ?len buffer"
  have buf: "take ?len ?buf = win ks pat sp k" "buffer_ok ks pat (length (en_buffer en)) ?buf"
    using buffer_prefix [OF Suc.prems(6), of ?len "word_of_nat k"] len(2)
    by (simp_all add: win_def)
  have off: "off_of sp k + ?len = off_of sp (Suc k)" "off_of sp (Suc k) \<le> off_of sp n"
    using length_image [of sp k "Suc k" ks pat] length_image [of sp "Suc k" n ks pat] pos kn Suc.prems(4)
    by (simp_all add: wipe_image_def length_win)
  have "length (win ks pat sp k) - 0 \<le> moves env" using Suc.prems(2) off by (simp add: length_win)
  from pwrite_all_progress [OF Suc.prems(1) this, of "ls_logical_block_size sp" "k * ?b" disk]
  obtain env1 disk1 where pw: "pwrite_all env (ls_logical_block_size sp) (k * ?b) (win ks pat sp k) 0 disk =
      Some (Inr (), env1, disk1)" and env1: "benign env1" "moves env \<le> moves env1 + ?len"
    by (auto simp: length_win)
  have fits: "k * ?b + length (win ks pat sp k) \<le> length disk"
  proof -
    have "k * ?b + ?len \<le> ?t"
      using Suc.prems(4) kn window_starts_inside [OF pos, of k] by (simp add: wlen_def)
    then show ?thesis using Suc.prems(3) unfolding length_win span_ok_def by linarith
  qed
  have "length disk1 = length disk"
    using pwrite_all_ok [OF pw _ fits] fits by auto
  then have span1: "span_ok sp en disk1" using Suc.prems(3) by (simp add: span_ok_def)
  have "off_of sp n - off_of sp (Suc k) \<le> moves env1" using Suc.prems(2) env1(2) off by linarith
  moreover have "m = n - Suc k" "Suc k \<le> n" using Suc.hyps(2) kn by simp_all
  ultimately
  obtain b env' disk' where
    "write_windows ks pat cancelled pass sp [Suc k..<n] ?buf (bytes + ?len) env1 disk1 = Done (Inr b, env', disk')"
    using Suc.hyps(1) [OF _ env1(1) _ span1 Suc.prems(4) _ buf(2), of "Suc k" "bytes + ?len"] by blast
  then show ?case
    using range len pw buf(1) assms(3) by (simp add: upt Let_def)
qed

section \<open>Properties\<close>

text \<open>C29: The write pass returns success, if it is not cancelled, whenever the kernel makes progress: each
  call moves at least one byte or fails with \<open>EINTR\<close>, and there are as many moving calls as bytes
  to write.\<close>

theorem write_pass_completes:
  assumes "benign env" and "ls_total_bytes sp \<le> moves env" and "span_ok sp en disk"
  shows "\<exists>out env' disk'. write_pass ks pat (\<lambda>_. False) en pass sp 0 env disk = Done (Inr out, env', disk')"
proof -
  let ?buf = "if window_invariant pat then fill ks pat 0 (length (en_buffer en)) else en_buffer en"
  have "buffer_ok ks pat (length (en_buffer en)) ?buf" by (simp add: buffer_ok_def fill_source_length)
  moreover have "off_of sp (span_windows sp) - off_of sp 0 \<le> moves env"
    using assms(2) by simp
  ultimately obtain b env' disk' where
    "write_windows ks pat (\<lambda>_. False) pass sp [0..<span_windows sp] ?buf 0 env disk = Done (Inr b, env', disk')"
    using write_windows_progress [OF assms(1), where sp = sp and n = "span_windows sp" and k = 0
        and cancelled = "\<lambda>_. False" and en = en and disk = disk and ks = ks and pat = pat
        and buffer = ?buf and pass = pass and bytes = 0]
      assms(3) by auto
  then show ?thesis by (simp add: write_pass_def Let_def)
qed

text \<open>An interrupted write pass has written every window before the one at which it saw the cancel
  flag and nothing from it on; the point it reports is the window before that one.\<close>

theorem interrupted_write_pass:
  assumes "write_pass ks pat cancelled en pass sp start env disk = Done (Inl (Interrupted c), env', disk')"
    and "span_ok sp en disk" and "start \<le> span_windows sp"
  shows "\<exists>w. start \<le> w \<and> w < span_windows sp \<and> cancelled w \<and> c = Some (pass, w - 1) \<and>
    disk' = take (off_of sp start) disk @ wipe_image ks pat sp [start..<w] @ drop (off_of sp w) disk"
proof -
  let ?buf = "if window_invariant pat then fill ks pat 0 (length (en_buffer en)) else en_buffer en"
  have pos: "0 < ls_window_bytes sp" using assms(2) by (simp add: span_ok_def)
  have "write_windows ks pat cancelled pass sp [start..<span_windows sp] ?buf 0 env disk =
      Done (Inl (Interrupted c), env', disk')"
    using assms(1) by (auto simp: write_pass_def Let_def split: io.splits prod.splits sum.splits)
  moreover have "buffer_ok ks pat (length (en_buffer en)) ?buf" by (simp add: buffer_ok_def fill_source_length)
  ultimately obtain w where w: "start \<le> w" "w < span_windows sp" "cancelled w" "c = Some (pass, w - 1)"
    "disk' = written_upto ks pat sp start w disk"
    using write_windows_ok [of ks pat cancelled pass sp start "span_windows sp" ?buf 0 env disk
        "Inl (Interrupted c)" env' disk' en] assms(2,3) by auto
  then show ?thesis
    using length_image [OF pos, of start w ks pat]
    by (intro exI [of _ w]) (simp add: written_upto_def write_at_def)
qed

text \<open>The reported point is off at the start of a pass: cancelled before the first window, the pass
  has written nothing and yet reports window 0 as completed.\<close>

theorem interrupted_at_start_reports_window_zero:
  assumes "cancelled 0" and "0 < span_windows sp"
  shows "write_pass ks pat cancelled en pass sp 0 env disk = Done (Inl (Interrupted (Some (pass, 0))), env, disk)"
  using assms by (simp add: write_pass_def Let_def upt_conv_Cons)

end
