(* ===== verification/Wipe_Demo.thy ===== *)
theory Wipe_Demo
  imports Wipe_Verify Wipe_Progress
begin

text \<open>A device of four bytes on which the properties of the wipe are instantiated.\<close>

section \<open>A concrete device\<close>

text \<open>Four bytes, three of them in the span, in windows of two.\<close>

definition demo_span :: lba_span where
  "demo_span = \<lparr>ls_start_byte = 0, ls_total_bytes = 3, ls_logical_block_size = 512, ls_window_bytes = 2\<rparr>"

definition demo_engine :: engine where
  "demo_engine = \<lparr>en_buffer = [0, 0], en_supports_write_zeroes = True, en_max_write_zeroes_bytes = 2\<rparr>"

definition no_ks :: keystream where "no_ks = (\<lambda>_ _ _. 0)"

lemma demo_span_ok: "length disk = 4 \<Longrightarrow> span_ok demo_span demo_engine disk"
  by (simp add: span_ok_def demo_span_def demo_engine_def u64_max_def)

lemmas demo_defs = demo_span_def demo_engine_def span_windows_def div_ceil_def window_byte_range_def
  u64_max_def EINTR_def write_at_def fixed_fill_def zero_fill_def

lemma demo_windows: "span_windows demo_span = 2" "[0..<2] = [0, 1 :: nat]"
  by (simp_all add: demo_defs upt_rec)

lemma demo_write:
  "write_pass no_ks (FixedSource 7) (\<lambda>_. False) demo_engine 0 demo_span 0
     [SysErr EINTR, Moved 1, Moved 5, Moved 1] [9, 9, 9, 9] =
   Done (Inr \<lparr>po_windows_written = 2, po_bytes_written = 3, po_fast_path_used = False\<rparr>, [], [7, 7, 7, 9])"
  by (simp add: write_pass_def demo_windows) (simp add: demo_defs)

lemma demo_read_full:
  "\<exists>v. read_verify no_ks (FixedSource 7) (\<lambda>_. False) demo_engine demo_span 1 on_window
     [Moved 2, SysErr EINTR, Moved 3] [7, 7, 7, 9] (new_verifier Full 2 512 True) = Done (Inr v, [])"
  by (simp add: read_verify_def demo_windows) (simp add: demo_defs on_window_def window_is_sampled_def Let_def numeral_2_eq_2)

lemma demo_read_sampled:
  "\<exists>v. read_verify no_ks (FixedSource 7) (\<lambda>_. False) demo_engine demo_span 2 on_window
     [Moved 2] [7, 7, 9, 9] (new_verifier (Sampled 2) 2 512 True) = Done (Inr v, [])"
  by (simp add: read_verify_def demo_windows) (simp add: demo_defs on_window_def window_is_sampled_def Let_def numeral_2_eq_2)

text \<open>The ioctl zeroes the first chunk and is refused for the second.\<close>

lemma demo_zero:
  "zero_pass no_ks (\<lambda>_. False) (\<lambda>_. False) demo_engine 0 demo_span 0
     [Moved 0, SysErr 95, Moved 1] [9, 9, 9, 9] =
   Done (Inr \<lparr>po_windows_written = 1, po_bytes_written = 1, po_fast_path_used = False\<rparr>, [], [0, 0, 0, 9])"
  by (simp add: zero_pass_def zero_chunks.simps write_pass_def demo_windows)
    (simp add: demo_defs zero_chunks.simps write_pass_def upt_rec, simp add: numeral_eq_Suc)

section \<open>Witnesses\<close>

theorem write_pass_wipes_witness:
  "[7, 7, 7, 9] = wipe_image no_ks (FixedSource 7) demo_span [0..<span_windows demo_span] @ [9]"
  using write_pass_wipes [OF demo_write demo_span_ok] by (simp add: demo_span_def)

theorem zero_pass_zeroes_witness:
  "take 3 [0, 0, 0, 9] = replicate 3 (0 :: byte)"
  using zero_pass_zeroes [OF demo_zero demo_span_ok] by (simp add: demo_span_def)

theorem full_verification_exact_witness:
  "take 3 [7, 7, 7, 9] = wipe_image no_ks (FixedSource 7) demo_span [0..<span_windows demo_span]"
proof -
  obtain v where v: "read_verify no_ks (FixedSource 7) (\<lambda>_. False) demo_engine demo_span 1 on_window
     [Moved 2, SysErr EINTR, Moved 3] [7, 7, 7, 9] (new_verifier Full 2 512 True) = Done (Inr v, [])"
    using demo_read_full by blast
  have "vp_mismatch_count (finalize (\<lambda>_. []) (\<lambda>_. []) v) = 0"
    using verify_after_write_core [OF demo_write v demo_span_ok] by (simp add: finalize_def)
  then show ?thesis
    using full_verification_exact [OF v demo_span_ok, of "\<lambda>_. []" "\<lambda>_. []"] by (simp add: demo_span_def)
qed

theorem sampled_verification_exact_witness:
  "\<exists>v. vp_windows_checked (finalize (\<lambda>_. []) (\<lambda>_. []) v) = 1 \<and> vp_mismatch_count (finalize (\<lambda>_. []) (\<lambda>_. []) v) = 0"
proof -
  obtain v where v: "read_verify no_ks (FixedSource 7) (\<lambda>_. False) demo_engine demo_span 2 on_window
     [Moved 2] [7, 7, 9, 9] (new_verifier (Sampled 2) 2 512 True) = Done (Inr v, [])"
    using demo_read_sampled by blast
  have "seg demo_span [7, 7, 9, 9] 0 = win no_ks (FixedSource 7) demo_span 0"
    by (simp add: seg_def win_def demo_span_def wlen_def fixed_fill_def numeral_eq_Suc)
  then have "\<forall>w < span_windows demo_span. 2 dvd w \<longrightarrow>
      seg demo_span [7, 7, 9, 9] w = win no_ks (FixedSource 7) demo_span w"
    by (auto simp: demo_windows numeral_2_eq_2 less_Suc_eq)
  then show ?thesis
    using sampled_verification_exact [OF v demo_span_ok, of "\<lambda>_. []" "\<lambda>_. []"]
    by (intro exI [of _ v]) (simp add: demo_windows)
qed

theorem verify_after_write_witness:
  "\<exists>v. vp_mismatch_count (finalize (\<lambda>_. []) (\<lambda>_. []) v) = 0 \<and> vp_windows_checked (finalize (\<lambda>_. []) (\<lambda>_. []) v) = 2"
proof -
  obtain v where v: "read_verify no_ks (FixedSource 7) (\<lambda>_. False) demo_engine demo_span 1 on_window
     [Moved 2, SysErr EINTR, Moved 3] [7, 7, 7, 9] (new_verifier Full 2 512 True) = Done (Inr v, [])"
    using demo_read_full by blast
  from verify_after_write [OF demo_write v demo_span_ok, of "\<lambda>_. []" "\<lambda>_. []"] show ?thesis
    by (auto simp: demo_windows)
qed

theorem write_pass_completes_witness:
  "\<exists>out env' disk'. write_pass no_ks (FixedSource 7) (\<lambda>_. False) demo_engine 0 demo_span 0
     [SysErr EINTR, Moved 1, Moved 5, Moved 1] [9, 9, 9, 9] = Done (Inr out, env', disk')"
  by (rule write_pass_completes [OF _ _ demo_span_ok])
    (simp_all add: benign_def moves_def demo_span_def EINTR_def)

text \<open>Cancelled at its second window.\<close>

theorem interrupted_write_pass_witness:
  "\<exists>w. w < span_windows demo_span \<and> w = 1 \<and> Some (5, 0) = Some (5 :: nat, w - 1) \<and>
    [7, 7, 9, 9] = wipe_image no_ks (FixedSource 7) demo_span [0..<w] @ drop (off_of demo_span w) [9, 9, 9, 9]"
proof -
  have "write_pass no_ks (FixedSource 7) (\<lambda>w. w = 1) demo_engine 5 demo_span 0 [Moved 2] [9, 9, 9, 9] =
      Done (Inl (Interrupted (Some (5, 0))), [], [7, 7, 9, 9])"
    by (simp add: write_pass_def demo_windows) (simp add: demo_defs)
  from interrupted_write_pass [OF this demo_span_ok] show ?thesis by simp
qed

theorem interrupted_at_start_reports_window_zero_witness:
  "write_pass no_ks (FixedSource 7) (\<lambda>w. w = 0) demo_engine 5 demo_span 0 [] [9, 9, 9, 9] =
    Done (Inl (Interrupted (Some (5, 0))), [], [9, 9, 9, 9])"
  by (rule interrupted_at_start_reports_window_zero) (simp_all add: demo_windows)

end
