(* ===== verification/Execution_Demo.thy ===== *)
theory Execution_Demo
  imports Execution_Run Wipe_Demo
begin

text \<open>
  A run of one pass over a device of two bytes, one of them in the span: the instance on which the
  properties of \<open>Execution_Run\<close> are discharged.
\<close>

section \<open>A concrete run\<close>

definition demo_run_identity :: device_identity where
  "demo_run_identity = \<lparr>di_stable = demo_identity\<lparr>si_size_bytes := 1\<rparr>, di_kernel = \<lparr>ki_major = 8, ki_minor = 0\<rparr>,
     di_kernel_name = ''sda'', di_dev_path = ''/dev/sda'', di_logical_block_size = 512,
     di_physical_block_size = 512\<rparr>"

definition demo_run_plan :: plan where
  "demo_run_plan = (logical_plan [\<lparr>pa_pattern = FixedP 7, pa_label = ''p''\<rparr>]
     (di_stable demo_run_identity) ForbidWriteZeroes Full)\<lparr>pl_window_bytes := 4096\<rparr>"

definition demo_job :: "unit device_job" where
  "demo_job = \<lparr>dj_plan = demo_run_plan, dj_plan_hash = ''h'', dj_identity = demo_run_identity,
     dj_uuid = ''u'', dj_key = None, dj_pubkey_hex = [],
     dj_tool = \<lparr>tb_name = ''dc'', tb_version = ''0'', tb_build_hash = ''0'', tb_target_triple = ''t''\<rparr>,
     dj_engine_name = ''sync'', dj_checkpoint_mib = 1, dj_checkpoint_ms = 1, dj_started = ''t'',
     dj_overrides = [], dj_can_write_zeroes = True\<rparr>"

definition demo_world :: run_world where
  "demo_world = \<lparr>rw_ks = no_ks, rw_blake3 = (\<lambda>_. 0), rw_hex = (\<lambda>_. []), rw_cancel = (\<lambda>_ _. False),
     rw_ccancel = (\<lambda>_ _. False), rw_vcancel = (\<lambda>_. False), rw_thermal = (\<lambda>_. False),
     rw_prepare = Inr (), rw_guard = Inr (), rw_weave = None, rw_now = ''t'', rw_ms = 0, rw_signals = 0,
     rw_display = (\<lambda>_. []), rw_sha256 = False, rw_blake3_hex = (\<lambda>_. []), rw_sha256_hex = (\<lambda>_. [])\<rparr>"

definition run_code :: "journal_record \<Rightarrow> nat" where
  "run_code r = (case r of JHeader _ \<Rightarrow> 0 | JArmed _ _ _ \<Rightarrow> 1 | JBeginPass _ _ _ \<Rightarrow> 2 | JRangeCommit _ _ n \<Rightarrow> 3 + 16 * n
     | JEndPass _ \<Rightarrow> 4 | JFlushed _ \<Rightarrow> 5 | JVerify _ \<Rightarrow> 6 | JCompleted _ _ \<Rightarrow> 7 | _ \<Rightarrow> 8)"

definition demo_report :: verification_report where
  "demo_report = finalize (\<lambda>_. []) (\<lambda>_. [])
     (projr (on_window (new_verifier Full 4096 512 False) 0 True [7]))"

definition coded_deps :: "journal_record list \<Rightarrow> (unit, unit) journal_deps" where
  "coded_deps rs = demo_deps
     \<lparr>jd_to_vec := \<lambda>r. Some [word_of_nat (run_code r)],
      jd_from_slice := \<lambda>b. let c = unat (hd b) in
        if c mod 16 < length rs
        then Some (case rs ! (c mod 16) of JRangeCommit k f _ \<Rightarrow> JRangeCommit k f (c div 16) | r \<Rightarrow> r)
        else None\<rparr>"

lemma demo_armed: "armed_fsm (\<lambda>_. Some ''h'') p = Inr Armed"
  by (simp add: armed_fsm_def fsm_ops new_fsm_def ok_or_def)

lemma coded_append:
  "append_record (coded_deps rs) None w r =
     (logged (coded_deps rs) w [r], Inr (jd_hex_encode demo_deps (digest_bytes (jw_prev_hash (logged (coded_deps rs) w [r])))))"
  by (simp add: append_record_def coded_deps_def Let_def logged_def)

lemma coded_log_then:
  "es_faults st = [] \<Longrightarrow> log_then (coded_deps rs) r st k = k (st\<lparr>es_journal := logged (coded_deps rs) (es_journal st) [r]\<rparr>)"
  by (cases st) (simp add: log_then_def journal_append_def coded_append)

lemma demo_parts:
  "pl_mechanism (dj_plan demo_job) = LogicalOverwrite [\<lparr>pa_pattern = FixedP 7, pa_label = ''p''\<rparr>]"
  "plan_passes (dj_plan demo_job) = [\<lparr>pa_pattern = FixedP 7, pa_label = ''p''\<rparr>]"
  "pl_window_bytes (dj_plan demo_job) = 4096" "pl_verification (dj_plan demo_job) = Full"
  "di_logical_block_size (dj_identity demo_job) = 512"
  "device_span (dj_identity demo_job) (dj_plan demo_job) =
     \<lparr>ls_start_byte = 0, ls_total_bytes = 1, ls_logical_block_size = 512, ls_window_bytes = 4096\<rparr>"
  "job_engine demo_job = \<lparr>en_buffer = replicate 4096 0, en_supports_write_zeroes = False, en_max_write_zeroes_bytes = 2147483648\<rparr>"
  "dj_key demo_job = None" "dj_uuid demo_job = ''u''"
  apply (simp_all add: demo_job_def demo_run_plan_def logical_plan_def demo_run_identity_def plan_passes_def
      device_span_def new_span_def job_engine_def new_engine_def demo_identity_def)
  done

lemma demo_world_parts:
  "rw_ks demo_world = no_ks" "rw_cancel demo_world i w = False" "rw_vcancel demo_world w = False"
  "rw_prepare demo_world = Inr ()" "rw_guard demo_world = Inr ()" "rw_weave demo_world = None"
  "rw_sha256 demo_world = False" "rw_blake3_hex demo_world = (\<lambda>_. [])" "rw_sha256_hex demo_world = (\<lambda>_. [])"
  by (simp_all add: demo_world_def)

lemma demo_windows1: "[0..<Suc 0] = [0]" by simp

lemma demo_run_pass:
  assumes "es_faults st = []" "es_env st = [Moved 1, Moved 0, Moved 1]" "es_disk st = [9, 9]" "es_fsm st = Armed"
  shows "\<exists>w. run_pass (coded_deps rs) demo_world (job_engine demo_job)
      (device_span (dj_identity demo_job) (dj_plan demo_job)) 4096 0 \<lparr>pa_pattern = FixedP 7, pa_label = ''p''\<rparr> st =
    Done (Inr (), \<lparr>es_fsm = Flushing 0, es_journal = w, es_faults = [], es_env = [Moved 1], es_disk = [7, 9]\<rparr>)"
  using assms
  by (cases st) (simp add: run_pass_def write_and_commit_def commit_pass_def commit_records_def demo_parts demo_world_parts pass_source_def begin_pass_def begin_flush_def
      flush_device_def coded_log_then run_write_def write_pass_def span_windows_def div_ceil_def
      window_byte_range_def write_at_def fixed_fill_def u64_max_def)

lemma demo_verify:
  assumes "es_faults st = []" "es_env st = [Moved 1]" "es_disk st = [7, 9]" "es_fsm st = Flushing 0"
  shows "\<exists>st'. verify_phase (coded_deps rs) demo_world (job_engine demo_job)
      (device_span (dj_identity demo_job) (dj_plan demo_job)) (dj_plan demo_job) 512
      [\<lparr>pa_pattern = FixedP 7, pa_label = ''p''\<rparr>] st = Done (Inr demo_report, st')"
proof -
  have "read_verify no_ks (FixedSource 7) (\<lambda>_. False) (job_engine demo_job)
      (device_span (dj_identity demo_job) (dj_plan demo_job)) 1 on_window [Moved 1] [7, 9] (new_verifier Full 4096 512 False) =
    Done (on_window (new_verifier Full 4096 512 False) 0 True [7], [])"
    by (simp add: read_verify_def demo_parts span_windows_def div_ceil_def window_byte_range_def fixed_fill_def u64_max_def
        window_is_sampled_def on_window_def new_verifier_def)
  then have rv: "read_verify (rw_ks demo_world) (FixedSource 7) (rw_vcancel demo_world) (job_engine demo_job)
      (device_span (dj_identity demo_job) (dj_plan demo_job)) 1 on_window [Moved 1] [7, 9] (new_verifier Full 4096 512 False) =
    Done (Inr (projr (on_window (new_verifier Full 4096 512 False) 0 True [7])), [])"
    by (simp add: demo_world_def on_window_def new_verifier_def Let_def)
  have m: "vp_mismatch_count demo_report = 0"
    by (simp add: demo_report_def finalize_def on_window_def new_verifier_def Let_def)
  show ?thesis
    using assms rv m [unfolded demo_report_def] unfolding verify_phase_def
    by (cases st) (simp add: begin_verify_def read_back_phase_def run_read_back_def demo_parts demo_world_parts
        pass_source_def  coded_log_then complete_def certify_def demo_report_def)
qed

lemma demo_run:
  "\<exists>st. execute_device_inner (coded_deps rs) (\<lambda>_. Some ''h'') demo_world demo_job None False []
     [Moved 1, Moved 0, Moved 1] [9, 9] = Done (Inr demo_report, Some st)"
proof -
  let ?st = "\<lparr>es_fsm = Armed, es_journal = logged (coded_deps rs) (writer_after (coded_deps rs) None ''u'' [])
      [run_header demo_job, run_armed demo_world demo_job], es_faults = [], es_env = [Moved 1, Moved 0, Moved 1], es_disk = [9, 9]\<rparr>"
  obtain w where rp: "run_pass (coded_deps rs) demo_world (job_engine demo_job)
      (device_span (dj_identity demo_job) (dj_plan demo_job)) 4096 0 \<lparr>pa_pattern = FixedP 7, pa_label = ''p''\<rparr> ?st =
    Done (Inr (), \<lparr>es_fsm = Flushing 0, es_journal = w, es_faults = [], es_env = [Moved 1], es_disk = [7, 9]\<rparr>)"
    using demo_run_pass [of ?st] by auto
  obtain st' where "execute_device (coded_deps rs) demo_world (job_engine demo_job)
      (device_span (dj_identity demo_job) (dj_plan demo_job)) (dj_plan demo_job) 512 ?st = Done (Inr demo_report, st')"
    using rp demo_verify [of "\<lparr>es_fsm = Flushing 0, es_journal = w, es_faults = [], es_env = [Moved 1], es_disk = [7, 9]\<rparr>" rs]
    unfolding execute_device_def demo_parts by auto
  then show ?thesis
    using create_new_writer_after [of "coded_deps rs" "''u''" None]
    unfolding execute_device_inner_def demo_parts(1) demo_armed
    by (simp add: demo_parts(5,8,9) demo_world_parts coded_log_then)
qed

section \<open>Witnesses\<close>

lemma demo_image: "wipe_image no_ks src (device_span (dj_identity demo_job) (dj_plan demo_job)) [0] = fill no_ks src 0 1"
  by (simp add: demo_parts span_windows_def div_ceil_def wipe_image_def win_def wlen_def)

lemma demo_one_window: "span_windows (device_span (dj_identity demo_job) (dj_plan demo_job)) = 1"
  by (simp add: demo_parts span_windows_def div_ceil_def)

lemmas demo_run_facts = demo_image [unfolded demo_parts One_nat_def] demo_one_window [unfolded demo_parts One_nat_def] demo_parts

lemma demo_size: "si_size_bytes (di_stable (dj_identity demo_job)) = 1"
  by (simp add: demo_job_def demo_run_identity_def)

lemma demo_span_ok1: "span_ok (device_span (dj_identity demo_job) (dj_plan demo_job)) (job_engine demo_job) [9, 9]"
  by (simp add: span_ok_def demo_parts u64_max_def)

theorem successful_run_wipes_witness:
  "\<exists>st. execute_device_inner (coded_deps []) (\<lambda>_. Some ''h'') demo_world demo_job None False []
      [Moved 1, Moved 0, Moved 1] [9, 9] = Done (Inr demo_report, Some st) \<and>
    es_fsm st = Certified \<and> es_disk st = [7, 9]"
proof -
  obtain st where run: "execute_device_inner (coded_deps []) (\<lambda>_. Some ''h'') demo_world demo_job None False []
      [Moved 1, Moved 0, Moved 1] [9, 9] = Done (Inr demo_report, Some st)"
    using demo_run by blast
  have "es_fsm st = Certified \<and> es_disk st = [7, 9]"
    using successful_run_wipes [OF run]
    by (auto simp: demo_run_facts demo_size demo_world_parts u64_max_def pass_source_def fixed_fill_def)
  with run show ?thesis by blast
qed

theorem journal_before_data_witness:
  "\<exists>st src. execute_device_inner (coded_deps []) (\<lambda>_. Some ''h'') demo_world demo_job None False []
      [Moved 1, Moved 0, Moved 1] [9, 9] = Done (Inr demo_report, Some st) \<and>
    prefix (jw_file (writer_after (coded_deps []) None ''u''
      [run_header demo_job, run_armed demo_world demo_job, JBeginPass 0 (descriptor (rw_hex demo_world) dec src) 4096]))
      (jw_file (es_journal st))"
proof -
  obtain st where run: "execute_device_inner (coded_deps []) (\<lambda>_. Some ''h'') demo_world demo_job None False []
      [Moved 1, Moved 0, Moved 1] [9, 9] = Done (Inr demo_report, Some st)"
    using demo_run by blast
  have "es_disk st \<noteq> [9, 9]"
    using execute_ok [OF run demo_span_ok1]
    by (auto simp: Let_def wiped_def demo_run_facts demo_world_parts source_of_def pass_source_def fixed_fill_def)
  from journal_before_data [OF run this] run show ?thesis by (auto simp: demo_parts)
qed

abbreviation demo_run_deps :: "(unit, unit) journal_deps" where
  "demo_run_deps \<equiv> coded_deps (run_records demo_world demo_job [Suc 0] demo_report)"

lemma demo_run_records:
  "length ns = 1 \<Longrightarrow> run_records demo_world demo_job ns demo_report =
     [run_header demo_job, run_armed demo_world demo_job,
      JBeginPass 0 (descriptor (rw_hex demo_world) dec (FixedSource 7)) 4096, JRangeCommit 0 0 (hd ns), JEndPass 0,
      JFlushed 0, JVerify (verify_record_of Full demo_report False), JCompleted (rw_now demo_world) (rw_ms demo_world)]"
  by (cases ns) (simp_all add: run_records_def passes_records_def pass_records_def demo_parts source_of_def
      pass_source_def demo_world_parts)

lemma demo_run_wf:
  assumes "length ns = 1" and "set ns \<subseteq> {..1}"
  shows "wf_journal demo_run_deps None (run_records demo_world demo_job ns demo_report)"
proof -
  obtain n where ns: "ns = [n]" and n: "n \<le> 1" using assms by (cases ns) auto
  then have "n = 0 \<or> n = 1" by auto
  then show ?thesis
    by (auto simp: ns demo_run_records wf_journal_def writable_def coded_deps_def run_code_def run_header_def
        run_armed_def key_matches_def demo_parts journal_max_record_bytes_def Let_def nth_Cons')
qed

theorem successful_run_journal_witness:
  "\<exists>st ns. execute_device_inner demo_run_deps (\<lambda>_. Some ''h'') demo_world demo_job None False []
      [Moved 1, Moved 0, Moved 1] [9, 9] = Done (Inr demo_report, Some st) \<and> length ns = 1 \<and>
    read_and_verify_chain demo_run_deps True (Some (jw_file (es_journal st))) =
      Inr (run_records demo_world demo_job ns demo_report,
        summary_at demo_run_deps (run_records demo_world demo_job ns demo_report) 0)"
proof -
  obtain st where run: "execute_device_inner demo_run_deps (\<lambda>_. Some ''h'') demo_world demo_job None False []
      [Moved 1, Moved 0, Moved 1] [9, 9] = Done (Inr demo_report, Some st)"
    using demo_run by blast
  from execute_ok [OF run demo_span_ok1] obtain ns where ns: "length ns = 1" "set ns \<subseteq> {..1}"
    and j: "es_journal st = writer_after demo_run_deps None ''u'' (run_records demo_world demo_job ns demo_report)"
    by (auto simp: demo_run_facts)
  have "length (jw_file (es_journal st)) \<le> journal_max_file_bytes"
    using demo_run_wf [OF ns] ns(1)
    by (simp add: j writer_after_eq wf_journal_def journal_file_def demo_run_records body_def coded_deps_def
        journal_magic_def signature_suffix_def journal_max_file_bytes_def)
  from successful_run_journal [OF run _ _ _ _ this] run show ?thesis
    using demo_run_wf by (auto simp: demo_size demo_run_facts u64_max_def)
qed

end
