(* ===== verification/Resume_Demo.thy ===== *)
theory Resume_Demo
  imports Resume Execution_Demo
begin

text \<open>The run of \<open>Execution_Demo\<close> cut after its first records and resumed, on which the properties of \<open>Resume\<close>
  are discharged.\<close>

section \<open>A run cut short\<close>

text \<open>The first \<open>n\<close> records of the run of \<open>demo_job\<close>.\<close>

definition cut_run :: "nat \<Rightarrow> journal_record list" where
  "cut_run n = take n (run_records demo_world demo_job [Suc 0] demo_report)"

definition cut_file :: "nat \<Rightarrow> byte list" where
  "cut_file n = journal_file demo_run_deps None (cut_run n)"

definition demo_resume_world :: "unit resume_world" where
  "demo_resume_world = \<lparr>sw_live = Inr (), sw_key = None, sw_can_write_zeroes = True\<rparr>"

lemma cut_run_wf: "wf_journal demo_run_deps None (cut_run n)"
  using demo_run_wf [of "[Suc 0]"] wf_journal_appendD [of demo_run_deps None "cut_run n"
    "drop n (run_records demo_world demo_job [Suc 0] demo_report)"]
  by (simp add: cut_run_def)

lemma cut_run_read:
  "read_and_verify_chain demo_run_deps True (Some (cut_file n)) =
     Inr (cut_run n, summary_at demo_run_deps (cut_run n) 0)"
proof -
  have "length (journal_file demo_run_deps None (cut_run n)) \<le> length (journal_file demo_run_deps None (cut_run 8))"
  proof -
    have "cut_run 8 = cut_run n @ drop n (cut_run 8)"
      by (simp add: cut_run_def demo_run_records del: take_Cons_numeral)
    then show ?thesis unfolding journal_file_def by (metis frames_append length_append le_add1 map_append signed_entries_append add_le_cancel_left)
  qed
  moreover have "length (journal_file demo_run_deps None (cut_run 8)) \<le> journal_max_file_bytes"
    by (simp add: journal_file_def cut_run_def demo_run_records body_def coded_deps_def
        journal_magic_def signature_suffix_def journal_max_file_bytes_def)
  ultimately show ?thesis using read_whole [OF cut_run_wf] by (simp add: cut_file_def)
qed


lemma cut_runs:
  "cut_run 3 = [run_header demo_job, run_armed demo_world demo_job,
      JBeginPass 0 (descriptor (rw_hex demo_world) dec (FixedSource 7)) 4096]"
  "cut_run 5 = [run_header demo_job, run_armed demo_world demo_job,
      JBeginPass 0 (descriptor (rw_hex demo_world) dec (FixedSource 7)) 4096, JRangeCommit 0 0 (Suc 0), JEndPass 0]"
  "cut_run 6 = [run_header demo_job, run_armed demo_world demo_job,
      JBeginPass 0 (descriptor (rw_hex demo_world) dec (FixedSource 7)) 4096, JRangeCommit 0 0 (Suc 0), JEndPass 0, JFlushed 0]"
  by (simp_all add: cut_run_def demo_run_records)

text \<open>The header of the cut journal, and what the command makes of it up to its first record.\<close>

definition demo_run_header :: journal_header where
  "demo_run_header = (case run_header demo_job of JHeader h \<Rightarrow> h)"

lemma demo_run_header: "run_header demo_job = JHeader demo_run_header"
  "jh_plan demo_run_header = dj_plan demo_job" "jh_identity demo_run_header = dj_identity demo_job"
  "jh_sealed demo_run_header = False"
  by (simp_all add: demo_run_header_def run_header_def demo_parts)

lemma demo_engine_resumed:
  "new_engine (pl_window_bytes (dj_plan demo_job))
     (sw_can_write_zeroes demo_resume_world \<and> pl_fast_path (dj_plan demo_job) = PreferWriteZeroes) = job_engine demo_job"
  by (simp add: job_engine_def demo_resume_world_def demo_job_def)

lemma demo_cmd_resume:
  assumes "cut_run n = JHeader demo_run_header # rest" and "\<not> is_completed (last (cut_run n))"
    and "\<And>w. \<exists>r st. resume_run demo_run_deps demo_world demo_resume_world demo_run_header (cut_run n)
        (summary_at demo_run_deps (cut_run n) 0)
        \<lparr>es_fsm = Armed, es_journal = w, es_faults = [], es_env = env, es_disk = disk\<rparr> = Done (r, st) \<and> P r"
  shows "\<exists>r st. cmd_resume demo_run_deps (\<lambda>_. Some ''h'') demo_world demo_resume_world (cut_file n, []) False [] env disk =
    Done (r, Some st) \<and> P r"
proof -
  let ?sm = "summary_at demo_run_deps (cut_run n) 0"
  have sealed: "\<not> js_sealed ?sm"
    by (simp add: summary_at_def assms(1) demo_run_header)
  have "jd_hex_decode demo_run_deps (js_chain_head ?sm) = Some (digest_bytes (head_after demo_run_deps (cut_run n)))"
    using demo_hex by (simp add: summary_at_def coded_deps_def)
  then obtain w where w: "snd (open_for_resume demo_run_deps (cut_file n, []) False (js_chain_head ?sm) (js_record_count ?sm)
      None (js_uuid ?sm) False None) = Inr w"
    by (simp add: open_for_resume_def save_tail_def Let_def digest_bytes_def)
  have facts: "js_discarded_tail_bytes ?sm = 0" "js_sealed ?sm = False" "cut_run n \<noteq> []"
    "journal_header_of (cut_run n) = Some demo_run_header" "sw_live demo_resume_world = Inr ()"
    "resume_key demo_resume_world (cut_run n) False = Inr None"
    using sealed by (simp_all add: summary_at_def assms(1) demo_resume_world_def resume_key_def)
  obtain r st where "resume_run demo_run_deps demo_world demo_resume_world demo_run_header (cut_run n) ?sm
        \<lparr>es_fsm = Armed, es_journal = w, es_faults = [], es_env = env, es_disk = disk\<rparr> = Done (r, st)" "P r"
    using assms(3) [of w] by blast
  then show ?thesis
    unfolding cmd_resume_def fst_conv cut_run_read by (simp add: facts w assms(2) demo_armed)
qed


section \<open>Witnesses\<close>

lemma demo_resume_start:
  assumes "resume_scan (cut_run n) = \<lparr>rp_last_pass = 0, rp_committed = c, rp_verify_reached = False\<rparr>"
  shows "\<exists>J. resume_run demo_run_deps demo_world demo_resume_world demo_run_header (cut_run n) sm
      \<lparr>es_fsm = Armed, es_journal = w, es_faults = [], es_env = env, es_disk = disk\<rparr> =
    (case resume_passes demo_run_deps demo_world (job_engine demo_job)
        (device_span (dj_identity demo_job) (dj_plan demo_job)) 4096
        \<lparr>rp_last_pass = 0, rp_committed = c, rp_verify_reached = False\<rparr>
        [(0, \<lparr>pa_pattern = FixedP 7, pa_label = ''p''\<rparr>)]
        \<lparr>es_fsm = Armed, es_journal = J, es_faults = [], es_env = env, es_disk = disk\<rparr> of
       Blocked \<Rightarrow> Blocked
     | Panic \<Rightarrow> Panic
     | Done (Inl e, st) \<Rightarrow> Done (Inl e, st)
     | Done (Inr _, st) \<Rightarrow> resume_verify demo_run_deps demo_world (job_engine demo_job)
         (device_span (dj_identity demo_job) (dj_plan demo_job)) (dj_plan demo_job) 512
         [\<lparr>pa_pattern = FixedP 7, pa_label = ''p''\<rparr>] st)"
  unfolding resume_run_def assms Let_def demo_run_header demo_engine_resumed
  unfolding demo_parts(2,3,5)
  by (rule exI) (simp add: coded_log_then demo_world_parts del: dec.simps resume_passes.simps)

text \<open>The read-back of the resume, with the device's byte as it is.\<close>

lemma demo_resume_verify:
  assumes "es_faults st = []" "es_env st = [Moved 1]" "es_disk st = [x, 9]" "es_fsm st = Flushing 0"
  shows "\<exists>v st'. resume_verify demo_run_deps demo_world (job_engine demo_job)
      (device_span (dj_identity demo_job) (dj_plan demo_job)) (dj_plan demo_job) 512
      [\<lparr>pa_pattern = FixedP 7, pa_label = ''p''\<rparr>] st =
    Done (Inr (finalize (\<lambda>_. []) (\<lambda>_. []) v), st') \<and>
    vp_mismatch_count (finalize (\<lambda>_. []) (\<lambda>_. []) v) = (if x = 7 then 0 else 1)"
proof -
  obtain v where v: "on_window (new_verifier Full 4096 512 False) 0 (x = 7) [x] = Inr v"
    and m: "vp_mismatch_count (finalize (\<lambda>_. []) (\<lambda>_. []) v) = (if x = 7 then 0 else 1)"
    by (simp add: finalize_def on_window_def new_verifier_def Let_def)
  have rv: "read_verify (rw_ks demo_world) (FixedSource 7) (rw_vcancel demo_world) (job_engine demo_job)
      (device_span (dj_identity demo_job) (dj_plan demo_job)) 1 on_window [Moved 1] [x, 9] (new_verifier Full 4096 512 False) =
    Done (Inr v, [])"
    by (simp add: read_verify_def demo_parts span_windows_def div_ceil_def window_byte_range_def fixed_fill_def u64_max_def
        window_is_sampled_def demo_world_def v)
  have "\<exists>st'. resume_verify demo_run_deps demo_world (job_engine demo_job)
      (device_span (dj_identity demo_job) (dj_plan demo_job)) (dj_plan demo_job) 512
      [\<lparr>pa_pattern = FixedP 7, pa_label = ''p''\<rparr>] st = Done (Inr (finalize (\<lambda>_. []) (\<lambda>_. []) v), st')"
    using assms rv unfolding resume_verify_def
    by (cases st) (simp add: begin_verify_def run_read_back_def demo_parts demo_world_parts
        coded_log_then complete_def certify_def)
  with m show ?thesis by blast
qed

lemma demo_resume_verify_done:
  "\<exists>r st'. resume_verify demo_run_deps demo_world (job_engine demo_job)
      (device_span (dj_identity demo_job) (dj_plan demo_job)) (dj_plan demo_job) 512
      [\<lparr>pa_pattern = FixedP 7, pa_label = ''p''\<rparr>]
      \<lparr>es_fsm = Flushing 0, es_journal = J, es_faults = [], es_env = [Moved 1], es_disk = [x, 9]\<rparr> = Done (r, st') \<and>
    \<not> isl r \<and> vp_mismatch_count (projr r) = (if x = 7 then 0 else 1)"
  using demo_resume_verify [of "\<lparr>es_fsm = Flushing 0, es_journal = J, es_faults = [], es_env = [Moved 1], es_disk = [x, 9]\<rparr>" x]
  by fastforce

text \<open>The pass of the resume, from its start and from behind its committed window.\<close>

lemma demo_resume_pass:
  "\<exists>w'. resume_passes demo_run_deps demo_world (job_engine demo_job)
      (device_span (dj_identity demo_job) (dj_plan demo_job)) 4096
      \<lparr>rp_last_pass = 0, rp_committed = 0, rp_verify_reached = False\<rparr> [(0, \<lparr>pa_pattern = FixedP 7, pa_label = ''p''\<rparr>)]
      \<lparr>es_fsm = Armed, es_journal = w, es_faults = [], es_env = [Moved 1, Moved 0, Moved 1], es_disk = [9, 9]\<rparr> =
    Done (Inr (), \<lparr>es_fsm = Flushing 0, es_journal = w', es_faults = [], es_env = [Moved 1], es_disk = [7, 9]\<rparr>)"
  by (simp add: resume_pass_def begin_pass_def coded_log_then resume_write_def run_write_def write_pass_def demo_parts
      demo_world_parts span_windows_def div_ceil_def window_byte_range_def write_at_def fixed_fill_def u64_max_def
      commit_records_def begin_flush_def flush_device_def)

lemma demo_resume_pass_committed:
  "\<exists>w'. resume_passes demo_run_deps demo_world (job_engine demo_job)
      (device_span (dj_identity demo_job) (dj_plan demo_job)) 4096
      \<lparr>rp_last_pass = 0, rp_committed = 1, rp_verify_reached = False\<rparr> [(0, \<lparr>pa_pattern = FixedP 7, pa_label = ''p''\<rparr>)]
      \<lparr>es_fsm = Armed, es_journal = w, es_faults = [], es_env = [Moved 0, Moved 1], es_disk = [9, 9]\<rparr> =
    Done (Inr (), \<lparr>es_fsm = Flushing 0, es_journal = w', es_faults = [], es_env = [Moved 1], es_disk = [9, 9]\<rparr>)"
  by (simp add: resume_pass_def begin_pass_def coded_log_then resume_write_def run_write_def write_pass_def demo_parts
      demo_world_parts span_windows_def div_ceil_def commit_records_def begin_flush_def flush_device_def)

lemma demo_resume:
  assumes "resume_scan (cut_run n) = \<lparr>rp_last_pass = 0, rp_committed = c, rp_verify_reached = False\<rparr>"
    and "cut_run n = JHeader demo_run_header # rest" and "\<not> is_completed (last (cut_run n))"
    and "\<And>w. \<exists>w'. resume_passes demo_run_deps demo_world (job_engine demo_job)
      (device_span (dj_identity demo_job) (dj_plan demo_job)) 4096
      \<lparr>rp_last_pass = 0, rp_committed = c, rp_verify_reached = False\<rparr> [(0, \<lparr>pa_pattern = FixedP 7, pa_label = ''p''\<rparr>)]
      \<lparr>es_fsm = Armed, es_journal = w, es_faults = [], es_env = env, es_disk = disk\<rparr> =
    Done (Inr (), \<lparr>es_fsm = Flushing 0, es_journal = w', es_faults = [], es_env = [Moved 1], es_disk = [x, 9]\<rparr>)"
  shows "\<exists>rep st. cmd_resume demo_run_deps (\<lambda>_. Some ''h'') demo_world demo_resume_world (cut_file n, []) False [] env disk =
    Done (Inr rep, Some st) \<and> vp_mismatch_count rep = (if x = 7 then 0 else 1)"
proof -
  have "\<exists>r st. cmd_resume demo_run_deps (\<lambda>_. Some ''h'') demo_world demo_resume_world (cut_file n, []) False [] env disk =
    Done (r, Some st) \<and> (\<not> isl r \<and> vp_mismatch_count (projr r) = (if x = 7 then 0 else 1))"
  proof (rule demo_cmd_resume [OF assms(2,3)])
    fix w
    obtain J where J: "resume_run demo_run_deps demo_world demo_resume_world demo_run_header (cut_run n)
        (summary_at demo_run_deps (cut_run n) 0)
        \<lparr>es_fsm = Armed, es_journal = w, es_faults = [], es_env = env, es_disk = disk\<rparr> =
      (case resume_passes demo_run_deps demo_world (job_engine demo_job)
        (device_span (dj_identity demo_job) (dj_plan demo_job)) 4096
        \<lparr>rp_last_pass = 0, rp_committed = c, rp_verify_reached = False\<rparr>
        [(0, \<lparr>pa_pattern = FixedP 7, pa_label = ''p''\<rparr>)]
        \<lparr>es_fsm = Armed, es_journal = J, es_faults = [], es_env = env, es_disk = disk\<rparr> of
       Blocked \<Rightarrow> Blocked
     | Panic \<Rightarrow> Panic
     | Done (Inl e, st) \<Rightarrow> Done (Inl e, st)
     | Done (Inr _, st) \<Rightarrow> resume_verify demo_run_deps demo_world (job_engine demo_job)
         (device_span (dj_identity demo_job) (dj_plan demo_job)) (dj_plan demo_job) 512
         [\<lparr>pa_pattern = FixedP 7, pa_label = ''p''\<rparr>] st)"
      using demo_resume_start [OF assms(1)] by blast
    obtain w' where w': "resume_passes demo_run_deps demo_world (job_engine demo_job)
        (device_span (dj_identity demo_job) (dj_plan demo_job)) 4096
        \<lparr>rp_last_pass = 0, rp_committed = c, rp_verify_reached = False\<rparr>
        [(0, \<lparr>pa_pattern = FixedP 7, pa_label = ''p''\<rparr>)]
        \<lparr>es_fsm = Armed, es_journal = J, es_faults = [], es_env = env, es_disk = disk\<rparr> =
      Done (Inr (), \<lparr>es_fsm = Flushing 0, es_journal = w', es_faults = [], es_env = [Moved 1], es_disk = [x, 9]\<rparr>)"
      using assms(4) by blast
    show "\<exists>r st. resume_run demo_run_deps demo_world demo_resume_world demo_run_header (cut_run n)
        (summary_at demo_run_deps (cut_run n) 0)
        \<lparr>es_fsm = Armed, es_journal = w, es_faults = [], es_env = env, es_disk = disk\<rparr> =
        Done (r, st) \<and> (\<not> isl r \<and> vp_mismatch_count (projr r) = (if x = 7 then 0 else 1))"
      unfolding J w' using demo_resume_verify_done [of w' x] by simp
  qed
  then show ?thesis by (metis sum.collapse(2))
qed

lemmas demo_cut_simps = cut_runs demo_run_header is_completed_def

theorem resume_completes_wipe_witness:
  "\<exists>rep st. cmd_resume demo_run_deps (\<lambda>_. Some ''h'') demo_world demo_resume_world (cut_file 3, []) False []
      [Moved 1, Moved 0, Moved 1] [9, 9] = Done (Inr rep, Some st) \<and> es_fsm st = Certified \<and> es_disk st = [7, 9]"
proof -
  have scan: "resume_scan (cut_run 3) = \<lparr>rp_last_pass = 0, rp_committed = 0, rp_verify_reached = False\<rparr>"
    by (simp add: cut_runs resume_scan_def scan_record_def run_header_def run_armed_def)
  obtain rep st where run: "cmd_resume demo_run_deps (\<lambda>_. Some ''h'') demo_world demo_resume_world (cut_file 3, []) False []
      [Moved 1, Moved 0, Moved 1] [9, 9] = Done (Inr rep, Some st)"
    using demo_resume [OF scan _ _ demo_resume_pass] by (auto simp: demo_cut_simps)
  have "es_fsm st = Certified \<and> es_disk st = [7, 9]"
    using resume_completes_wipe [OF run, unfolded fst_conv, OF cut_run_read, of demo_run_header] scan
    by (auto simp: cut_runs demo_run_header demo_run_facts demo_size demo_world_parts u64_max_def fixed_fill_def)
  with run show ?thesis by blast
qed

text \<open>The mismatch is seen, journalled, and certified all the same.\<close>

theorem resume_certifies_unflushed_data_witness:
  "\<exists>rep st. cmd_resume demo_run_deps (\<lambda>_. Some ''h'') demo_world demo_resume_world (cut_file 5, []) False []
      [Moved 0, Moved 1] [9, 9] = Done (Inr rep, Some st) \<and> vp_mismatch_count rep = 1 \<and>
    es_fsm st = Certified \<and> es_disk st = [9, 9]"
proof -
  have scan: "resume_scan (cut_run 5) = \<lparr>rp_last_pass = 0, rp_committed = 1, rp_verify_reached = False\<rparr>"
    by (simp add: cut_runs resume_scan_def scan_record_def run_header_def run_armed_def)
  obtain rep st where run: "cmd_resume demo_run_deps (\<lambda>_. Some ''h'') demo_world demo_resume_world (cut_file 5, []) False []
      [Moved 0, Moved 1] [9, 9] = Done (Inr rep, Some st)" and m: "vp_mismatch_count rep = 1"
    using demo_resume [OF scan _ _ demo_resume_pass_committed] by (auto simp: demo_cut_simps)
  have "es_fsm st = Certified \<and> es_disk st = [9, 9]"
    using resume_certifies_unflushed_data [OF run, unfolded fst_conv, OF cut_run_read, of demo_run_header] scan
    by (simp add: cut_runs demo_run_header demo_run_facts)
  with run m show ?thesis by blast
qed

theorem resume_after_flush_fails_witness:
  "\<exists>e st. cmd_resume demo_run_deps (\<lambda>_. Some ''h'') demo_world demo_resume_world (cut_file 6, []) False [] [] [7, 9] =
    Done (Inl e, Some st)"
proof -
  have "resume_scan (cut_run 6) = \<lparr>rp_last_pass = 0, rp_committed = 1, rp_verify_reached = True\<rparr>"
    by (simp add: cut_runs resume_scan_def scan_record_def run_header_def run_armed_def)
  then have "\<exists>r st. resume_run demo_run_deps demo_world demo_resume_world demo_run_header (cut_run 6)
        (summary_at demo_run_deps (cut_run 6) 0)
        \<lparr>es_fsm = Armed, es_journal = w, es_faults = [], es_env = [], es_disk = [7, 9]\<rparr> = Done (r, st) \<and> True" for w
    by (simp add: resume_run_def Let_def coded_log_then demo_world_parts resume_verify_def begin_verify_def)
  then have "\<exists>r st. cmd_resume demo_run_deps (\<lambda>_. Some ''h'') demo_world demo_resume_world (cut_file 6, []) False [] []
      [7, 9] = Done (r, Some st) \<and> True"
    by (intro demo_cmd_resume) (simp_all add: demo_cut_simps)
  then obtain r st where run: "cmd_resume demo_run_deps (\<lambda>_. Some ''h'') demo_world demo_resume_world (cut_file 6, [])
      False [] [] [7, 9] = Done (r, Some st)"
    by blast
  from resume_after_flush_fails [OF run, unfolded fst_conv, OF cut_run_read, of 0] run show ?thesis
    by (auto simp: cut_runs)
qed

end
