(* ===== verification/Block_Graph.thy ===== *)
theory Block_Graph
  imports Errors
begin

text \<open>
  The block-device tree, the upward walk over its holders and the pure classifier
  (\<open>crates/dc-probe/src/classify.rs\<close>, \<open>graph.rs\<close>). The tree is a \<open>BTreeMap\<close>: an association list
  read with \<open>map_of\<close>; the visited \<open>HashSet\<close> is a set.
\<close>

section \<open>The tree\<close>

record device_node =
  dn_name :: string
  dn_maj_min :: "nat \<times> nat"
  dn_size_bytes :: nat
  dn_is_partition :: bool
  dn_is_ram_backed :: bool
  dn_is_zoned :: bool
  dn_is_read_only :: bool
  dn_mounts :: "string list"
  dn_holders :: "string list"
  dn_swap_active :: bool
  dn_active_lvm :: bool
  dn_active_md :: bool
  dn_active_crypt :: bool
  dn_is_loop :: bool
  dn_inactive_sig :: "string option"
  dn_is_member :: bool

type_synonym block_tree = "(string \<times> device_node) list"

section \<open>The walk\<close>

record danger_hop =
  dh_dev_name :: string
  dh_edge_type :: string
  dh_dm_type :: "string option"

record danger_path =
  dp_hops :: "danger_hop list"
  dp_terminal_class :: string
  dp_terminal_detail :: string

datatype walk_outcome = Clean | Danger "danger_path list" | DepthExceeded "string list"

fun join :: "string \<Rightarrow> string list \<Rightarrow> string" where
  "join sep [] = []"
| "join sep [s] = s"
| "join sep (s # t # ss) = s @ sep @ join sep (t # ss)"

definition node_dangers :: "device_node \<Rightarrow> danger_hop list \<Rightarrow> danger_path list" where
  "node_dangers node path =
     (if path = [] then []
      else (if dn_mounts node \<noteq> []
            then [\<lparr>dp_hops = path, dp_terminal_class = ''MOUNTED'',
                   dp_terminal_detail = join '', '' (dn_mounts node)\<rparr>]
            else []) @
           (if dn_swap_active node
            then [\<lparr>dp_hops = path, dp_terminal_class = ''SWAP'',
                   dp_terminal_detail = ''Active swap on '' @ dn_name node\<rparr>]
            else []))"

definition dm_type_of :: "device_node \<Rightarrow> string option" where
  "dm_type_of node = (if dn_active_crypt node then Some ''crypt''
     else if dn_active_lvm node then Some ''lvm'' else None)"

fun push_holders ::
  "string option \<Rightarrow> danger_hop list \<Rightarrow> string list \<Rightarrow> string set \<Rightarrow> (string \<times> danger_hop list) list \<Rightarrow>
   string set \<times> (string \<times> danger_hop list) list" where
  "push_holders dm path [] visited queue = (visited, queue)"
| "push_holders dm path (h # hs) visited queue =
     (if h \<in> visited then push_holders dm path hs visited queue
      else push_holders dm path hs (insert h visited)
        (queue @ [(h, path @ [\<lparr>dh_dev_name = h, dh_edge_type = ''holder'', dh_dm_type = dm\<rparr>])]))"

definition holder_names :: "block_tree \<Rightarrow> string set" where
  "holder_names t = (\<Union>node \<in> snd ` set t. set (dn_holders node))"

lemma finite_holder_names [simp]: "finite (holder_names t)"
  by (simp add: holder_names_def)

lemma holder_in_names: "map_of t a = Some node \<Longrightarrow> set (dn_holders node) \<subseteq> holder_names t"
  by (force simp: holder_names_def dest: map_of_SomeD)

text \<open>Every push takes a fresh holder: twice the unvisited holders plus the queue shrinks.\<close>

lemma push_holders_measure:
  assumes "push_holders dm path hs visited queue = (visited', queue')" and "set hs \<subseteq> N" and "finite N"
  shows "2 * card (N - visited') + length queue' \<le> 2 * card (N - visited) + length queue"
  using assms(1,2)
proof (induction dm path hs visited queue rule: push_holders.induct)
  case (2 dm path h hs visited queue)
  show ?case
  proof (cases "h \<in> visited")
    case False
    then have h: "h \<in> N - visited" using 2(4) by simp
    have "N - insert h visited = (N - visited) - {h}" by auto
    then have "card (N - visited) = Suc (card (N - insert h visited))"
      using h assms(3) card.remove [of "N - visited" h] by simp
    moreover have "2 * card (N - visited') + length queue' \<le> 2 * card (N - insert h visited) + Suc (length queue)"
      using 2(2) [OF False] 2(3,4) False by simp
    ultimately show ?thesis by simp
  qed (use 2 in simp)
qed simp

function walk ::
  "block_tree \<Rightarrow> nat \<Rightarrow> string set \<Rightarrow> danger_path list \<Rightarrow> (string \<times> danger_hop list) list \<Rightarrow> walk_outcome" where
  "walk t max_depth visited dangers [] = (if dangers = [] then Clean else Danger dangers)"
| "walk t max_depth visited dangers ((name, path) # queue) =
     (if length path \<ge> max_depth then DepthExceeded [name]
      else case map_of t name of
        None \<Rightarrow> walk t max_depth visited dangers queue
      | Some node \<Rightarrow>
          (case push_holders (dm_type_of node) path (dn_holders node) visited queue of
             (visited', queue') \<Rightarrow>
               walk t max_depth visited' (dangers @ node_dangers node path) queue'))"
  by pat_completeness auto
termination
  apply (relation "measure (\<lambda>(t, _, visited, _, queue). 2 * card (holder_names t - visited) + length queue)")
    apply simp
   apply simp
  subgoal premises p for t max_depth visited dangers name path queue node visited' queue'
    using push_holders_measure [OF p(3) [symmetric] holder_in_names [of t name node] finite_holder_names] p(2) by simp
  done

definition live_dangers :: "block_tree \<Rightarrow> string \<Rightarrow> nat \<Rightarrow> walk_outcome" where
  "live_dangers t target max_depth = walk t max_depth {target} [] [(target, [])]"

section \<open>What the walk decides\<close>

definition holds :: "block_tree \<Rightarrow> (string \<times> string) set" where
  "holds t = {(a, b). \<exists>node. map_of t a = Some node \<and> b \<in> set (dn_holders node)}"

definition live :: "block_tree \<Rightarrow> string \<Rightarrow> bool" where
  "live t b \<longleftrightarrow> (\<exists>node. map_of t b = Some node \<and> (dn_mounts node \<noteq> [] \<or> dn_swap_active node))"

text \<open>A path of hops that climbs the holders from \<open>a\<close> to \<open>b\<close>.\<close>

fun climbs :: "block_tree \<Rightarrow> string \<Rightarrow> danger_hop list \<Rightarrow> string \<Rightarrow> bool" where
  "climbs t a [] b \<longleftrightarrow> a = b"
| "climbs t a (h # hs) b \<longleftrightarrow> (a, dh_dev_name h) \<in> holds t \<and> climbs t (dh_dev_name h) hs b"

lemma climbs_snoc: "climbs t a (hs @ [h]) b \<longleftrightarrow> (\<exists>c. climbs t a hs c \<and> (c, dh_dev_name h) \<in> holds t \<and> b = dh_dev_name h)"
  by (induction hs arbitrary: a) auto

lemma climbs_rtrancl: "climbs t a hs b \<Longrightarrow> (a, b) \<in> (holds t)\<^sup>*"
  by (induction hs arbitrary: a) (auto intro: converse_rtrancl_into_rtrancl)

text \<open>
  The invariant of the worklist: what is visited is reachable from the target, every queued path
  climbs to its node, only the target has the empty path, every visited node that is no longer
  queued has all its holders visited, and the dangers are those of these nodes.
\<close>

definition walk_inv ::
  "block_tree \<Rightarrow> string \<Rightarrow> string set \<Rightarrow> danger_path list \<Rightarrow> (string \<times> danger_hop list) list \<Rightarrow> bool" where
  "walk_inv t n visited dangers queue \<longleftrightarrow>
     n \<in> visited \<and> fst ` set queue \<subseteq> visited \<and> distinct (map fst queue) \<and>
     (\<forall>b. b \<in> visited \<longrightarrow> (n, b) \<in> (holds t)\<^sup>*) \<and>
     (\<forall>b path. (b, path) \<in> set queue \<longrightarrow> climbs t n path b \<and> (path = [] \<longleftrightarrow> b = n)) \<and>
     (\<forall>a b. a \<in> visited \<longrightarrow> a \<notin> fst ` set queue \<longrightarrow> (a, b) \<in> holds t \<longrightarrow> b \<in> visited) \<and>
     (dangers \<noteq> [] \<longleftrightarrow> (\<exists>b. b \<in> visited \<and> b \<notin> fst ` set queue \<and> b \<noteq> n \<and> live t b)) \<and>
     (\<forall>dp. dp \<in> set dangers \<longrightarrow> (\<exists>b. dp_hops dp \<noteq> [] \<and> climbs t n (dp_hops dp) b \<and> live t b))"

lemma walk_invE:
  assumes "walk_inv t n visited dangers queue"
  obtains "n \<in> visited" "fst ` set queue \<subseteq> visited" "distinct (map fst queue)"
    "\<And>b. b \<in> visited \<Longrightarrow> (n, b) \<in> (holds t)\<^sup>*"
    "\<And>b path. (b, path) \<in> set queue \<Longrightarrow> climbs t n path b \<and> (path = [] \<longleftrightarrow> b = n)"
    "\<And>a b. a \<in> visited \<Longrightarrow> a \<notin> fst ` set queue \<Longrightarrow> (a, b) \<in> holds t \<Longrightarrow> b \<in> visited"
    "dangers \<noteq> [] \<longleftrightarrow> (\<exists>b. b \<in> visited \<and> b \<notin> fst ` set queue \<and> b \<noteq> n \<and> live t b)"
    "\<And>dp. dp \<in> set dangers \<Longrightarrow> \<exists>b. dp_hops dp \<noteq> [] \<and> climbs t n (dp_hops dp) b \<and> live t b"
  using assms unfolding walk_inv_def by blast

lemma walk_invI:
  assumes "n \<in> visited" "fst ` set queue \<subseteq> visited" "distinct (map fst queue)"
    "\<And>b. b \<in> visited \<Longrightarrow> (n, b) \<in> (holds t)\<^sup>*"
    "\<And>b path. (b, path) \<in> set queue \<Longrightarrow> climbs t n path b \<and> (path = [] \<longleftrightarrow> b = n)"
    "\<And>a b. a \<in> visited \<Longrightarrow> a \<notin> fst ` set queue \<Longrightarrow> (a, b) \<in> holds t \<Longrightarrow> b \<in> visited"
    "dangers \<noteq> [] \<longleftrightarrow> (\<exists>b. b \<in> visited \<and> b \<notin> fst ` set queue \<and> b \<noteq> n \<and> live t b)"
    "\<And>dp. dp \<in> set dangers \<Longrightarrow> \<exists>b. dp_hops dp \<noteq> [] \<and> climbs t n (dp_hops dp) b \<and> live t b"
  shows "walk_inv t n visited dangers queue"
  using assms unfolding walk_inv_def by blast

lemma push_holders_visited:
  "push_holders dm path hs visited queue = (visited', queue') \<Longrightarrow>
     visited' = visited \<union> set hs \<and>
     fst ` set queue' = fst ` set queue \<union> (set hs - visited) \<and>
     (\<forall>(b, p) \<in> set queue'. (b, p) \<in> set queue \<or>
        b \<in> set hs \<and> b \<notin> visited \<and> (\<exists>dm. p = path @ [\<lparr>dh_dev_name = b, dh_edge_type = ''holder'', dh_dm_type = dm\<rparr>])) \<and>
     (distinct (map fst queue) \<and> fst ` set queue \<subseteq> visited \<longrightarrow> distinct (map fst queue'))"
proof (induction dm path hs visited queue rule: push_holders.induct)
  case (2 dm path h hs visited queue)
  show ?case
  proof (cases "h \<in> visited")
    case True
    then show ?thesis using 2 by auto
  next
    case False
    let ?q = "queue @ [(h, path @ [\<lparr>dh_dev_name = h, dh_edge_type = ''holder'', dh_dm_type = dm\<rparr>])]"
    have "push_holders dm path hs (insert h visited) ?q = (visited', queue')" using 2(3) False by simp
    note ih = 2(2) [OF False this]
    have "distinct (map fst queue) \<and> fst ` set queue \<subseteq> visited \<longrightarrow>
        distinct (map fst ?q) \<and> fst ` set ?q \<subseteq> insert h visited"
      using False by auto
    with ih show ?thesis using False by (auto simp: image_iff)
  qed
qed simp


lemma node_dangers_live:
  assumes "map_of t b = Some node"
  shows "node_dangers node path \<noteq> [] \<longleftrightarrow> path \<noteq> [] \<and> live t b"
    and "dp \<in> set (node_dangers node path) \<Longrightarrow> dp_hops dp = path"
  using assms by (auto simp: node_dangers_def live_def split: if_splits)

lemma walk_inv_skip:
  assumes "walk_inv t n visited dangers ((b, path) # queue)" and "map_of t b = None"
  shows "walk_inv t n visited dangers queue"
  using assms(1)
proof (rule walk_invE)
  have h: "\<not> live t b" "\<And>c. (b, c) \<notin> holds t" using assms(2) by (auto simp: live_def holds_def)
  assume "n \<in> visited" "fst ` set ((b, path) # queue) \<subseteq> visited" "distinct (map fst ((b, path) # queue))"
    "\<And>b. b \<in> visited \<Longrightarrow> (n, b) \<in> (holds t)\<^sup>*"
    "\<And>c p. (c, p) \<in> set ((b, path) # queue) \<Longrightarrow> climbs t n p c \<and> (p = [] \<longleftrightarrow> c = n)"
    and closed: "\<And>a c. a \<in> visited \<Longrightarrow> a \<notin> fst ` set ((b, path) # queue) \<Longrightarrow> (a, c) \<in> holds t \<Longrightarrow> c \<in> visited"
    and dang: "dangers \<noteq> [] \<longleftrightarrow> (\<exists>c. c \<in> visited \<and> c \<notin> fst ` set ((b, path) # queue) \<and> c \<noteq> n \<and> live t c)"
    and "\<And>dp. dp \<in> set dangers \<Longrightarrow> \<exists>b. dp_hops dp \<noteq> [] \<and> climbs t n (dp_hops dp) b \<and> live t b"
  then show ?thesis
  proof (intro walk_invI)
    fix a c assume "a \<in> visited" "a \<notin> fst ` set queue" "(a, c) \<in> holds t"
    then show "c \<in> visited" using closed [of a c] h(2) [of c] by (cases "a = b") simp_all
  next
    show "dangers \<noteq> [] \<longleftrightarrow> (\<exists>c. c \<in> visited \<and> c \<notin> fst ` set queue \<and> c \<noteq> n \<and> live t c)"
      unfolding dang using h(1) by (metis (no_types) fst_conv image_insert insertE insertI2 list.simps(15))
  qed auto
qed

lemma walk_inv_visit:
  assumes inv: "walk_inv t n visited dangers ((b, path) # queue)" and node: "map_of t b = Some node"
    and push: "push_holders (dm_type_of node) path (dn_holders node) visited queue = (visited', queue')"
  shows "walk_inv t n visited' (dangers @ node_dangers node path) queue'"
  using inv
proof (rule walk_invE)
  note p = push_holders_visited [OF push]
  have v': "visited' = visited \<union> set (dn_holders node)"
    and q': "fst ` set queue' = fst ` set queue \<union> (set (dn_holders node) - visited)"
    using p by blast+
  have holders: "c \<in> set (dn_holders node) \<longleftrightarrow> (b, c) \<in> holds t" for c
    using node by (simp add: holds_def)
  assume n: "n \<in> visited" and sub: "fst ` set ((b, path) # queue) \<subseteq> visited" and dist: "distinct (map fst ((b, path) # queue))"
    and reach: "\<And>b. b \<in> visited \<Longrightarrow> (n, b) \<in> (holds t)\<^sup>*"
    and paths: "\<And>c p. (c, p) \<in> set ((b, path) # queue) \<Longrightarrow> climbs t n p c \<and> (p = [] \<longleftrightarrow> c = n)"
    and closed: "\<And>a c. a \<in> visited \<Longrightarrow> a \<notin> fst ` set ((b, path) # queue) \<Longrightarrow> (a, c) \<in> holds t \<Longrightarrow> c \<in> visited"
    and dang: "dangers \<noteq> [] \<longleftrightarrow> (\<exists>c. c \<in> visited \<and> c \<notin> fst ` set ((b, path) # queue) \<and> c \<noteq> n \<and> live t c)"
    and sound: "\<And>dp. dp \<in> set dangers \<Longrightarrow> \<exists>b. dp_hops dp \<noteq> [] \<and> climbs t n (dp_hops dp) b \<and> live t b"
  have b: "b \<in> visited" "b \<notin> fst ` set queue" "climbs t n path b" "path = [] \<longleftrightarrow> b = n"
    using sub dist paths [of b path] by auto
  have finished: "c \<in> visited' \<and> c \<notin> fst ` set queue' \<longleftrightarrow> c = b \<or> (c \<in> visited \<and> c \<notin> fst ` set ((b, path) # queue))" for c
    using b(1,2) sub unfolding v' q' by auto
  show ?thesis
  proof (rule walk_invI)
    show "n \<in> visited'" using n v' by simp
    show "fst ` set queue' \<subseteq> visited'" using sub unfolding v' q' by auto
    show "distinct (map fst queue')" using p dist sub by simp
  next
    fix c assume "c \<in> visited'"
    then show "(n, c) \<in> (holds t)\<^sup>*"
      using reach reach [OF b(1)] holders unfolding v' by (auto intro: rtrancl_into_rtrancl)
  next
    fix c pc assume "(c, pc) \<in> set queue'"
    then consider "(c, pc) \<in> set queue" | dm where "c \<in> set (dn_holders node)" "c \<notin> visited"
        "pc = path @ [\<lparr>dh_dev_name = c, dh_edge_type = ''holder'', dh_dm_type = dm\<rparr>]"
      using p by blast
    then show "climbs t n pc c \<and> (pc = [] \<longleftrightarrow> c = n)"
    proof cases
      case 1
      then show ?thesis using paths [of c pc] by simp
    next
      case 2
      then show ?thesis using b(3) holders n by (auto simp: climbs_snoc)
    qed
  next
    fix a c assume "a \<in> visited'" "a \<notin> fst ` set queue'" "(a, c) \<in> holds t"
    then show "c \<in> visited'" using finished [of a] closed [of a c] holders unfolding v' by auto
  next
    show "dangers @ node_dangers node path \<noteq> [] \<longleftrightarrow>
        (\<exists>c. c \<in> visited' \<and> c \<notin> fst ` set queue' \<and> c \<noteq> n \<and> live t c)"
      using dang finished b(4) node_dangers_live(1) [OF node, of path] by (metis append_is_Nil_conv)
  next
    fix dp assume "dp \<in> set (dangers @ node_dangers node path)"
    then consider "dp \<in> set dangers" | "dp \<in> set (node_dangers node path)" by auto
    then show "\<exists>c. dp_hops dp \<noteq> [] \<and> climbs t n (dp_hops dp) c \<and> live t c"
    proof cases
      case 1
      then show ?thesis by (rule sound)
    next
      case 2
      then have "node_dangers node path \<noteq> []" by auto
      then have "path \<noteq> []" "live t b" using node_dangers_live(1) [OF node, of path] by simp_all
      then show ?thesis using b(3) node_dangers_live(2) [OF node 2] by auto
    qed
  qed
qed

lemma walk_decides:
  assumes "walk_inv t n visited dangers queue"
  shows "case walk t d visited dangers queue of
      Clean \<Rightarrow> \<forall>b. (n, b) \<in> (holds t)\<^sup>* \<longrightarrow> b \<noteq> n \<longrightarrow> \<not> live t b
    | Danger ds \<Rightarrow> ds \<noteq> [] \<and> (\<forall>dp \<in> set ds. \<exists>b. dp_hops dp \<noteq> [] \<and> climbs t n (dp_hops dp) b \<and> live t b)
    | DepthExceeded at \<Rightarrow> \<exists>b path. at = [b] \<and> climbs t n path b \<and> d \<le> length path"
  using assms
proof (induction t d visited dangers queue rule: walk.induct)
  case (1 t d visited dangers)
  from 1 show ?case
  proof (rule walk_invE)
    assume n: "n \<in> visited"
      and closed: "\<And>a b. a \<in> visited \<Longrightarrow> a \<notin> fst ` set [] \<Longrightarrow> (a, b) \<in> holds t \<Longrightarrow> b \<in> visited"
      and dang: "dangers \<noteq> [] \<longleftrightarrow> (\<exists>b. b \<in> visited \<and> b \<notin> fst ` set [] \<and> b \<noteq> n \<and> live t b)"
      and sound: "\<And>dp. dp \<in> set dangers \<Longrightarrow> \<exists>b. dp_hops dp \<noteq> [] \<and> climbs t n (dp_hops dp) b \<and> live t b"
    have "b \<in> visited" if "(n, b) \<in> (holds t)\<^sup>*" for b
      using that by induction (use n closed in auto)
    then show ?thesis using dang sound by auto
  qed
next
  case (2 t d visited dangers b path queue)
  show ?case
  proof (cases "d \<le> length path")
    case True
    then show ?thesis using 2(3) by simp (elim walk_invE, force)
  next
    case False
    show ?thesis
    proof (cases "map_of t b")
      case None
      then show ?thesis using 2(1) [OF False None] walk_inv_skip [OF 2(3)] False by simp
    next
      case (Some node)
      obtain visited' queue' where push: "push_holders (dm_type_of node) path (dn_holders node) visited queue = (visited', queue')"
        by fastforce
      show ?thesis
        using 2(2) [OF False Some push [symmetric]] walk_inv_visit [OF 2(3) Some push] False Some push by simp
    qed
  qed
qed

lemma walk_inv_start: "walk_inv t n {n} [] [(n, [])]"
  by (auto simp: walk_inv_def)


text \<open>Paths have no repeated node, so no path is longer than the number of holders there are.\<close>

definition short_paths :: "block_tree \<Rightarrow> string set \<Rightarrow> (string \<times> danger_hop list) list \<Rightarrow> bool" where
  "short_paths t visited queue \<longleftrightarrow> (\<forall>b path. (b, path) \<in> set queue \<longrightarrow>
     distinct (map dh_dev_name path) \<and> set (map dh_dev_name path) \<subseteq> visited \<inter> holder_names t)"

lemma short_pathsD:
  assumes "short_paths t visited ((b, path) # queue)"
  shows "length path \<le> card (holder_names t)" and "short_paths t visited queue"
proof -
  have "distinct (map dh_dev_name path)" "set (map dh_dev_name path) \<subseteq> holder_names t"
    using assms by (auto simp: short_paths_def)
  then show "length path \<le> card (holder_names t)"
    by (metis card_mono distinct_card finite_holder_names length_map)
  show "short_paths t visited queue" using assms by (auto simp: short_paths_def)
qed

lemma push_holders_short:
  assumes "push_holders dm path (dn_holders node) visited queue = (visited', queue')" and "map_of t b = Some node"
    and "short_paths t visited ((b, path) # queue)"
  shows "short_paths t visited' queue'"
proof -
  note p = push_holders_visited [OF assms(1)]
  have names: "set (dn_holders node) \<subseteq> holder_names t" using holder_in_names [OF assms(2)] .
  show ?thesis
    unfolding short_paths_def
  proof (intro allI impI)
    fix c pc assume "(c, pc) \<in> set queue'"
    then consider "(c, pc) \<in> set queue" | dm where "c \<in> set (dn_holders node)" "c \<notin> visited"
        "pc = path @ [\<lparr>dh_dev_name = c, dh_edge_type = ''holder'', dh_dm_type = dm\<rparr>]"
      using p by blast
    then show "distinct (map dh_dev_name pc) \<and> set (map dh_dev_name pc) \<subseteq> visited' \<inter> holder_names t"
    proof cases
      case 1
      then have "distinct (map dh_dev_name pc) \<and> set (map dh_dev_name pc) \<subseteq> visited \<inter> holder_names t"
        using assms(3) unfolding short_paths_def by (meson list.set_intros(2))
      then show ?thesis using p by blast
    next
      case 2
      have "distinct (map dh_dev_name path) \<and> set (map dh_dev_name path) \<subseteq> visited \<inter> holder_names t"
        using assms(3) unfolding short_paths_def by (meson list.set_intros(1))
      then show ?thesis using 2 p names by auto
    qed
  qed
qed

lemma walk_depth:
  assumes "short_paths t visited queue" and "card (holder_names t) < d"
  shows "walk t d visited dangers queue \<noteq> DepthExceeded at"
  using assms
proof (induction t d visited dangers queue rule: walk.induct)
  case (2 t d visited dangers b path queue)
  have len: "\<not> d \<le> length path" using short_pathsD(1) [OF 2(3)] 2(4) by simp
  show ?case
  proof (cases "map_of t b")
    case None
    then show ?thesis using 2(1) [OF len None short_pathsD(2) [OF 2(3)] 2(4)] len by simp
  next
    case (Some node)
    obtain visited' queue' where push: "push_holders (dm_type_of node) path (dn_holders node) visited queue = (visited', queue')"
      by fastforce
    show ?thesis
      using 2(2) [OF len Some push [symmetric] push_holders_short [OF push Some 2(3)] 2(4)] len Some push by simp
  qed
qed simp

section \<open>The classifier\<close>

record guardian_flags =
  gf_allow_system_disk :: bool
  gf_serial_confirm :: "string option"
  gf_allow_loop :: bool
  gf_allow_inactive_signatures :: bool
  gf_allow_member :: bool

definition refuse :: "string \<Rightarrow> guardian_refusal + 'a" where
  "refuse code = Inl \<lparr>gr_code = code\<rparr>"

definition multipath_name :: "string \<Rightarrow> bool" where
  "multipath_name name \<longleftrightarrow> CHR ''c'' \<in> set name \<and> starts_with name ''nvme'' \<and> CHR ''n'' \<in> set name"

definition classify_system_mount :: "string \<Rightarrow> bool" where
  "classify_system_mount m \<longleftrightarrow>
     m = ''/'' \<or> m = ''/boot'' \<or> m = ''/boot/efi'' \<or> m = ''/home'' \<or> m = ''/usr'' \<or> m = ''/var'' \<or> m = ''/etc''"

definition classify_pure ::
  "string \<Rightarrow> block_tree \<Rightarrow> guardian_flags \<Rightarrow> guardian_refusal + unit" where
  "classify_pure target t flags =
     (case map_of t target of
        None \<Rightarrow> refuse ''DEVICE_NOT_FOUND''
      | Some node \<Rightarrow>
      if dn_size_bytes node < 1024 * 1024 then refuse ''SIZE_ANOMALY''
      else if dn_is_partition node then refuse ''NOT_WHOLE_DISK''
      else if dn_is_ram_backed node then refuse ''RAM_BACKED''
      else if dn_is_zoned node then refuse ''ZONED''
      else if dn_is_read_only node then refuse ''READ_ONLY''
      else if multipath_name (dn_name node) then refuse ''MULTIPATH_PATH''
      else if dn_mounts node \<noteq> [] \<and> list_ex classify_system_mount (dn_mounts node) \<and> \<not> gf_allow_system_disk flags
      then refuse ''SYSTEM_DISK''
      else if dn_mounts node \<noteq> [] \<and> \<not> list_ex classify_system_mount (dn_mounts node) then refuse ''MOUNTED''
      else if dn_swap_active node then refuse ''SWAP_ACTIVE''
      else if dn_active_lvm node then refuse ''LVM_ACTIVE''
      else if dn_active_md node then refuse ''MD_ACTIVE''
      else if dn_active_crypt node then refuse ''CRYPT_ACTIVE''
      else (case live_dangers t target 16 of
        Danger _ \<Rightarrow> refuse ''STACK_IN_USE''
      | _ \<Rightarrow>
      if dn_holders node \<noteq> [] then refuse ''HOLDERS_PRESENT''
      else if dn_is_loop node \<and> \<not> gf_allow_loop flags then refuse ''LOOP_BACKED''
      else if dn_inactive_sig node \<noteq> None \<and> \<not> gf_allow_inactive_signatures flags then refuse ''INACTIVE_SIGNATURES''
      else if dn_is_member node \<and> \<not> gf_allow_member flags then refuse ''RETIRED_MEMBER''
      else Inr ()))"

section \<open>Properties\<close>

text \<open>C12: The upward walk decides what it is asked. \<open>Clean\<close>: no mounted or swapping device sits
  anywhere above the target. \<open>Danger\<close>: every reported path climbs holder by holder from the target to
  such a device. \<open>DepthExceeded\<close>: a stack of that height exists, which cannot happen when the limit
  exceeds the number of holders in the tree. It terminates on cyclic trees.\<close>

theorem live_dangers_exact:
  "case live_dangers t n d of
      Clean \<Rightarrow> \<forall>b. (n, b) \<in> (holds t)\<^sup>* \<longrightarrow> b \<noteq> n \<longrightarrow> \<not> live t b
    | Danger ds \<Rightarrow> ds \<noteq> [] \<and> (\<forall>dp \<in> set ds. \<exists>b. dp_hops dp \<noteq> [] \<and> climbs t n (dp_hops dp) b \<and> live t b)
    | DepthExceeded at \<Rightarrow> (\<exists>b path. at = [b] \<and> climbs t n path b \<and> d \<le> length path) \<and> d \<le> card (holder_names t)"
proof -
  have inv: "walk_inv t n {n} [] [(n, [])]" by (rule walk_invI) auto
  have "live_dangers t n d \<noteq> DepthExceeded at" if "card (holder_names t) < d" for at
    unfolding live_dangers_def by (rule walk_depth) (use that in \<open>auto simp: short_paths_def\<close>)
  then show ?thesis
    using walk_decides [OF inv, of d] unfolding live_dangers_def
    by (cases "walk t d {n} [] [(n, [])]") (auto simp: not_le [symmetric] simp del: walk.simps)
qed

text \<open>What the classifier lets through is idle: no swap, no active LVM, RAID or mapping, nothing held
  from above at any height, no mount unless it is a system disk under the override, and not
  dormant data unless the flags say so. In particular the depth limit of the walk is never a way in.\<close>

theorem classify_accepts_idle_only:
  assumes "classify_pure n t flags = Inr ()"
  shows "\<exists>node. map_of t n = Some node \<and> 1024 * 1024 \<le> dn_size_bytes node \<and> \<not> dn_is_partition node \<and>
    \<not> dn_is_read_only node \<and> \<not> dn_swap_active node \<and> \<not> dn_active_lvm node \<and> \<not> dn_active_md node \<and>
    \<not> dn_active_crypt node \<and> (\<forall>b. (n, b) \<in> (holds t)\<^sup>* \<longrightarrow> b = n) \<and>
    (dn_mounts node \<noteq> [] \<longrightarrow> gf_allow_system_disk flags \<and> (\<exists>m \<in> set (dn_mounts node). classify_system_mount m)) \<and>
    (dn_inactive_sig node \<noteq> None \<longrightarrow> gf_allow_inactive_signatures flags) \<and>
    (dn_is_member node \<longrightarrow> gf_allow_member flags)"
proof -
  obtain node where node: "map_of t n = Some node"
    using assms by (auto simp: classify_pure_def refuse_def split: option.splits)
  have c: "1024 * 1024 \<le> dn_size_bytes node" "\<not> dn_is_partition node" "\<not> dn_is_read_only node"
    "\<not> dn_swap_active node" "\<not> dn_active_lvm node" "\<not> dn_active_md node" "\<not> dn_active_crypt node"
    "dn_holders node = []"
    "dn_mounts node \<noteq> [] \<longrightarrow> gf_allow_system_disk flags \<and> list_ex classify_system_mount (dn_mounts node)"
    "dn_inactive_sig node \<noteq> None \<longrightarrow> gf_allow_inactive_signatures flags" "dn_is_member node \<longrightarrow> gf_allow_member flags"
    using assms by (auto simp: classify_pure_def node refuse_def split: if_splits walk_outcome.splits)
  have "b = n" if "(n, b) \<in> (holds t)\<^sup>*" for b
    using that by (rule converse_rtranclE) (use node c(8) in \<open>auto simp: holds_def\<close>)
  then show ?thesis using node c by (auto simp: list_ex_iff)
qed

section \<open>Witnesses\<close>

definition idle_node :: "string \<Rightarrow> device_node" where
  "idle_node name = \<lparr>dn_name = name, dn_maj_min = (8, 0), dn_size_bytes = 2 ^ 30, dn_is_partition = False,
     dn_is_ram_backed = False, dn_is_zoned = False, dn_is_read_only = False, dn_mounts = [], dn_holders = [],
     dn_swap_active = False, dn_active_lvm = False, dn_active_md = False, dn_active_crypt = False,
     dn_is_loop = False, dn_inactive_sig = None, dn_is_member = False\<rparr>"

text \<open>A mapped device on a disk, mounted, and a cycle between the two.\<close>

definition demo_tree :: block_tree where
  "demo_tree = [(''sda'', (idle_node ''sda'')\<lparr>dn_holders := [''dm-0''], dn_active_crypt := True\<rparr>),
     (''dm-0'', (idle_node ''dm-0'')\<lparr>dn_mounts := [''/srv''], dn_holders := [''sda'']\<rparr>),
     (''sdb'', idle_node ''sdb'')]"

theorem live_dangers_exact_witness:
  "\<exists>ds. live_dangers demo_tree ''sda'' 16 = Danger ds \<and> ds \<noteq> [] \<and>
    (\<forall>dp \<in> set ds. \<exists>b. climbs demo_tree ''sda'' (dp_hops dp) b \<and> live demo_tree b)"
proof -
  have "\<exists>ds. live_dangers demo_tree ''sda'' 16 = Danger ds"
    by (simp add: live_dangers_def demo_tree_def idle_node_def node_dangers_def)
  then obtain ds where ds: "live_dangers demo_tree ''sda'' 16 = Danger ds" by blast
  then show ?thesis using live_dangers_exact [where t = demo_tree and n = "''sda''" and d = 16] by auto
qed

theorem classify_accepts_idle_only_witness:
  "\<exists>node. map_of demo_tree ''sdb'' = Some node \<and> dn_holders node = [] \<and> dn_mounts node = []"
proof -
  have "classify_pure ''sdb'' demo_tree
      \<lparr>gf_allow_system_disk = False, gf_serial_confirm = None, gf_allow_loop = False,
       gf_allow_inactive_signatures = False, gf_allow_member = False\<rparr> = Inr ()"
    by (simp add: classify_pure_def demo_tree_def idle_node_def multipath_name_def live_dangers_def node_dangers_def starts_with_def)
  from classify_accepts_idle_only [OF this] show ?thesis
    by (auto simp: demo_tree_def idle_node_def)
qed

end
