(* ===== verification/Guardian.thy ===== *)
theory Guardian
  imports Block_Graph Pattern Decimal
begin

text \<open>
  The guardian that refuses a device in use (\<open>crates/dc-probe/src/guardian.rs\<close>) and the readers of
  kernel state it consults (\<open>layer_stack.rs\<close>). The files of \<open>/proc\<close> and \<open>/sys\<close> are the fields of
  \<open>host\<close>, their texts taken as ASCII; \<open>None\<close> is a file that cannot be read.
\<close>

section \<open>Text\<close>

definition whitespace :: "char \<Rightarrow> bool" where
  "whitespace c \<longleftrightarrow> c = CHR '' '' \<or> (9 \<le> (of_char c :: nat) \<and> (of_char c :: nat) \<le> 13)"

function split_whitespace :: "string \<Rightarrow> string list" where
  "split_whitespace s =
     (let s' = dropWhile whitespace s
      in if s' = [] then []
         else takeWhile (\<lambda>c. \<not> whitespace c) s' # split_whitespace (dropWhile (\<lambda>c. \<not> whitespace c) s'))"
  by pat_completeness auto
termination
proof (relation "measure length")
  fix s s' :: string
  assume s': "s' = dropWhile whitespace s" "s' \<noteq> []"
  have "\<not> whitespace (hd s')" using s' hd_dropWhile by blast
  then have "length (dropWhile (\<lambda>c. \<not> whitespace c) s') < length s'"
    using s'(2) by (cases s') (simp_all add: le_imp_less_Suc length_dropWhile_le)
  also have "\<dots> \<le> length s" using s'(1) by (simp add: length_dropWhile_le)
  finally show "(dropWhile (\<lambda>c. \<not> whitespace c) s', s) \<in> measure length" by simp
qed simp

declare split_whitespace.simps [simp del]

definition trim :: "string \<Rightarrow> string" where
  "trim s = rev (dropWhile whitespace (rev (dropWhile whitespace s)))"

text \<open>\<open>str::lines\<close>: a line feed ends a line, with the carriage return before it.\<close>

fun split_on :: "char \<Rightarrow> string \<Rightarrow> string list" where
  "split_on c [] = [[]]"
| "split_on c (d # ds) =
     (if d = c then [] # split_on c ds
      else (case split_on c ds of [] \<Rightarrow> [[d]] | l # ls \<Rightarrow> (d # l) # ls))"

definition text_lines :: "string \<Rightarrow> string list" where
  "text_lines s =
     (let ls = split_on (CHR 0x0A) s;
          strip = (\<lambda>l. if l \<noteq> [] \<and> last l = CHR 0x0D then butlast l else l)
      in map strip (butlast ls) @ (if last ls = [] then [] else [last ls]))"

section \<open>Kernel state\<close>

record mount_entry =
  me_major :: nat
  me_minor :: nat
  me_mount_point :: string
  me_fs_type :: string

text \<open>An entry of \<open>/sys/block/<disk>\<close>: its name, its \<open>dev\<close> file, the entries of its \<open>holders\<close>.\<close>

record sys_entry =
  se_name :: string
  se_dev :: "string option"
  se_holders :: nat

record host =
  ho_mountinfo :: "string option"
  ho_proc_mounts :: "string option"
  ho_rdev :: "string \<Rightarrow> (nat \<times> nat) option"     \<comment> \<open>device number behind a path\<close>
  ho_entries :: "sys_entry list"                 \<comment> \<open>empty when unreadable\<close>
  ho_holders :: nat
  ho_swaps :: "string option"
  ho_mdstat :: "string option"
  ho_zoned :: "string option"
  ho_write_zeroes :: "string option"
  ho_read_only :: bool
  ho_head :: "byte list option"                  \<comment> \<open>the contents of the device, when it opens\<close>

definition parse_maj_min :: "string \<Rightarrow> (nat \<times> nat) option" where
  "parse_maj_min s =
     (case split_once (CHR '':'') s of
        None \<Rightarrow> None
      | Some (a, b) \<Rightarrow>
          (case (parse_u32 a, parse_u32 b) of
             (Some maj, Some mnr) \<Rightarrow> Some (maj, mnr)
           | _ \<Rightarrow> None))"

definition mountinfo_entry :: "string \<Rightarrow> mount_entry option" where
  "mountinfo_entry line =
     (let fields = split_whitespace line
      in if length fields \<ge> 5
         then (case parse_maj_min (fields ! 2) of
                 None \<Rightarrow> None
               | Some (maj, mnr) \<Rightarrow> Some
                   \<lparr>me_major = maj, me_minor = mnr, me_mount_point = fields ! 4,
                    me_fs_type = (if length fields > 8 then fields ! 8 else ''unknown'')\<rparr>)
         else None)"

definition legacy_entry :: "host \<Rightarrow> string \<Rightarrow> mount_entry option" where
  "legacy_entry h line =
     (let fields = split_whitespace line
      in if length fields \<ge> 3
         then map_option (\<lambda>(maj, mnr).
                \<lparr>me_major = maj, me_minor = mnr, me_mount_point = fields ! 1, me_fs_type = fields ! 2\<rparr>)
                (ho_rdev h (fields ! 0))
         else None)"

definition get_mounts :: "host \<Rightarrow> mount_entry list" where
  "get_mounts h =
     (case ho_mountinfo h of
        Some content \<Rightarrow> List.map_filter mountinfo_entry (text_lines content)
      | None \<Rightarrow>
          (case ho_proc_mounts h of
             Some content \<Rightarrow> List.map_filter (legacy_entry h) (text_lines content)
           | None \<Rightarrow> []))"

definition child_entries :: "host \<Rightarrow> string \<Rightarrow> sys_entry list" where
  "child_entries h name = filter (\<lambda>e. starts_with (se_name e) name \<and> se_name e \<noteq> name) (ho_entries h)"

definition mounted_as :: "host \<Rightarrow> nat \<times> nat \<Rightarrow> mount_entry list" where
  "mounted_as h dev = filter (\<lambda>m. me_major m = fst dev \<and> me_minor m = snd dev) (get_mounts h)"

definition find_mounts_for_device :: "host \<Rightarrow> kernel_identity \<Rightarrow> string \<Rightarrow> mount_entry list" where
  "find_mounts_for_device h kid name =
     mounted_as h (ki_major kid, ki_minor kid) @
     concat (map (\<lambda>e. case Option.bind (se_dev e) (\<lambda>s. parse_maj_min (trim s)) of
                        None \<Rightarrow> []
                      | Some dev \<Rightarrow> mounted_as h dev) (child_entries h name))"

definition is_swap_active :: "host \<Rightarrow> string \<Rightarrow> bool" where
  "is_swap_active h name =
     (case ho_swaps h of
        None \<Rightarrow> False
      | Some content \<Rightarrow> list_ex (\<lambda>line. case split_whitespace line of [] \<Rightarrow> False | dev # _ \<Rightarrow> str_contains dev name)
          (drop 1 (text_lines content)))"

definition has_holders :: "host \<Rightarrow> string \<Rightarrow> bool" where
  "has_holders h name \<longleftrightarrow> ho_holders h > 0 \<or> list_ex (\<lambda>e. se_holders e > 0) (child_entries h name)"

definition is_md_member :: "host \<Rightarrow> string \<Rightarrow> bool" where
  "is_md_member h name = (case ho_mdstat h of None \<Rightarrow> False | Some content \<Rightarrow> str_contains content name)"

definition is_zoned :: "host \<Rightarrow> bool" where
  "is_zoned h = (case ho_zoned h of None \<Rightarrow> False | Some s \<Rightarrow> trim s \<noteq> ''none'' \<and> trim s \<noteq> [])"

text \<open>\<open>u64::from_str\<close> has no shorter path than its digits; a number beyond the range is no number.\<close>

fun parse_digits_below :: "nat \<Rightarrow> nat \<Rightarrow> string \<Rightarrow> nat option" where
  "parse_digits_below lim acc [] = Some acc"
| "parse_digits_below lim acc (c # cs) =
     (case digit_value c of
        None \<Rightarrow> None
      | Some d \<Rightarrow> if acc * 10 + d < lim then parse_digits_below lim (acc * 10 + d) cs else None)"

definition parse_u64 :: "string \<Rightarrow> nat option" where
  "parse_u64 s =
     (let t = (if s \<noteq> [] \<and> hd s = CHR ''+'' then tl s else s)
      in if t = [] then None else parse_digits_below (2 ^ 64) 0 t)"

definition can_write_zeroes :: "host \<Rightarrow> bool" where
  "can_write_zeroes h =
     (case ho_write_zeroes h of
        None \<Rightarrow> False
      | Some s \<Rightarrow> (case parse_u64 (trim s) of None \<Rightarrow> False | Some n \<Rightarrow> n > 0))"

definition lvm_label_at :: "byte list \<Rightarrow> nat \<Rightarrow> bool" where
  "lvm_label_at buf s \<longleftrightarrow>
     take 8 (drop (s * 512) buf) = ascii_bytes ''LABELONE'' \<and>
     take 8 (drop (s * 512 + 24) buf) = ascii_bytes ''LVM2 001''"

definition sniff_signatures :: "byte list option \<Rightarrow> string option" where
  "sniff_signatures contents =
     (case contents of
        None \<Rightarrow> None
      | Some bytes \<Rightarrow>
      if length bytes < 4096 then None
      else let buf = take 4096 bytes in
      if take 6 buf = ascii_bytes ''LUKS'' @ [0xba, 0xbe] \<or> take 7 buf = ascii_bytes ''LUKS2'' @ [0xba, 0xbe]
      then Some ''LUKS Encrypted Container''
      else if list_ex (lvm_label_at buf) [0..<4] then Some ''LVM2 Physical Volume''
      else if drop 4086 buf = ascii_bytes ''SWAPSPACE2'' \<or> drop 4086 buf = ascii_bytes ''SWAP-SPACE''
      then Some ''Linux Swap Signature''
      else if take 4 buf = [0xfc, 0x4e, 0x2b, 0xa9] then Some ''Linux Software RAID Superblock''
      else None)"

section \<open>Names\<close>

definition ascii_digit :: "char \<Rightarrow> bool" where
  "ascii_digit c \<longleftrightarrow> 48 \<le> (of_char c :: nat) \<and> (of_char c :: nat) \<le> 57"

definition ascii_alphabetic :: "char \<Rightarrow> bool" where
  "ascii_alphabetic c \<longleftrightarrow> (65 \<le> (of_char c :: nat) \<and> (of_char c :: nat) \<le> 90) \<or>
     (97 \<le> (of_char c :: nat) \<and> (of_char c :: nat) \<le> 122)"

text \<open>\<open>str::rfind\<close>, as the text before and after the last occurrence.\<close>

definition rsplit_once :: "char \<Rightarrow> string \<Rightarrow> (string \<times> string) option" where
  "rsplit_once c s = map_option (\<lambda>(a, b). (rev b, rev a)) (split_once c (rev s))"

definition is_partition_name :: "string \<Rightarrow> bool" where
  "is_partition_name name \<longleftrightarrow>
     (case rsplit_once (CHR ''p'') name of
        None \<Rightarrow> False
      | Some (before, after) \<Rightarrow>
          after \<noteq> [] \<and> list_all ascii_digit after \<and> before \<noteq> [] \<and> ascii_digit (last before)) \<or>
     (let letters = takeWhile ascii_alphabetic name;
          digits = drop (length letters) name
      in digits \<noteq> [] \<and> list_all ascii_digit digits \<and>
         (starts_with letters ''sd'' \<or> starts_with letters ''hd'' \<or> starts_with letters ''vd'' \<or>
          starts_with letters ''xvd''))"

section \<open>The rules\<close>

definition guardian_refuse :: "string \<Rightarrow> dc_error + 'a" where
  "guardian_refuse code = Inl (Guardian \<lparr>gr_code = code\<rparr>)"

definition system_mount :: "string \<Rightarrow> bool" where
  "system_mount m \<longleftrightarrow> m = ''/'' \<or> m = ''/boot'' \<or> m = ''/boot/efi'' \<or> m = ''/usr'' \<or> m = ''/var''"

text \<open>Rules 7 and 8: mounts, and the override for a system disk.\<close>

definition check_mounts ::
  "device_identity \<Rightarrow> guardian_flags \<Rightarrow> mount_entry list \<Rightarrow> dc_error + unit" where
  "check_mounts ident flags mounts =
     (if mounts = [] then Inr ()
      else if list_ex (\<lambda>m. system_mount (me_mount_point m)) mounts
      then (if \<not> gf_allow_system_disk flags then guardian_refuse ''SYSTEM_DISK''
            else let expected = (case si_serial (di_stable ident) of Some s \<Rightarrow> s | None \<Rightarrow> di_kernel_name ident)
                 in if gf_serial_confirm flags = Some expected then Inr ()
                    else guardian_refuse ''SERIAL_CONFIRM_FAILED'')
      else guardian_refuse ''MOUNTED'')"

text \<open>Rule 12: signatures found on the media.\<close>

definition check_signatures :: "guardian_flags \<Rightarrow> string option \<Rightarrow> dc_error + unit" where
  "check_signatures flags found =
     (case found of
        None \<Rightarrow> Inr ()
      | Some sig \<Rightarrow>
          (let advisory = (gf_allow_member flags \<or> gf_allow_inactive_signatures flags)
           in if str_contains sig ''LUKS''
              then (if gf_allow_inactive_signatures flags then Inr () else guardian_refuse ''CRYPTO_CONTAINER'')
              else if str_contains sig ''LVM2'' then (if advisory then Inr () else guardian_refuse ''LVM_PV'')
              else if str_contains sig ''SWAP'' then (if advisory then Inr () else guardian_refuse ''STALE_SWAP'')
              else if str_contains sig ''RAID'' then (if advisory then Inr () else guardian_refuse ''MD_MEMBER'')
              else if gf_allow_inactive_signatures flags then Inr ()
              else guardian_refuse ''INACTIVE_SIGNATURE_DETECTED''))"

definition evaluate :: "host \<Rightarrow> device_identity \<Rightarrow> guardian_flags \<Rightarrow> dc_error + unit" where
  "evaluate h ident flags =
     (let name = di_kernel_name ident in
      if si_size_bytes (di_stable ident) < 1024 * 1024 then guardian_refuse ''SIZE_ANOMALY''
      else if is_partition_name name then guardian_refuse ''NOT_WHOLE_DISK''
      else if starts_with name ''zram'' \<or> starts_with name ''ram'' then guardian_refuse ''RAM_BACKED''
      else if is_zoned h then guardian_refuse ''ZONED''
      else if ho_read_only h then guardian_refuse ''READ_ONLY''
      else if multipath_name name then guardian_refuse ''MULTIPATH_PATH''
      else and_then (check_mounts ident flags (find_mounts_for_device h (di_kernel ident) name)) (\<lambda>_.
      if is_swap_active h name then guardian_refuse ''SWAP_ACTIVE''
      else if has_holders h name then guardian_refuse ''HAS_HOLDERS''
      else if is_md_member h name then guardian_refuse ''MD_MEMBER''
      else and_then (check_signatures flags (sniff_signatures (ho_head h))) (\<lambda>_.
      if starts_with name ''loop'' \<and> \<not> gf_allow_loop flags then guardian_refuse ''LOOP''
      else Inr ())))"

section \<open>Arming\<close>

datatype open_outcome = Opened bool | NotFound | OpenFailed    \<comment> \<open>\<open>Opened\<close>: did the \<open>flock\<close> succeed\<close>

text \<open>
  What arming meets: the exclusive open of the disk, with its \<open>flock\<close>, or else a fresh probe of the
  device; its metadata, as the serial behind the opened device number when it is a block device;
  the entries of \<open>/sys/block/<disk>\<close> with the outcome of opening each.
\<close>

record lock_world =
  lw_disk :: open_outcome
  lw_probe :: "(device_identity \<times> host) option"
  lw_meta :: "dc_error + string option option"
  lw_parts :: "(string \<times> open_outcome) list"

definition default_flags :: guardian_flags where
  "default_flags = \<lparr>gf_allow_system_disk = False, gf_serial_confirm = None, gf_allow_loop = False,
     gf_allow_inactive_signatures = False, gf_allow_member = False\<rparr>"

definition check_drift :: "stable_identity \<Rightarrow> string option option \<Rightarrow> dc_error + unit" where
  "check_drift expected meta =
     (case meta of
        None \<Rightarrow> Inr ()
      | Some serial \<Rightarrow>
          if serial \<noteq> si_serial expected \<and> si_serial expected \<noteq> None
          then Inl (IdentityDrift expected \<lparr>si_model = None, si_serial = serial, si_wwn = None,
                 si_size_bytes = 0, si_bus = si_bus expected, si_dm_name = None, si_dm_uuid = None\<rparr>)
          else Inr ())"

fun lock_partitions :: "string \<Rightarrow> (string \<times> open_outcome) list \<Rightarrow> string list \<Rightarrow> dc_error + string list" where
  "lock_partitions name [] held = Inr held"
| "lock_partitions name ((part, out) # ps) held =
     (if starts_with part name \<and> part \<noteq> name
      then (case out of
              Opened locked \<Rightarrow>
                if locked then lock_partitions name ps (held @ [part]) else guardian_refuse ''IN_USE_RACE''
            | NotFound \<Rightarrow> lock_partitions name ps held
            | OpenFailed \<Rightarrow> guardian_refuse ''IN_USE_RACE'')
      else lock_partitions name ps held)"

text \<open>The result is the partitions held beside the disk.\<close>

definition arm_and_lock :: "lock_world \<Rightarrow> string \<Rightarrow> stable_identity \<Rightarrow> dc_error + string list" where
  "arm_and_lock lw name expected =
     (case lw_disk lw of
        Opened flocked \<Rightarrow>
          and_then (lw_meta lw) (\<lambda>meta.
          and_then (check_drift expected meta) (\<lambda>_.
          if \<not> flocked then guardian_refuse ''BUSY''
          else lock_partitions name (lw_parts lw) []))
      | _ \<Rightarrow>
          and_then (case lw_probe lw of None \<Rightarrow> Inr () | Some (ident, h) \<Rightarrow> evaluate h ident default_flags) (\<lambda>_.
          guardian_refuse ''IN_USE_RACE''))"

section \<open>What the rules guarantee\<close>

lemma split_once_eq_Some: "split_once c s = Some (a, b) \<longleftrightarrow> s = a @ c # b \<and> c \<notin> set a"
proof (induction s arbitrary: a)
  case (Cons d ds)
  show ?case
    by (cases a) (use Cons in \<open>auto split: if_splits\<close>)
qed simp

lemma split_once_eq_None: "split_once c s = None \<longleftrightarrow> c \<notin> set s"
  by (induction s) auto

lemma rsplit_once_eq_Some: "rsplit_once c s = Some (a, b) \<longleftrightarrow> s = a @ c # b \<and> c \<notin> set b"
proof -
  have "rsplit_once c s = Some (a, b) \<longleftrightarrow> split_once c (rev s) = Some (rev b, rev a)"
    by (auto simp: rsplit_once_def)
  also have "\<dots> \<longleftrightarrow> s = a @ c # b \<and> c \<notin> set b"
    by (auto simp: split_once_eq_Some rev_swap)
  finally show ?thesis .
qed

lemma guardian_refuse_not_Inr [simp]: "guardian_refuse code \<noteq> Inr r" "Inr r \<noteq> guardian_refuse code"
  by (simp_all add: guardian_refuse_def)

lemma check_mounts_ok:
  "check_mounts ident flags mounts = Inr () \<longleftrightarrow>
   mounts = [] \<or> (\<exists>m \<in> set mounts. system_mount (me_mount_point m)) \<and> gf_allow_system_disk flags \<and>
     gf_serial_confirm flags = Some (case si_serial (di_stable ident) of Some s \<Rightarrow> s | None \<Rightarrow> di_kernel_name ident)"
  by (auto simp: check_mounts_def list_ex_iff Let_def split: if_splits)

lemma check_signatures_ok:
  assumes "check_signatures flags found = Inr ()" and "found = Some sig"
  shows "gf_allow_inactive_signatures flags \<or>
    gf_allow_member flags \<and> \<not> str_contains sig ''LUKS'' \<and> (str_contains sig ''LVM2'' \<or> str_contains sig ''SWAP'' \<or> str_contains sig ''RAID'')"
  using assms by (auto simp: check_signatures_def Let_def split: if_splits)

text \<open>The device numbers of a disk and of the entries below it.\<close>

definition device_numbers :: "host \<Rightarrow> device_identity \<Rightarrow> (nat \<times> nat) set" where
  "device_numbers h ident = set ((ki_major (di_kernel ident), ki_minor (di_kernel ident)) #
     List.map_filter (\<lambda>e. Option.bind (se_dev e) (\<lambda>s. parse_maj_min (trim s)))
       (child_entries h (di_kernel_name ident)))"

lemma mounted_as_set: "set (mounted_as h dev) = {m \<in> set (get_mounts h). (me_major m, me_minor m) = dev}"
  by (cases dev) (auto simp: mounted_as_def)

lemma in_set_map_filter: "b \<in> set (List.map_filter f xs) \<longleftrightarrow> (\<exists>x \<in> set xs. f x = Some b)"
  by (force simp: List.map_filter_def)

lemma find_mounts_set:
  "set (find_mounts_for_device h (di_kernel ident) (di_kernel_name ident)) =
   {m \<in> set (get_mounts h). (me_major m, me_minor m) \<in> device_numbers h ident}"
  by (auto simp: find_mounts_for_device_def device_numbers_def mounted_as_set in_set_map_filter split: option.splits)

lemma find_mounts_empty:
  "find_mounts_for_device h (di_kernel ident) (di_kernel_name ident) = [] \<longleftrightarrow>
   (\<forall>m \<in> set (get_mounts h). (me_major m, me_minor m) \<notin> device_numbers h ident)"
  using find_mounts_set [of h ident] by (metis (mono_tags, lifting) empty_iff empty_set mem_Collect_eq set_empty subsetI subset_empty)

lemma lock_partitions_ok:
  assumes "lock_partitions name ps held = Inr held'"
  shows "set held' = set held \<union> {p. (p, Opened True) \<in> set ps \<and> starts_with p name \<and> p \<noteq> name}"
    and "(p, out) \<in> set ps \<Longrightarrow> starts_with p name \<Longrightarrow> p \<noteq> name \<Longrightarrow> out = Opened True \<or> out = NotFound"
  using assms
  by (induction name ps held rule: lock_partitions.induct) (auto split: if_splits open_outcome.splits)

text \<open>The signature the sniffer reports for a swap area is spelled so that the swap branch misses it.\<close>

lemma swap_signature_misses_its_rule:
  assumes "\<not> gf_allow_inactive_signatures flags"
  shows "check_signatures flags (Some ''Linux Swap Signature'') = guardian_refuse ''INACTIVE_SIGNATURE_DETECTED''"
  using assms by (simp add: check_signatures_def starts_with_def)

section \<open>Properties\<close>

text \<open>A name is refused as a partition exactly when it ends in \<open>p\<close> and a number after a base that ends in
  a digit (\<open>nvme0n1p2\<close>, \<open>loop0p1\<close>), or is a classic letter-only disk name with a number (\<open>sda1\<close>): the
  \<open>p\<close> of \<open>loop0\<close> does not make it one.\<close>

theorem partition_name_exact:
  "is_partition_name name \<longleftrightarrow>
    (\<exists>b d. name = b @ ''p'' @ d \<and> b \<noteq> [] \<and> ascii_digit (last b) \<and> d \<noteq> [] \<and> list_all ascii_digit d) \<or>
    (\<exists>l d. name = l @ d \<and> list_all ascii_alphabetic l \<and> d \<noteq> [] \<and> list_all ascii_digit d \<and>
      (\<exists>p \<in> {''sd'', ''hd'', ''vd'', ''xvd''}. starts_with l p))"
proof -
  have p: "CHR ''p'' \<notin> set d" if "list_all ascii_digit d" for d
    using that by (auto simp: list_all_iff ascii_digit_def)
  have a: "\<not> ascii_alphabetic c" if "ascii_digit c" for c
    using that by (auto simp: ascii_digit_def ascii_alphabetic_def)
  have 1: "(case rsplit_once (CHR ''p'') name of None \<Rightarrow> False
      | Some (b, d) \<Rightarrow> d \<noteq> [] \<and> list_all ascii_digit d \<and> b \<noteq> [] \<and> ascii_digit (last b)) \<longleftrightarrow>
    (\<exists>b d. name = b @ ''p'' @ d \<and> b \<noteq> [] \<and> ascii_digit (last b) \<and> d \<noteq> [] \<and> list_all ascii_digit d)"
    (is "?L \<longleftrightarrow> ?R")
  proof
    assume ?L then show ?R by (fastforce simp: rsplit_once_eq_Some split: option.splits)
  next
    assume ?R
    then obtain b d where bd: "name = b @ ''p'' @ d" "b \<noteq> []" "ascii_digit (last b)" "d \<noteq> []" "list_all ascii_digit d"
      by blast
    then have "rsplit_once (CHR ''p'') name = Some (b, d)" using p by (simp add: rsplit_once_eq_Some)
    then show ?L using bd by simp
  qed
  have 2: "takeWhile ascii_alphabetic (l @ d) = l" if "list_all ascii_alphabetic l" "d \<noteq> []" "list_all ascii_digit d" for l d
  proof -
    have "takeWhile ascii_alphabetic d = []" using that(2,3) a by (cases d) auto
    then show ?thesis using that(1) by (simp add: list_all_iff)
  qed
  have 3: "name = takeWhile ascii_alphabetic name @ drop (length (takeWhile ascii_alphabetic name)) name"
    by (metis dropWhile_eq_drop takeWhile_dropWhile_id)
  have 4: "list_all ascii_alphabetic (takeWhile ascii_alphabetic name)"
    by (auto simp: list_all_iff dest: set_takeWhileD)
  have 5: "(let letters = takeWhile ascii_alphabetic name; digits = drop (length letters) name
      in digits \<noteq> [] \<and> list_all ascii_digit digits \<and>
         (starts_with letters ''sd'' \<or> starts_with letters ''hd'' \<or> starts_with letters ''vd'' \<or>
          starts_with letters ''xvd'')) \<longleftrightarrow>
    (\<exists>l d. name = l @ d \<and> list_all ascii_alphabetic l \<and> d \<noteq> [] \<and> list_all ascii_digit d \<and>
      (\<exists>p \<in> {''sd'', ''hd'', ''vd'', ''xvd''}. starts_with l p))" (is "?L \<longleftrightarrow> ?R")
  proof
    assume ?L
    with 3 4 show ?R unfolding Let_def by blast
  next
    assume ?R
    then obtain l d where ld: "name = l @ d" "list_all ascii_alphabetic l" "d \<noteq> []" "list_all ascii_digit d"
      "\<exists>p \<in> {''sd'', ''hd'', ''vd'', ''xvd''}. starts_with l p" by blast
    show ?L using ld 2 [OF ld(2-4)] by (simp add: Let_def)
  qed
  show ?thesis unfolding is_partition_name_def 1 5 ..
qed

text \<open>C13: What the guardian lets through is a whole, writable, unzoned disk that nobody uses: no swap, no
  holder of it or of an entry below it, no array that lists it, no mount of any of its device numbers
  except on a system disk whose serial the operator has typed, and no dormant signature without the
  flag that waives it (a LUKS header only with the stronger one).\<close>

theorem guardian_accepts_idle_only:
  assumes "evaluate h ident flags = Inr ()"
  shows "1024 * 1024 \<le> si_size_bytes (di_stable ident) \<and> \<not> is_partition_name (di_kernel_name ident) \<and>
    \<not> is_zoned h \<and> \<not> ho_read_only h \<and> \<not> is_swap_active h (di_kernel_name ident) \<and>
    \<not> is_md_member h (di_kernel_name ident) \<and>
    ho_holders h = 0 \<and> (\<forall>e \<in> set (child_entries h (di_kernel_name ident)). se_holders e = 0) \<and>
    (\<forall>m \<in> set (get_mounts h). (me_major m, me_minor m) \<in> device_numbers h ident \<longrightarrow>
       gf_allow_system_disk flags \<and>
       gf_serial_confirm flags = Some (case si_serial (di_stable ident) of Some s \<Rightarrow> s | None \<Rightarrow> di_kernel_name ident)) \<and>
    (\<forall>sig. sniff_signatures (ho_head h) = Some sig \<longrightarrow>
       gf_allow_inactive_signatures flags \<or> gf_allow_member flags \<and> \<not> str_contains sig ''LUKS'')"
proof -
  let ?name = "di_kernel_name ident"
  let ?mounts = "find_mounts_for_device h (di_kernel ident) ?name"
  have c: "1024 * 1024 \<le> si_size_bytes (di_stable ident)" "\<not> is_partition_name ?name" "\<not> is_zoned h"
    "\<not> ho_read_only h" "check_mounts ident flags ?mounts = Inr ()" "\<not> is_swap_active h ?name"
    "\<not> has_holders h ?name" "\<not> is_md_member h ?name" "check_signatures flags (sniff_signatures (ho_head h)) = Inr ()"
    using assms by (simp_all add: evaluate_def Let_def res split: if_splits)
  show ?thesis
    using c check_signatures_ok [OF c(9)] c(5) [unfolded check_mounts_ok find_mounts_empty]
    by (auto simp: has_holders_def list_ex_iff)
qed

text \<open>C14: Arming is fail-closed. It succeeds only with the disk opened exclusively and locked and with
  every partition that still exists opened exclusively and locked too, all of them in the handle, and
  on a device whose serial is the expected one whenever a serial is expected.\<close>

theorem arm_holds_everything:
  assumes "arm_and_lock lw name expected = Inr held"
  shows "lw_disk lw = Opened True \<and>
    (\<forall>(part, out) \<in> set (lw_parts lw). starts_with part name \<and> part \<noteq> name \<longrightarrow> out = Opened True \<and> part \<in> set held \<or> out = NotFound) \<and>
    (\<forall>serial. lw_meta lw = Inr (Some serial) \<and> si_serial expected \<noteq> None \<longrightarrow> serial = si_serial expected)"
proof -
  obtain meta where c: "lw_disk lw = Opened True" "lw_meta lw = Inr meta" "check_drift expected meta = Inr ()"
    "lock_partitions name (lw_parts lw) [] = Inr held"
    using assms by (auto simp: arm_and_lock_def res split: open_outcome.splits if_splits)
  have "serial = si_serial expected" if "lw_meta lw = Inr (Some serial)" "si_serial expected \<noteq> None" for serial
    using that c(2,3) by (auto simp: check_drift_def split: if_splits)
  then show ?thesis
    using c(1) lock_partitions_ok [OF c(4)] by fastforce
qed

section \<open>Witnesses\<close>

text \<open>The disk of the running system, whose second partition is mounted as the root.\<close>

definition demo_disk :: device_identity where
  "demo_disk = \<lparr>di_stable = \<lparr>si_model = None, si_serial = Some ''S1'', si_wwn = None, si_size_bytes = 2 ^ 30,
       si_bus = Sata, si_dm_name = None, si_dm_uuid = None\<rparr>,
     di_kernel = \<lparr>ki_major = 8, ki_minor = 0\<rparr>, di_kernel_name = ''sda'', di_dev_path = ''/dev/sda'',
     di_logical_block_size = 512, di_physical_block_size = 512\<rparr>"

definition demo_host :: host where
  "demo_host = \<lparr>ho_mountinfo = Some ''25 1 8:2 / / rw - - ext4'', ho_proc_mounts = None, ho_rdev = Map.empty,
     ho_entries = [\<lparr>se_name = ''sda2'', se_dev = Some ''8:2'', se_holders = 0\<rparr>], ho_holders = 0,
     ho_swaps = None, ho_mdstat = None, ho_zoned = Some ''none'', ho_write_zeroes = None, ho_read_only = False,
     ho_head = None\<rparr>"

definition confirmed_flags :: guardian_flags where
  "confirmed_flags = default_flags\<lparr>gf_allow_system_disk := True, gf_serial_confirm := Some ''S1''\<rparr>"

lemmas text_simps = text_lines_def split_whitespace.simps whitespace_def trim_def parse_maj_min_def parse_u32_def
  digit_value_def Let_def

lemma demo_disk_mounts:
  "get_mounts demo_host = [\<lparr>me_major = 8, me_minor = 2, me_mount_point = ''/'', me_fs_type = ''ext4''\<rparr>]"
  by (simp add: get_mounts_def demo_host_def mountinfo_entry_def text_simps List.map_filter_simps)

lemma demo_disk_numbers: "device_numbers demo_host demo_disk = {(8, 0), (8, 2)}"
  by (simp add: device_numbers_def child_entries_def demo_host_def demo_disk_def starts_with_def text_simps
      List.map_filter_simps) (simp add: numeral_2_eq_2)

lemma demo_disk_name:
  "\<not> is_partition_name ''sda''" "\<not> multipath_name ''sda''"
  "\<not> starts_with ''sda'' ''zram''" "\<not> starts_with ''sda'' ''ram''" "\<not> starts_with ''sda'' ''loop''"
  "\<not> is_zoned demo_host" "\<not> is_swap_active demo_host ''sda''" "\<not> has_holders demo_host ''sda''"
  "\<not> is_md_member demo_host ''sda''" "\<not> ho_read_only demo_host" "ho_head demo_host = None"
  by code_simp+

theorem guardian_accepts_idle_only_witness:
  "evaluate demo_host demo_disk confirmed_flags = Inr () \<and>
   gf_serial_confirm confirmed_flags = Some ''S1'' \<and> (\<exists>m \<in> set (get_mounts demo_host). me_mount_point m = ''/'')"
proof -
  have found: "\<exists>m \<in> set (find_mounts_for_device demo_host (di_kernel demo_disk) (di_kernel_name demo_disk)).
      system_mount (me_mount_point m)"
    by (simp add: find_mounts_set demo_disk_mounts demo_disk_numbers system_mount_def)
  have mounts: "check_mounts demo_disk confirmed_flags
      (find_mounts_for_device demo_host (di_kernel demo_disk) (di_kernel_name demo_disk)) = Inr ()"
    using found by (simp add: check_mounts_ok confirmed_flags_def) (simp add: demo_disk_def)
  have name: "di_kernel_name demo_disk = ''sda''" "si_size_bytes (di_stable demo_disk) = 2 ^ 30"
    by (simp_all add: demo_disk_def)
  have ok: "evaluate demo_host demo_disk confirmed_flags = Inr ()"
    using demo_disk_name mounts name
    by (simp add: evaluate_def sniff_signatures_def check_signatures_def)
  then show ?thesis
    using guardian_accepts_idle_only [OF ok] by (simp add: demo_disk_mounts demo_disk_numbers) (simp add: demo_disk_def)
qed

theorem arm_holds_everything_witness:
  "let lw = \<lparr>lw_disk = Opened True, lw_probe = None, lw_meta = Inr (Some (Some ''S1'')),
      lw_parts = [(''holders'', OpenFailed), (''sda1'', Opened True), (''sda2'', NotFound)]\<rparr>
   in arm_and_lock lw ''sda'' (di_stable demo_disk) = Inr [''sda1''] \<and> ''sda1'' \<in> set [''sda1''] \<and>
      lw_disk lw = Opened True"
proof -
  let ?lw = "\<lparr>lw_disk = Opened True, lw_probe = None, lw_meta = Inr (Some (Some ''S1'')),
      lw_parts = [(''holders'', OpenFailed), (''sda1'', Opened True), (''sda2'', NotFound)]\<rparr>"
  have ok: "arm_and_lock ?lw ''sda'' (di_stable demo_disk) = Inr [''sda1'']"
    by (simp add: arm_and_lock_def check_drift_def demo_disk_def starts_with_def)
  then show ?thesis
    using arm_holds_everything [OF ok] by (simp add: Let_def)
qed

end
