(* ===== verification/Ata_Codec.thy ===== *)
theory Ata_Codec
  imports DC_Prelude
begin

text \<open>
  The ATA codec (\<open>crates/dc-hw/src/ata_codec.rs\<close>): SAT ATA PASS-THROUGH (16) command blocks and the
  decoders of the pages a drive answers with. A \<open>[u8; 16]\<close> is a list of bytes, a \<open>String\<close> the list
  of its UTF-8 bytes. Registers keep their width: 16-bit features and counts, 64-bit addresses.
\<close>

type_synonym u16 = "16 word"

section \<open>Data\<close>

record ata_security_status =
  as_supported :: bool
  as_enabled :: bool
  as_locked :: bool
  as_frozen :: bool
  as_enhanced_erase_supported :: bool
  as_erase_time_minutes :: "u16 option"
  as_enhanced_erase_time_minutes :: "u16 option"

record ata_sanitize_support =
  ss_supported :: bool
  ss_crypto_scramble_supported :: bool
  ss_block_erase_supported :: bool
  ss_overwrite_supported :: bool

record ata_identify_data =
  id_model :: "byte list"
  id_serial :: "byte list"
  id_firmware :: "byte list"
  id_lba48_sectors :: u64
  id_security :: ata_security_status
  id_sanitize :: ata_sanitize_support

datatype sat_transfer_class = NonData | DataIn | DataOut

datatype ata_sanitize_feature = BlockErase | CryptoScramble | Overwrite

record ata_sanitize_status =
  sst_progress_permille :: nat
  sst_is_in_progress :: bool
  sst_is_completed :: bool
  sst_is_failed :: bool
  sst_raw_sstat :: u16
  sst_raw_sprog :: u16

record ata_statistics_entry =
  te_code :: u16
  te_data_valid :: bool
  te_value :: u64

record ata_statistics_page =
  sp_page_number :: u16
  sp_entries :: "ata_statistics_entry list"

text \<open>The failures of the decoders, one for each message.\<close>

datatype codec_error =
  ShortBuffer | SenseTooShort | NotDescriptorSense byte | NoReturnDescriptor

section \<open>Encoding\<close>

fun sat_protocol :: "sat_transfer_class \<Rightarrow> byte" where
  "sat_protocol NonData = 3"
| "sat_protocol DataIn = 4"
| "sat_protocol DataOut = 5"

fun framing :: "sat_transfer_class \<Rightarrow> byte" where
  "framing NonData = 0x00"
| "framing DataIn = 0x2E"
| "framing DataOut = 0x06"

definition encode_sat_passthrough_16_framed ::
  "byte \<Rightarrow> u16 \<Rightarrow> u64 \<Rightarrow> u16 \<Rightarrow> sat_transfer_class \<Rightarrow> byte list" where
  "encode_sat_passthrough_16_framed command features lba count xfer =
     [0x85,
      push_bit 1 (sat_protocol xfer) OR 0x01,
      framing xfer,
      ucast (drop_bit 8 features), ucast features,
      ucast (drop_bit 8 count), ucast count,
      ucast (drop_bit 24 lba), ucast lba,
      ucast (drop_bit 32 lba), ucast (drop_bit 8 lba),
      ucast (drop_bit 40 lba), ucast (drop_bit 16 lba),
      0x40, command, 0x00]"

definition encode_sat_passthrough_16 :: "byte \<Rightarrow> u16 \<Rightarrow> u64 \<Rightarrow> u16 \<Rightarrow> byte \<Rightarrow> byte list" where
  "encode_sat_passthrough_16 command features lba count protocol =
     encode_sat_passthrough_16_framed command features lba count DataIn"

definition encode_sat_security_erase_prepare :: "byte list" where
  "encode_sat_security_erase_prepare = encode_sat_passthrough_16_framed 0xF3 0 0 1 NonData"

definition encode_sat_security_erase_unit :: "bool \<Rightarrow> byte list" where
  "encode_sat_security_erase_unit enhanced =
     encode_sat_passthrough_16_framed 0xF4 (if enhanced then 2 else 0) 0 1 NonData"

definition encode_sat_security_freeze_lock :: "byte list" where
  "encode_sat_security_freeze_lock = encode_sat_passthrough_16_framed 0xF5 0 0 1 NonData"

definition encode_sat_identify_device :: "byte list" where
  "encode_sat_identify_device = encode_sat_passthrough_16_framed 0xEC 0 0 0 DataIn"

text \<open>The password is a \<open>[u8; 32]\<close>.\<close>

definition security_password_payload :: "bool \<Rightarrow> byte list \<Rightarrow> byte list" where
  "security_password_payload master password =
     (if master then 0x80 else 0) # 0 # password @ replicate (512 - 34) 0"

definition encode_sat_security_set_password :: "bool \<Rightarrow> byte list \<Rightarrow> byte list \<times> byte list" where
  "encode_sat_security_set_password master password =
     (encode_sat_passthrough_16_framed 0xF1 0 0 1 DataOut, security_password_payload master password)"

definition encode_sat_security_erase_unit_auth :: "bool \<Rightarrow> bool \<Rightarrow> byte list \<Rightarrow> byte list \<times> byte list" where
  "encode_sat_security_erase_unit_auth master enhanced password =
     (let features = of_bool master OR push_bit 1 (of_bool enhanced)
      in (encode_sat_passthrough_16_framed 0xF4 features 0 1 DataOut, security_password_payload master password))"

definition encode_sat_security_disable_password :: "bool \<Rightarrow> byte list \<Rightarrow> byte list \<times> byte list" where
  "encode_sat_security_disable_password master password =
     (encode_sat_passthrough_16_framed 0xF6 0 0 1 DataOut, security_password_payload master password)"

definition encode_sat_security_unlock :: "bool \<Rightarrow> byte list \<Rightarrow> byte list \<times> byte list" where
  "encode_sat_security_unlock master password =
     (encode_sat_passthrough_16_framed 0xF2 0 0 1 DataOut, security_password_payload master password)"

fun sanitize_feature :: "ata_sanitize_feature \<Rightarrow> u16" where
  "sanitize_feature BlockErase = 0x10"
| "sanitize_feature CryptoScramble = 0x20"
| "sanitize_feature Overwrite = 0x40"

definition encode_sat_sanitize_device :: "ata_sanitize_feature \<Rightarrow> byte list" where
  "encode_sat_sanitize_device feature =
     encode_sat_passthrough_16_framed 0xB4 (sanitize_feature feature) 0 1 NonData"

definition encode_sat_smart_read_data :: "byte list" where
  "encode_sat_smart_read_data = encode_sat_passthrough_16_framed 0xB0 0xD0 0xC24F 1 DataIn"

definition encode_sat_read_log_ext :: "byte \<Rightarrow> u16 \<Rightarrow> u16 \<Rightarrow> byte list" where
  "encode_sat_read_log_ext log_address page sector_count =
     (let lba = ucast log_address OR push_bit 8 (ucast page)
      in encode_sat_passthrough_16_framed 0x2F 0 lba sector_count DataIn)"

definition encode_sat_smart_read_log :: "byte \<Rightarrow> byte list" where
  "encode_sat_smart_read_log log_address =
     encode_sat_passthrough_16_framed 0xB0 0xD5 (0xC200 OR ucast log_address) 1 DataIn"

definition encode_sat_device_config_identify :: "byte list" where
  "encode_sat_device_config_identify = encode_sat_passthrough_16_framed 0xB1 0xC2 0 1 DataIn"

definition encode_sat_device_config_restore :: "byte list" where
  "encode_sat_device_config_restore = encode_sat_passthrough_16_framed 0xB1 0xC0 0 1 NonData"

definition encode_sat_read_native_max_ext :: "byte list" where
  "encode_sat_read_native_max_ext =
     (let cdb = encode_sat_passthrough_16_framed 0x27 0 0 1 NonData in cdb[2 := cdb ! 2 OR 0x20])"

definition encode_sat_set_max_ext :: "u64 \<Rightarrow> byte list" where
  "encode_sat_set_max_ext native_max_lba = encode_sat_passthrough_16_framed 0x37 0 native_max_lba 1 NonData"

section \<open>Text\<close>

text \<open>
  \<open>String::from_utf8_lossy\<close>: how many bytes the next character takes, or how many the next
  malformed sequence takes, which becomes U+FFFD. A byte past the end reads as 0.
\<close>

definition byte_at :: "byte list \<Rightarrow> nat \<Rightarrow> byte" where
  "byte_at bs i = (if i < length bs then bs ! i else 0)"

definition continuation :: "byte \<Rightarrow> bool" where
  "continuation b \<longleftrightarrow> b AND 0xC0 = 0x80"

definition second_ok :: "byte \<Rightarrow> byte \<Rightarrow> bool" where
  "second_ok b c \<longleftrightarrow>
     (if b = 0xE0 then 0xA0 \<le> c \<and> c \<le> 0xBF
      else if b = 0xED then 0x80 \<le> c \<and> c \<le> 0x9F
      else if b = 0xF0 then 0x90 \<le> c \<and> c \<le> 0xBF
      else if b = 0xF4 then 0x80 \<le> c \<and> c \<le> 0x8F
      else 0x80 \<le> c \<and> c \<le> 0xBF)"

definition utf8_step :: "byte list \<Rightarrow> nat + nat" where
  "utf8_step bs =
     (let b = byte_at bs 0 in
      if b < 0x80 then Inr 1
      else if 0xC2 \<le> b \<and> b \<le> 0xDF then (if continuation (byte_at bs 1) then Inr 2 else Inl 1)
      else if 0xE0 \<le> b \<and> b \<le> 0xEF
      then (if \<not> second_ok b (byte_at bs 1) then Inl 1
            else if continuation (byte_at bs 2) then Inr 3 else Inl 2)
      else if 0xF0 \<le> b \<and> b \<le> 0xF4
      then (if \<not> second_ok b (byte_at bs 1) then Inl 1
            else if \<not> continuation (byte_at bs 2) then Inl 2
            else if continuation (byte_at bs 3) then Inr 4 else Inl 3)
      else Inl 1)"

function from_utf8_lossy :: "byte list \<Rightarrow> byte list" where
  "from_utf8_lossy bs =
     (if bs = [] then []
      else case utf8_step bs of
             Inr n \<Rightarrow> take n bs @ from_utf8_lossy (drop n bs)
           | Inl n \<Rightarrow> [0xEF, 0xBF, 0xBD] @ from_utf8_lossy (drop n bs))"
  by pat_completeness auto
termination
  by (relation "measure length") (auto simp: utf8_step_def Let_def split: if_splits)

declare from_utf8_lossy.simps [simp del]

fun swap_pairs :: "byte list \<Rightarrow> byte list" where
  "swap_pairs (a # b # bs) = b # a # swap_pairs bs"
| "swap_pairs _ = []"

definition ata_padding :: "byte \<Rightarrow> bool" where
  "ata_padding b \<longleftrightarrow> b = 0 \<or> b = 0x20"

definition decode_ata_string :: "byte list \<Rightarrow> byte list" where
  "decode_ata_string bytes =
     rev (dropWhile ata_padding (rev (dropWhile ata_padding (from_utf8_lossy (swap_pairs bytes)))))"

section \<open>Decoding\<close>

definition u16_at :: "byte list \<Rightarrow> nat \<Rightarrow> u16" where
  "u16_at raw off = of_le_bytes [raw ! off, raw ! (off + 1)]"

text \<open>Four consecutive little-endian words: words 100 to 103 at offset 200.\<close>

definition capacity_at :: "byte list \<Rightarrow> nat \<Rightarrow> u64" where
  "capacity_at raw off = ucast (u16_at raw off) OR push_bit 16 (ucast (u16_at raw (off + 2))) OR
     push_bit 32 (ucast (u16_at raw (off + 4))) OR push_bit 48 (ucast (u16_at raw (off + 6)))"

definition decode_security :: "u16 \<Rightarrow> u16 \<Rightarrow> u16 \<Rightarrow> ata_security_status" where
  "decode_security w128 w89 w90 =
     \<lparr>as_supported = w128 AND 0x0001 \<noteq> 0, as_enabled = w128 AND 0x0002 \<noteq> 0,
      as_locked = w128 AND 0x0004 \<noteq> 0, as_frozen = w128 AND 0x0008 \<noteq> 0,
      as_enhanced_erase_supported = w128 AND 0x0020 \<noteq> 0,
      as_erase_time_minutes = (if w89 > 0 then Some w89 else None),
      as_enhanced_erase_time_minutes = (if w90 > 0 then Some w90 else None)\<rparr>"

definition decode_sanitize :: "u16 \<Rightarrow> u16 \<Rightarrow> ata_sanitize_support" where
  "decode_sanitize w169 w206 =
     (let valid = (drop_bit 12 w206 AND 0x7 \<noteq> 0)
      in \<lparr>ss_supported = (valid \<and> w169 AND 0x0001 \<noteq> 0),
          ss_crypto_scramble_supported = (valid \<and> w169 AND 0x0002 \<noteq> 0),
          ss_block_erase_supported = (valid \<and> w169 AND 0x0004 \<noteq> 0),
          ss_overwrite_supported = (valid \<and> w169 AND 0x0008 \<noteq> 0)\<rparr>)"

definition decode_identify_device :: "byte list \<Rightarrow> codec_error + ata_identify_data" where
  "decode_identify_device raw =
     (if length raw < 512 then Inl ShortBuffer
      else Inr
        \<lparr>id_model = decode_ata_string (take 40 (drop 54 raw)),
         id_serial = decode_ata_string (take 20 (drop 20 raw)),
         id_firmware = decode_ata_string (take 8 (drop 46 raw)),
         id_lba48_sectors = capacity_at raw 200,
         id_security = decode_security (u16_at raw 256) (u16_at raw 178) (u16_at raw 180),
         id_sanitize = decode_sanitize (u16_at raw 338) (u16_at raw 412)\<rparr>)"

definition decode_device_config_overlay :: "byte list \<Rightarrow> codec_error + u64" where
  "decode_device_config_overlay raw =
     (if length raw < 208 then Inl ShortBuffer else Inr (capacity_at raw 200))"

definition descriptor_lba :: "byte list \<Rightarrow> u64" where
  "descriptor_lba d = push_bit 40 (ucast (d ! 4)) OR push_bit 24 (ucast (d ! 5)) OR
     push_bit 32 (ucast (d ! 6)) OR push_bit 16 (ucast (d ! 7)) OR push_bit 8 (ucast (d ! 8)) OR ucast (d ! 9)"

function descriptor_walk :: "byte list \<Rightarrow> nat \<Rightarrow> codec_error + u64" where
  "descriptor_walk sense off =
     (if off + 2 \<le> length sense
      then (let desc_type = sense ! off; desc_len = unat (sense ! (off + 1)) in
            if desc_type = 0x09 \<and> desc_len \<ge> 12 \<and> off + 2 + 12 \<le> length sense
            then Inr (descriptor_lba (take 12 (drop (off + 2) sense)))
            else descriptor_walk sense (off + 2 + desc_len))
      else Inl NoReturnDescriptor)"
  by pat_completeness auto
termination
  by (relation "measure (\<lambda>(sense, off). length sense - off)") auto

declare descriptor_walk.simps [simp del]

definition decode_ata_return_descriptor_lba :: "byte list \<Rightarrow> codec_error + u64" where
  "decode_ata_return_descriptor_lba sense =
     (if length sense < 10 then Inl SenseTooShort
      else (let response_code = (sense ! 0) AND 0x7F in
            if response_code \<noteq> 0x72 \<and> response_code \<noteq> 0x73 then Inl (NotDescriptorSense response_code)
            else descriptor_walk sense 8))"

text \<open>The SMART attribute table: 30 entries of 12 bytes from byte 2, ended by an id of 0.\<close>

fun smart_scan :: "byte list \<Rightarrow> nat list \<Rightarrow> u64" where
  "smart_scan raw [] = 0"
| "smart_scan raw (entry # es) =
     (let base = 2 + entry * 12; attr = raw ! base in
      if base + 12 > 512 then 0
      else if attr = 0 then 0
      else if attr = 5 then of_le_bytes (take 6 (drop (base + 5) raw))
      else smart_scan raw es)"

definition decode_smart_reallocated_sectors :: "byte list \<Rightarrow> codec_error + u64" where
  "decode_smart_reallocated_sectors raw =
     (if length raw < 512 then Inl ShortBuffer else Inr (smart_scan raw [0..<30]))"

definition decode_log :: "byte list \<Rightarrow> codec_error + ata_sanitize_status" where
  "decode_log raw =
     (if length raw < 12 then Inl ShortBuffer
      else (let raw_sprog = u16_at raw 4; raw_sstat = u16_at raw 10
            in Inr \<lparr>sst_progress_permille = min ((unat raw_sprog * 1000 + 32767) div 65536) 1000,
                    sst_is_in_progress = raw_sstat AND 0x0001 \<noteq> 0,
                    sst_is_completed = raw_sstat AND 0x0002 \<noteq> 0,
                    sst_is_failed = raw_sstat AND 0x0004 \<noteq> 0,
                    sst_raw_sstat = raw_sstat, sst_raw_sprog = raw_sprog\<rparr>))"

section \<open>Device statistics\<close>

definition stat_value_len :: "u16 \<Rightarrow> u16 \<Rightarrow> nat" where
  "stat_value_len page code =
     (if page = 0x04
      then (if code = 0x0001 then 1 else if code = 0x0002 \<or> code = 0x0004 then 6 else 4)
      else if code = 0x0004 \<or> code = 0x0006 \<or> code = 0x0008 then 6 else 4)"

fun statistics_entries :: "byte list \<Rightarrow> u16 \<Rightarrow> nat \<Rightarrow> nat \<Rightarrow> ata_statistics_entry list" where
  "statistics_entries raw page 0 off = []"
| "statistics_entries raw page (Suc n) off =
     (if off + 4 > 512 then []
      else (let code = u16_at raw off; flags = raw ! (off + 2); len = stat_value_len page code in
            if off + 4 + len > 512 then []
            else \<lparr>te_code = code, te_data_valid = flags AND 0x10 \<noteq> 0,
                  te_value = of_le_bytes (take len (drop (off + 4) raw))\<rparr>
                 # statistics_entries raw page n (off + 4 + len)))"

definition decode_statistics :: "byte list \<Rightarrow> u16 \<Rightarrow> codec_error + ata_statistics_page" where
  "decode_statistics raw page_number_hint =
     (if length raw < 512 then Inl ShortBuffer
      else (let page_number = u16_at raw 0;
                entry_count = unat (of_le_bytes (take 4 (drop 4 raw)) :: u32)
            in Inr \<lparr>sp_page_number = page_number,
                    sp_entries = statistics_entries raw page_number entry_count 8\<rparr>))"

definition entry :: "ata_statistics_page \<Rightarrow> u16 \<Rightarrow> ata_statistics_entry option" where
  "entry page code = List.find (\<lambda>e. te_code e = code) (sp_entries page)"

definition percentage_used_endurance :: "ata_statistics_page \<Rightarrow> byte option" where
  "percentage_used_endurance page =
     (if sp_page_number page = 0x04 then map_option (\<lambda>e. ucast (te_value e)) (entry page 0x0001) else None)"

definition name_in_page :: "ata_statistics_entry \<Rightarrow> u16 \<Rightarrow> string option" where
  "name_in_page e page_number =
     (if page_number = 0x00
      then (if te_code e = 1 then Some ''Lifetime Power-on Resets''
            else if te_code e = 2 then Some ''Power-on Hours''
            else if te_code e = 4 then Some ''Logical Sectors Written''
            else if te_code e = 5 then Some ''Number of Write Commands''
            else if te_code e = 6 then Some ''Logical Sectors Read''
            else if te_code e = 7 then Some ''Number of Read Commands''
            else if te_code e = 8 then Some ''Date and Time of Reset''
            else None)
      else if page_number = 0x04
      then (if te_code e = 1 then Some ''Percentage Used Endurance Indicator''
            else if te_code e = 2 then Some ''Logical Sectors Read (SSD)''
            else if te_code e = 4 then Some ''Logical Sectors Written (SSD)''
            else None)
      else None)"

section \<open>The wire\<close>

lemma length_passthrough [simp]: "length (encode_sat_passthrough_16_framed c f l n x) = 16"
  by (simp add: encode_sat_passthrough_16_framed_def)

lemma length_payload [simp]: "length pw = 32 \<Longrightarrow> length (security_password_payload m pw) = 512"
  by (simp add: security_password_payload_def)

text \<open>The ATA command register of a pass-through block.\<close>

definition cdb_command :: "byte list \<Rightarrow> byte" where
  "cdb_command cdb = cdb ! 14"

lemma cdb_command_passthrough [simp]: "cdb_command (encode_sat_passthrough_16_framed c f l n x) = c"
  by (simp add: cdb_command_def encode_sat_passthrough_16_framed_def)

text \<open>How the SAT layer reads the 48-bit address and the 16-bit registers back.\<close>

definition cdb_lba :: "byte list \<Rightarrow> u64" where
  "cdb_lba cdb = of_le_bytes [cdb ! 8, cdb ! 10, cdb ! 12, cdb ! 7, cdb ! 9, cdb ! 11]"

definition cdb_features :: "byte list \<Rightarrow> u16" where
  "cdb_features cdb = of_le_bytes [cdb ! 4, cdb ! 3]"

lemma cdb_lba_passthrough: "cdb_lba (encode_sat_passthrough_16_framed c f l n x) = take_bit 48 l"
proof -
  have "cdb_lba (encode_sat_passthrough_16_framed c f l n x) = of_le_bytes (le_bytes 6 l)"
    by (simp add: cdb_lba_def encode_sat_passthrough_16_framed_def le_bytes_def upt_conv_Cons)
  also have "\<dots> = take_bit 48 l"
  proof (rule bit_word_eqI)
    fix k :: nat assume "k < LENGTH(64)"
    then show "bit (of_le_bytes (le_bytes 6 l) :: u64) k \<longleftrightarrow> bit (take_bit 48 l) k"
      by (auto simp: bit_of_le_bytes le_bytes_def bit_ucast_iff bit_drop_bit_eq bit_take_bit_iff)
  qed
  finally show ?thesis .
qed

lemma cdb_features_passthrough: "cdb_features (encode_sat_passthrough_16_framed c f l n x) = f"
proof -
  have "cdb_features (encode_sat_passthrough_16_framed c f l n x) = of_le_bytes (le_bytes 2 f)"
    by (simp add: cdb_features_def encode_sat_passthrough_16_framed_def le_bytes_def upt_conv_Cons numeral_2_eq_2)
  then show ?thesis by simp
qed

text \<open>Sense data with descriptors, as a SAT layer answers a command with CK_COND: header, any
  descriptors of other types, the ATA return descriptor, anything behind it.\<close>

definition sense_descriptor :: "byte \<Rightarrow> byte list \<Rightarrow> byte list" where
  "sense_descriptor ty payload = ty # word_of_nat (length payload) # payload"

definition return_payload :: "byte list \<Rightarrow> u64 \<Rightarrow> byte list" where
  "return_payload flags lba = flags @
     [ucast (drop_bit 40 lba), ucast (drop_bit 24 lba), ucast (drop_bit 32 lba),
      ucast (drop_bit 16 lba), ucast (drop_bit 8 lba), ucast lba]"

lemma descriptor_lba_return:
  assumes "length flags = 4"
  shows "descriptor_lba (take 12 (return_payload flags lba @ rest)) = take_bit 48 lba"
proof -
  have "descriptor_lba (take 12 (return_payload flags lba @ rest)) = of_le_bytes (le_bytes 6 lba)"
    using assms
    by (simp add: descriptor_lba_def return_payload_def nth_append le_bytes_def upt_conv_Cons push_bit_or or.assoc or.left_commute or.commute)
  also have "\<dots> = take_bit 48 lba"
  proof (rule bit_word_eqI)
    fix k :: nat assume "k < LENGTH(64)"
    then show "bit (of_le_bytes (le_bytes 6 lba) :: u64) k \<longleftrightarrow> bit (take_bit 48 lba) k"
      by (auto simp: bit_of_le_bytes le_bytes_def bit_ucast_iff bit_drop_bit_eq bit_take_bit_iff)
  qed
  finally show ?thesis .
qed

lemma descriptor_walk_finds:
  assumes "length flags = 4" and "2 \<le> length tail" and "length tail < 246"
    and "\<forall>(ty, p) \<in> set ds. ty \<noteq> 0x09 \<and> length p < 256" and "length pre = off"
  shows "descriptor_walk (pre @ concat (map (\<lambda>(ty, p). sense_descriptor ty p) ds) @
      sense_descriptor 0x09 (return_payload flags lba @ tail) @ rest) off = Inr (take_bit 48 lba)"
  using assms(4,5)
proof (induction ds arbitrary: pre off)
  case Nil
  have len: "length (return_payload flags lba @ tail) = 10 + length tail"
    using assms(1) by (simp add: return_payload_def)
  have unat: "unat (word_of_nat (length (return_payload flags lba @ tail)) :: byte) = 10 + length tail"
    using assms(3) unfolding len by (simp only: unat_of_nat) simp
  show ?case
    using Nil unat len assms(1,2) descriptor_lba_return [OF assms(1), of lba "tail @ rest"]
    by (subst descriptor_walk.simps) (simp add: sense_descriptor_def nth_append Let_def)
next
  case (Cons d ds)
  obtain ty p where d: "d = (ty, p)" "ty \<noteq> 0x09" "length p < 256" using Cons.prems(1) by auto
  have unat: "unat (word_of_nat (length p) :: byte) = length p" using d(3) by (simp add: unat_of_nat)
  have step: "descriptor_walk (pre @ sense_descriptor ty p @ more) off =
      descriptor_walk ((pre @ sense_descriptor ty p) @ more) (off + 2 + length p)" for more
    using Cons.prems(2) d(2) unat by (subst descriptor_walk.simps) (simp add: sense_descriptor_def nth_append Let_def)
  have len: "length (pre @ sense_descriptor ty p) = off + 2 + length p"
    using Cons.prems(2) by (simp add: sense_descriptor_def)
  show ?case
    using Cons.IH [OF _ len] Cons.prems(1) by (simp add: d(1) step)
qed

text \<open>The native capacity crosses the SAT layer unchanged: from sense data in descriptor format that
  carries the ATA return descriptor anywhere among others, the decoder reads the 48-bit address
  that the drive put into its registers.\<close>

theorem return_descriptor_roundtrip:
  assumes "length header = 8" and "(header ! 0) AND 0x7F \<in> {0x72, 0x73}" and "length flags = 4" and "lba < 2 ^ 48"
    and "\<forall>(ty, p) \<in> set ds. ty \<noteq> 0x09 \<and> length p < 256"
  shows "decode_ata_return_descriptor_lba (header @ concat (map (\<lambda>(ty, p). sense_descriptor ty p) ds) @
      sense_descriptor 0x09 (return_payload flags lba @ [device, status]) @ rest) = Inr lba"
proof -
  have "take_bit 48 lba = lba"
    using assms(4) by (simp add: word_less_nat_alt word_unat_eq_iff unsigned_take_bit_eq take_bit_nat_eq_self)
  then show ?thesis
    using descriptor_walk_finds [OF assms(3) _ _ assms(5) assms(1), of "[device, status]" lba rest] assms(1,2)
    by (auto simp: decode_ata_return_descriptor_lba_def nth_append sense_descriptor_def Let_def)
qed

theorem return_descriptor_roundtrip_witness:
  "decode_ata_return_descriptor_lba ([0x72, 0, 0, 0, 0, 0, 0, 17] @ sense_descriptor 0x00 [1] @
     sense_descriptor 0x09 (return_payload [0, 1, 0, 0] 3000 @ [0x40, 0x50])) = Inr 3000"
proof -
  have "\<forall>(ty, p) \<in> set [(0x00 :: byte, [1 :: byte])]. ty \<noteq> 0x09 \<and> length p < 256" by simp
  from return_descriptor_roundtrip [OF _ _ _ _ this, of "[0x72, 0, 0, 0, 0, 0, 0, 17]" "[0, 1, 0, 0]" 3000 "0x40" "0x50" "[]"]
  show ?thesis by simp
qed

end
