(* ===== verification/Ata_Purge.thy ===== *)
theory Ata_Purge
  imports Ata_Codec Pattern
begin

text \<open>
  The ATA purge ladder (\<open>crates/dc-ata/src/purge.rs\<close>) with the geometry transaction
  (\<open>geometry.rs\<close>), the lifeline and the security machine (\<open>security.rs\<close>) and the freeze rule
  (\<open>freeze.rs\<close>). The transport is any function from a state of the drive and a request to a new
  state and a reply or a fault; the world records every exchange. The random source and BLAKE3 are
  parameters. Messages are the constructors of \<open>fatal\<close>.
\<close>

section \<open>Lifeline and security machine\<close>

record ata_lifeline =
  li_id :: string
  li_password_hash :: string
  li_plaintext_password :: "string option"
  li_voided :: bool

text \<open>\<open>hash\<close> is the hexadecimal BLAKE3 of a text.\<close>

definition new_lifeline :: "(string \<Rightarrow> string) \<Rightarrow> string \<Rightarrow> ata_lifeline" where
  "new_lifeline hash password =
     \<lparr>li_id = ''life-'' @ take 8 (hash password), li_password_hash = hash password,
      li_plaintext_password = Some password, li_voided = False\<rparr>"

definition void :: "ata_lifeline \<Rightarrow> ata_lifeline" where
  "void l = l\<lparr>li_plaintext_password := None, li_voided := True\<rparr>"

definition revoke :: "ata_lifeline \<Rightarrow> ata_lifeline" where
  "revoke l = l\<lparr>li_plaintext_password := None, li_voided := True\<rparr>"

datatype fsm_outcome =
  OutcomeClean bool | OutcomeRepaired string | LockedDisclosed string | RefusedPreLocked | RefusedFrozen

datatype security_state =
  Intake | SecArmed ata_lifeline bool | Erasing | Repairing ata_lifeline | SecTerminal fsm_outcome

definition process_intake :: "ata_security_status \<Rightarrow> security_state \<Rightarrow> security_state \<times> (fsm_outcome + unit)" where
  "process_intake sec st =
     (if as_locked sec then (SecTerminal RefusedPreLocked, Inl RefusedPreLocked)
      else if as_frozen sec then (SecTerminal RefusedFrozen, Inl RefusedFrozen)
      else (st, Inr ()))"

definition sec_arm :: "(string \<Rightarrow> string) \<Rightarrow> string \<Rightarrow> bool \<Rightarrow> security_state \<Rightarrow> security_state" where
  "sec_arm hash password request_enhanced st = SecArmed (new_lifeline hash password) request_enhanced"

definition on_erase_success :: "bool \<Rightarrow> security_state \<Rightarrow> security_state \<times> fsm_outcome" where
  "on_erase_success enhanced st = (SecTerminal (OutcomeClean enhanced), OutcomeClean enhanced)"

definition on_erase_failure :: "bool \<Rightarrow> security_state \<Rightarrow> security_state \<times> fsm_outcome" where
  "on_erase_failure repair_succeeded st =
     (case st of
        SecArmed lifeline _ \<Rightarrow>
          (let pw = (case li_plaintext_password lifeline of Some p \<Rightarrow> p | None \<Rightarrow> []);
               outcome = (if repair_succeeded then OutcomeRepaired pw else LockedDisclosed pw)
           in (SecTerminal outcome, outcome))
      | _ \<Rightarrow> (SecTerminal RefusedPreLocked, RefusedPreLocked))"

record freeze_finding =
  ff_is_frozen :: bool
  ff_override_active :: bool

definition evaluate_freeze :: "bool \<Rightarrow> bool \<Rightarrow> freeze_finding + unit" where
  "evaluate_freeze is_frozen allow_override =
     (if is_frozen \<and> \<not> allow_override then Inl \<lparr>ff_is_frozen = True, ff_override_active = False\<rparr> else Inr ())"

section \<open>Geometry transaction\<close>

datatype geometry_op = DcoRestore | HpaUnlock

record geometry_stage =
  gs_op :: geometry_op
  gs_fd_gen :: u32
  gs_cap_before :: u64
  gs_cap_after :: u64

record geometry_transaction =
  gt_id :: string
  gt_stages :: "geometry_stage list"
  gt_current_capacity :: u64
  gt_native_capacity :: u64
  gt_dco_max_capacity :: u64
  gt_committed :: bool

definition begin_geometry :: "(byte list \<Rightarrow> string) \<Rightarrow> u64 \<Rightarrow> u64 \<Rightarrow> u64 \<Rightarrow> geometry_transaction" where
  "begin_geometry hash current native dco =
     \<lparr>gt_id = ''geom-tx-'' @ take 8 (hash (u64_le current)), gt_stages = [],
      gt_current_capacity = current, gt_native_capacity = native, gt_dco_max_capacity = dco,
      gt_committed = False\<rparr>"

definition stage_dco_restore :: "u32 \<Rightarrow> geometry_transaction \<Rightarrow> geometry_transaction \<times> u32" where
  "stage_dco_restore gen tx =
     (tx\<lparr>gt_native_capacity := gt_dco_max_capacity tx,
        gt_stages := gt_stages tx @ [\<lparr>gs_op = DcoRestore, gs_fd_gen = gen,
          gs_cap_before = gt_native_capacity tx, gs_cap_after = gt_dco_max_capacity tx\<rparr>]\<rparr>, gen + 1)"

definition stage_hpa_unlock :: "u32 \<Rightarrow> geometry_transaction \<Rightarrow> geometry_transaction" where
  "stage_hpa_unlock gen tx =
     tx\<lparr>gt_current_capacity := gt_native_capacity tx,
       gt_stages := gt_stages tx @ [\<lparr>gs_op = HpaUnlock, gs_fd_gen = gen,
         gs_cap_before = gt_current_capacity tx, gs_cap_after = gt_native_capacity tx\<rparr>]\<rparr>"

definition commit_geometry :: "geometry_transaction \<Rightarrow> geometry_transaction" where
  "commit_geometry tx = tx\<lparr>gt_committed := True\<rparr>"

section \<open>Transport\<close>

datatype sat_xfer = XferNone | FromDev nat | ToDev "byte list"

record sat_reply =
  sr_status :: byte
  sr_sense :: "byte list"
  sr_data_in :: "byte list"

definition is_good :: "sat_reply \<Rightarrow> bool" where
  "is_good r \<longleftrightarrow> sr_status r = 0"

record sat_request =
  sq_cdb :: "byte list"
  sq_xfer :: sat_xfer
  sq_timeout_ms :: nat

record 's purge_deps =
  pd_issue :: "'s \<Rightarrow> sat_request \<Rightarrow> 's \<times> (string + sat_reply)"
  pd_random :: "'s \<Rightarrow> 's \<times> (string + byte list)"        \<comment> \<open>\<open>getrandom\<close> of 32 bytes\<close>
  pd_hash :: "byte list \<Rightarrow> string"                      \<comment> \<open>hexadecimal BLAKE3\<close>
  pd_hex :: "byte list \<Rightarrow> string"                       \<comment> \<open>\<open>hex::encode\<close>\<close>
  pd_max_polls :: nat

record 's sat_world =
  sw_dev :: 's
  sw_trace :: "(sat_request \<times> (string + sat_reply)) list"
  sw_progress :: "nat list"

definition issue :: "'s purge_deps \<Rightarrow> byte list \<Rightarrow> sat_xfer \<Rightarrow> nat \<Rightarrow> 's sat_world \<Rightarrow> 's sat_world \<times> (string + sat_reply)" where
  "issue d cdb xfer timeout w =
     (let rq = \<lparr>sq_cdb = cdb, sq_xfer = xfer, sq_timeout_ms = timeout\<rparr>
      in case pd_issue d (sw_dev w) rq of
           (s, r) \<Rightarrow> (w\<lparr>sw_dev := s, sw_trace := sw_trace w @ [(rq, r)]\<rparr>, r))"

definition sanitize_timeout_ms :: nat where "sanitize_timeout_ms = 24 * 60 * 60 * 1000"
definition security_erase_timeout_ms :: nat where "security_erase_timeout_ms = 24 * 60 * 60 * 1000"
definition read_timeout_ms :: nat where "read_timeout_ms = 30000"
definition sanitize_status_log :: byte where "sanitize_status_log = 0x30"

section \<open>Mechanisms, evidence, errors\<close>

record purge_permit =
  pp_target_device :: string
  pp_target_serial :: string
  pp_authorized_at_utc :: nat

definition mint :: "string \<Rightarrow> string \<Rightarrow> nat \<Rightarrow> purge_permit" where
  "mint target_device target_serial timestamp_utc =
     \<lparr>pp_target_device = target_device, pp_target_serial = target_serial, pp_authorized_at_utc = timestamp_utc\<rparr>"

datatype purge_mechanism =
  SanitizeCryptoScramble | SanitizeBlockErase | SecurityEraseEnhanced | SecurityEraseNormal

fun label :: "purge_mechanism \<Rightarrow> string" where
  "label SanitizeCryptoScramble = ''ATA Sanitize Crypto Scramble''"
| "label SanitizeBlockErase = ''ATA Sanitize Block Erase''"
| "label SecurityEraseEnhanced = ''ATA Security Erase (Enhanced)''"
| "label SecurityEraseNormal = ''ATA Security Erase (Normal)''"

definition nist_class :: "purge_mechanism \<Rightarrow> string" where
  "nist_class m = ''Purge''"

datatype completion_evidence = SanitizeStatusLog | BlockingEraseReturn

datatype rejection = IllegalRequest byte byte byte | EnhancedUnsupported

record mechanism_fallback =
  mf_from :: string
  mf_to :: string
  mf_reason :: rejection

record purge_summary =
  ps_executed_mechanism :: purge_mechanism
  ps_fallbacks :: "mechanism_fallback list"
  ps_completion_evidence :: completion_evidence
  ps_sanitize_status :: "ata_sanitize_status option"
  ps_progress_permille :: nat
  ps_lifeline_id :: string
  ps_lifeline_voided :: bool
  ps_geometry :: geometry_transaction
  ps_post_security :: ata_security_status

datatype fatal =
  TransportFault string
| IdentifyFailed byte
| SmartReadFailed byte
| ReadLogFailed byte
| Undecodable codec_error
| Frozen
| PreLocked
| NoPurgeMechanism
| SecurityUnsupported
| SanitizeCommandFailed u16 byte
| SanitizeReportedFailure u16 u16
| SanitizeIncomplete nat nat
| RandomUnavailable string
| SetPasswordFailed byte
| ErasePrepareFailed byte
| EraseFailedRepaired bool byte

datatype purge_error = Fatal fatal | EraseFailedLockedDisclosed bool byte string

datatype sanitize_step = Rejected rejection | StepFatal fatal

section \<open>The client\<close>

definition identify :: "'s purge_deps \<Rightarrow> 's sat_world \<Rightarrow> 's sat_world \<times> (fatal + ata_identify_data)" where
  "identify d w =
     (case issue d encode_sat_identify_device (FromDev 512) read_timeout_ms w of
        (w, Inl e) \<Rightarrow> (w, Inl (TransportFault e))
      | (w, Inr reply) \<Rightarrow>
          (w, if \<not> is_good reply then Inl (IdentifyFailed (sr_status reply))
              else case decode_identify_device (sr_data_in reply) of
                     Inl e \<Rightarrow> Inl (Undecodable e) | Inr i \<Rightarrow> Inr i))"

definition read_reallocated_sectors :: "'s purge_deps \<Rightarrow> 's sat_world \<Rightarrow> 's sat_world \<times> (fatal + u64)" where
  "read_reallocated_sectors d w =
     (case issue d encode_sat_smart_read_data (FromDev 512) read_timeout_ms w of
        (w, Inl e) \<Rightarrow> (w, Inl (TransportFault e))
      | (w, Inr reply) \<Rightarrow>
          (w, if \<not> is_good reply then Inl (SmartReadFailed (sr_status reply))
              else case decode_smart_reallocated_sectors (sr_data_in reply) of
                     Inl e \<Rightarrow> Inl (Undecodable e) | Inr n \<Rightarrow> Inr n))"

definition read_device_statistics ::
  "'s purge_deps \<Rightarrow> u16 \<Rightarrow> 's sat_world \<Rightarrow> 's sat_world \<times> (fatal + ata_statistics_page \<times> byte list)" where
  "read_device_statistics d page w =
     (case issue d (encode_sat_read_log_ext 0x04 page 1) (FromDev 512) read_timeout_ms w of
        (w, Inl e) \<Rightarrow> (w, Inl (TransportFault e))
      | (w, Inr reply) \<Rightarrow>
          (w, if \<not> is_good reply then Inl (ReadLogFailed (sr_status reply))
              else case decode_statistics (sr_data_in reply) page of
                     Inl e \<Rightarrow> Inl (Undecodable e) | Inr p \<Rightarrow> Inr (p, sr_data_in reply)))"

definition sense_illegal_request :: "sat_reply \<Rightarrow> rejection option" where
  "sense_illegal_request reply =
     (let s = sr_sense reply;
          fields = (if length s \<ge> 4 \<and> (s ! 0) AND 0x7F = 0x72
                    then Some ((s ! 1) AND 0x0F, s ! 2, s ! 3)
                    else if length s \<ge> 14 then Some ((s ! 2) AND 0x0F, s ! 12, s ! 13)
                    else None)
      in case fields of
           None \<Rightarrow> None
         | Some (key, asc, ascq) \<Rightarrow> if key = 0x05 then Some (IllegalRequest key asc ascq) else None)"

definition read_sanitize_status :: "'s purge_deps \<Rightarrow> 's sat_world \<Rightarrow> 's sat_world \<times> (fatal + ata_sanitize_status)" where
  "read_sanitize_status d w =
     (case issue d (encode_sat_smart_read_log sanitize_status_log) (FromDev 512) read_timeout_ms w of
        (w, Inl e) \<Rightarrow> (w, Inl (TransportFault e))
      | (w, Inr reply) \<Rightarrow>
          (w, case decode_log (sr_data_in reply) of Inl e \<Rightarrow> Inl (Undecodable e) | Inr st \<Rightarrow> Inr st))"

text \<open>The poll loop, with the polls already made; every poll but the last feeds the progress sink.\<close>

function poll_sanitize ::
  "'s purge_deps \<Rightarrow> nat \<Rightarrow> 's sat_world \<Rightarrow> 's sat_world \<times> (sanitize_step + ata_sanitize_status \<times> nat)" where
  "poll_sanitize d polls w =
     (case read_sanitize_status d w of
        (w, Inl e) \<Rightarrow> (w, Inl (StepFatal e))
      | (w, Inr status) \<Rightarrow>
          if sst_is_failed status
          then (w, Inl (StepFatal (SanitizeReportedFailure (sst_raw_sstat status) (sst_raw_sprog status))))
          else if sst_is_completed status then (w, Inr (status, sst_progress_permille status))
          else if polls \<ge> pd_max_polls d
          then (w, Inl (StepFatal (SanitizeIncomplete (sst_progress_permille status) polls)))
          else poll_sanitize d (polls + 1) (w\<lparr>sw_progress := sw_progress w @ [sst_progress_permille status]\<rparr>))"
  by pat_completeness auto
termination
  by (relation "measure (\<lambda>(d, polls, _). pd_max_polls d - polls)") auto

declare poll_sanitize.simps [simp del]

definition run_sanitize ::
  "'s purge_deps \<Rightarrow> ata_sanitize_feature \<Rightarrow> 's sat_world \<Rightarrow> 's sat_world \<times> (sanitize_step + ata_sanitize_status \<times> nat)" where
  "run_sanitize d feature w =
     (case issue d (encode_sat_sanitize_device feature) XferNone sanitize_timeout_ms w of
        (w, Inl e) \<Rightarrow> (w, Inl (StepFatal (TransportFault e)))
      | (w, Inr reply) \<Rightarrow>
          if \<not> is_good reply
          then (w, Inl (case sense_illegal_request reply of
                  Some sense \<Rightarrow> Rejected sense
                | None \<Rightarrow> StepFatal (SanitizeCommandFailed (sanitize_feature feature) (sr_status reply))))
          else poll_sanitize d 0 w)"

text \<open>Masked capacity: what the drive discloses, and the one command that lifts the ceiling.\<close>

definition dco_ceiling :: "'s purge_deps \<Rightarrow> u64 \<Rightarrow> 's sat_world \<Rightarrow> 's sat_world \<times> u64" where
  "dco_ceiling d visible w =
     (case issue d encode_sat_device_config_identify (FromDev 512) read_timeout_ms w of
        (w, Inl _) \<Rightarrow> (w, visible)
      | (w, Inr reply) \<Rightarrow>
          (w, case decode_device_config_overlay (sr_data_in reply) of Inl _ \<Rightarrow> visible | Inr cap \<Rightarrow> cap))"

definition native_ceiling :: "'s purge_deps \<Rightarrow> u64 \<Rightarrow> 's sat_world \<Rightarrow> 's sat_world \<times> u64" where
  "native_ceiling d visible w =
     (case issue d encode_sat_read_native_max_ext XferNone read_timeout_ms w of
        (w, Inl _) \<Rightarrow> (w, visible)
      | (w, Inr reply) \<Rightarrow>
          (w, case decode_ata_return_descriptor_lba (sr_sense reply) of Inl _ \<Rightarrow> visible | Inr lba \<Rightarrow> lba))"

definition restore_geometry :: "'s purge_deps \<Rightarrow> ata_identify_data \<Rightarrow> 's sat_world \<Rightarrow> 's sat_world \<times> geometry_transaction" where
  "restore_geometry d ident w =
     (let visible = id_lba48_sectors ident in
      case dco_ceiling d visible w of (w, dco_max) \<Rightarrow>
      case native_ceiling d visible w of (w, native) \<Rightarrow>
      let tx = begin_geometry (pd_hash d) visible native dco_max in
      case (if dco_max > native then stage_dco_restore 1 tx else (tx, 1)) of (tx, gen) \<Rightarrow>
      if native > visible
      then (case issue d (encode_sat_set_max_ext native) XferNone read_timeout_ms w of
              (w, Inr reply) \<Rightarrow>
                (w, commit_geometry (if is_good reply then stage_hpa_unlock gen tx else tx))
            | (w, Inl _) \<Rightarrow> (w, commit_geometry tx))
      else (w, commit_geometry tx))"

definition auto_primary :: "ata_identify_data \<Rightarrow> purge_mechanism option" where
  "auto_primary ident =
     (if ss_crypto_scramble_supported (id_sanitize ident) then Some SanitizeCryptoScramble
      else if ss_block_erase_supported (id_sanitize ident) then Some SanitizeBlockErase
      else if as_enhanced_erase_supported (id_security ident) then Some SecurityEraseEnhanced
      else if as_supported (id_security ident) then Some SecurityEraseNormal
      else None)"

definition security_disarmed :: ata_security_status where
  "security_disarmed = \<lparr>as_supported = False, as_enabled = False, as_locked = False, as_frozen = False,
     as_enhanced_erase_supported = False, as_erase_time_minutes = None, as_enhanced_erase_time_minutes = None\<rparr>"

definition no_harm_repair :: "'s purge_deps \<Rightarrow> byte list \<Rightarrow> 's sat_world \<Rightarrow> 's sat_world \<times> bool" where
  "no_harm_repair d password w =
     (case encode_sat_security_disable_password False password of (cdb, payload) \<Rightarrow>
      case issue d cdb (ToDev payload) security_erase_timeout_ms w of
        (w, Inl _) \<Rightarrow> (w, False)
      | (w, Inr reply) \<Rightarrow> (w, is_good reply))"

text \<open>The security state a second IDENTIFY reports; a drive that does not answer counts as unlocked.\<close>

definition post_security :: "'s purge_deps \<Rightarrow> 's sat_world \<Rightarrow> 's sat_world \<times> ata_security_status" where
  "post_security d w =
     (case identify d w of
        (w, Inl _) \<Rightarrow> (w, security_disarmed)
      | (w, Inr i) \<Rightarrow> (w, id_security i))"

text \<open>The three commands of the erase after the password is chosen, and what follows each answer.\<close>

definition after_erase_unit ::
  "'s purge_deps \<Rightarrow> bool \<Rightarrow> mechanism_fallback list \<Rightarrow> geometry_transaction \<Rightarrow> byte list \<Rightarrow> sat_reply \<Rightarrow>
   's sat_world \<Rightarrow> 's sat_world \<times> (purge_error + purge_summary)" where
  "after_erase_unit d enhanced fallbacks geometry password erase_reply w =
     (if is_good erase_reply
      then (let lifeline = new_lifeline (\<lambda>p. pd_hash d (ascii_bytes p)) (pd_hex d password) in
            case post_security d w of (w, post) \<Rightarrow>
            (w, Inr \<lparr>ps_executed_mechanism = (if enhanced then SecurityEraseEnhanced else SecurityEraseNormal),
                     ps_fallbacks = fallbacks, ps_completion_evidence = BlockingEraseReturn,
                     ps_sanitize_status = None, ps_progress_permille = 1000,
                     ps_lifeline_id = li_id lifeline, ps_lifeline_voided = True,
                     ps_geometry = geometry, ps_post_security = post\<rparr>))
      else (case no_harm_repair d password w of (w, repair_ok) \<Rightarrow>
            case post_security d w of (w, post) \<Rightarrow>
            if repair_ok \<and> \<not> as_locked post
            then (w, Inl (Fatal (EraseFailedRepaired enhanced (sr_status erase_reply))))
            else (w, Inl (EraseFailedLockedDisclosed enhanced (sr_status erase_reply) (pd_hex d password)))))"

definition execute_security_erase ::
  "'s purge_deps \<Rightarrow> bool \<Rightarrow> mechanism_fallback list \<Rightarrow> geometry_transaction \<Rightarrow>
   's sat_world \<Rightarrow> 's sat_world \<times> (purge_error + purge_summary)" where
  "execute_security_erase d enhanced fallbacks geometry w =
     (case pd_random d (sw_dev w) of
        (s, Inl e) \<Rightarrow> (w\<lparr>sw_dev := s\<rparr>, Inl (Fatal (RandomUnavailable e)))
      | (s, Inr password) \<Rightarrow>
     (case encode_sat_security_set_password False password of (cdb, payload) \<Rightarrow>
      case issue d cdb (ToDev payload) security_erase_timeout_ms (w\<lparr>sw_dev := s\<rparr>) of
        (w, Inl e) \<Rightarrow> (w, Inl (Fatal (TransportFault e)))
      | (w, Inr reply) \<Rightarrow>
      if \<not> is_good reply then (w, Inl (Fatal (SetPasswordFailed (sr_status reply)))) else
      (case issue d encode_sat_security_erase_prepare XferNone security_erase_timeout_ms w of
        (w, Inl e) \<Rightarrow> (w, Inl (Fatal (TransportFault e)))
      | (w, Inr reply) \<Rightarrow>
      if \<not> is_good reply
      then (case no_harm_repair d password w of (w, _) \<Rightarrow>
            (w, Inl (Fatal (ErasePrepareFailed (sr_status reply))))) else
      (case encode_sat_security_erase_unit_auth False enhanced password of (cdb, payload) \<Rightarrow>
      (case issue d cdb (ToDev payload) security_erase_timeout_ms w of
        (w, Inl e) \<Rightarrow> (w, Inl (Fatal (TransportFault e)))
      | (w, Inr reply) \<Rightarrow> after_erase_unit d enhanced fallbacks geometry password reply w)))))"

definition finalize_summary ::
  "purge_mechanism \<Rightarrow> mechanism_fallback list \<Rightarrow> completion_evidence \<Rightarrow> ata_sanitize_status option \<Rightarrow> nat \<Rightarrow>
   geometry_transaction \<Rightarrow> purge_summary" where
  "finalize_summary mechanism fallbacks evidence status progress geometry =
     \<lparr>ps_executed_mechanism = mechanism, ps_fallbacks = fallbacks, ps_completion_evidence = evidence,
      ps_sanitize_status = status, ps_progress_permille = progress, ps_lifeline_id = [],
      ps_lifeline_voided = False, ps_geometry = geometry, ps_post_security = security_disarmed\<rparr>"

section \<open>The ladder\<close>

fun rung :: "purge_mechanism \<Rightarrow> nat" where
  "rung SanitizeCryptoScramble = 2"
| "rung SanitizeBlockErase = 1"
| "rung _ = 0"

function ladder ::
  "'s purge_deps \<Rightarrow> ata_identify_data \<Rightarrow> geometry_transaction \<Rightarrow> purge_mechanism \<Rightarrow> mechanism_fallback list \<Rightarrow>
   's sat_world \<Rightarrow> 's sat_world \<times> (purge_error + purge_summary)" where
  "ladder d ident geometry current fallbacks w =
     (case current of
        SanitizeCryptoScramble \<Rightarrow>
          (case run_sanitize d CryptoScramble w of
             (w, Inr (status, progress)) \<Rightarrow>
               (w, Inr (finalize_summary SanitizeCryptoScramble fallbacks SanitizeStatusLog (Some status) progress geometry))
           | (w, Inl (Rejected reason)) \<Rightarrow>
               ladder d ident geometry SanitizeBlockErase
                 (fallbacks @ [\<lparr>mf_from = ''SanitizeCryptoScramble'', mf_to = ''SanitizeBlockErase'', mf_reason = reason\<rparr>]) w
           | (w, Inl (StepFatal reason)) \<Rightarrow> (w, Inl (Fatal reason)))
      | SanitizeBlockErase \<Rightarrow>
          (case run_sanitize d BlockErase w of
             (w, Inr (status, progress)) \<Rightarrow>
               (w, Inr (finalize_summary SanitizeBlockErase fallbacks SanitizeStatusLog (Some status) progress geometry))
           | (w, Inl (Rejected reason)) \<Rightarrow>
               ladder d ident geometry SecurityEraseEnhanced
                 (fallbacks @ [\<lparr>mf_from = ''SanitizeBlockErase'', mf_to = ''SecurityEraseEnhanced'', mf_reason = reason\<rparr>]) w
           | (w, Inl (StepFatal reason)) \<Rightarrow> (w, Inl (Fatal reason)))
      | _ \<Rightarrow>
          (let enhanced = (current = SecurityEraseEnhanced) in
           if \<not> as_supported (id_security ident) then (w, Inl (Fatal SecurityUnsupported))
           else if enhanced \<and> \<not> as_enhanced_erase_supported (id_security ident)
           then execute_security_erase d False
                  (fallbacks @ [\<lparr>mf_from = ''SecurityEraseEnhanced'', mf_to = ''SecurityEraseNormal'', mf_reason = EnhancedUnsupported\<rparr>])
                  geometry w
           else execute_security_erase d enhanced fallbacks geometry w))"
  by pat_completeness auto
termination
  by (relation "measure (\<lambda>(_, _, _, m, _, _). rung m)") auto

declare ladder.simps [simp del]

definition execute_purge_ladder ::
  "'s purge_deps \<Rightarrow> purge_permit \<Rightarrow> purge_mechanism option \<Rightarrow> 's sat_world \<Rightarrow>
   's sat_world \<times> (purge_error + purge_summary)" where
  "execute_purge_ladder d permit requested w =
     (case identify d w of
        (w, Inl e) \<Rightarrow> (w, Inl (Fatal e))
      | (w, Inr ident) \<Rightarrow>
      if as_frozen (id_security ident) then (w, Inl (Fatal Frozen))
      else if as_locked (id_security ident) then (w, Inl (Fatal PreLocked))
      else (case restore_geometry d ident w of (w, geometry) \<Rightarrow>
            case (case requested of Some m \<Rightarrow> Some m | None \<Rightarrow> auto_primary ident) of
              None \<Rightarrow> (w, Inl (Fatal NoPurgeMechanism))
            | Some current \<Rightarrow> ladder d ident geometry current [] w))"

section \<open>Requests\<close>

definition identify_rq :: sat_request where
  "identify_rq = \<lparr>sq_cdb = encode_sat_identify_device, sq_xfer = FromDev 512, sq_timeout_ms = read_timeout_ms\<rparr>"

definition sanitize_rq :: "ata_sanitize_feature \<Rightarrow> sat_request" where
  "sanitize_rq f = \<lparr>sq_cdb = encode_sat_sanitize_device f, sq_xfer = XferNone, sq_timeout_ms = sanitize_timeout_ms\<rparr>"

definition status_rq :: sat_request where
  "status_rq = \<lparr>sq_cdb = encode_sat_smart_read_log sanitize_status_log, sq_xfer = FromDev 512,
     sq_timeout_ms = read_timeout_ms\<rparr>"

definition password_rq :: "byte list \<times> byte list \<Rightarrow> sat_request" where
  "password_rq cp = \<lparr>sq_cdb = fst cp, sq_xfer = ToDev (snd cp), sq_timeout_ms = security_erase_timeout_ms\<rparr>"

abbreviation set_password_rq :: "byte list \<Rightarrow> sat_request" where
  "set_password_rq pw \<equiv> password_rq (encode_sat_security_set_password False pw)"

abbreviation erase_unit_rq :: "bool \<Rightarrow> byte list \<Rightarrow> sat_request" where
  "erase_unit_rq enhanced pw \<equiv> password_rq (encode_sat_security_erase_unit_auth False enhanced pw)"

abbreviation disable_rq :: "byte list \<Rightarrow> sat_request" where
  "disable_rq pw \<equiv> password_rq (encode_sat_security_disable_password False pw)"

definition prepare_rq :: sat_request where
  "prepare_rq = \<lparr>sq_cdb = encode_sat_security_erase_prepare, sq_xfer = XferNone,
     sq_timeout_ms = security_erase_timeout_ms\<rparr>"

lemma issue_trace:
  assumes "issue d c x t w = (w', r)"
  shows "sw_trace w' = sw_trace w @ [(\<lparr>sq_cdb = c, sq_xfer = x, sq_timeout_ms = t\<rparr>, r)]"
  using assms by (auto simp: issue_def Let_def split: prod.splits)

lemma identify_trace:
  assumes "identify d w = (w', r)"
  shows "\<exists>a. sw_trace w' = sw_trace w @ [(identify_rq, a)] \<and>
    (\<forall>i. r = Inr i \<longrightarrow> (\<exists>reply. a = Inr reply \<and> is_good reply \<and> decode_identify_device (sr_data_in reply) = Inr i))"
  using assms
  by (auto simp: identify_def identify_rq_def split: prod.splits sum.splits if_splits dest!: issue_trace)

lemma post_security_trace:
  assumes "post_security d w = (w', sec)"
  shows "\<exists>a. sw_trace w' = sw_trace w @ [(identify_rq, a)]"
  using assms by (auto simp: post_security_def split: prod.splits sum.splits dest!: identify_trace)

lemma no_harm_repair_trace:
  assumes "no_harm_repair d pw w = (w', ok)"
  shows "\<exists>a. sw_trace w' = sw_trace w @ [(disable_rq pw, a)] \<and> (ok \<longleftrightarrow> (\<exists>reply. a = Inr reply \<and> is_good reply))"
  using assms
  by (auto simp: no_harm_repair_def password_rq_def split: prod.splits sum.splits dest!: issue_trace)

section \<open>Sanitize\<close>

lemma read_status_trace:
  assumes "read_sanitize_status d w = (w', r)"
  shows "\<exists>a. sw_trace w' = sw_trace w @ [(status_rq, a)] \<and>
    (\<forall>st. r = Inr st \<longrightarrow> (\<exists>reply. a = Inr reply \<and> decode_log (sr_data_in reply) = Inr st))"
  using assms
  by (auto simp: read_sanitize_status_def status_rq_def split: prod.splits sum.splits dest!: issue_trace)

lemma poll_sanitize_trace:
  assumes "poll_sanitize d polls w = (w', r)"
  shows "\<exists>mid a. sw_trace w' = sw_trace w @ mid @ [(status_rq, a)] \<and> fst ` set mid \<subseteq> {status_rq} \<and>
    length mid \<le> pd_max_polls d - polls \<and>
    (\<forall>st p. r = Inr (st, p) \<longrightarrow> p = sst_progress_permille st \<and> sst_is_completed st \<and> \<not> sst_is_failed st \<and>
       (\<exists>reply. a = Inr reply \<and> decode_log (sr_data_in reply) = Inr st)) \<and>
    (\<forall>reason. r \<noteq> Inl (Rejected reason))"
  using assms
proof (induction d polls w arbitrary: w' r rule: poll_sanitize.induct)
  case (1 d polls w)
  obtain v x where read: "read_sanitize_status d w = (v, x)" by fastforce
  obtain a where a: "sw_trace v = sw_trace w @ [(status_rq, a)]"
      "\<forall>st. x = Inr st \<longrightarrow> (\<exists>reply. a = Inr reply \<and> decode_log (sr_data_in reply) = Inr st)"
    using read_status_trace [OF read] by (elim exE conjE) (rule that)
  show ?case
  proof (cases "\<exists>status. x = Inr status \<and> \<not> sst_is_failed status \<and> \<not> sst_is_completed status \<and> polls < pd_max_polls d")
    case True
    then obtain status where st: "x = Inr status" "\<not> sst_is_failed status" "\<not> sst_is_completed status" "polls < pd_max_polls d"
      by blast
    let ?v = "v\<lparr>sw_progress := sw_progress v @ [sst_progress_permille status]\<rparr>"
    have "poll_sanitize d (polls + 1) ?v = (w', r)"
      using 1(2) read st by (subst (asm) poll_sanitize.simps) simp
    note run = this
    have np: "\<not> pd_max_polls d \<le> polls" using st(4) by simp
    obtain mid b where m: "sw_trace w' = sw_trace v @ mid @ [(status_rq, b)]" "fst ` set mid \<subseteq> {status_rq}"
        "length mid \<le> pd_max_polls d - (polls + 1)"
        "\<forall>st p. r = Inr (st, p) \<longrightarrow> p = sst_progress_permille st \<and> sst_is_completed st \<and> \<not> sst_is_failed st \<and>
          (\<exists>reply. b = Inr reply \<and> decode_log (sr_data_in reply) = Inr st)"
        "\<forall>reason. r \<noteq> Inl (Rejected reason)"
      using 1(1) [OF read [symmetric] st(1,2,3) np run] by (elim exE conjE) (rule that, simp, assumption+)
    show ?thesis
    proof (intro exI conjI)
      show "sw_trace w' = sw_trace w @ ((status_rq, a) # mid) @ [(status_rq, b)]" using m(1) a(1) by simp
      show "fst ` set ((status_rq, a) # mid) \<subseteq> {status_rq}" using m(2) by simp
      show "length ((status_rq, a) # mid) \<le> pd_max_polls d - polls" using m(3) st(4) by simp
    qed (fact m(4) m(5))+
  next
    case False
    have eq: "(w', r) = (case x of Inl e \<Rightarrow> (v, Inl (StepFatal e))
      | Inr status \<Rightarrow> if sst_is_failed status
          then (v, Inl (StepFatal (SanitizeReportedFailure (sst_raw_sstat status) (sst_raw_sprog status))))
          else if sst_is_completed status then (v, Inr (status, sst_progress_permille status))
          else (v, Inl (StepFatal (SanitizeIncomplete (sst_progress_permille status) polls))))"
      using 1(2) False unfolding poll_sanitize.simps [of d polls w] read prod.case
      by (cases x) (auto simp: not_less)
    have w': "w' = v" and rej: "\<forall>reason. r \<noteq> Inl (Rejected reason)"
      and ok: "\<And>st p. r = Inr (st, p) \<Longrightarrow> x = Inr st \<and> p = sst_progress_permille st \<and> sst_is_completed st \<and> \<not> sst_is_failed st"
      using eq by (auto split: sum.splits if_splits)
    show ?thesis
    proof (rule exI [of _ "[]"], rule exI [of _ a], intro conjI allI impI)
      show "sw_trace w' = sw_trace w @ [] @ [(status_rq, a)]" using a(1) w' by simp
    qed (use ok rej a(2) in \<open>simp_all\<close>)
  qed
qed

text \<open>A sanitize run that is over: accepted, polled, and reported complete by the last exchange.\<close>

definition sanitized :: "ata_sanitize_feature \<Rightarrow> ata_sanitize_status \<Rightarrow> (sat_request \<times> (string + sat_reply)) list \<Rightarrow> bool" where
  "sanitized f st tr \<longleftrightarrow> (\<exists>accepted mid reply.
     tr = (sanitize_rq f, Inr accepted) # mid @ [(status_rq, Inr reply)] \<and> is_good accepted \<and>
     fst ` set mid \<subseteq> {status_rq} \<and> decode_log (sr_data_in reply) = Inr st \<and>
     sst_is_completed st \<and> \<not> sst_is_failed st)"

definition rejected_by_controller :: "ata_sanitize_feature \<Rightarrow> rejection \<Rightarrow> sat_request \<times> (string + sat_reply) \<Rightarrow> bool" where
  "rejected_by_controller f reason x \<longleftrightarrow> (\<exists>reply. x = (sanitize_rq f, Inr reply) \<and> \<not> is_good reply \<and>
     sense_illegal_request reply = Some reason)"

lemma run_sanitize_trace:
  assumes "run_sanitize d f w = (w', r)"
  shows "\<exists>added. sw_trace w' = sw_trace w @ added \<and> length added \<le> pd_max_polls d + 2 \<and>
    fst ` set added \<subseteq> {sanitize_rq f, status_rq} \<and>
    (\<forall>st p. r = Inr (st, p) \<longrightarrow> p = sst_progress_permille st \<and> sanitized f st added) \<and>
    (\<forall>reason. r = Inl (Rejected reason) \<longrightarrow> (\<exists>x. added = [x] \<and> rejected_by_controller f reason x))"
proof -
  obtain v x where i: "issue d (encode_sat_sanitize_device f) XferNone sanitize_timeout_ms w = (v, x)" by fastforce
  have v: "sw_trace v = sw_trace w @ [(sanitize_rq f, x)]"
    using issue_trace [OF i] by (simp add: sanitize_rq_def)
  show ?thesis
  proof (cases "\<exists>reply. x = Inr reply \<and> is_good reply")
    case True
    then obtain reply where x: "x = Inr reply" "is_good reply" by blast
    then have "poll_sanitize d 0 v = (w', r)" using assms i by (simp add: run_sanitize_def)
    from poll_sanitize_trace [OF this] show ?thesis
      using v x by (fastforce simp: sanitized_def)
  next
    case False
    then have "w' = v \<and> (\<forall>st p. r \<noteq> Inr (st, p)) \<and>
        (\<forall>reason. r = Inl (Rejected reason) \<longrightarrow> rejected_by_controller f reason (sanitize_rq f, x))"
      using assms i by (auto simp: run_sanitize_def rejected_by_controller_def split: sum.splits if_splits option.splits)
    then show ?thesis using v by auto
  qed
qed

section \<open>Security erase\<close>

type_synonym exchange = "sat_request \<times> (string + sat_reply)"

text \<open>What the erase pipeline may do: the exchanges it makes and what it reports.\<close>

inductive erase_run :: "(byte list \<Rightarrow> string) \<Rightarrow> bool \<Rightarrow> exchange list \<Rightarrow> purge_error option \<Rightarrow> bool"
  for hex :: "byte list \<Rightarrow> string" and enhanced :: bool where
  no_random: "erase_run hex enhanced [] (Some (Fatal (RandomUnavailable e)))"
| set_fault: "erase_run hex enhanced [(set_password_rq pw, Inl e)] (Some (Fatal (TransportFault e)))"
| set_refused: "\<not> is_good r \<Longrightarrow>
    erase_run hex enhanced [(set_password_rq pw, Inr r)] (Some (Fatal (SetPasswordFailed (sr_status r))))"
| prepare_fault: "is_good r \<Longrightarrow>
    erase_run hex enhanced [(set_password_rq pw, Inr r), (prepare_rq, Inl e)] (Some (Fatal (TransportFault e)))"
| prepare_refused: "is_good r \<Longrightarrow> \<not> is_good p \<Longrightarrow>
    erase_run hex enhanced [(set_password_rq pw, Inr r), (prepare_rq, Inr p), (disable_rq pw, a)]
      (Some (Fatal (ErasePrepareFailed (sr_status p))))"
| unit_fault: "is_good r \<Longrightarrow> is_good p \<Longrightarrow>
    erase_run hex enhanced [(set_password_rq pw, Inr r), (prepare_rq, Inr p), (erase_unit_rq enhanced pw, Inl e)]
      (Some (Fatal (TransportFault e)))"
| erased: "is_good r \<Longrightarrow> is_good p \<Longrightarrow> is_good u \<Longrightarrow>
    erase_run hex enhanced [(set_password_rq pw, Inr r), (prepare_rq, Inr p), (erase_unit_rq enhanced pw, Inr u),
      (identify_rq, a)] None"
| repaired: "is_good r \<Longrightarrow> is_good p \<Longrightarrow> \<not> is_good u \<Longrightarrow> is_good s \<Longrightarrow>
    erase_run hex enhanced [(set_password_rq pw, Inr r), (prepare_rq, Inr p), (erase_unit_rq enhanced pw, Inr u),
      (disable_rq pw, Inr s), (identify_rq, a)] (Some (Fatal (EraseFailedRepaired enhanced (sr_status u))))"
| disclosed: "is_good r \<Longrightarrow> is_good p \<Longrightarrow> \<not> is_good u \<Longrightarrow>
    erase_run hex enhanced [(set_password_rq pw, Inr r), (prepare_rq, Inr p), (erase_unit_rq enhanced pw, Inr u),
      (disable_rq pw, b), (identify_rq, a)]
      (Some (EraseFailedLockedDisclosed enhanced (sr_status u) (hex pw)))"

text \<open>The failure of a result, if it is one.\<close>

fun failure_of :: "'e + 'a \<Rightarrow> 'e option" where
  "failure_of (Inl e) = Some e"
| "failure_of (Inr _) = None"

definition erase_summary :: "bool \<Rightarrow> mechanism_fallback list \<Rightarrow> geometry_transaction \<Rightarrow> purge_summary \<Rightarrow> bool" where
  "erase_summary enhanced fallbacks geometry s \<longleftrightarrow>
     ps_executed_mechanism s = (if enhanced then SecurityEraseEnhanced else SecurityEraseNormal) \<and>
     ps_completion_evidence s = BlockingEraseReturn \<and> ps_fallbacks s = fallbacks \<and> ps_geometry s = geometry"

lemma after_erase_unit_run:
  assumes "after_erase_unit d enhanced fb g pw u w = (w', r)"
  shows "\<exists>tr. sw_trace w' = sw_trace w @ tr \<and>
    (if is_good u then (\<exists>a s. tr = [(identify_rq, a)] \<and> r = Inr s \<and> erase_summary enhanced fb g s)
     else \<exists>b a. tr = [(disable_rq pw, b), (identify_rq, a)] \<and>
       (r = Inl (Fatal (EraseFailedRepaired enhanced (sr_status u))) \<and> (\<exists>s. b = Inr s \<and> is_good s) \<or>
        r = Inl (EraseFailedLockedDisclosed enhanced (sr_status u) (pd_hex d pw))))"
proof (cases "is_good u")
  case True
  obtain v post where p: "post_security d w = (v, post)" by fastforce
  show ?thesis
    using assms post_security_trace [OF p] True
    by (auto simp: after_erase_unit_def p Let_def erase_summary_def)
next
  case False
  obtain v ok where n: "no_harm_repair d pw w = (v, ok)" by fastforce
  obtain x post where p: "post_security d v = (x, post)" by fastforce
  obtain b where b: "sw_trace v = sw_trace w @ [(disable_rq pw, b)]" "ok \<longleftrightarrow> (\<exists>s. b = Inr s \<and> is_good s)"
    using no_harm_repair_trace [OF n] by (elim exE conjE) (rule that)
  obtain a where a: "sw_trace x = sw_trace v @ [(identify_rq, a)]"
    using post_security_trace [OF p] by (elim exE) (rule that)
  have r: "w' = x" "r = (if ok \<and> \<not> as_locked post then Inl (Fatal (EraseFailedRepaired enhanced (sr_status u)))
      else Inl (EraseFailedLockedDisclosed enhanced (sr_status u) (pd_hex d pw)))"
    using assms False by (auto simp: after_erase_unit_def n p split: if_splits)
  show ?thesis
    using r a b False by (intro exI [of _ "[(disable_rq pw, b), (identify_rq, a)]"]) auto
qed

lemma execute_security_erase_run:
  assumes "execute_security_erase d enhanced fb g w = (w', r)"
  shows "\<exists>tr. sw_trace w' = sw_trace w @ tr \<and> erase_run (pd_hex d) enhanced tr (failure_of r) \<and>
    (\<forall>s. r = Inr s \<longrightarrow> erase_summary enhanced fb g s)"
proof -
  obtain s1 rnd where rnd: "pd_random d (sw_dev w) = (s1, rnd)" by fastforce
  show ?thesis
  proof (cases rnd)
    case (Inl e)
    then show ?thesis using assms rnd by (intro exI [of _ "[]"]) (auto simp: execute_security_erase_def no_random)
  next
    case pw: (Inr pw)
    let ?set = "encode_sat_security_set_password False pw"
    obtain w1 a1 where i1: "issue d (fst ?set) (ToDev (snd ?set)) security_erase_timeout_ms (w\<lparr>sw_dev := s1\<rparr>) = (w1, a1)"
      by fastforce
    have t1: "sw_trace w1 = sw_trace w @ [(set_password_rq pw, a1)]"
      using issue_trace [OF i1] by (simp add: password_rq_def)
    note unf = execute_security_erase_def rnd pw i1 split_beta
    show ?thesis
    proof (cases "\<exists>r1. a1 = Inr r1 \<and> is_good r1")
      case False
      then have "w' = w1" "(\<exists>e. a1 = Inl e \<and> r = Inl (Fatal (TransportFault e))) \<or>
          (\<exists>r1. a1 = Inr r1 \<and> \<not> is_good r1 \<and> r = Inl (Fatal (SetPasswordFailed (sr_status r1))))"
        using assms by (cases a1; simp add: unf)+
      then show ?thesis using t1 by (auto intro: set_fault set_refused)
    next
      case True
      then obtain r1 where r1: "a1 = Inr r1" "is_good r1" by blast
      obtain w2 a2 where i2: "issue d encode_sat_security_erase_prepare XferNone security_erase_timeout_ms w1 = (w2, a2)"
        by fastforce
      have t2: "sw_trace w2 = sw_trace w @ [(set_password_rq pw, Inr r1), (prepare_rq, a2)]"
        using issue_trace [OF i2] t1 r1 by (simp add: prepare_rq_def)
      show ?thesis
      proof (cases "\<exists>r2. a2 = Inr r2 \<and> is_good r2")
        case False
        show ?thesis
        proof (cases a2)
          case (Inl e)
          then show ?thesis using assms r1 t2 by (auto simp: unf i2 intro: prepare_fault)
        next
          case (Inr r2)
          obtain v ok where n: "no_harm_repair d pw w2 = (v, ok)" by fastforce
          obtain b where b: "sw_trace v = sw_trace w2 @ [(disable_rq pw, b)]"
            using no_harm_repair_trace [OF n] by (elim exE conjE) (rule that)
          have "w' = v" "r = Inl (Fatal (ErasePrepareFailed (sr_status r2)))"
            using assms r1 Inr False by (simp_all add: unf i2 n)
          then show ?thesis using t2 b r1 Inr False by (auto intro: prepare_refused)
        qed
      next
        case True
        then obtain r2 where r2: "a2 = Inr r2" "is_good r2" by blast
        let ?unit = "encode_sat_security_erase_unit_auth False enhanced pw"
        obtain w3 a3 where i3: "issue d (fst ?unit) (ToDev (snd ?unit)) security_erase_timeout_ms w2 = (w3, a3)"
          by fastforce
        have t3: "sw_trace w3 = sw_trace w @
            [(set_password_rq pw, Inr r1), (prepare_rq, Inr r2), (erase_unit_rq enhanced pw, a3)]"
          using issue_trace [OF i3] t2 r2 by (simp add: password_rq_def)
        show ?thesis
        proof (cases a3)
          case (Inl e)
          then show ?thesis using assms r1 r2 t3 by (auto simp: unf i2 i3 intro: unit_fault)
        next
          case (Inr u)
          then have after: "after_erase_unit d enhanced fb g pw u w3 = (w', r)"
            using assms r1 r2 by (simp add: unf i2 i3)
          from after_erase_unit_run [OF after] show ?thesis
            using t3 Inr r1 r2
            by (cases "is_good u") (auto intro: erased repaired disclosed)
        qed
      qed
    qed
  qed
qed

section \<open>Geometry\<close>

definition dco_rq :: sat_request where
  "dco_rq = \<lparr>sq_cdb = encode_sat_device_config_identify, sq_xfer = FromDev 512, sq_timeout_ms = read_timeout_ms\<rparr>"

definition native_rq :: sat_request where
  "native_rq = \<lparr>sq_cdb = encode_sat_read_native_max_ext, sq_xfer = XferNone, sq_timeout_ms = read_timeout_ms\<rparr>"

definition set_max_rq :: "u64 \<Rightarrow> sat_request" where
  "set_max_rq lba = \<lparr>sq_cdb = encode_sat_set_max_ext lba, sq_xfer = XferNone, sq_timeout_ms = read_timeout_ms\<rparr>"

lemma dco_ceiling_trace:
  assumes "dco_ceiling d visible w = (w', cap)"
  shows "\<exists>a. sw_trace w' = sw_trace w @ [(dco_rq, a)]"
  using assms by (auto simp: dco_ceiling_def dco_rq_def split: prod.splits sum.splits dest!: issue_trace)

lemma native_ceiling_trace:
  assumes "native_ceiling d visible w = (w', cap)"
  shows "\<exists>a. sw_trace w' = sw_trace w @ [(native_rq, a)]"
  using assms by (auto simp: native_ceiling_def native_rq_def split: prod.splits sum.splits dest!: issue_trace)

lemmas geometry_defs = begin_geometry_def stage_dco_restore_def stage_hpa_unlock_def commit_geometry_def

text \<open>The exchanges of the restoration, given what the drive says of its capacities, and what is recorded.\<close>

definition geometry_run :: "u64 \<Rightarrow> exchange list \<Rightarrow> geometry_transaction \<Rightarrow> bool" where
  "geometry_run visible tr g \<longleftrightarrow> (\<exists>a b native tail.
     tr = (dco_rq, a) # (native_rq, b) # tail \<and> gt_committed g \<and>
     (DcoRestore \<in> gs_op ` set (gt_stages g) \<longleftrightarrow> native < gt_dco_max_capacity g) \<and>
     (if visible < native then (\<exists>c. tail = [(set_max_rq native, c)] \<and>
        (HpaUnlock \<in> gs_op ` set (gt_stages g) \<longleftrightarrow> (\<exists>r. c = Inr r \<and> is_good r)))
      else tail = [] \<and> HpaUnlock \<notin> gs_op ` set (gt_stages g)) \<and>
     gt_current_capacity g = (if HpaUnlock \<in> gs_op ` set (gt_stages g) then max native (gt_dco_max_capacity g) else visible))"

lemma restore_geometry_run:
  assumes "restore_geometry d ident w = (w', g)"
  shows "\<exists>tr. sw_trace w' = sw_trace w @ tr \<and> geometry_run (id_lba48_sectors ident) tr g"
proof -
  let ?visible = "id_lba48_sectors ident"
  obtain w1 dco where d: "dco_ceiling d ?visible w = (w1, dco)" by fastforce
  obtain w2 native where n: "native_ceiling d ?visible w1 = (w2, native)" by fastforce
  obtain a where a: "sw_trace w1 = sw_trace w @ [(dco_rq, a)]" using dco_ceiling_trace [OF d] by (elim exE) (rule that)
  obtain b where b: "sw_trace w2 = sw_trace w1 @ [(native_rq, b)]" using native_ceiling_trace [OF n] by (elim exE) (rule that)
  show ?thesis
  proof (cases "?visible < native")
    case False
    then have "w' = w2" "g = commit_geometry (fst (if native < dco
        then stage_dco_restore 1 (begin_geometry (pd_hash d) ?visible native dco)
        else (begin_geometry (pd_hash d) ?visible native dco, 1)))"
      using assms by (auto simp: restore_geometry_def d n Let_def split: prod.splits)
    then show ?thesis
      using a b False by (auto simp: geometry_run_def geometry_defs)
  next
    case True
    obtain w3 c where i: "issue d (encode_sat_set_max_ext native) XferNone read_timeout_ms w2 = (w3, c)" by fastforce
    have t: "sw_trace w3 = sw_trace w2 @ [(set_max_rq native, c)]"
      using issue_trace [OF i] by (simp add: set_max_rq_def)
    obtain tx gen where tx: "(tx, gen) = (if native < dco
        then stage_dco_restore 1 (begin_geometry (pd_hash d) ?visible native dco)
        else (begin_geometry (pd_hash d) ?visible native dco, 1))" by (metis surj_pair)
    obtain good where good: "good \<longleftrightarrow> (\<exists>r. c = Inr r \<and> is_good r)" by blast
    have g: "w' = w3" "g = commit_geometry (if good then stage_hpa_unlock gen tx else tx)"
      using assms True unfolding good by (auto simp: restore_geometry_def d n Let_def i tx [symmetric] split: sum.splits)
    have s: "gt_stages tx = (if native < dco
        then [\<lparr>gs_op = DcoRestore, gs_fd_gen = 1, gs_cap_before = native, gs_cap_after = dco\<rparr>] else [])"
      "gt_native_capacity tx = (if native < dco then dco else native)" "gt_dco_max_capacity tx = dco"
      "gt_current_capacity tx = ?visible"
      using tx by (auto simp: geometry_defs split: if_splits)
    have ops: "gs_op ` set (gt_stages g) = (if native < dco then {DcoRestore} else {}) \<union> (if good then {HpaUnlock} else {})"
      by (simp add: g(2) s commit_geometry_def stage_hpa_unlock_def)
    have caps: "gt_dco_max_capacity g = dco" "gt_committed g"
      by (simp_all add: g(2) s commit_geometry_def stage_hpa_unlock_def)
    have "gt_current_capacity g = (if good then if native < dco then dco else native else ?visible)"
      by (simp add: g(2) s commit_geometry_def stage_hpa_unlock_def)
    then have cur: "gt_current_capacity g = (if good then max native dco else ?visible)"
      by (cases "native < dco") (auto simp: max_absorb1 max_absorb2 not_less)
    have "geometry_run ?visible [(dco_rq, a), (native_rq, b), (set_max_rq native, c)] g"
      unfolding geometry_run_def
      by (rule exI [of _ a], rule exI [of _ b], rule exI [of _ native], rule exI [of _ "[(set_max_rq native, c)]"])
         (simp add: ops caps cur True good [symmetric])
    then show ?thesis using a b t g(1) by (intro exI [of _ "[(dco_rq, a), (native_rq, b), (set_max_rq native, c)]"]) simp
  qed
qed

lemma geometry_run_short: "geometry_run v tr g \<Longrightarrow> length tr \<le> 3"
  by (auto simp: geometry_run_def split: if_splits)

section \<open>The ladder\<close>

fun sanitize_mechanism :: "ata_sanitize_feature \<Rightarrow> purge_mechanism" where
  "sanitize_mechanism CryptoScramble = SanitizeCryptoScramble"
| "sanitize_mechanism _ = SanitizeBlockErase"

text \<open>\<open>n\<close> bounds the polls, \<open>k\<close> the controller rejections that may still walk the ladder down.\<close>

inductive ladder_run :: "(byte list \<Rightarrow> string) \<Rightarrow> nat \<Rightarrow> nat \<Rightarrow> exchange list \<Rightarrow> purge_error + purge_summary \<Rightarrow> bool"
  for hex :: "byte list \<Rightarrow> string" and n :: nat where
  sanitize_done: "sanitized f st tr \<Longrightarrow> length tr \<le> n + 2 \<Longrightarrow> ps_executed_mechanism s = sanitize_mechanism f \<Longrightarrow>
    ps_completion_evidence s = SanitizeStatusLog \<Longrightarrow> ps_sanitize_status s = Some st \<Longrightarrow> f \<noteq> Overwrite \<Longrightarrow>
    ladder_run hex n k tr (Inr s)"
| sanitize_fatal: "fst ` set tr \<subseteq> {sanitize_rq f, status_rq} \<Longrightarrow> length tr \<le> n + 2 \<Longrightarrow> ladder_run hex n k tr (Inl (Fatal e))"
| rejected: "rejected_by_controller f reason x \<Longrightarrow> ladder_run hex n k tr r \<Longrightarrow> ladder_run hex n (Suc k) (x # tr) r"
| unsupported: "ladder_run hex n k [] (Inl (Fatal SecurityUnsupported))"
| erase: "erase_run hex enhanced tr (failure_of r) \<Longrightarrow>
    \<forall>s. r = Inr s \<longrightarrow> erase_summary enhanced fb g s \<Longrightarrow> ladder_run hex n k tr r"

text \<open>One sanitize rung: over, fatal, or one rejected exchange further down.\<close>

lemma sanitize_rung:
  assumes "run_sanitize d f w = (v, x)"
  shows "\<exists>added. sw_trace v = sw_trace w @ added \<and> length added \<le> pd_max_polls d + 2 \<and>
    fst ` set added \<subseteq> {sanitize_rq f, status_rq} \<and>
    (\<forall>st p. x = Inr (st, p) \<longrightarrow> sanitized f st added) \<and>
    (\<forall>reason. x = Inl (Rejected reason) \<longrightarrow> (\<exists>y. added = [y] \<and> rejected_by_controller f reason y))"
  using run_sanitize_trace [OF assms] by (elim exE conjE) (rule exI, intro conjI, assumption+, blast+)

definition ladder_result :: "'s purge_deps \<Rightarrow> nat \<Rightarrow> geometry_transaction \<Rightarrow> 's sat_world \<Rightarrow>
    's sat_world \<times> (purge_error + purge_summary) \<Rightarrow> bool" where
  "ladder_result d k g w wr \<longleftrightarrow> (\<exists>tr. sw_trace (fst wr) = sw_trace w @ tr \<and>
     ladder_run (pd_hex d) (pd_max_polls d) k tr (snd wr) \<and> (\<forall>s. snd wr = Inr s \<longrightarrow> ps_geometry s = g))"

lemma ladder_result_erase: "ladder_result d k g w (execute_security_erase d enhanced fb g w)"
proof -
  obtain v r where r: "execute_security_erase d enhanced fb g w = (v, r)" by fastforce
  obtain tr where "sw_trace v = sw_trace w @ tr" "erase_run (pd_hex d) enhanced tr (failure_of r)"
    "\<forall>s. r = Inr s \<longrightarrow> erase_summary enhanced fb g s"
    using execute_security_erase_run [OF r] by (elim exE conjE) (rule that)
  then show ?thesis unfolding r ladder_result_def fst_conv snd_conv by (metis erase erase_summary_def)
qed

lemma ladder_result_sanitize:
  assumes x: "run_sanitize d f w = (v, x)" and f: "f \<noteq> Overwrite"
    and wr: "wr = (case x of Inr (status, progress) \<Rightarrow>
        (v, Inr (finalize_summary (sanitize_mechanism f) fb SanitizeStatusLog (Some status) progress g))
      | Inl (Rejected reason) \<Rightarrow> go reason
      | Inl (StepFatal reason) \<Rightarrow> (v, Inl (Fatal reason)))"
    and down: "\<And>reason. x = Inl (Rejected reason) \<Longrightarrow> ladder_result d k g v (go reason)"
  shows "ladder_result d (Suc k) g w wr"
proof -
  obtain added where a: "sw_trace v = sw_trace w @ added" "length added \<le> pd_max_polls d + 2"
      "fst ` set added \<subseteq> {sanitize_rq f, status_rq}" "\<forall>st p. x = Inr (st, p) \<longrightarrow> sanitized f st added"
      "\<forall>reason. x = Inl (Rejected reason) \<longrightarrow> (\<exists>y. added = [y] \<and> rejected_by_controller f reason y)"
    using sanitize_rung [OF x] by (elim exE conjE) (rule that)
  consider st p where "x = Inr (st, p)" | reason where "x = Inl (Rejected reason)" | e where "x = Inl (StepFatal e)"
    by (metis obj_sumE sanitize_step.exhaust surj_pair)
  then show ?thesis
  proof cases
    case 1
    then have "ladder_run (pd_hex d) (pd_max_polls d) (Suc k) added (snd wr)"
      using a f by (auto simp: wr finalize_summary_def intro: sanitize_done)
    then show ?thesis using a(1) 1 by (auto simp: ladder_result_def wr finalize_summary_def)
  next
    case 2
    obtain y where y: "added = [y]" "rejected_by_controller f reason y" using a(5) 2 by blast
    obtain tr where tr: "sw_trace (fst (go reason)) = sw_trace v @ tr"
        "ladder_run (pd_hex d) (pd_max_polls d) k tr (snd (go reason))"
        "\<forall>s. snd (go reason) = Inr s \<longrightarrow> ps_geometry s = g"
      using down [OF 2] unfolding ladder_result_def by (elim exE conjE) (rule that)
    have "ladder_run (pd_hex d) (pd_max_polls d) (Suc k) (y # tr) (snd wr)"
      using rejected [OF y(2) tr(2)] by (simp add: wr 2)
    then show ?thesis
      unfolding ladder_result_def using tr(1,3) a(1) y(1) by (intro exI [of _ "y # tr"]) (simp add: wr 2)
  next
    case 3
    then have "ladder_run (pd_hex d) (pd_max_polls d) (Suc k) added (snd wr)"
      using sanitize_fatal [OF a(3,2)] by (simp add: wr)
    then show ?thesis using a(1) 3 by (auto simp: ladder_result_def wr)
  qed
qed

lemma ladder_result_ladder: "ladder_result d (rung m) g w (ladder d ident g m fb w)"
proof -
  have unsup: "ladder_result d k g w (w, Inl (Fatal SecurityUnsupported))" for k and w :: "'a sat_world"
    by (auto simp: ladder_result_def intro: unsupported)
  have sec: "ladder_result d k g w (ladder d ident g m fb w)"
    if "m \<in> {SecurityEraseEnhanced, SecurityEraseNormal}" for k m fb and w :: "'a sat_world"
    using that by (subst ladder.simps) (auto simp: unsup ladder_result_erase Let_def)
  have block: "ladder_result d 1 g w (ladder d ident g SanitizeBlockErase fb w)" for fb and w :: "'a sat_world"
  proof -
    obtain v x where x: "run_sanitize d BlockErase w = (v, x)" by fastforce
    show ?thesis
      unfolding One_nat_def
      by (rule ladder_result_sanitize [OF x, where go = "\<lambda>reason. ladder d ident g SecurityEraseEnhanced
           (fb @ [\<lparr>mf_from = ''SanitizeBlockErase'', mf_to = ''SecurityEraseEnhanced'', mf_reason = reason\<rparr>]) v" and fb = fb])
         (simp_all add: sec ladder.simps [of d ident g SanitizeBlockErase] x split: sum.splits sanitize_step.splits)
  qed
  show ?thesis
  proof (cases m)
    case SanitizeCryptoScramble
    obtain v x where x: "run_sanitize d CryptoScramble w = (v, x)" by fastforce
    have "ladder_result d (Suc 1) g w (ladder d ident g SanitizeCryptoScramble fb w)"
      by (rule ladder_result_sanitize [OF x, where go = "\<lambda>reason. ladder d ident g SanitizeBlockErase
           (fb @ [\<lparr>mf_from = ''SanitizeCryptoScramble'', mf_to = ''SanitizeBlockErase'', mf_reason = reason\<rparr>]) v" and fb = fb])
         (simp_all add: block [unfolded One_nat_def] ladder.simps [of d ident g SanitizeCryptoScramble] x split: sum.splits sanitize_step.splits)
    then show ?thesis by (simp add: SanitizeCryptoScramble numeral_2_eq_2)
  qed (simp_all add: sec block [unfolded One_nat_def])
qed

section \<open>A whole purge\<close>


lemma erase_run_short: "erase_run hex enhanced tr e \<Longrightarrow> length tr \<le> 5"
  by (induction rule: erase_run.induct) simp_all

lemma ladder_run_short: "ladder_run hex n k tr r \<Longrightarrow> length tr \<le> k + n + 5"
  by (induction rule: ladder_run.induct) (auto dest: erase_run_short)

definition purge_run :: "(byte list \<Rightarrow> string) \<Rightarrow> nat \<Rightarrow> exchange list \<Rightarrow> purge_error + purge_summary \<Rightarrow> bool" where
  "purge_run hex n tr r \<longleftrightarrow> (\<exists>a rest. tr = (identify_rq, a) # rest \<and>
     (rest = [] \<and> (\<exists>e. r = Inl (Fatal e)) \<or>
      (\<exists>reply i geo g. a = Inr reply \<and> is_good reply \<and> decode_identify_device (sr_data_in reply) = Inr i \<and>
         \<not> as_frozen (id_security i) \<and> \<not> as_locked (id_security i) \<and> geometry_run (id_lba48_sectors i) geo g \<and>
         (rest = geo \<and> r = Inl (Fatal NoPurgeMechanism) \<or>
          (\<exists>tr'. rest = geo @ tr' \<and> ladder_run hex n 2 tr' r \<and> (\<forall>s. r = Inr s \<longrightarrow> ps_geometry s = g))))))"

lemma purge_run_cases:
  assumes "purge_run hex n tr r"
  obtains (refused) a e where "tr = [(identify_rq, a)]" "r = Inl (Fatal e)"
  | (identified) reply i geo g where "is_good reply" "decode_identify_device (sr_data_in reply) = Inr i"
      "\<not> as_frozen (id_security i)" "\<not> as_locked (id_security i)" "geometry_run (id_lba48_sectors i) geo g"
      "tr = (identify_rq, Inr reply) # geo" "r = Inl (Fatal NoPurgeMechanism)"
  | (climbed) reply i geo g tr' where "is_good reply" "decode_identify_device (sr_data_in reply) = Inr i"
      "\<not> as_frozen (id_security i)" "\<not> as_locked (id_security i)" "geometry_run (id_lba48_sectors i) geo g"
      "tr = (identify_rq, Inr reply) # geo @ tr'" "ladder_run hex n 2 tr' r" "\<forall>s. r = Inr s \<longrightarrow> ps_geometry s = g"
  using assms unfolding purge_run_def by blast

lemma ladder_run_mono: "ladder_run hex n k tr r \<Longrightarrow> k \<le> k' \<Longrightarrow> ladder_run hex n k' tr r"
proof (induction arbitrary: k' rule: ladder_run.induct)
  case (rejected f reason x k tr r)
  then obtain k'' where "k' = Suc k''" "k \<le> k''" by (metis Suc_le_D Suc_le_mono)
  then show ?case using rejected by (auto intro: ladder_run.rejected)
next
  case (sanitize_fatal tr f k e)
  then show ?case by (intro ladder_run.sanitize_fatal)
qed (auto intro: ladder_run.intros)

lemma purge_ladder_run:
  assumes "execute_purge_ladder d permit requested w = (w', r)"
  shows "\<exists>tr. sw_trace w' = sw_trace w @ tr \<and> purge_run (pd_hex d) (pd_max_polls d) tr r"
proof -
  obtain v x where x: "identify d w = (v, x)" by fastforce
  obtain a where a: "sw_trace v = sw_trace w @ [(identify_rq, a)]"
      "\<forall>i. x = Inr i \<longrightarrow> (\<exists>reply. a = Inr reply \<and> is_good reply \<and> decode_identify_device (sr_data_in reply) = Inr i)"
    using identify_trace [OF x] by (elim exE conjE) (rule that)
  show ?thesis
  proof (cases "\<exists>i. x = Inr i \<and> \<not> as_frozen (id_security i) \<and> \<not> as_locked (id_security i)")
    case False
    then have "w' = v" "\<exists>e. r = Inl (Fatal e)"
      using assms by (auto simp: execute_purge_ladder_def x split: sum.splits if_splits)
    then show ?thesis using a(1) by (auto simp: purge_run_def)
  next
    case True
    then obtain i where i: "x = Inr i" "\<not> as_frozen (id_security i)" "\<not> as_locked (id_security i)" by blast
    obtain reply where reply: "a = Inr reply" "is_good reply" "decode_identify_device (sr_data_in reply) = Inr i"
      using a(2) i(1) by blast
    obtain u g where g: "restore_geometry d i v = (u, g)" by fastforce
    obtain geo where geo: "sw_trace u = sw_trace v @ geo" "geometry_run (id_lba48_sectors i) geo g"
      using restore_geometry_run [OF g] by (elim exE conjE) (rule that)
    obtain choice where c: "choice = (case requested of Some m \<Rightarrow> Some m | None \<Rightarrow> auto_primary i)" by blast
    have run: "(w', r) = (case choice of None \<Rightarrow> (u, Inl (Fatal NoPurgeMechanism)) | Some m \<Rightarrow> ladder d i g m [] u)"
      using assms i by (simp add: execute_purge_ladder_def x g c)
    show ?thesis
    proof (cases choice)
      case None
      then show ?thesis
        using run a(1) geo i reply
        by (intro exI [of _ "(identify_rq, a) # geo"]) (auto simp: purge_run_def)
    next
      case (Some m)
      have l: "ladder d i g m [] u = (w', r)" using run Some by simp
      obtain tr where tr: "sw_trace w' = sw_trace u @ tr" "ladder_run (pd_hex d) (pd_max_polls d) (rung m) tr r"
          "\<forall>s. r = Inr s \<longrightarrow> ps_geometry s = g"
        using ladder_result_ladder [of d m g u i "[]"] unfolding l ladder_result_def fst_conv snd_conv
        by (elim exE conjE) (rule that)
      have "ladder_run (pd_hex d) (pd_max_polls d) 2 tr r"
        by (rule ladder_run_mono [OF tr(2)]) (cases m; simp)
      then have "purge_run (pd_hex d) (pd_max_polls d) ((identify_rq, a) # geo @ tr) r"
        unfolding purge_run_def using reply i geo(2) tr(3) by blast
      then show ?thesis using tr(1) geo(1) a(1) by (intro exI [of _ "(identify_rq, a) # geo @ tr"]) simp
    qed
  qed
qed

text \<open>What stands behind a certificate, by mechanism.\<close>

definition completed_by :: "(byte list \<Rightarrow> string) \<Rightarrow> purge_summary \<Rightarrow> exchange list \<Rightarrow> bool" where
  "completed_by hex s tr \<longleftrightarrow>
     (case ps_completion_evidence s of
        SanitizeStatusLog \<Rightarrow> \<exists>f st. f \<noteq> Overwrite \<and> ps_executed_mechanism s = sanitize_mechanism f \<and>
          ps_sanitize_status s = Some st \<and> sanitized f st tr
      | BlockingEraseReturn \<Rightarrow> \<exists>enhanced. ps_executed_mechanism s =
          (if enhanced then SecurityEraseEnhanced else SecurityEraseNormal) \<and> erase_run hex enhanced tr None)"

lemma ladder_run_completed:
  assumes "ladder_run hex n k tr r" and "r = Inr s"
  shows "\<exists>rej tail. tr = rej @ tail \<and> (\<forall>x \<in> set rej. \<exists>f reason. rejected_by_controller f reason x) \<and> completed_by hex s tail"
  using assms
proof (induction rule: ladder_run.induct)
  case (sanitize_done f st tr s' k)
  have s: "s' = s" using sanitize_done.prems by simp
  have "completed_by hex s tr"
    unfolding completed_by_def using sanitize_done.hyps [unfolded s]
    by (simp only: completion_evidence.case) (intro exI [of _ f] exI [of _ st], simp)
  then show ?case by (intro exI [of _ "[]"] exI [of _ tr]) simp
next
  case (rejected f reason x k tr r)
  obtain rej tail where tr: "tr = rej @ tail" and rej: "\<forall>x \<in> set rej. \<exists>f reason. rejected_by_controller f reason x"
    and tail: "completed_by hex s tail" using rejected.IH [OF rejected.prems] by (elim exE conjE) (rule that)
  have "\<forall>y \<in> set (x # rej). \<exists>f reason. rejected_by_controller f reason y"
  proof
    fix y assume "y \<in> set (x # rej)"
    then consider "y = x" | "y \<in> set rej" by auto
    then show "\<exists>f reason. rejected_by_controller f reason y" using rejected.hyps(1) rej by cases blast+
  qed
  then show ?case using tr tail by (intro exI [of _ "x # rej"] exI [of _ tail] conjI) simp_all
next
  case (erase enhanced tr r fb g k)
  have "failure_of r = None" "erase_summary enhanced fb g s" using erase.hyps(2) erase.prems by simp_all
  then have "completed_by hex s tr"
    unfolding completed_by_def using erase.hyps(1)
    by (cases enhanced) (simp_all add: erase_summary_def, (rule exI, simp)+)
  then show ?case by (intro exI [of _ "[]"] exI [of _ tr]) simp
qed simp_all

text \<open>The command byte tells the requests apart.\<close>

lemma request_commands [simp]:
  "cdb_command (sq_cdb identify_rq) = 0xEC" "cdb_command (sq_cdb (sanitize_rq f)) = 0xB4"
  "cdb_command (sq_cdb status_rq) = 0xB0" "cdb_command (sq_cdb (set_password_rq pw)) = 0xF1"
  "cdb_command (sq_cdb (erase_unit_rq enhanced pw)) = 0xF4" "cdb_command (sq_cdb (disable_rq pw)) = 0xF6"
  "cdb_command (sq_cdb prepare_rq) = 0xF3" "cdb_command (sq_cdb dco_rq) = 0xB1"
  "cdb_command (sq_cdb native_rq) = 0x27" "cdb_command (sq_cdb (set_max_rq lba)) = 0x37"
  by (simp_all add: identify_rq_def sanitize_rq_def status_rq_def password_rq_def prepare_rq_def dco_rq_def
      native_rq_def set_max_rq_def encode_sat_identify_device_def encode_sat_sanitize_device_def
      encode_sat_smart_read_log_def encode_sat_security_set_password_def encode_sat_security_erase_unit_auth_def
      encode_sat_security_disable_password_def encode_sat_security_erase_prepare_def
      encode_sat_device_config_identify_def encode_sat_read_native_max_ext_def encode_sat_set_max_ext_def Let_def)
     (simp add: cdb_command_def encode_sat_passthrough_16_framed_def)

lemma request_distinct: "cdb_command (sq_cdb a) \<noteq> cdb_command (sq_cdb b) \<Longrightarrow> a \<noteq> b"
  by auto

lemma set_password_inject [simp]: "set_password_rq pw = set_password_rq pw' \<longleftrightarrow> pw = pw'"
  by (simp add: password_rq_def encode_sat_security_set_password_def security_password_payload_def)

text \<open>A password enters the drive in the erase pipeline only.\<close>

lemma geometry_run_commands:
  "geometry_run v tr g \<Longrightarrow> (\<lambda>x. cdb_command (sq_cdb (fst x))) ` set tr \<subseteq> {0xB1, 0x27, 0x37}"
  by (auto simp: geometry_run_def split: if_splits)

lemma sanitize_commands:
  assumes "fst ` set tr \<subseteq> {sanitize_rq f, status_rq}"
  shows "(\<lambda>x. cdb_command (sq_cdb (fst x))) ` set tr \<subseteq> {0xB4, 0xB0}"
  using assms by (auto simp: image_subset_iff)

lemma password_sent_command: "(set_password_rq pw, a) \<in> set tr \<Longrightarrow> 0xF1 \<in> (\<lambda>x. cdb_command (sq_cdb (fst x))) ` set tr"
  by (metis (mono_tags, lifting) fst_conv image_eqI request_commands(4))

text \<open>The fate of a password: disclosed with the failure, removed again, or lost in one of two ways.\<close>

definition lifeline_kept :: "(byte list \<Rightarrow> string) \<Rightarrow> byte list \<Rightarrow> exchange list \<Rightarrow> purge_error \<Rightarrow> bool" where
  "lifeline_kept hex pw tr e \<longleftrightarrow>
     (\<exists>enhanced st. e = EraseFailedLockedDisclosed enhanced st (hex pw)) \<or>
     (\<exists>s. (disable_rq pw, Inr s) \<in> set tr \<and> is_good s)"

definition lifeline_lost :: "exchange list \<Rightarrow> purge_error \<Rightarrow> bool" where
  "lifeline_lost tr e \<longleftrightarrow>
     (\<exists>c. e = Fatal (TransportFault c) \<and> (\<forall>x \<in> set tr. cdb_command (sq_cdb (fst x)) \<noteq> 0xF6)) \<or>
     (\<exists>st. e = Fatal (ErasePrepareFailed st))"

lemma erase_run_lifeline:
  assumes "erase_run hex enhanced tr err" and "err = Some e" and "(set_password_rq pw, Inr r) \<in> set tr" and "is_good r"
  shows "lifeline_kept hex pw tr e \<or> lifeline_lost tr e"
proof -
  have d: "set_password_rq pw \<noteq> prepare_rq" "set_password_rq pw \<noteq> identify_rq" "set_password_rq pw \<noteq> erase_unit_rq en p"
    "set_password_rq pw \<noteq> disable_rq p" for en p
    by (rule request_distinct, simp)+
  show ?thesis
    using assms
    by (induction rule: erase_run.induct) (auto simp: lifeline_kept_def lifeline_lost_def d)
qed

lemma ladder_run_lifeline:
  assumes "ladder_run hex n k tr res" and "res = Inl e" and "(set_password_rq pw, Inr r) \<in> set tr" and "is_good r"
  shows "lifeline_kept hex pw tr e \<or> lifeline_lost tr e"
  using assms
proof (induction rule: ladder_run.induct)
  case (sanitize_fatal tr f k e')
  have "0xF1 \<in> (\<lambda>x. cdb_command (sq_cdb (fst x))) ` set tr"
    by (rule password_sent_command [OF sanitize_fatal.prems(2)])
  then have "(0xF1 :: byte) \<in> {0xB4, 0xB0}" using sanitize_commands [OF sanitize_fatal.hyps(1)] by (rule subsetD [rotated])
  then show ?case by simp
next
  case (rejected f reason x k tr res)
  have x: "cdb_command (sq_cdb (fst x)) = 0xB4" using rejected.hyps(1) by (auto simp: rejected_by_controller_def)
  then have "(set_password_rq pw, Inr r) \<in> set tr" using rejected.prems(2) by auto
  from rejected.IH [OF rejected.prems(1) this rejected.prems(3)] show ?case
  proof
    assume "lifeline_kept hex pw tr e"
    then show ?thesis unfolding lifeline_kept_def by (metis list.set_intros(2))
  next
    assume "lifeline_lost tr e"
    then show ?thesis unfolding lifeline_lost_def using x by (elim disjE exE conjE) (simp_all, blast?)
  qed
next
  case (erase enhanced tr res fb g k)
  have "failure_of res = Some e" using erase.prems(1) by simp
  from erase_run_lifeline [OF erase.hyps(1) this erase.prems(2,3)] show ?case .
qed simp_all

text \<open>No rung and no step of the geometry sends DEVICE CONFIGURATION RESTORE.\<close>

lemma restore_command:
  "cdb_command encode_sat_device_config_restore = 0xB1" "sq_cdb dco_rq \<noteq> encode_sat_device_config_restore"
  by (simp_all add: encode_sat_device_config_restore_def dco_rq_def encode_sat_device_config_identify_def
      encode_sat_passthrough_16_framed_def cdb_command_def)

lemma erase_run_commands:
  "erase_run hex enhanced tr e \<Longrightarrow> (\<lambda>x. cdb_command (sq_cdb (fst x))) ` set tr \<subseteq> {0xEC, 0xF1, 0xF3, 0xF4, 0xF6}"
  by (induction rule: erase_run.induct) simp_all

lemma ladder_run_commands:
  "ladder_run hex n k tr r \<Longrightarrow> (\<lambda>x. cdb_command (sq_cdb (fst x))) ` set tr \<subseteq> {0xB4, 0xB0, 0xEC, 0xF1, 0xF3, 0xF4, 0xF6}"
proof (induction rule: ladder_run.induct)
  case (sanitize_done f st tr s k)
  have "fst ` set tr \<subseteq> {sanitize_rq f, status_rq}" 
    using sanitize_done(1) unfolding sanitized_def image_subset_iff by fastforce
  then show ?case using sanitize_commands by blast
next
  case (sanitize_fatal tr f k e)
  then show ?case using sanitize_commands by blast
next
  case (rejected f reason x k tr r)
  have "cdb_command (sq_cdb (fst x)) = 0xB4" using rejected.hyps(1) by (auto simp: rejected_by_controller_def)
  then show ?case using rejected.IH by simp
next
  case (erase enhanced tr r fb g k)
  show ?case using erase_run_commands [OF erase.hyps(1)] by blast
qed simp

lemma geometry_run_restore_free:
  assumes "geometry_run v tr g" and "x \<in> set tr"
  shows "sq_cdb (fst x) \<noteq> encode_sat_device_config_restore"
proof -
  have "cdb_command (sq_cdb (native_rq)) \<noteq> 0xB1" "cdb_command (sq_cdb (set_max_rq n)) \<noteq> 0xB1" for n by simp_all
  then have "sq_cdb native_rq \<noteq> encode_sat_device_config_restore" "sq_cdb (set_max_rq n) \<noteq> encode_sat_device_config_restore" for n
    using restore_command(1) by metis+
  then show ?thesis
    using assms restore_command(2) by (auto simp: geometry_run_def split: if_splits)
qed

lemma geometry_run_claims:
  assumes "geometry_run v tr g"
  shows "\<exists>native. (DcoRestore \<in> gs_op ` set (gt_stages g) \<longleftrightarrow> native < gt_dco_max_capacity g) \<and>
    (HpaUnlock \<in> gs_op ` set (gt_stages g) \<longrightarrow>
       (\<exists>r. (set_max_rq native, Inr r) \<in> set tr \<and> is_good r) \<and> gt_current_capacity g = max native (gt_dco_max_capacity g))"
proof -
  obtain a b native tail where g: "tr = (dco_rq, a) # (native_rq, b) # tail"
    "DcoRestore \<in> gs_op ` set (gt_stages g) \<longleftrightarrow> native < gt_dco_max_capacity g"
    "if v < native then (\<exists>c. tail = [(set_max_rq native, c)] \<and>
        (HpaUnlock \<in> gs_op ` set (gt_stages g) \<longleftrightarrow> (\<exists>r. c = Inr r \<and> is_good r)))
      else tail = [] \<and> HpaUnlock \<notin> gs_op ` set (gt_stages g)"
    "gt_current_capacity g = (if HpaUnlock \<in> gs_op ` set (gt_stages g) then max native (gt_dco_max_capacity g) else v)"
    using assms unfolding geometry_run_def by (elim exE conjE) (rule that)
  show ?thesis
    by (rule exI [of _ native]) (use g in \<open>auto split: if_splits\<close>)
qed

section \<open>Properties\<close>

text \<open>C15: A purge is certified only on evidence. The drive identified itself as neither frozen nor locked; every
  attempt before the last was rejected by the controller as an illegal request; and the last one
  completed: a sanitize that was accepted and whose last status log says completed and not failed,
  or SET PASSWORD, ERASE PREPARE and ERASE UNIT with the same password, each answered GOOD.\<close>

theorem purge_certifies_only_evidence:
  assumes "execute_purge_ladder d permit requested w = (w', Inr s)"
  shows "\<exists>reply i geo rej tail. sw_trace w' = sw_trace w @ (identify_rq, Inr reply) # geo @ rej @ tail \<and>
    is_good reply \<and> decode_identify_device (sr_data_in reply) = Inr i \<and>
    \<not> as_frozen (id_security i) \<and> \<not> as_locked (id_security i) \<and>
    geometry_run (id_lba48_sectors i) geo (ps_geometry s) \<and>
    (\<forall>x \<in> set rej. \<exists>f reason. rejected_by_controller f reason x) \<and> completed_by (pd_hex d) s tail"
proof -
  obtain tr where tr: "sw_trace w' = sw_trace w @ tr" "purge_run (pd_hex d) (pd_max_polls d) tr (Inr s)"
    using purge_ladder_run [OF assms] by (elim exE conjE) (rule that)
  from tr(2) obtain reply i geo tr' where p: "tr = (identify_rq, Inr reply) # geo @ tr'" "is_good reply"
      "decode_identify_device (sr_data_in reply) = Inr i" "\<not> as_frozen (id_security i)" "\<not> as_locked (id_security i)"
      "geometry_run (id_lba48_sectors i) geo (ps_geometry s)" and l: "ladder_run (pd_hex d) (pd_max_polls d) 2 tr' (Inr s)"
    by (auto simp: purge_run_def)
  obtain rej tail where "tr' = rej @ tail" "\<forall>x \<in> set rej. \<exists>f reason. rejected_by_controller f reason x"
    "completed_by (pd_hex d) s tail" using ladder_run_completed [OF l refl] by (elim exE conjE) (rule that)
  then show ?thesis using tr(1) p by blast
qed

text \<open>A purge ends: it makes at most eleven exchanges beyond the polls it is allowed, whatever the
  drive answers.\<close>

theorem purge_bounded:
  "length (sw_trace (fst (execute_purge_ladder d permit requested w))) \<le> length (sw_trace w) + pd_max_polls d + 11"
proof -
  obtain w' r where x: "execute_purge_ladder d permit requested w = (w', r)" by fastforce
  obtain tr where tr: "sw_trace w' = sw_trace w @ tr" "purge_run (pd_hex d) (pd_max_polls d) tr r"
    using purge_ladder_run [OF x] by (elim exE conjE) (rule that)
  have "length tr \<le> pd_max_polls d + 11"
    using tr(2) by (fastforce simp: purge_run_def dest: geometry_run_short ladder_run_short)
  then show ?thesis using tr(1) x by simp
qed

text \<open>C16: The fate of the password. When a purge fails after the drive accepted a password, the password is
  disclosed with the failure or was removed from the drive, or one of two things happened: a
  transport fault, after which no DISABLE PASSWORD is sent, or a refused ERASE PREPARE.\<close>

theorem lifeline_fate:
  assumes "execute_purge_ladder d permit requested w = (w', Inl e)" and "sw_trace w' = sw_trace w @ tr"
    and "(set_password_rq pw, Inr r) \<in> set tr" and "is_good r"
  shows "lifeline_kept (pd_hex d) pw tr e \<or> lifeline_lost tr e"
proof -
  have run: "purge_run (pd_hex d) (pd_max_polls d) tr (Inl e)"
    using purge_ladder_run [OF assms(1)] assms(2) by auto
  have ident: "set_password_rq pw \<noteq> identify_rq" by (rule request_distinct) simp
  from run show ?thesis
  proof (cases rule: purge_run_cases)
    case (refused a e')
    then show ?thesis using assms(3) ident by simp
  next
    case (identified reply i geo g)
    then show ?thesis
      using assms(3) ident geometry_run_commands [OF identified(5)] password_sent_command [of pw "Inr r" geo] by auto
  next
    case (climbed reply i geo g tr')
    have other: "cdb_command (sq_cdb (fst x)) \<noteq> 0xF6 \<and> cdb_command (sq_cdb (fst x)) \<noteq> 0xF1"
      if "x \<in> set ((identify_rq, Inr reply) # geo)" for x
      using that geometry_run_commands [OF climbed(5)] by auto
    have sent: "(set_password_rq pw, Inr r) \<in> set tr'"
      using assms(3) other [of "(set_password_rq pw, Inr r)"] climbed(6) by auto
    have "lifeline_kept (pd_hex d) pw tr' e \<or> lifeline_lost tr' e"
      by (rule ladder_run_lifeline [OF climbed(7) refl sent assms(4)])
    then show ?thesis
    proof
      assume "lifeline_kept (pd_hex d) pw tr' e"
      then show ?thesis unfolding lifeline_kept_def climbed(6) by auto
    next
      assume "lifeline_lost tr' e"
      then show ?thesis unfolding lifeline_lost_def climbed(6) using other by auto
    qed
  qed
qed

text \<open>A refused ERASE PREPARE loses the password. The client answers it with DISABLE PASSWORD and reports a
  disarmed drive whatever that command returned: when it failed too, the drive keeps a password
  that no output names.\<close>

theorem refused_prepare_loses_password:
  assumes "pd_random d (sw_dev w) = (s1, Inr pw)"
    and "pd_issue d s1 (set_password_rq pw) = (s2, Inr r)" and "is_good r"
    and "pd_issue d s2 prepare_rq = (s3, Inr p)" and "\<not> is_good p"
    and "pd_issue d s3 (disable_rq pw) = (s4, answer)"
  shows "\<exists>w'. execute_security_erase d enhanced fb g w = (w', Inl (Fatal (ErasePrepareFailed (sr_status p)))) \<and>
    sw_dev w' = s4"
  using assms
  by (simp add: execute_security_erase_def issue_def no_harm_repair_def password_rq_def prepare_rq_def split_beta Let_def
      split: sum.splits)

text \<open>C17: The certificate overstates the geometry. The client never sends DEVICE CONFIGURATION RESTORE, yet it
  records the restoration whenever the factory ceiling exceeds the native one; and after a SET MAX
  ADDRESS to the native capacity it records the factory ceiling as the current capacity.\<close>

theorem geometry_claims_unissued_restore:
  assumes "execute_purge_ladder d permit requested w = (w', Inr s)" and "sw_trace w' = sw_trace w @ tr"
  shows "(\<forall>x \<in> set tr. sq_cdb (fst x) \<noteq> encode_sat_device_config_restore) \<and>
    (\<exists>native. (DcoRestore \<in> gs_op ` set (gt_stages (ps_geometry s)) \<longleftrightarrow> native < gt_dco_max_capacity (ps_geometry s)) \<and>
      (HpaUnlock \<in> gs_op ` set (gt_stages (ps_geometry s)) \<longrightarrow> (\<exists>r. (set_max_rq native, Inr r) \<in> set tr \<and> is_good r) \<and>
         gt_current_capacity (ps_geometry s) = max native (gt_dco_max_capacity (ps_geometry s))))"
proof -
  have run: "purge_run (pd_hex d) (pd_max_polls d) tr (Inr s)"
    using purge_ladder_run [OF assms(1)] assms(2) by auto
  obtain reply and i :: ata_identify_data and geo tr' where p: "tr = (identify_rq, Inr reply) # geo @ tr'"
      "geometry_run (id_lba48_sectors i) geo (ps_geometry s)" "ladder_run (pd_hex d) (pd_max_polls d) 2 tr' (Inr s)"
    using run
  proof (cases rule: purge_run_cases)
    case (climbed reply i geo g tr')
    then have "ps_geometry s = g" by simp
    with climbed show thesis by (intro that [of reply geo tr' i]) simp_all
  qed simp_all
  have "sq_cdb (fst x) \<noteq> encode_sat_device_config_restore" if "x \<in> set tr" for x
  proof -
    from that p(1) consider "fst x = identify_rq" | "x \<in> set geo" | "x \<in> set tr'" by auto
    then show ?thesis
    proof cases
      case 1
      then have "cdb_command (sq_cdb (fst x)) = 0xEC" by simp
      then show ?thesis using restore_command(1) by auto
    next
      case 2
      then show ?thesis by (rule geometry_run_restore_free [OF p(2)])
    next
      case 3
      then have "cdb_command (sq_cdb (fst x)) \<noteq> 0xB1" using ladder_run_commands [OF p(3)] by (auto simp: image_subset_iff)
      then show ?thesis using restore_command(1) by auto
    qed
  qed
  then show ?thesis
    using geometry_run_claims [OF p(2)] unfolding p(1) by auto
qed

end
