(* ===== verification/Ata_Demo.thy ===== *)
theory Ata_Demo
  imports Ata_Purge
begin

text \<open>
  Concrete drives for the purge ladder: one with crypto scramble and masked capacity, whose purge
  succeeds, and one whose security erase is refused. A drive is the script of its replies.
\<close>

type_synonym script = "(string + sat_reply) list"

definition good_reply :: sat_reply where
  "good_reply = \<lparr>sr_status = 0, sr_sense = [], sr_data_in = []\<rparr>"

definition refused_reply :: sat_reply where
  "refused_reply = \<lparr>sr_status = 2, sr_sense = [], sr_data_in = []\<rparr>"

definition data_reply :: "byte list \<Rightarrow> sat_reply" where
  "data_reply bs = \<lparr>sr_status = 0, sr_sense = [], sr_data_in = bs\<rparr>"

definition sense_reply :: "byte list \<Rightarrow> sat_reply" where
  "sense_reply bs = \<lparr>sr_status = 2, sr_sense = bs, sr_data_in = []\<rparr>"

definition scripted :: "script purge_deps" where
  "scripted = \<lparr>pd_issue = \<lambda>s rq. (tl s, hd s), pd_random = \<lambda>s. (s, Inr (replicate 32 7)),
     pd_hash = \<lambda>bs. ''00000000'', pd_hex = \<lambda>bs. ''07'', pd_max_polls = 4\<rparr>"

definition world :: "script \<Rightarrow> script sat_world" where
  "world s = \<lparr>sw_dev = s, sw_trace = [], sw_progress = []\<rparr>"

text \<open>IDENTIFY: 1000 visible sectors; word 128 and word 169 as given, word 206 valid.\<close>

definition identify_page :: "byte \<Rightarrow> byte \<Rightarrow> byte list" where
  "identify_page w128 w169 = (replicate 512 0)[200 := 0xE8, 201 := 0x03, 256 := w128, 338 := w169, 413 := 0x10]"

definition identified :: "byte \<Rightarrow> byte \<Rightarrow> ata_identify_data" where
  "identified w128 w169 =
     \<lparr>id_model = decode_ata_string (take 40 (drop 54 (identify_page w128 w169))),
      id_serial = decode_ata_string (take 20 (drop 20 (identify_page w128 w169))),
      id_firmware = decode_ata_string (take 8 (drop 46 (identify_page w128 w169))),
      id_lba48_sectors = 1000, id_security = decode_security (ucast w128) 0 0,
      id_sanitize = decode_sanitize (ucast w169) 0x1000\<rparr>"

lemma identify_page_decoded: "decode_identify_device (identify_page a b) = Inr (identified a b)"
  by (simp add: decode_identify_device_def identified_def identify_page_def capacity_at_def u16_at_def)

text \<open>The masked drive: the factory ceiling is 5000 sectors, the native one 3000.\<close>

definition dco_page :: "byte list" where
  "dco_page = (replicate 512 0)[200 := 0x88, 201 := 0x13]"

definition native_sense :: "byte list" where
  "native_sense = [0x72, 0, 0, 0, 0, 0, 0, 14] @ sense_descriptor 0x09 (return_payload [0, 1, 0, 0] 3000 @ [0x40, 0x50])"

definition completed_log :: "byte list" where
  "completed_log = (replicate 512 0)[4 := 0xFF, 5 := 0xFF, 10 := 0x02]"

definition masked_drive :: script where
  "masked_drive = [Inr (data_reply (identify_page 0x21 0x03)), Inr (data_reply dco_page),
     Inr (sense_reply native_sense), Inr good_reply, Inr good_reply, Inr (data_reply completed_log)]"

definition completed_status :: ata_sanitize_status where
  "completed_status = \<lparr>sst_progress_permille = 1000, sst_is_in_progress = False, sst_is_completed = True,
     sst_is_failed = False, sst_raw_sstat = 2, sst_raw_sprog = 0xFFFF\<rparr>"

lemma demo_pages:
  "decode_device_config_overlay dco_page = Inr 5000"
  "decode_ata_return_descriptor_lba native_sense = Inr 3000"
  "decode_log completed_log = Inr completed_status"
  subgoal by (simp add: decode_device_config_overlay_def dco_page_def capacity_at_def u16_at_def)
  subgoal by (simp add: native_sense_def decode_ata_return_descriptor_lba_def sense_descriptor_def return_payload_def
      descriptor_walk.simps descriptor_lba_def Let_def)
  subgoal by (simp add: decode_log_def completed_log_def u16_at_def completed_status_def)
  done

lemma demo_identified:
  "id_lba48_sectors (identified a b) = 1000"
  "id_security (identified a b) = decode_security (ucast a) 0 0"
  "id_sanitize (identified a b) = decode_sanitize (ucast b) 0x1000"
  by (simp_all add: identified_def)

lemmas client_defs = identify_def restore_geometry_def dco_ceiling_def native_ceiling_def issue_def Let_def split_beta
  scripted_def world_def is_good_def good_reply_def refused_reply_def data_reply_def sense_reply_def

definition masked_summary :: purge_summary where
  "masked_summary = finalize_summary SanitizeCryptoScramble [] SanitizeStatusLog (Some completed_status) 1000
     \<lparr>gt_id = ''geom-tx-00000000'',
      gt_stages = [\<lparr>gs_op = DcoRestore, gs_fd_gen = 1, gs_cap_before = 3000, gs_cap_after = 5000\<rparr>,
        \<lparr>gs_op = HpaUnlock, gs_fd_gen = 2, gs_cap_before = 1000, gs_cap_after = 5000\<rparr>],
      gt_current_capacity = 5000, gt_native_capacity = 5000, gt_dco_max_capacity = 5000, gt_committed = True\<rparr>"

lemma masked_drive_run:
  "snd (execute_purge_ladder scripted permit None (world masked_drive)) = Inr masked_summary"
  by (simp add: execute_purge_ladder_def client_defs masked_drive_def identify_page_decoded demo_pages demo_identified
      decode_security_def decode_sanitize_def geometry_defs auto_primary_def ladder.simps run_sanitize_def
      poll_sanitize.simps read_sanitize_status_def completed_status_def masked_summary_def)

theorem purge_certifies_only_evidence_witness:
  "\<exists>w'. execute_purge_ladder scripted (mint ''sda'' ''S1'' 0) None (world masked_drive) = (w', Inr masked_summary) \<and>
     (\<exists>reply rest. sw_trace w' = (identify_rq, Inr reply) # rest \<and> is_good reply)"
proof -
  let ?run = "execute_purge_ladder scripted (mint ''sda'' ''S1'' 0) None (world masked_drive)"
  have run: "?run = (fst ?run, Inr masked_summary)" by (metis masked_drive_run prod.collapse)
  show ?thesis
    by (rule exI [of _ "fst ?run"], rule conjI [OF run])
       (use purge_certifies_only_evidence [OF run] in \<open>auto simp: world_def\<close>)
qed

theorem geometry_claims_unissued_restore_witness:
  "let s = masked_summary; w' = fst (execute_purge_ladder scripted (mint ''sda'' ''S1'' 0) None (world masked_drive))
   in DcoRestore \<in> gs_op ` set (gt_stages (ps_geometry s)) \<and> gt_current_capacity (ps_geometry s) = 5000 \<and>
      (\<forall>x \<in> set (sw_trace w'). sq_cdb (fst x) \<noteq> encode_sat_device_config_restore)"
proof -
  let ?run = "execute_purge_ladder scripted (mint ''sda'' ''S1'' 0) None (world masked_drive)"
  have run: "?run = (fst ?run, Inr masked_summary)" by (metis masked_drive_run prod.collapse)
  have "sw_trace (fst ?run) = sw_trace (world masked_drive) @ sw_trace (fst ?run)" by (simp add: world_def)
  from geometry_claims_unissued_restore [OF run this] show ?thesis
    by (simp add: masked_summary_def finalize_summary_def)
qed

text \<open>A drive without sanitize that refuses ERASE UNIT and DISABLE PASSWORD and stays locked.\<close>

definition stubborn_drive :: script where
  "stubborn_drive = [Inr (data_reply (identify_page 0x21 0)), Inr good_reply, Inr good_reply, Inr good_reply,
     Inr good_reply, Inr refused_reply, Inr refused_reply, Inr (data_reply (identify_page 0x27 0))]"

lemma stubborn_drive_run:
  "execute_purge_ladder scripted permit None (world stubborn_drive) =
     (w', r) \<Longrightarrow> r = Inl (EraseFailedLockedDisclosed True 2 ''07'') \<and>
     (set_password_rq (replicate 32 7), Inr good_reply) \<in> set (sw_trace w')"
  by (clarsimp simp: execute_purge_ladder_def client_defs stubborn_drive_def identify_page_decoded demo_identified
      decode_security_def decode_sanitize_def geometry_defs auto_primary_def ladder.simps
      decode_device_config_overlay_def decode_ata_return_descriptor_lba_def execute_security_erase_def
      after_erase_unit_def no_harm_repair_def post_security_def password_rq_def)

theorem lifeline_fate_witness:
  "\<exists>w'. execute_purge_ladder scripted (mint ''sda'' ''S1'' 0) None (world stubborn_drive) =
     (w', Inl (EraseFailedLockedDisclosed True 2 ''07'')) \<and>
     lifeline_kept (pd_hex scripted) (replicate 32 7) (sw_trace w') (EraseFailedLockedDisclosed True 2 ''07'')"
proof -
  obtain w' r where x: "execute_purge_ladder scripted (mint ''sda'' ''S1'' 0) None (world stubborn_drive) = (w', r)"
    by fastforce
  have r: "r = Inl (EraseFailedLockedDisclosed True 2 ''07'')"
    and sent: "(set_password_rq (replicate 32 7), Inr good_reply) \<in> set (sw_trace w')"
    using stubborn_drive_run [OF x] by simp_all
  have "sw_trace w' = sw_trace (world stubborn_drive) @ sw_trace w'" by (simp add: world_def)
  from lifeline_fate [OF x [unfolded r] this sent] have
    "lifeline_kept (pd_hex scripted) (replicate 32 7) (sw_trace w') (EraseFailedLockedDisclosed True 2 ''07'')"
    by (auto simp: lifeline_lost_def good_reply_def is_good_def)
  then show ?thesis using x r by blast
qed

theorem refused_prepare_loses_password_witness:
  "\<exists>w'. execute_security_erase scripted True [] (begin_geometry (pd_hash scripted) 0 0 0)
       (world [Inr good_reply, Inr refused_reply, Inr refused_reply]) =
     (w', Inl (Fatal (ErasePrepareFailed 2))) \<and> sw_dev w' = []"
  using refused_prepare_loses_password [where d = scripted and w = "world [Inr good_reply, Inr refused_reply, Inr refused_reply]"
      and r = good_reply and p = refused_reply and pw = "replicate 32 7" and answer = "Inr refused_reply" and ?s4.0 = "[]"
      and enhanced = True and fb = "[]" and g = "begin_geometry (pd_hash scripted) 0 0 0"
      and ?s1.0 = "[Inr good_reply, Inr refused_reply, Inr refused_reply]"
      and ?s2.0 = "[Inr refused_reply, Inr refused_reply]" and ?s3.0 = "[Inr refused_reply]"]
  by (simp add: scripted_def world_def is_good_def good_reply_def refused_reply_def)

end
