(* ===== verification/Mesh_Rogue.thy ===== *)
theory Mesh_Rogue
  imports Block_Graph Decimal "HOL-Library.Char_ord" "HOL-Library.List_Lexorder"
begin

text \<open>
  Accusations and isolation in the mesh (\<open>crates/dc-mesh/src/rogue.rs\<close>). Strings are ordered
  bytewise; a \<open>HashSet\<close> that is collected and sorted is the sorted list of its elements.
\<close>

section \<open>The ledger\<close>

datatype rogue_kind = Equivocation | DuplicateSerial | FailedSpotProof | Timeout

fun kind_str :: "rogue_kind \<Rightarrow> string" where
  "kind_str Equivocation = ''equivocation''"
| "kind_str DuplicateSerial = ''duplicate_serial''"
| "kind_str FailedSpotProof = ''failed_spot_proof''"
| "kind_str Timeout = ''timeout''"

record accusation =
  ac_accuser :: string
  ac_accused :: string
  ac_kind :: rogue_kind
  ac_evidence_digest :: string
  ac_evidence :: string

record rogue_entry =
  re_node :: string
  re_kind :: rogue_kind
  re_evidence_digest :: string
  re_evidence :: string
  re_accusers :: "string list"
  re_isolated_at_view :: u32

record rogue_ledger =
  rl_entries :: "rogue_entry list"
  rl_accusations :: "accusation list"

definition new_ledger :: rogue_ledger where
  "new_ledger = \<lparr>rl_entries = [], rl_accusations = []\<rparr>"

text \<open>\<open>hash\<close> is the hexadecimal BLAKE3 of a text.\<close>

definition canonical_entry :: "(string \<Rightarrow> string) \<Rightarrow> rogue_entry \<Rightarrow> rogue_entry" where
  "canonical_entry hash e =
     (let accusers = sort (re_accusers e);
          digest_input = re_node e @ ''|'' @ kind_str (re_kind e) @ ''|'' @ join '','' accusers @ ''|'' @
            dec (unat (re_isolated_at_view e))
      in \<lparr>re_node = re_node e, re_kind = re_kind e, re_evidence_digest = hash digest_input, re_evidence = [],
          re_accusers = accusers, re_isolated_at_view = re_isolated_at_view e\<rparr>)"

definition against :: "string \<Rightarrow> rogue_kind \<Rightarrow> rogue_ledger \<Rightarrow> accusation list" where
  "against accused kind l = filter (\<lambda>a. ac_accused a = accused \<and> ac_kind a = kind) (rl_accusations l)"

definition distinct_accusers :: "string \<Rightarrow> rogue_kind \<Rightarrow> rogue_ledger \<Rightarrow> string list" where
  "distinct_accusers accused kind l = remdups (map ac_accuser (against accused kind l))"

definition accuse :: "string \<Rightarrow> string \<Rightarrow> rogue_kind \<Rightarrow> string \<Rightarrow> string \<Rightarrow> rogue_ledger \<Rightarrow> rogue_ledger \<times> nat" where
  "accuse accuser accused kind evidence evidence_digest l =
     (let n = length (distinct_accusers accused kind l) in
      if list_ex (\<lambda>a. ac_accuser a = accuser \<and> ac_evidence_digest a = evidence_digest) (rl_accusations l)
      then (l, n)
      else (l\<lparr>rl_accusations := rl_accusations l @ [\<lparr>ac_accuser = accuser, ac_accused = accused, ac_kind = kind,
                ac_evidence_digest = evidence_digest, ac_evidence = evidence\<rparr>]\<rparr>, n + 1))"

definition is_isolated :: "string \<Rightarrow> rogue_ledger \<Rightarrow> bool" where
  "is_isolated node l \<longleftrightarrow> list_ex (\<lambda>e. re_node e = node) (rl_entries l)"

definition evidence_for :: "string \<Rightarrow> rogue_kind \<Rightarrow> string \<Rightarrow> rogue_ledger \<Rightarrow> string" where
  "evidence_for accused kind evidence_digest l =
     (case List.find (\<lambda>a. ac_evidence_digest a = evidence_digest) (against accused kind l) of
        Some a \<Rightarrow> ac_evidence a
      | None \<Rightarrow> (case against accused kind l of a # _ \<Rightarrow> ac_evidence a | [] \<Rightarrow> []))"

definition try_isolate :: "string \<Rightarrow> rogue_kind \<Rightarrow> string \<Rightarrow> nat \<Rightarrow> u32 \<Rightarrow> rogue_ledger \<Rightarrow> rogue_ledger \<times> rogue_entry option" where
  "try_isolate accused kind evidence_digest required_quorum view l =
     (if is_isolated accused l then (l, None)
      else (let accusers = distinct_accusers accused kind l in
            if length accusers < required_quorum then (l, None)
            else (let e = \<lparr>re_node = accused, re_kind = kind, re_evidence_digest = evidence_digest,
                    re_evidence = evidence_for accused kind evidence_digest l,
                    re_accusers = sort accusers, re_isolated_at_view = view\<rparr>
                  in (l\<lparr>rl_entries := rl_entries l @ [e]\<rparr>, Some e))))"

section \<open>What the ledger guarantees\<close>

datatype ledger_op =
  Accuse string string rogue_kind string string
| TryIsolate string rogue_kind string nat u32

fun ledger_step :: "rogue_ledger \<Rightarrow> ledger_op \<Rightarrow> rogue_ledger" where
  "ledger_step l (Accuse accuser accused kind evidence digest) = fst (accuse accuser accused kind evidence digest l)"
| "ledger_step l (TryIsolate accused kind digest q view) = fst (try_isolate accused kind digest q view l)"

definition ledger_run :: "ledger_op list \<Rightarrow> rogue_ledger" where
  "ledger_run ops = foldl ledger_step new_ledger ops"

fun quorum_at_least :: "nat \<Rightarrow> ledger_op \<Rightarrow> bool" where
  "quorum_at_least q (TryIsolate _ _ _ r _) \<longleftrightarrow> q \<le> r"
| "quorum_at_least q _ \<longleftrightarrow> True"

text \<open>Every verdict rests on accusations on file by \<open>q\<close> different members, filed in the run.\<close>

definition ledger_ok :: "nat \<Rightarrow> ledger_op list \<Rightarrow> rogue_ledger \<Rightarrow> bool" where
  "ledger_ok q ops l \<longleftrightarrow>
     distinct (map re_node (rl_entries l)) \<and>
     (\<forall>a \<in> set (rl_accusations l). Accuse (ac_accuser a) (ac_accused a) (ac_kind a) (ac_evidence a) (ac_evidence_digest a) \<in> set ops) \<and>
     (\<forall>e \<in> set (rl_entries l). distinct (re_accusers e) \<and> q \<le> length (re_accusers e) \<and>
        (\<forall>m \<in> set (re_accusers e). \<exists>a \<in> set (rl_accusations l). ac_accuser a = m \<and> ac_accused a = re_node e \<and> ac_kind a = re_kind e))"

lemma distinct_accusers_set:
  "set (distinct_accusers accused kind l) =
   {ac_accuser a |a. a \<in> set (rl_accusations l) \<and> ac_accused a = accused \<and> ac_kind a = kind}"
  by (auto simp: distinct_accusers_def against_def)

lemma ledger_ok_step:
  assumes "ledger_ok q ops l" and "quorum_at_least q op"
  shows "ledger_ok q (ops @ [op]) (ledger_step l op)"
proof (cases op)
  case (Accuse accuser accused kind evidence digest)
  show ?thesis
    using assms(1) by (auto simp: Accuse ledger_ok_def accuse_def Let_def)
next
  case (TryIsolate accused kind digest r view)
  show ?thesis
  proof (cases "is_isolated accused l \<or> length (distinct_accusers accused kind l) < r")
    case True
    then show ?thesis using assms(1) by (auto simp: TryIsolate ledger_ok_def try_isolate_def Let_def)
  next
    case False
    let ?e = "\<lparr>re_node = accused, re_kind = kind, re_evidence_digest = digest,
        re_evidence = evidence_for accused kind digest l,
        re_accusers = sort (distinct_accusers accused kind l), re_isolated_at_view = view\<rparr>"
    have step: "ledger_step l op = l\<lparr>rl_entries := rl_entries l @ [?e]\<rparr>"
      using False by (simp add: TryIsolate try_isolate_def Let_def)
    have "accused \<notin> set (map re_node (rl_entries l))"
      using False by (auto simp: is_isolated_def list_ex_iff)
    moreover have "q \<le> length (distinct_accusers accused kind l)"
      using False assms(2) by (simp add: TryIsolate)
    moreover have "distinct (distinct_accusers accused kind l)" by (simp add: distinct_accusers_def)
    ultimately show ?thesis
      unfolding step using assms(1) by (auto simp: ledger_ok_def distinct_accusers_set)
  qed
qed

lemma ledger_ok_run:
  assumes "\<forall>op \<in> set ops. quorum_at_least q op"
  shows "ledger_ok q ops (ledger_run ops)"
  using assms
proof (induction ops rule: rev_induct)
  case Nil
  show ?case by (simp add: ledger_run_def new_ledger_def ledger_ok_def)
next
  case (snoc op ops)
  then show ?case using ledger_ok_step [of q ops "ledger_run ops" op] by (simp add: ledger_run_def)
qed

text \<open>The count that \<open>accuse\<close> returns is not the number of distinct accusers: a second piece of evidence from
  one accuser raises it.\<close>

lemma accuse_overcounts:
  assumes "accuse m x k ev1 d1 new_ledger = (l1, c1)" and "accuse m x k ev2 d2 l1 = (l2, c2)" and "d1 \<noteq> d2"
  shows "c2 = 2 \<and> length (distinct_accusers x k l2) = 1"
  using assms by (auto simp: accuse_def new_ledger_def distinct_accusers_def against_def Let_def)

section \<open>Properties\<close>

text \<open>C24: Nobody is isolated by fewer than the quorum. In every run of accusations and isolation attempts each
  verdict names a member once and rests on accusations actually filed, by at least the required
  number of different members: up to \<open>f\<close> liars cannot isolate anyone when the quorum exceeds \<open>f\<close>.\<close>

theorem isolation_needs_quorum:
  assumes "\<forall>op \<in> set ops. quorum_at_least q op" and "e \<in> set (rl_entries (ledger_run ops))"
    and "finite liars" and "card liars < q"
  shows "distinct (map re_node (rl_entries (ledger_run ops))) \<and>
    (\<exists>m ev d. m \<notin> liars \<and> Accuse m (re_node e) (re_kind e) ev d \<in> set ops)"
proof -
  let ?l = "ledger_run ops"
  have ok: "ledger_ok q ops ?l" using ledger_ok_run [OF assms(1)] .
  then have acc: "distinct (re_accusers e)" "q \<le> length (re_accusers e)"
    "\<forall>m \<in> set (re_accusers e). \<exists>a \<in> set (rl_accusations ?l). ac_accuser a = m \<and> ac_accused a = re_node e \<and> ac_kind a = re_kind e"
    using assms(2) by (auto simp: ledger_ok_def)
  obtain m where m: "m \<in> set (re_accusers e)" "m \<notin> liars"
  proof -
    have "card liars < card (set (re_accusers e))" using acc(1,2) assms(4) by (simp add: distinct_card)
    then have "\<not> set (re_accusers e) \<subseteq> liars" using card_mono [OF assms(3)] by (meson not_le)
    then show thesis using that by blast
  qed
  then obtain a where "a \<in> set (rl_accusations ?l)" "ac_accuser a = m" "ac_accused a = re_node e" "ac_kind a = re_kind e"
    using acc(3) by blast
  then show ?thesis using ok m(2) by (fastforce simp: ledger_ok_def)
qed

text \<open>Three of four members accuse the fourth.\<close>

definition demo_ops :: "ledger_op list" where
  "demo_ops = [Accuse ''a'' ''d'' Equivocation ''e1'' ''1'', Accuse ''b'' ''d'' Equivocation ''e2'' ''2'',
     TryIsolate ''d'' Equivocation ''1'' 3 0, Accuse ''c'' ''d'' Equivocation ''e3'' ''3'', TryIsolate ''d'' Equivocation ''1'' 3 0]"

theorem isolation_needs_quorum_witness:
  "\<exists>e. rl_entries (ledger_run demo_ops) = [e] \<and> re_node e = ''d'' \<and>
    (\<exists>m ev d. m \<notin> {''a''} \<and> Accuse m ''d'' Equivocation ev d \<in> set demo_ops)"
proof -
  have run: "rl_entries (ledger_run demo_ops) = [\<lparr>re_node = ''d'', re_kind = Equivocation, re_evidence_digest = ''1'',
      re_evidence = ''e1'', re_accusers = [''a'', ''b'', ''c''], re_isolated_at_view = 0\<rparr>]"
    by code_simp
  have "\<forall>op \<in> set demo_ops. quorum_at_least 3 op" by (simp add: demo_ops_def)
  from isolation_needs_quorum [OF this, of _ "{''a''}"] run show ?thesis by auto
qed

end
