(* ===== verification/Mesh_Consensus.thy ===== *)
theory Mesh_Consensus
  imports Mesh_Rogue
begin

text \<open>
  The single-decision consensus of the mesh (\<open>crates/dc-mesh/src/consensus.rs\<close>, quorums in \<open>lib.rs\<close>).
  A \<open>HashSet\<close> is a set, a \<open>HashMap\<close> read with
  \<open>or_default\<close> a total function. The hash of a block and the number that selects the speaker are
  parameters.
\<close>

section \<open>Quorums\<close>

definition byzantine_tolerance :: "nat \<Rightarrow> nat" where
  "byzantine_tolerance n = (n - 1) div 3"

definition decision_quorum :: "nat \<Rightarrow> nat" where
  "decision_quorum n = 2 * byzantine_tolerance n + 1"

section \<open>One node\<close>

record membership =
  mb_nodes :: "string list"
  mb_hash :: string
  mb_total_drives :: nat
  mb_tolerance :: nat
  mb_quorum :: nat

record block =
  bl_membership_hash :: string
  bl_report_root :: string
  bl_report_count :: u32
  bl_spot_root :: string
  bl_spot_count :: u32
  bl_rogue_entries :: "rogue_entry list"
  bl_view :: u32

datatype phase = AwaitProposal | Prepared | Committing | Decided

datatype voting_outcome = VoteIgnored | VoteCounting | VoteEnteredCommit | VoteDecided

record consensus =
  co_me :: string
  co_membership :: membership
  co_membership_hash :: string
  co_isolated :: "string set"
  co_view :: u32
  co_phase :: phase
  co_proposal :: "block option"
  co_proposal_hash :: "string option"
  co_seen_proposals :: "string \<Rightarrow> string list"
  co_prepare_votes :: "string \<Rightarrow> string set"
  co_commit_votes :: "string \<Rightarrow> string set"
  co_change_view_votes :: "string set"
  co_view_timeout_ticks :: u32
  co_ticks_in_view :: u32
  co_decided :: "string option"

text \<open>BLAKE3 of a block's JSON, of a text, and the first eight bytes of it over membership hash and view.\<close>

record hashes =
  hs_block :: "block \<Rightarrow> string"
  hs_speaker :: "string \<Rightarrow> u32 \<Rightarrow> nat"
  hs_text :: "string \<Rightarrow> string"

definition new_consensus :: "string \<Rightarrow> membership \<Rightarrow> u32 \<Rightarrow> consensus" where
  "new_consensus me membership view_timeout_ticks =
     \<lparr>co_me = me, co_membership = membership, co_membership_hash = mb_hash membership, co_isolated = {},
      co_view = 0, co_phase = AwaitProposal, co_proposal = None, co_proposal_hash = None,
      co_seen_proposals = (\<lambda>_. []), co_prepare_votes = (\<lambda>_. {}), co_commit_votes = (\<lambda>_. {}),
      co_change_view_votes = {}, co_view_timeout_ticks = view_timeout_ticks, co_ticks_in_view = 0,
      co_decided = None\<rparr>"

definition decision :: "consensus \<Rightarrow> (string \<times> string list) option" where
  "decision c = map_option (\<lambda>h. (h, sorted_list_of_set (co_commit_votes c h))) (co_decided c)"

definition live_nodes :: "consensus \<Rightarrow> string list" where
  "live_nodes c = filter (\<lambda>n. n \<notin> co_isolated c) (mb_nodes (co_membership c))"

definition live_n :: "consensus \<Rightarrow> nat" where
  "live_n c = length (live_nodes c)"

definition quorum :: "consensus \<Rightarrow> nat" where
  "quorum c = decision_quorum (live_n c)"

definition speaker_of :: "hashes \<Rightarrow> consensus \<Rightarrow> u32 \<Rightarrow> string" where
  "speaker_of hs c view =
     (if live_nodes c = [] then co_me c
      else live_nodes c ! (hs_speaker hs (co_membership_hash c) view mod length (live_nodes c)))"

definition am_speaker :: "hashes \<Rightarrow> consensus \<Rightarrow> bool" where
  "am_speaker hs c \<longleftrightarrow> speaker_of hs c (co_view c) = co_me c"

definition enter_view :: "u32 \<Rightarrow> consensus \<Rightarrow> consensus" where
  "enter_view view c =
     c\<lparr>co_view := view, co_phase := AwaitProposal, co_proposal := None, co_proposal_hash := None,
       co_prepare_votes := (\<lambda>_. {}), co_commit_votes := (\<lambda>_. {}), co_change_view_votes := {},
       co_seen_proposals := (\<lambda>_. []), co_ticks_in_view := 0\<rparr>"

definition apply_isolation :: "string \<Rightarrow> consensus \<Rightarrow> consensus" where
  "apply_isolation node c =
     (if node \<in> co_isolated c then c
      else enter_view (co_view c + 1) (c\<lparr>co_isolated := insert node (co_isolated c)\<rparr>))"

text \<open>The commitment of the speaker, from the roots over its reports and transcripts.\<close>

definition build_proposal :: "(string \<Rightarrow> string) \<Rightarrow> string \<times> u32 \<Rightarrow> string \<times> u32 \<Rightarrow> rogue_ledger \<Rightarrow> consensus \<Rightarrow> block" where
  "build_proposal hash reports transcripts ledger c =
     \<lparr>bl_membership_hash = co_membership_hash c,
      bl_report_root = fst reports, bl_report_count = snd reports,
      bl_spot_root = fst transcripts, bl_spot_count = snd transcripts,
      bl_rogue_entries = sort_key re_node (map (canonical_entry hash) (rl_entries ledger)),
      bl_view = co_view c\<rparr>"

definition note_proposal_digest :: "string \<Rightarrow> string \<Rightarrow> consensus \<Rightarrow> consensus \<times> string option" where
  "note_proposal_digest from hash c =
     (let digests = co_seen_proposals c from in
      case List.find (\<lambda>d. d \<noteq> hash) digests of
        Some other \<Rightarrow> (c, Some other)
      | None \<Rightarrow>
          (c\<lparr>co_seen_proposals := (co_seen_proposals c)(from := if hash \<in> set digests then digests else digests @ [hash])\<rparr>,
           None))"

definition record_prepare :: "string \<Rightarrow> string \<Rightarrow> consensus \<Rightarrow> consensus" where
  "record_prepare hash node c =
     c\<lparr>co_prepare_votes := (co_prepare_votes c)(hash := insert node (co_prepare_votes c hash))\<rparr>"

definition record_commit :: "string \<Rightarrow> string \<Rightarrow> consensus \<Rightarrow> consensus" where
  "record_commit hash node c =
     c\<lparr>co_commit_votes := (co_commit_votes c)(hash := insert node (co_commit_votes c hash))\<rparr>"

text \<open>\<open>None\<close>: the membership hash is another one. Otherwise whether the node prepared, and the evidence.\<close>

definition on_proposal ::
  "hashes \<Rightarrow> string \<Rightarrow> block \<Rightarrow> consensus \<Rightarrow> consensus \<times> (bool \<times> (string \<times> string \<times> string) option) option" where
  "on_proposal hs from b c =
     (if co_decided c \<noteq> None then (c, Some (False, None))
      else if bl_membership_hash b \<noteq> co_membership_hash c then (c, None)
      else (let c = (if bl_view b > co_view c then enter_view (bl_view b) c else c);
                hash = hs_block hs b in
            case note_proposal_digest from hash c of
              (c, Some other) \<Rightarrow> (c, Some (False, Some (from, other, hash)))
            | (c, None) \<Rightarrow>
                if \<not> (speaker_of hs c (co_view c) = from \<and> bl_view b = co_view c \<and> co_proposal c = None)
                then (c, Some (False, None))
                else (record_prepare hash (co_me c)
                       (c\<lparr>co_proposal := Some b, co_proposal_hash := Some hash, co_phase := Prepared\<rparr>),
                      Some (True, None))))"

definition on_vote :: "string \<Rightarrow> string \<Rightarrow> u32 \<Rightarrow> string \<Rightarrow> consensus \<Rightarrow> consensus \<times> voting_outcome" where
  "on_vote kind from view hash c =
     (let c = (if view > co_view c then enter_view view c else c) in
      if view \<noteq> co_view c then (c, VoteIgnored)
      else if from \<in> co_isolated c then (c, VoteIgnored)
      else if kind = ''prepare''
      then (let c = record_prepare hash from c in
            if co_proposal_hash c \<noteq> Some hash \<or> co_decided c \<noteq> None then (c, VoteIgnored)
            else if co_phase c = Prepared \<and> card (co_prepare_votes c hash) \<ge> quorum c
            then (record_commit hash (co_me c) (c\<lparr>co_phase := Committing\<rparr>), VoteEnteredCommit)
            else (c, VoteCounting))
      else if kind = ''commit''
      then (let c = record_commit hash from c in
            if \<not> (co_proposal_hash c = Some hash \<or> co_decided c = Some hash) \<or> co_decided c \<noteq> None
            then (c, VoteIgnored)
            else if co_phase c = Committing \<and> card (co_commit_votes c hash) \<ge> quorum c
            then (c\<lparr>co_phase := Decided, co_decided := Some hash\<rparr>, VoteDecided)
            else (c, VoteCounting))
      else (c, VoteCounting))"

definition on_change_view :: "string \<Rightarrow> consensus \<Rightarrow> consensus \<times> bool" where
  "on_change_view from c =
     (let c = c\<lparr>co_change_view_votes := insert from (co_change_view_votes c)\<rparr>
      in (c, card (co_change_view_votes c) > mb_tolerance (co_membership c)))"

definition tick :: "consensus \<Rightarrow> consensus \<times> bool" where
  "tick c =
     (if co_decided c \<noteq> None then (c, False)
      else (let c = c\<lparr>co_ticks_in_view := co_ticks_in_view c + 1\<rparr> in
            if co_ticks_in_view c \<ge> co_view_timeout_ticks c then (enter_view (co_view c + 1) c, True)
            else (c, False)))"

section \<open>Where agreement ends\<close>

text \<open>Votes are counted by sender name only: any key that signs its frame counts.\<close>

lemma on_prepare_short:
  assumes "co_phase c = Prepared" and "co_proposal_hash c = Some h" and "co_decided c = None" and "k \<notin> co_isolated c"
    and "card (insert k (co_prepare_votes c h)) < quorum c"
  shows "on_vote ''prepare'' k (co_view c) h c = (record_prepare h k c, VoteCounting)"
  using assms by (simp add: on_vote_def record_prepare_def quorum_def live_n_def live_nodes_def)

lemma on_prepare_full:
  assumes "co_phase c = Prepared" and "co_proposal_hash c = Some h" and "co_decided c = None" and "k \<notin> co_isolated c"
    and "quorum c \<le> card (insert k (co_prepare_votes c h))"
  shows "on_vote ''prepare'' k (co_view c) h c =
    (record_commit h (co_me c) ((record_prepare h k c)\<lparr>co_phase := Committing\<rparr>), VoteEnteredCommit)"
  using assms by (simp add: on_vote_def record_prepare_def quorum_def live_n_def live_nodes_def Let_def)

lemma on_commit_full:
  assumes "co_phase c = Committing" and "co_proposal_hash c = Some h" and "co_decided c = None" and "k \<notin> co_isolated c"
    and "quorum c \<le> card (insert k (co_commit_votes c h))"
  shows "on_vote ''commit'' k (co_view c) h c =
    ((record_commit h k c)\<lparr>co_phase := Decided, co_decided := Some h\<rparr>, VoteDecided)"
  using assms by (simp add: on_vote_def record_commit_def quorum_def live_n_def live_nodes_def Let_def)

lemma on_commit_short:
  assumes "co_phase c = Committing" and "co_proposal_hash c = Some h" and "co_decided c = None" and "k \<notin> co_isolated c"
    and "card (insert k (co_commit_votes c h)) < quorum c"
  shows "on_vote ''commit'' k (co_view c) h c = (record_commit h k c, VoteCounting)"
  using assms by (simp add: on_vote_def record_commit_def quorum_def live_n_def live_nodes_def)

definition prepares :: "string \<Rightarrow> string list \<Rightarrow> consensus \<Rightarrow> consensus" where
  "prepares h ks c = foldl (\<lambda>c k. fst (on_vote ''prepare'' k (co_view c) h c)) c ks"

definition commits :: "string \<Rightarrow> string list \<Rightarrow> consensus \<Rightarrow> consensus" where
  "commits h ks c = foldl (\<lambda>c k. fst (on_vote ''commit'' k (co_view c) h c)) c ks"

text \<open>What a node in a phase of a decision looks like.\<close>

definition voting_on :: "phase \<Rightarrow> string \<Rightarrow> consensus \<Rightarrow> bool" where
  "voting_on ph h c \<longleftrightarrow> co_phase c = ph \<and> co_proposal_hash c = Some h \<and> co_decided c = None"

lemma quorum_record [simp]:
  "quorum (record_prepare h k c) = quorum c" "quorum (record_commit h k c) = quorum c"
  "quorum (c\<lparr>co_phase := ph\<rparr>) = quorum c"
  by (simp_all add: quorum_def live_n_def live_nodes_def record_prepare_def record_commit_def)

lemma voting_on_record [simp]:
  "voting_on ph h (record_prepare h' k c) = voting_on ph h c" "voting_on ph h (record_commit h' k c) = voting_on ph h c"
  by (simp_all add: voting_on_def record_prepare_def record_commit_def)

lemma record_fields [simp]:
  "co_isolated (record_prepare h k c) = co_isolated c" "co_isolated (record_commit h k c) = co_isolated c"
  "co_prepare_votes (record_prepare h k c) h = insert k (co_prepare_votes c h)"
  "co_commit_votes (record_commit h k c) h = insert k (co_commit_votes c h)"
  "co_commit_votes (record_prepare h k c) = co_commit_votes c"
  by (simp_all add: record_prepare_def record_commit_def)

text \<open>The same node: what a vote of either kind leaves alone.\<close>

definition same_node :: "consensus \<Rightarrow> consensus \<Rightarrow> bool" where
  "same_node c c' \<longleftrightarrow> quorum c' = quorum c \<and> co_isolated c' = co_isolated c"

lemma prepares_committing:
  assumes "voting_on Committing h c" and "set ks \<inter> co_isolated c = {}"
  shows "voting_on Committing h (prepares h ks c) \<and> same_node c (prepares h ks c) \<and>
    co_commit_votes (prepares h ks c) = co_commit_votes c"
  using assms
proof (induction ks arbitrary: c)
  case (Cons k ks)
  have step: "fst (on_vote ''prepare'' k (co_view c) h c) = record_prepare h k c"
    using Cons.prems by (auto simp: on_vote_def Let_def voting_on_def record_prepare_def)
  show ?case
    using Cons.IH [of "record_prepare h k c"] Cons.prems by (simp add: prepares_def step same_node_def)
qed (simp add: prepares_def same_node_def)

lemma prepares_commit:
  assumes "voting_on Prepared h c" and "set ks \<inter> co_isolated c = {}" and "ks \<noteq> []"
    and "quorum c \<le> card (co_prepare_votes c h \<union> set ks)" and "finite (co_commit_votes c h)"
  shows "voting_on Committing h (prepares h ks c) \<and> same_node c (prepares h ks c) \<and> finite (co_commit_votes (prepares h ks c) h)"
  using assms
proof (induction ks arbitrary: c)
  case (Cons k ks)
  have c: "co_phase c = Prepared" "co_proposal_hash c = Some h" "co_decided c = None" "k \<notin> co_isolated c"
    using Cons.prems by (auto simp: voting_on_def)
  show ?case
  proof (cases "quorum c \<le> card (insert k (co_prepare_votes c h))")
    case True
    let ?d = "record_commit h (co_me c) ((record_prepare h k c)\<lparr>co_phase := Committing\<rparr>)"
    have "voting_on Committing h ?d" using c by (simp add: voting_on_def record_commit_def record_prepare_def)
    then show ?thesis
      using prepares_committing [of h ?d ks] Cons.prems on_prepare_full [OF c True]
      by (auto simp: prepares_def same_node_def)
  next
    case False
    then have "ks \<noteq> []" using Cons.prems(4) by auto
    then show ?thesis
      using Cons.IH [of "record_prepare h k c"] Cons.prems on_prepare_short [OF c] False
      by (simp add: prepares_def same_node_def)
  qed
qed simp

lemma commits_after:
  assumes "co_decided c = Some h"
  shows "co_decided (commits h ks c) = Some h"
  using assms
proof (induction ks arbitrary: c)
  case (Cons k ks)
  have "co_decided (fst (on_vote ''commit'' k (co_view c) h c)) = Some h"
    using Cons.prems by (simp add: on_vote_def record_commit_def)
  then show ?case using Cons.IH by (simp add: commits_def)
qed (simp add: commits_def)

lemma commits_decide:
  assumes "voting_on Committing h c" and "set ks \<inter> co_isolated c = {}" and "ks \<noteq> []"
    and "quorum c \<le> card (co_commit_votes c h \<union> set ks)"
  shows "co_decided (commits h ks c) = Some h"
  using assms
proof (induction ks arbitrary: c)
  case (Cons k ks)
  have c: "co_phase c = Committing" "co_proposal_hash c = Some h" "co_decided c = None" "k \<notin> co_isolated c"
    using Cons.prems by (auto simp: voting_on_def)
  show ?case
  proof (cases "quorum c \<le> card (insert k (co_commit_votes c h))")
    case True
    then show ?thesis
      using commits_after [of "(record_commit h k c)\<lparr>co_phase := Decided, co_decided := Some h\<rparr>" h ks] on_commit_full [OF c]
      by (simp add: commits_def)
  next
    case False
    then have "ks \<noteq> []" using Cons.prems(4) by auto
    then show ?thesis
      using Cons.IH [of "record_commit h k c"] Cons.prems on_commit_short [OF c] False by (simp add: commits_def)
  qed
qed simp

lemma card_union_distinct: "finite A \<Longrightarrow> distinct ks \<Longrightarrow> length ks \<le> card (A \<union> set ks)"
  by (metis card_mono distinct_card finite_UnI finite_set sup_ge2)

section \<open>Properties\<close>

text \<open>Votes are not restricted to members. Whoever owns a quorum of fresh keys, none of them a member, walks a
  node that has seen the speaker's proposal through both voting phases to a decision.\<close>

theorem outsiders_decide:
  assumes "voting_on Prepared h c" and "distinct ks" and "length ks = quorum c"
    and "set ks \<inter> set (mb_nodes (co_membership c)) = {}" and "set ks \<inter> co_isolated c = {}"
    and "finite (co_prepare_votes c h)" and "finite (co_commit_votes c h)"
  shows "co_decided (commits h ks (prepares h ks c)) = Some h"
proof -
  have ne: "ks \<noteq> []" using assms(3) by (auto simp: quorum_def decision_quorum_def)
  have p: "voting_on Committing h (prepares h ks c)" "same_node c (prepares h ks c)" "finite (co_commit_votes (prepares h ks c) h)"
    using prepares_commit [OF assms(1,5) ne _ assms(7)] card_union_distinct [OF assms(6,2)] assms(3) by simp_all
  show ?thesis
    using commits_decide [OF p(1) _ ne] card_union_distinct [OF p(3) assms(2)] p(2) assms(3,5) by (simp add: same_node_def)
qed

text \<open>An isolation lowers the quorum below what the remaining faults need. In a cluster of \<open>3f + 1\<close> members the
  first isolation takes the quorum from \<open>2f + 1\<close> to \<open>2f - 1\<close> of the \<open>3f\<close> that are left: with four members a
  single vote decides.\<close>

theorem isolation_lowers_quorum:
  assumes "distinct (mb_nodes (co_membership c))" and "length (mb_nodes (co_membership c)) = 3 * f + 1" and "0 < f"
    and "co_isolated c = {}" and "x \<in> set (mb_nodes (co_membership c))"
  shows "quorum c = 2 * f + 1 \<and> quorum (apply_isolation x c) = 2 * f - 1"
proof -
  have "length (filter (\<lambda>n. n \<noteq> x) (mb_nodes (co_membership c))) = 3 * f"
  proof -
    have "filter (\<lambda>n. n \<noteq> x) (mb_nodes (co_membership c)) = remove1 x (mb_nodes (co_membership c))"
      unfolding distinct_remove1_removeAll [OF assms(1)] removeAll_filter_not_eq by (rule filter_cong) auto
    then show ?thesis using assms(2,5) by (simp add: length_remove1)
  qed
  then have "live_n (apply_isolation x c) = 3 * f"
    using assms(4) by (simp add: apply_isolation_def live_n_def live_nodes_def enter_view_def)
  then show ?thesis
    using assms(2,3,4) by (simp add: quorum_def decision_quorum_def byzantine_tolerance_def live_n_def live_nodes_def) arith
qed

text \<open>One late vote unseats a decided node. A vote for a later view from anyone, an isolated key included, leaves
  the decision in place but drops the block and the committers it was decided with: the certificate
  that is assembled next reads the block and panics.\<close>

theorem late_vote_drops_block:
  assumes "co_decided c = Some h" and "co_view c < v"
  shows "let c' = fst (on_vote kind k v h' c) in
    co_decided c' = Some h \<and> co_proposal c' = None \<and> co_view c' = v \<and> (\<exists>K. decision c' = Some (h, K) \<and> set K \<subseteq> {k})"
  using assms by (auto simp: on_vote_def Let_def enter_view_def record_prepare_def record_commit_def decision_def)

end
