(* ===== verification/Mesh_Network.thy ===== *)
theory Mesh_Network
  imports Mesh_Consensus
begin

text \<open>
  The network of mesh nodes (\<open>crates/dc-mesh/src/mesh.rs\<close>) from the moment the membership is frozen: the
  frames a node dispatches (proposals, votes, accusations, isolations), its tick, its proposals, and the
  accusations it raises. Frames are signed: only faulty keys send what the code would not. The parts that
  collect reports and spot proofs are not modelled; what they contribute is an event of its own: at any
  time a node may raise an accusation with any evidence, and whether it is ready and whether the roots
  of a block are those it holds are free.
\<close>

section \<open>The network\<close>

datatype message =
  ProposalMsg string u32 block                      \<comment> \<open>sender, view of the frame\<close>
| VoteMsg string string u32 string                  \<comment> \<open>kind, sender, view, hash\<close>
| AccuseMsg string string rogue_kind string string  \<comment> \<open>sender, accused, kind, evidence, digest\<close>
| IsolateMsg string string rogue_kind string "string list" u32  \<comment> \<open>sender, node, kind, digest, accusers, view\<close>

fun sender :: "message \<Rightarrow> string" where
  "sender (ProposalMsg from _ _) = from"
| "sender (VoteMsg _ from _ _) = from"
| "sender (AccuseMsg from _ _ _ _) = from"
| "sender (IsolateMsg from _ _ _ _ _) = from"

record net =
  nt_node :: "string \<Rightarrow> consensus"
  nt_rogue :: "string \<Rightarrow> rogue_ledger"
  nt_proposed :: "string \<Rightarrow> u32 option"
  nt_sent :: "message set"

definition initial_net :: "membership \<Rightarrow> u32 \<Rightarrow> net" where
  "initial_net m timeout = \<lparr>nt_node = (\<lambda>i. new_consensus i m timeout), nt_rogue = (\<lambda>_. new_ledger),
     nt_proposed = (\<lambda>_. None), nt_sent = {}\<rparr>"

definition set_node :: "string \<Rightarrow> consensus \<Rightarrow> net \<Rightarrow> net" where
  "set_node i c s = s\<lparr>nt_node := (nt_node s)(i := c)\<rparr>"

definition set_rogue :: "string \<Rightarrow> rogue_ledger \<Rightarrow> net \<Rightarrow> net" where
  "set_rogue i l s = s\<lparr>nt_rogue := (nt_rogue s)(i := l)\<rparr>"

definition send :: "message \<Rightarrow> net \<Rightarrow> net" where
  "send m s = s\<lparr>nt_sent := insert m (nt_sent s)\<rparr>"

section \<open>Accusing and isolating\<close>

definition frozen_quorum :: "string \<Rightarrow> net \<Rightarrow> nat" where
  "frozen_quorum i s = decision_quorum (length (mb_nodes (co_membership (nt_node s i))))"

definition maybe_isolate :: "string \<Rightarrow> string \<Rightarrow> rogue_kind \<Rightarrow> string \<Rightarrow> nat \<Rightarrow> net \<Rightarrow> net" where
  "maybe_isolate i accused kind digest count s =
     (if count < frozen_quorum i s then s
      else (case try_isolate accused kind digest (frozen_quorum i s) 1 (nt_rogue s i) of
              (l, None) \<Rightarrow> set_rogue i l s
            | (l, Some e) \<Rightarrow>
                send (IsolateMsg i accused kind digest (re_accusers e) (re_isolated_at_view e))
                  (set_node i (apply_isolation accused (nt_node s i)) (set_rogue i l s))))"

definition raise_accusation :: "hashes \<Rightarrow> string \<Rightarrow> string \<Rightarrow> rogue_kind \<Rightarrow> string \<Rightarrow> net \<Rightarrow> net" where
  "raise_accusation hs i accused kind evidence s =
     (if accused = i \<or> is_isolated accused (nt_rogue s i) then s
      else (let digest = hs_text hs evidence in
            case accuse i accused kind evidence digest (nt_rogue s i) of
              (l, count) \<Rightarrow>
                maybe_isolate i accused kind digest count
                  (send (AccuseMsg i accused kind evidence digest) (set_rogue i l s))))"

section \<open>Steps\<close>

datatype event =
  Propose string "string \<times> u32" "string \<times> u32"   \<comment> \<open>with the roots over its reports and transcripts\<close>
| DeliverProposal string string u32 block bool     \<comment> \<open>to, from, view, block, are the roots those it holds\<close>
| DeliverVote string string string u32 string      \<comment> \<open>to, kind, from, view, hash\<close>
| DeliverAccuse string string string rogue_kind string string   \<comment> \<open>to, from, accused, kind, evidence, digest\<close>
| DeliverIsolate string string string rogue_kind string "string list" u32
| TickNode string bool                             \<comment> \<open>is it ready\<close>
| Suspect string string rogue_kind string          \<comment> \<open>a report, a spot proof or a deadline makes a node accuse\<close>
| Forge message                                    \<comment> \<open>a faulty key sends anything\<close>

definition acts :: "string set \<Rightarrow> net \<Rightarrow> string \<Rightarrow> bool" where
  "acts faulty s i \<longleftrightarrow> i \<notin> faulty \<and> i \<in> set (mb_nodes (co_membership (nt_node s i)))"

text \<open>The speaker of the view proposes once, and accepts its own proposal without sending a PREPARE.\<close>

definition propose :: "hashes \<Rightarrow> string \<Rightarrow> string \<times> u32 \<Rightarrow> string \<times> u32 \<Rightarrow> net \<Rightarrow> net option" where
  "propose hs i reports transcripts s =
     (let c = nt_node s i in
      if am_speaker hs c \<and> co_decided c = None \<and> co_proposal c = None \<and> nt_proposed s i \<noteq> Some (co_view c)
      then (let b = build_proposal (hs_text hs) reports transcripts (nt_rogue s i) c in
            Some (send (ProposalMsg i (co_view c) b) (set_node i (fst (on_proposal hs i b c))
              (s\<lparr>nt_proposed := (nt_proposed s)(i := Some (co_view c))\<rparr>))))
      else None)"

text \<open>Two digests of one sender are evidence in canonical order; a view timeout is evidence for its view.\<close>

definition equivocation_evidence :: "u32 \<Rightarrow> string \<Rightarrow> string \<Rightarrow> string" where
  \<open>equivocation_evidence view other hash =
     (case if other \<le> hash then (other, hash) else (hash, other) of
        (lo, hi) \<Rightarrow> ''{"view": '' @ dec (unat view) @ '', "digest_a": "'' @ lo @ ''", "digest_b": "'' @ hi @ ''"}'')\<close>

definition stall_evidence :: "u32 \<Rightarrow> string" where
  \<open>stall_evidence view = ''{"stalled_view": '' @ dec (unat view) @ '', "role": "speaker", "accuser_ready": true}''\<close>

text \<open>A block is refused when it has reports or transcripts and other roots, or omits a verdict of the node.\<close>

definition locally_valid :: "bool \<Rightarrow> rogue_ledger \<Rightarrow> block \<Rightarrow> bool" where
  "locally_valid roots_ok l b \<longleftrightarrow> bl_report_count b = 0 \<and> bl_spot_count b = 0 \<or>
     roots_ok \<and> list_all (\<lambda>e. re_node e \<in> set (map re_node (bl_rogue_entries b))) (rl_entries l)"

definition deliver_proposal :: "hashes \<Rightarrow> string \<Rightarrow> string \<Rightarrow> u32 \<Rightarrow> block \<Rightarrow> bool \<Rightarrow> net \<Rightarrow> net" where
  "deliver_proposal hs j from view b roots_ok s =
     (let hash = hs_block hs b in
      case note_proposal_digest from hash (nt_node s j) of
        (c, Some other) \<Rightarrow>
          raise_accusation hs j from Equivocation (equivocation_evidence view other hash) (set_node j c s)
      | (c, None) \<Rightarrow>
          if \<not> locally_valid roots_ok (nt_rogue s j) b then set_node j c s
          else (case on_proposal hs from b c of
                  (c', Some (True, _)) \<Rightarrow> send (VoteMsg ''prepare'' j (co_view c') hash) (set_node j c' s)
                | (c', _) \<Rightarrow> set_node j c' s))"

definition deliver_vote :: "string \<Rightarrow> string \<Rightarrow> string \<Rightarrow> u32 \<Rightarrow> string \<Rightarrow> net \<Rightarrow> net" where
  "deliver_vote j kind from view hash s =
     (case on_vote kind from view hash (nt_node s j) of
        (c, VoteEnteredCommit) \<Rightarrow> send (VoteMsg ''commit'' j view hash) (set_node j c s)
      | (c, _) \<Rightarrow> set_node j c s)"

definition deliver_accuse :: "string \<Rightarrow> string \<Rightarrow> string \<Rightarrow> rogue_kind \<Rightarrow> string \<Rightarrow> string \<Rightarrow> net \<Rightarrow> net" where
  "deliver_accuse j from accused kind evidence digest s =
     (case accuse from accused kind evidence digest (nt_rogue s j) of
        (l, count) \<Rightarrow> maybe_isolate j accused kind digest count (set_rogue j l s))"

definition deliver_isolate :: "string \<Rightarrow> string \<Rightarrow> rogue_kind \<Rightarrow> string \<Rightarrow> u32 \<Rightarrow> net \<Rightarrow> net" where
  "deliver_isolate j accused kind digest view s =
     (if is_isolated accused (nt_rogue s j) then s
      else (case try_isolate accused kind digest (frozen_quorum j s) view (nt_rogue s j) of
              (l, None) \<Rightarrow> set_rogue j l s
            | (l, Some _) \<Rightarrow> set_node j (apply_isolation accused (nt_node s j)) (set_rogue j l s)))"

text \<open>A node that was ready when its view timed out accuses the speaker of that view.\<close>

definition consensus_clock :: "hashes \<Rightarrow> string \<Rightarrow> bool \<Rightarrow> net \<Rightarrow> net" where
  "consensus_clock hs j was_ready s =
     (case tick (nt_node s j) of
        (c, rotated) \<Rightarrow>
          (let s = set_node j c s; stalled = co_view c - 1; speaker = speaker_of hs c stalled
           in if rotated \<and> was_ready \<and> speaker \<noteq> [] \<and> speaker \<noteq> j
              then raise_accusation hs j speaker Timeout (stall_evidence stalled) s else s))"

text \<open>A frame on the wire reaches another node; the frames of a key it has isolated are dropped unread.\<close>

definition receive :: "string set \<Rightarrow> string \<Rightarrow> message \<Rightarrow> net \<Rightarrow> (net \<Rightarrow> net) \<Rightarrow> net option" where
  "receive faulty j m s handle =
     (if acts faulty s j \<and> sender m \<noteq> j \<and> m \<in> nt_sent s
      then Some (if is_isolated (sender m) (nt_rogue s j) then s else handle s)
      else None)"

fun net_step :: "hashes \<Rightarrow> string set \<Rightarrow> net \<Rightarrow> event \<Rightarrow> net option" where
  "net_step hs faulty s (Propose i reports transcripts) =
     (if acts faulty s i then propose hs i reports transcripts s else None)"
| "net_step hs faulty s (DeliverProposal j from view b roots_ok) =
     receive faulty j (ProposalMsg from view b) s (deliver_proposal hs j from view b roots_ok)"
| "net_step hs faulty s (DeliverVote j kind from view hash) =
     receive faulty j (VoteMsg kind from view hash) s (deliver_vote j kind from view hash)"
| "net_step hs faulty s (DeliverAccuse j from accused kind evidence digest) =
     receive faulty j (AccuseMsg from accused kind evidence digest) s (deliver_accuse j from accused kind evidence digest)"
| "net_step hs faulty s (DeliverIsolate j from accused kind digest accusers view) =
     receive faulty j (IsolateMsg from accused kind digest accusers view) s (deliver_isolate j accused kind digest view)"
| "net_step hs faulty s (TickNode j ready) =
     (if acts faulty s j then Some (consensus_clock hs j ready s) else None)"
| "net_step hs faulty s (Suspect j accused kind evidence) =
     (if acts faulty s j then Some (raise_accusation hs j accused kind evidence s) else None)"
| "net_step hs faulty s (Forge m) = (if sender m \<in> faulty then Some (send m s) else None)"

fun net_run :: "hashes \<Rightarrow> string set \<Rightarrow> net \<Rightarrow> event list \<Rightarrow> net option" where
  "net_run hs faulty s [] = Some s"
| "net_run hs faulty s (e # es) = Option.bind (net_step hs faulty s e) (\<lambda>s'. net_run hs faulty s' es)"

text \<open>A run in which no timeout or isolation wraps a 32-bit view around: the view of the node that acts never falls.\<close>

fun actor :: "event \<Rightarrow> string option" where
  "actor (Propose i _ _) = Some i"
| "actor (DeliverProposal j _ _ _ _) = Some j"
| "actor (DeliverVote j _ _ _ _) = Some j"
| "actor (DeliverAccuse j _ _ _ _ _) = Some j"
| "actor (DeliverIsolate j _ _ _ _ _ _) = Some j"
| "actor (TickNode j _) = Some j"
| "actor (Suspect j _ _ _) = Some j"
| "actor (Forge _) = None"

definition views_rise :: "event \<Rightarrow> net \<Rightarrow> net \<Rightarrow> bool" where
  "views_rise e s s' \<longleftrightarrow> (case actor e of None \<Rightarrow> True | Some j \<Rightarrow> co_view (nt_node s j) \<le> co_view (nt_node s' j))"

fun no_wrap :: "hashes \<Rightarrow> string set \<Rightarrow> net \<Rightarrow> event list \<Rightarrow> bool" where
  "no_wrap hs faulty s [] \<longleftrightarrow> True"
| "no_wrap hs faulty s (e # es) \<longleftrightarrow>
     (case net_step hs faulty s e of None \<Rightarrow> True | Some s' \<Rightarrow> views_rise e s s' \<and> no_wrap hs faulty s' es)"

section \<open>Votes of an honest node\<close>

text \<open>A quorum of commit votes for a hash in a view is on the wire.\<close>

definition certified :: "nat \<Rightarrow> message set \<Rightarrow> u32 \<Rightarrow> string \<Rightarrow> bool" where
  "certified q sent v h \<longleftrightarrow> (\<exists>K. finite K \<and> q \<le> card K \<and> (\<forall>k \<in> K. VoteMsg ''commit'' k v h \<in> sent))"

abbreviation live_quorum :: "membership \<Rightarrow> consensus \<Rightarrow> nat" where
  "live_quorum m c \<equiv> decision_quorum (length (filter (\<lambda>n. n \<notin> co_isolated c) (mb_nodes m)))"

text \<open>A node votes to commit once per view, for the block it holds, and decides on votes that are on the wire.\<close>

definition node_ok :: "membership \<Rightarrow> string \<Rightarrow> message set \<Rightarrow> consensus \<Rightarrow> bool" where
  "node_ok m i sent c \<longleftrightarrow> co_me c = i \<and> co_membership c = m \<and>
     (co_proposal c = None \<longleftrightarrow> co_proposal_hash c = None) \<and>
     (\<forall>v h. VoteMsg ''commit'' i v h \<in> sent \<longrightarrow> v \<le> co_view c \<and>
        (v = co_view c \<longrightarrow> co_proposal_hash c = Some h \<and> co_phase c \<in> {Committing, Decided})) \<and>
     (\<forall>v h h'. VoteMsg ''commit'' i v h \<in> sent \<longrightarrow> VoteMsg ''commit'' i v h' \<in> sent \<longrightarrow> h = h') \<and>
     (\<forall>h k. k \<in> co_commit_votes c h \<longrightarrow> VoteMsg ''commit'' k (co_view c) h \<in> sent) \<and>
     (\<forall>h. co_decided c = Some h \<longrightarrow> (\<exists>v. certified (live_quorum m c) sent v h))"

lemma node_ok_quorum: "node_ok m i sent c \<Longrightarrow> quorum c = live_quorum m c"
  by (simp add: node_ok_def quorum_def live_n_def live_nodes_def)

lemma certified_mono: "certified q sent v h \<Longrightarrow> sent \<subseteq> sent' \<Longrightarrow> q' \<le> q \<Longrightarrow> certified q' sent' v h"
  unfolding certified_def by (meson order_trans subsetD)

lemma node_ok_mono:
  assumes "node_ok m i sent c" and "sent \<subseteq> sent'" and "\<And>v h. VoteMsg ''commit'' i v h \<in> sent' \<Longrightarrow> VoteMsg ''commit'' i v h \<in> sent"
  shows "node_ok m i sent' c"
proof -
  have dec: "\<exists>v. certified (live_quorum m c) sent' v h" if "co_decided c = Some h" for h
    using that assms(1) certified_mono [OF _ assms(2) order_refl] unfolding node_ok_def by blast
  then show ?thesis
    using assms unfolding node_ok_def by (intro conjI allI impI) (blast+)
qed

lemma node_ok_enter:
  assumes "node_ok m i sent c" and "co_view c < v"
  shows "node_ok m i sent (enter_view v c)"
proof -
  have "w < v" if "VoteMsg ''commit'' i w h \<in> sent" for w h
    using that assms unfolding node_ok_def by (meson le_less_trans)
  then show ?thesis
    using assms(1) unfolding node_ok_def by (auto simp: enter_view_def less_imp_le)
qed

text \<open>Changes that leave what the invariant speaks of alone.\<close>

lemma node_ok_cong:
  assumes "node_ok m i sent c" and "co_me c' = co_me c" and "co_membership c' = co_membership c"
    and "co_isolated c' = co_isolated c" and "co_proposal c' = co_proposal c" and "co_proposal_hash c' = co_proposal_hash c"
    and "co_view c' = co_view c" and "co_phase c' = co_phase c" and "co_commit_votes c' = co_commit_votes c"
    and "co_decided c' = co_decided c"
  shows "node_ok m i sent c'"
  using assms unfolding node_ok_def by simp

lemma node_ok_note:
  assumes "node_ok m i sent c" and "note_proposal_digest from h c = (c', r)"
  shows "node_ok m i sent c'"
  by (rule node_ok_cong [OF assms(1)]) (use assms(2) in \<open>auto simp: note_proposal_digest_def Let_def split: option.splits\<close>)

lemma node_ok_proposal:
  assumes "node_ok m i sent c" and "on_proposal hs from b c = (c', r)"
  shows "node_ok m i sent c'"
proof -
  let ?d = "if bl_view b > co_view c then enter_view (bl_view b) c else c"
  have d: "node_ok m i sent ?d" using assms(1) node_ok_enter by auto
  obtain e x where e: "note_proposal_digest from (hs_block hs b) ?d = (e, x)" by fastforce
  have ok: "node_ok m i sent e" by (rule node_ok_note [OF d e])
  let ?accepted = "record_prepare (hs_block hs b) (co_me e)
      (e\<lparr>co_proposal := Some b, co_proposal_hash := Some (hs_block hs b), co_phase := Prepared\<rparr>)"
  have "c' = c \<or> c' = e \<or> c' = ?accepted \<and> co_proposal e = None"
    using assms(2) e by (auto simp: on_proposal_def Let_def split: if_splits option.splits)
  moreover have "node_ok m i sent ?accepted" if "co_proposal e = None"
  proof -
    have "v < co_view e" if "VoteMsg ''commit'' i v h \<in> sent" for v h
      using that ok \<open>co_proposal e = None\<close> unfolding node_ok_def by (metis option.distinct(1) order_le_less)
    then show ?thesis
      using ok unfolding node_ok_def by (auto simp: record_prepare_def less_imp_le)
  qed
  ultimately show ?thesis using assms(1) ok by blast
qed

lemma node_ok_record_prepare: "node_ok m i sent c \<Longrightarrow> node_ok m i sent (record_prepare h k c)"
  by (erule node_ok_cong) (simp_all add: record_prepare_def)

lemma node_ok_record_commit:
  assumes "node_ok m i sent c" and "VoteMsg ''commit'' k (co_view c) h \<in> sent"
  shows "node_ok m i sent (record_commit h k c)"
  using assms unfolding node_ok_def by (auto simp: record_commit_def)

text \<open>Entering the commit phase: the vote is sent and recorded at once.\<close>

lemma node_ok_commit:
  assumes ok: "node_ok m i sent c" and ph: "co_phase c = Prepared" and hash: "co_proposal_hash c = Some h"
  shows "node_ok m i (insert (VoteMsg ''commit'' i (co_view c) h) sent) (record_commit h i (c\<lparr>co_phase := Committing\<rparr>))"
proof -
  let ?sent = "insert (VoteMsg ''commit'' i (co_view c) h) sent"
  have old: "v < co_view c" if "VoteMsg ''commit'' i v h' \<in> sent" for v h'
    using that ok ph unfolding node_ok_def by (metis insertE order_le_less phase.distinct(7,9) singletonD)
  have dec: "\<exists>v. certified (live_quorum m c) ?sent v h'" if "co_decided c = Some h'" for h'
    using that ok certified_mono [of _ sent _ _ ?sent] unfolding node_ok_def by blast
  show ?thesis
    using ok hash old dec unfolding node_ok_def
    by (intro conjI) (auto simp: record_commit_def less_imp_le)
qed

lemma node_ok_decide:
  assumes "node_ok m i sent c" and "quorum c \<le> card (co_commit_votes c h)"
    and "co_phase c = Committing"
  shows "node_ok m i sent (c\<lparr>co_phase := Decided, co_decided := Some h\<rparr>)"
proof -
  have "0 < card (co_commit_votes c h)" using assms(2) by (simp add: quorum_def decision_quorum_def)
  then have "certified (quorum c) sent (co_view c) h"
    using assms unfolding certified_def node_ok_def by (intro exI [of _ "co_commit_votes c h"]) (auto intro: card_ge_0_finite)
  then show ?thesis using assms unfolding node_ok_def node_ok_quorum [OF assms(1)] by auto
qed

lemma node_ok_vote:
  assumes ok: "node_ok m i sent c" and sent: "VoteMsg kind from view h \<in> sent" and vote: "on_vote kind from view h c = (c', out)"
  shows "node_ok m i (if out = VoteEnteredCommit then insert (VoteMsg ''commit'' i view h) sent else sent) c'"
proof -
  obtain d where def_d: "d = (if view > co_view c then enter_view view c else c)" by blast
  have d: "node_ok m i sent d" unfolding def_d using ok node_ok_enter by auto
  note vote = vote [unfolded on_vote_def, folded def_d, unfolded Let_def]
  show ?thesis
  proof (cases "view = co_view d \<and> from \<notin> co_isolated d \<and> (kind = ''prepare'' \<or> kind = ''commit'')")
    case False
    then have "c' = d" "out \<noteq> VoteEnteredCommit"
      using vote by (auto split: if_splits)
    then show ?thesis using d by simp
  next
    case True
    then consider "kind = ''prepare''" | "kind = ''commit''" by blast
    then show ?thesis
    proof cases
      case 1
      obtain e where def_e: "e = record_prepare h from d" by blast
      have e: "node_ok m i sent e" unfolding def_e by (rule node_ok_record_prepare [OF d])
      have me: "co_me e = i" and view: "co_view e = view" using e True by (auto simp: node_ok_def def_e record_prepare_def)
      note vote = vote [folded def_e]
      show ?thesis
      proof (cases "co_proposal_hash e = Some h \<and> co_decided e = None \<and> co_phase e = Prepared \<and> quorum e \<le> card (co_prepare_votes e h)")
        case yes: True
        then have "c' = record_commit h i (e\<lparr>co_phase := Committing\<rparr>)" "out = VoteEnteredCommit"
          using vote True 1 me yes unfolding def_e [symmetric] by (auto split: if_splits)
        then show ?thesis using node_ok_commit [OF e] yes view by simp
      next
        case False
        then have "c' = e" "out \<noteq> VoteEnteredCommit"
          using vote True 1 False unfolding def_e [symmetric] by (auto split: if_splits)
        then show ?thesis using e by simp
      qed
    next
      case 2
      obtain e where def_e: "e = record_commit h from d" by blast
      have e: "node_ok m i sent e" unfolding def_e using node_ok_record_commit [OF d] sent True 2 by simp
      show ?thesis
      proof (cases "(co_proposal_hash e = Some h \<or> co_decided e = Some h) \<and> co_decided e = None \<and> co_phase e = Committing \<and> quorum e \<le> card (co_commit_votes e h)")
        case yes: True
        then have "c' = e\<lparr>co_phase := Decided, co_decided := Some h\<rparr>" "out = VoteDecided"
          using vote True 2 yes unfolding def_e [symmetric] by (auto split: if_splits)
        then show ?thesis using node_ok_decide [OF e] yes by simp
      next
        case False
        then have "c' = e" "out \<noteq> VoteEnteredCommit"
          using vote True 2 False unfolding def_e [symmetric] by (auto split: if_splits)
        then show ?thesis using e by simp
      qed
    qed
  qed
qed

lemma next_view: "v \<le> v + 1 \<Longrightarrow> v < v + (1 :: u32)"
  by (simp add: less_le)

lemma two_views: "v \<le> v + 1 + 1 \<Longrightarrow> v \<le> v + 1 \<and> v + 1 \<le> v + 1 + (1 :: u32)"
  by unat_arith simp_all

lemma node_ok_tick:
  assumes "node_ok m i sent c" and "co_view c \<le> co_view (fst (tick c))"
  shows "node_ok m i sent (fst (tick c))"
proof -
  let ?d = "c\<lparr>co_ticks_in_view := co_ticks_in_view c + 1\<rparr>"
  have d: "node_ok m i sent ?d" by (rule node_ok_cong [OF assms(1)]) simp_all
  show ?thesis
    using assms node_ok_enter [OF d, of "co_view c + 1"] next_view [of "co_view c"] d
    by (auto simp: tick_def Let_def enter_view_def split: if_splits)
qed

text \<open>An isolation takes a node to the next view with a quorum that is not larger.\<close>

lemma decision_quorum_mono: "a \<le> b \<Longrightarrow> decision_quorum a \<le> decision_quorum b"
  by (simp add: decision_quorum_def byzantine_tolerance_def div_le_mono)

lemma length_filter_insert: "length (filter (\<lambda>n. n \<notin> insert x A) ns) \<le> length (filter (\<lambda>n. n \<notin> A) ns)"
  by (induction ns) auto

lemma live_quorum_insert: "live_quorum m (c\<lparr>co_isolated := insert x (co_isolated c)\<rparr>) \<le> live_quorum m c"
  by (rule decision_quorum_mono) (use length_filter_insert in simp)

lemma node_ok_isolate:
  assumes "node_ok m i sent c" and "co_view c \<le> co_view (apply_isolation x c)"
  shows "node_ok m i sent (apply_isolation x c)"
proof (cases "x \<in> co_isolated c")
  case False
  let ?d = "c\<lparr>co_isolated := insert x (co_isolated c)\<rparr>"
  have "\<exists>v. certified (live_quorum m ?d) sent v h" if "co_decided c = Some h" for h
    using that assms(1) certified_mono [OF _ order_refl live_quorum_insert] unfolding node_ok_def by blast
  then have d: "node_ok m i sent ?d" using assms(1) unfolding node_ok_def by simp
  then show ?thesis
    using assms(2) False node_ok_enter [OF d, of "co_view c + 1"] next_view [of "co_view c"]
    by (simp add: apply_isolation_def enter_view_def)
qed (use assms(1) in \<open>simp add: apply_isolation_def\<close>)

section \<open>The ledger of a node\<close>

text \<open>Every accusation on file came over the wire, and the node has isolated exactly whom its verdicts name.\<close>

definition rogue_ok :: "membership \<Rightarrow> message set \<Rightarrow> consensus \<Rightarrow> rogue_ledger \<Rightarrow> bool" where
  "rogue_ok m sent c l \<longleftrightarrow> co_isolated c = re_node ` set (rl_entries l) \<and>
     (\<exists>ops. ledger_ok (decision_quorum (length (mb_nodes m))) ops l \<and>
        (\<forall>a x k ev d. Accuse a x k ev d \<in> set ops \<longrightarrow> AccuseMsg a x k ev d \<in> sent))"

lemma rogue_okI:
  assumes "co_isolated c = re_node ` set (rl_entries l)" and "ledger_ok (decision_quorum (length (mb_nodes m))) ops l"
    and "\<And>a x k ev d. Accuse a x k ev d \<in> set ops \<Longrightarrow> AccuseMsg a x k ev d \<in> sent"
  shows "rogue_ok m sent c l"
  unfolding rogue_ok_def by (intro conjI exI [of _ ops] allI impI) (rule assms, assumption?)+

lemma rogue_okE:
  assumes "rogue_ok m sent c l"
  obtains ops where "co_isolated c = re_node ` set (rl_entries l)" and "ledger_ok (decision_quorum (length (mb_nodes m))) ops l"
    and "\<And>a x k ev d. Accuse a x k ev d \<in> set ops \<Longrightarrow> AccuseMsg a x k ev d \<in> sent"
  using assms unfolding rogue_ok_def by (elim conjE exE) (rule that, assumption+, simp)

lemma rogue_ok_mono: "rogue_ok m sent c l \<Longrightarrow> sent \<subseteq> sent' \<Longrightarrow> rogue_ok m sent' c l"
  by (erule rogue_okE, rule rogue_okI) (assumption+, rule subsetD)

lemma rogue_ok_cong: "rogue_ok m sent c l \<Longrightarrow> co_isolated c' = co_isolated c \<Longrightarrow> rogue_ok m sent c' l"
  by (simp add: rogue_ok_def)

lemma accuse_entries: "accuse a x k ev d l = (l', n) \<Longrightarrow> rl_entries l' = rl_entries l"
  by (auto simp: accuse_def Let_def split: if_splits)

lemma rogue_ok_accuse:
  assumes "rogue_ok m sent c l" and "accuse a x k ev d l = (l', n)" and "AccuseMsg a x k ev d \<in> sent"
  shows "rogue_ok m sent c l'"
  using assms(1)
proof (rule rogue_okE)
  fix ops
  assume ops: "co_isolated c = re_node ` set (rl_entries l)" "ledger_ok (decision_quorum (length (mb_nodes m))) ops l"
    "\<And>a x k ev d. Accuse a x k ev d \<in> set ops \<Longrightarrow> AccuseMsg a x k ev d \<in> sent"
  show ?thesis
  proof (rule rogue_okI)
    show "ledger_ok (decision_quorum (length (mb_nodes m))) (ops @ [Accuse a x k ev d]) l'"
      using ledger_ok_step [OF ops(2), of "Accuse a x k ev d"] assms(2) by simp
    show "co_isolated c = re_node ` set (rl_entries l')" using ops(1) accuse_entries [OF assms(2)] by simp
  qed (use ops(3) assms(3) in auto)
qed

lemma rogue_ok_isolate:
  assumes "rogue_ok m sent c l" and "try_isolate x k d (decision_quorum (length (mb_nodes m))) view l = (l', r)"
  shows "case r of None \<Rightarrow> l' = l | Some e \<Rightarrow> rogue_ok m sent (apply_isolation x c) l'"
proof (cases r)
  case None
  then show ?thesis using assms(2) by (auto simp: try_isolate_def Let_def split: if_splits)
next
  case (Some e)
  let ?op = "TryIsolate x k d (decision_quorum (length (mb_nodes m))) view"
  from assms(1) have "rogue_ok m sent (apply_isolation x c) l'"
  proof (rule rogue_okE)
    fix ops
    assume ops: "co_isolated c = re_node ` set (rl_entries l)" "ledger_ok (decision_quorum (length (mb_nodes m))) ops l"
      "\<And>a x k ev d. Accuse a x k ev d \<in> set ops \<Longrightarrow> AccuseMsg a x k ev d \<in> sent"
    show ?thesis
    proof (rule rogue_okI)
      show "ledger_ok (decision_quorum (length (mb_nodes m))) (ops @ [?op]) l'"
        using ledger_ok_step [OF ops(2), of ?op] assms(2) by simp
      have "\<not> is_isolated x l" and l': "rl_entries l' = rl_entries l @ [e]" "re_node e = x"
        using assms(2) Some by (auto simp: try_isolate_def Let_def split: if_splits)
      then have "x \<notin> co_isolated c" using ops(1) by (auto simp: is_isolated_def list_ex_iff)
      then show "co_isolated (apply_isolation x c) = re_node ` set (rl_entries l')"
        using ops(1) l' by (simp add: apply_isolation_def enter_view_def)
    qed (use ops(3) in auto)
  qed
  then show ?thesis by (simp add: Some)
qed

section \<open>The network invariant\<close>

definition local_ok :: "membership \<Rightarrow> string \<Rightarrow> net \<Rightarrow> bool" where
  "local_ok m i s \<longleftrightarrow> node_ok m i (nt_sent s) (nt_node s i) \<and> rogue_ok m (nt_sent s) (nt_node s i) (nt_rogue s i)"

definition net_ok :: "membership \<Rightarrow> string set \<Rightarrow> net \<Rightarrow> bool" where
  "net_ok m faulty s \<longleftrightarrow>
     (\<forall>i. co_membership (nt_node s i) = m) \<and>
     (\<forall>i. i \<in> set (mb_nodes m) \<longrightarrow> i \<notin> faulty \<longrightarrow> local_ok m i s) \<and>
     (\<forall>msg \<in> nt_sent s. sender msg \<in> set (mb_nodes m) \<union> faulty)"

lemma local_ok_more:
  assumes "local_ok m i s" and "nt_node s' i = nt_node s i" and "nt_rogue s' i = nt_rogue s i" and "nt_sent s \<subseteq> nt_sent s'"
    and "\<And>v h. VoteMsg ''commit'' i v h \<in> nt_sent s' \<Longrightarrow> VoteMsg ''commit'' i v h \<in> nt_sent s"
  shows "local_ok m i s'"
  using assms(1) node_ok_mono [OF _ assms(4,5)] rogue_ok_mono [OF _ assms(4)] unfolding local_ok_def assms(2,3) by blast

text \<open>A step of a node: it changes itself and sends messages of its own.\<close>

definition own_step :: "string \<Rightarrow> net \<Rightarrow> net \<Rightarrow> bool" where
  "own_step j s s' \<longleftrightarrow> (\<forall>i. i \<noteq> j \<longrightarrow> nt_node s' i = nt_node s i \<and> nt_rogue s' i = nt_rogue s i) \<and>
     nt_sent s \<subseteq> nt_sent s' \<and> (\<forall>msg \<in> nt_sent s'. msg \<in> nt_sent s \<or> sender msg = j)"

lemma own_step_refl [simp]: "own_step j s s"
  by (simp add: own_step_def)

lemma own_step_trans: "own_step j s s' \<Longrightarrow> own_step j s' s'' \<Longrightarrow> own_step j s s''"
  unfolding own_step_def by (metis order_trans)

lemma own_step_simps [simp]:
  "own_step j s (set_node j c s)" "own_step j s (set_rogue j l s)" "sender msg = j \<Longrightarrow> own_step j s (send msg s)"
  by (auto simp: own_step_def set_node_def set_rogue_def send_def)

lemma net_ok_own:
  assumes net: "net_ok m faulty s" and j: "acts faulty s j" and own: "own_step j s s'" and ok: "local_ok m j s'"
  shows "net_ok m faulty s'"
proof -
  have mem: "j \<in> set (mb_nodes m)" "j \<notin> faulty" using net j by (auto simp: net_ok_def acts_def)
  have "local_ok m i s'" if i: "i \<in> set (mb_nodes m)" "i \<notin> faulty" "i \<noteq> j" for i
  proof (rule local_ok_more)
    show "local_ok m i s" using net i by (simp add: net_ok_def)
  qed (use own i(3) in \<open>auto simp: own_step_def\<close>)
  moreover have "co_membership (nt_node s' i) = m" for i
    using net own ok by (cases "i = j") (auto simp: net_ok_def own_step_def local_ok_def node_ok_def)
  moreover have "\<forall>msg \<in> nt_sent s'. sender msg \<in> set (mb_nodes m) \<union> faulty"
    using net own mem(1) by (auto simp: net_ok_def own_step_def)
  ultimately show ?thesis using ok by (auto simp: net_ok_def)
qed

lemma net_ok_local: "net_ok m faulty s \<Longrightarrow> acts faulty s j \<Longrightarrow> local_ok m j s"
  by (auto simp: net_ok_def acts_def)

lemma net_ok_forge:
  assumes "net_ok m faulty s" and "sender msg \<in> faulty"
  shows "net_ok m faulty (send msg s)"
proof -
  have "local_ok m i (send msg s)" if i: "i \<in> set (mb_nodes m)" "i \<notin> faulty" for i
  proof (rule local_ok_more)
    show "local_ok m i s" using assms(1) i by (simp add: net_ok_def)
  qed (use assms(2) i(2) in \<open>auto simp: send_def\<close>)
  then show ?thesis using assms by (auto simp: net_ok_def send_def)
qed

text \<open>What the handlers are composed of.\<close>

lemma local_ok_send:
  assumes "local_ok m j s" and "\<forall>v h. msg \<noteq> VoteMsg ''commit'' j v h"
  shows "local_ok m j (send msg s)"
  using assms(1) by (rule local_ok_more) (use assms(2) in \<open>auto simp: send_def\<close>)

lemma local_ok_node:
  assumes "local_ok m j s" and "node_ok m j (nt_sent s) c" and "co_isolated c = co_isolated (nt_node s j)"
  shows "local_ok m j (set_node j c s)"
  using assms rogue_ok_cong [OF _ assms(3)] by (simp add: local_ok_def set_node_def)

lemma net_fields [simp]:
  "nt_node (set_rogue i l s) = nt_node s" "nt_node (send msg s) = nt_node s" "nt_sent (set_rogue i l s) = nt_sent s"
  "nt_sent (set_node i c s) = nt_sent s" "nt_rogue (set_node i c s) = nt_rogue s" "nt_rogue (send msg s) = nt_rogue s"
  "nt_node (set_node i c s) i = c" "nt_rogue (set_rogue i l s) i = l" "msg \<in> nt_sent (send msg s)"
  "frozen_quorum i (set_rogue j l s) = frozen_quorum i s" "frozen_quorum i (send msg s) = frozen_quorum i s"
  by (simp_all add: set_node_def set_rogue_def send_def frozen_quorum_def)

lemma frozen_quorum_ok: "local_ok m j s \<Longrightarrow> frozen_quorum j s = decision_quorum (length (mb_nodes m))"
  by (simp add: local_ok_def node_ok_def frozen_quorum_def)

lemma local_ok_accuse:
  assumes "local_ok m j s" and "accuse a x k ev d (nt_rogue s j) = (l, n)" and "AccuseMsg a x k ev d \<in> nt_sent s"
  shows "local_ok m j (set_rogue j l s)"
  using assms(1) rogue_ok_accuse [OF _ assms(2,3)] by (simp add: local_ok_def)

lemma local_ok_verdict:
  assumes ok: "local_ok m j s" and t: "try_isolate x k d (frozen_quorum j s) view (nt_rogue s j) = (l, r)"
    and rise: "r \<noteq> None \<Longrightarrow> co_view (nt_node s j) \<le> co_view (apply_isolation x (nt_node s j))"
  shows "case r of None \<Rightarrow> set_rogue j l s = s | Some e \<Rightarrow> local_ok m j (set_node j (apply_isolation x (nt_node s j)) (set_rogue j l s))"
proof -
  have r: "case r of None \<Rightarrow> l = nt_rogue s j | Some e \<Rightarrow> rogue_ok m (nt_sent s) (apply_isolation x (nt_node s j)) l"
    by (rule rogue_ok_isolate [OF _ t [unfolded frozen_quorum_ok [OF ok]]]) (use ok in \<open>simp add: local_ok_def\<close>)
  show ?thesis
  proof (cases r)
    case None
    then show ?thesis using r by (simp add: set_rogue_def)
  next
    case (Some e)
    then show ?thesis
      using r ok rise node_ok_isolate [of m j "nt_sent s" "nt_node s j" x] by (simp add: local_ok_def set_node_def set_rogue_def)
  qed
qed

lemma isolation_view: "co_view (apply_isolation x c) = co_view c \<or> co_view (apply_isolation x c) = co_view c + 1"
  by (simp add: apply_isolation_def enter_view_def)

lemma maybe_isolate_local:
  assumes ok: "local_ok m j s" and rise: "co_view (nt_node s j) \<le> co_view (nt_node (maybe_isolate j x k d n s) j)"
  shows "local_ok m j (maybe_isolate j x k d n s)"
proof (cases "n < frozen_quorum j s")
  case False
  obtain l r where t: "try_isolate x k d (frozen_quorum j s) 1 (nt_rogue s j) = (l, r)" by fastforce
  show ?thesis
  proof (cases r)
    case None
    then show ?thesis using False t local_ok_verdict [OF ok t] ok by (simp add: maybe_isolate_def)
  next
    case (Some e)
    then have "local_ok m j (set_node j (apply_isolation x (nt_node s j)) (set_rogue j l s))"
      using local_ok_verdict [OF ok t] rise False t by (simp add: maybe_isolate_def)
    then show ?thesis using False t Some local_ok_send by (simp add: maybe_isolate_def)
  qed
qed (use ok in \<open>simp add: maybe_isolate_def\<close>)

lemma maybe_isolate_own: "own_step j s (maybe_isolate j x k d n s)"
  unfolding maybe_isolate_def by (auto split: prod.split option.split simp: own_step_def set_node_def set_rogue_def send_def)

lemma maybe_isolate_view:
  "co_view (nt_node (maybe_isolate j x k d n s) j) = co_view (nt_node s j) \<or>
   co_view (nt_node (maybe_isolate j x k d n s) j) = co_view (nt_node s j) + 1"
  using isolation_view [of x "nt_node s j"] by (auto simp: maybe_isolate_def split: prod.split option.split)

lemma raise_accusation_local:
  assumes ok: "local_ok m j s" and rise: "co_view (nt_node s j) \<le> co_view (nt_node (raise_accusation hs j x k ev s) j)"
  shows "local_ok m j (raise_accusation hs j x k ev s)"
proof (cases "x = j \<or> is_isolated x (nt_rogue s j)")
  case False
  obtain l n where a: "accuse j x k ev (hs_text hs ev) (nt_rogue s j) = (l, n)" by fastforce
  let ?msg = "AccuseMsg j x k ev (hs_text hs ev)"
  have "local_ok m j (send ?msg s)" by (rule local_ok_send [OF ok]) simp
  then have "local_ok m j (set_rogue j l (send ?msg s))"
    by (rule local_ok_accuse [where a = j and x = x and k = k and ev = ev and d = "hs_text hs ev" and n = n]) (simp_all add: a)
  moreover have "set_rogue j l (send ?msg s) = send ?msg (set_rogue j l s)" by (simp add: set_rogue_def send_def)
  ultimately have mid: "local_ok m j (send ?msg (set_rogue j l s))" by simp
  have r: "raise_accusation hs j x k ev s = maybe_isolate j x k (hs_text hs ev) n (send ?msg (set_rogue j l s))"
    using False a by (simp add: raise_accusation_def Let_def)
  show ?thesis unfolding r by (rule maybe_isolate_local [OF mid]) (use rise in \<open>simp add: r\<close>)
qed (use ok in \<open>simp add: raise_accusation_def\<close>)

lemma raise_accusation_own: "own_step j s (raise_accusation hs j x k ev s)"
proof -
  obtain l n where a: "accuse j x k ev (hs_text hs ev) (nt_rogue s j) = (l, n)" by fastforce
  have "own_step j s (send (AccuseMsg j x k ev (hs_text hs ev)) (set_rogue j l s))"
    by (rule own_step_trans [where s' = "set_rogue j l s"]) simp_all
  from own_step_trans [OF this maybe_isolate_own] show ?thesis by (simp add: raise_accusation_def Let_def a)
qed

lemma raise_accusation_view:
  "co_view (nt_node (raise_accusation hs j x k ev s) j) = co_view (nt_node s j) \<or>
   co_view (nt_node (raise_accusation hs j x k ev s) j) = co_view (nt_node s j) + 1"
proof -
  obtain l n where a: "accuse j x k ev (hs_text hs ev) (nt_rogue s j) = (l, n)" by fastforce
  show ?thesis
    using maybe_isolate_view [of j x k "hs_text hs ev" n "send (AccuseMsg j x k ev (hs_text hs ev)) (set_rogue j l s)"]
    by (simp add: raise_accusation_def Let_def a)
qed

section \<open>Every step\<close>

text \<open>A handler keeps the invariant of the node and touches nothing else.\<close>

definition handled :: "membership \<Rightarrow> string \<Rightarrow> net \<Rightarrow> net \<Rightarrow> bool" where
  "handled m j s s' \<longleftrightarrow> own_step j s s' \<and> (co_view (nt_node s j) \<le> co_view (nt_node s' j) \<longrightarrow> local_ok m j s \<longrightarrow> local_ok m j s')"

lemma handled_raise: "handled m j s (raise_accusation hs j x k ev s)"
  using raise_accusation_own raise_accusation_local by (simp add: handled_def)

lemma note_isolated: "note_proposal_digest from h c = (c', r) \<Longrightarrow> co_isolated c' = co_isolated c \<and> co_view c' = co_view c"
  by (auto simp: note_proposal_digest_def Let_def split: option.splits)

lemma on_proposal_isolated: "on_proposal hs from b c = (c', r) \<Longrightarrow> co_isolated c' = co_isolated c"
  by (auto simp: on_proposal_def Let_def note_proposal_digest_def record_prepare_def enter_view_def split: if_splits option.splits)

lemma on_vote_isolated: "on_vote kind from view h c = (c', r) \<Longrightarrow> co_isolated c' = co_isolated c"
  by (auto simp: on_vote_def Let_def record_prepare_def record_commit_def enter_view_def split: if_splits)

lemma handled_set:
  assumes "\<And>m. local_ok m j s \<Longrightarrow> node_ok m j (nt_sent s) c" and "co_isolated c = co_isolated (nt_node s j)"
  shows "handled m j s (set_node j c s)"
  using assms local_ok_node by (simp add: handled_def)

lemma handled_proposal: "handled m j s (deliver_proposal hs j src view b roots_ok s)"
proof -
  obtain c x where noted: "note_proposal_digest src (hs_block hs b) (nt_node s j) = (c, x)" by fastforce
  obtain c' y where pr: "on_proposal hs src b c = (c', y)" by fastforce
  have iso: "co_isolated c = co_isolated (nt_node s j)" "co_isolated c' = co_isolated (nt_node s j)" "co_view c = co_view (nt_node s j)"
    using note_isolated [OF noted] on_proposal_isolated [OF pr] by simp_all
  have ok: "node_ok m j (nt_sent s) c" "node_ok m j (nt_sent s) c'" if "local_ok m j s" for m
  proof -
    show c: "node_ok m j (nt_sent s) c" by (rule node_ok_note [OF _ noted]) (use that in \<open>simp add: local_ok_def\<close>)
    show "node_ok m j (nt_sent s) c'" by (rule node_ok_proposal [OF c pr])
  qed
  have both: "handled m j s (set_node j c s)" "handled m j s (set_node j c' s)"
    using handled_set [of j s c m] handled_set [of j s c' m] ok iso by blast+
  show ?thesis
  proof (cases x)
    case (Some other)
    let ?ev = "equivocation_evidence view other (hs_block hs b)"
    have r: "deliver_proposal hs j src view b roots_ok s = raise_accusation hs j src Equivocation ?ev (set_node j c s)"
      using noted Some by (simp add: deliver_proposal_def)
    show ?thesis
      using own_step_trans [OF _ raise_accusation_own, of j s "set_node j c s" hs src Equivocation ?ev]
        raise_accusation_local [of m j "set_node j c s" hs src Equivocation ?ev] local_ok_node [of m j s c] ok(1) iso
      unfolding r handled_def by simp
  next
    case None
    let ?vote = "VoteMsg ''prepare'' j (co_view c') (hs_block hs b)"
    have vote: "handled m j s (send ?vote (set_node j c' s))"
      using own_step_trans [OF _ own_step_simps(3), of j s "set_node j c' s" ?vote] local_ok_send [of m j "set_node j c' s" ?vote]
        local_ok_node [of m j s c'] ok(2) iso(2) by (simp add: handled_def)
    have "deliver_proposal hs j src view b roots_ok s \<in> {set_node j c s, set_node j c' s, send ?vote (set_node j c' s)}"
      using noted None pr by (auto simp: deliver_proposal_def split: option.splits bool.splits)
    then show ?thesis using both vote by auto
  qed
qed

lemma handled_vote:
  assumes "VoteMsg kind src view h \<in> nt_sent s"
  shows "handled m j s (deliver_vote j kind src view h s)"
proof -
  obtain c out where vote: "on_vote kind src view h (nt_node s j) = (c, out)" by fastforce
  let ?msg = "VoteMsg ''commit'' j view h"
  have r: "deliver_vote j kind src view h s = (if out = VoteEnteredCommit then send ?msg (set_node j c s) else set_node j c s)"
    using vote by (cases out) (simp_all add: deliver_vote_def)
  have own: "own_step j s (send ?msg (set_node j c s))"
    by (rule own_step_trans [where s' = "set_node j c s"]) simp_all
  have "local_ok m j (deliver_vote j kind src view h s)" if ok: "local_ok m j s"
  proof -
    have "node_ok m j (if out = VoteEnteredCommit then insert ?msg (nt_sent s) else nt_sent s) c"
      by (rule node_ok_vote [OF _ assms vote]) (use ok in \<open>simp add: local_ok_def\<close>)
    moreover have "rogue_ok m (if out = VoteEnteredCommit then insert ?msg (nt_sent s) else nt_sent s) c (nt_rogue s j)"
      by (rule rogue_ok_cong [OF rogue_ok_mono]) (use ok on_vote_isolated [OF vote] in \<open>auto simp: local_ok_def\<close>)
    ultimately show ?thesis unfolding r by (simp add: local_ok_def set_node_def send_def split: if_splits)
  qed
  then show ?thesis using own by (simp add: handled_def r)
qed

lemma handled_accuse:
  assumes "AccuseMsg src x k ev d \<in> nt_sent s"
  shows "handled m j s (deliver_accuse j src x k ev d s)"
proof -
  obtain l n where a: "accuse src x k ev d (nt_rogue s j) = (l, n)" by fastforce
  have r: "deliver_accuse j src x k ev d s = maybe_isolate j x k d n (set_rogue j l s)" using a by (simp add: deliver_accuse_def)
  have own: "own_step j s (deliver_accuse j src x k ev d s)"
    unfolding r by (rule own_step_trans [OF _ maybe_isolate_own]) simp
  have "local_ok m j (set_rogue j l s)" if "local_ok m j s" by (rule local_ok_accuse [OF that a assms])
  then show ?thesis using own maybe_isolate_local [of m j "set_rogue j l s" x k d n] by (simp add: handled_def r)
qed

lemma handled_isolate: "handled m j s (deliver_isolate j x k d view s)"
proof (cases "is_isolated x (nt_rogue s j)")
  case False
  obtain l r where t: "try_isolate x k d (frozen_quorum j s) view (nt_rogue s j) = (l, r)" by fastforce
  have own: "own_step j s (set_node j c (set_rogue j l s))" for c
    by (rule own_step_trans [where s' = "set_rogue j l s"]) simp_all
  show ?thesis
  proof (cases r)
    case None
    then show ?thesis using False t local_ok_verdict [OF _ t] own_step_simps(2) [of j s l] by (auto simp: handled_def deliver_isolate_def)
  next
    case (Some e)
    then show ?thesis using False t own local_ok_verdict [OF _ t] by (simp add: handled_def deliver_isolate_def)
  qed
qed (simp add: handled_def deliver_isolate_def)

lemma handled_clock: "handled m j s (consensus_clock hs j ready s)"
proof -
  obtain c rotated where t: "tick (nt_node s j) = (c, rotated)" by fastforce
  let ?s = "set_node j c s"
  let ?accuse = "raise_accusation hs j (speaker_of hs c (co_view c - 1)) Timeout (stall_evidence (co_view c - 1)) ?s"
  have r: "consensus_clock hs j ready s \<in> {?s, ?accuse}"
    using t by (simp add: consensus_clock_def Let_def)
  have own: "own_step j s ?s" "own_step j s ?accuse"
    using own_step_trans [OF own_step_simps(1) raise_accusation_own] by simp_all
  have view: "co_view c = co_view (nt_node s j) \<or> co_view c = co_view (nt_node s j) + 1" and iso: "co_isolated c = co_isolated (nt_node s j)"
    using t by (auto simp: tick_def Let_def enter_view_def split: if_splits)
  have s: "local_ok m j ?s" if ok: "local_ok m j s" and le: "co_view (nt_node s j) \<le> co_view c"
    by (rule local_ok_node [OF ok _ iso]) (use node_ok_tick [of m j "nt_sent s" "nt_node s j"] ok le t in \<open>simp add: local_ok_def\<close>)
  have accuse: "local_ok m j ?accuse" if ok: "local_ok m j s" and le: "co_view (nt_node s j) \<le> co_view (nt_node ?accuse j)"
  proof -
    have "co_view (nt_node ?accuse j) = co_view c \<or> co_view (nt_node ?accuse j) = co_view c + 1"
      using raise_accusation_view [of hs j _ Timeout _ ?s] by simp
    then have "co_view (nt_node s j) \<le> co_view c" "co_view c \<le> co_view (nt_node ?accuse j)"
      using view le two_views [of "co_view (nt_node s j)"] by auto
    then show ?thesis using raise_accusation_local [OF s [OF ok]] by simp
  qed
  show ?thesis using r own s accuse by (auto simp: handled_def)
qed

lemma handled_propose:
  assumes "propose hs i reports transcripts s = Some s'"
  shows "handled m i s s'"
proof -
  let ?b = "build_proposal (hs_text hs) reports transcripts (nt_rogue s i) (nt_node s i)"
  let ?p = "s\<lparr>nt_proposed := (nt_proposed s)(i := Some (co_view (nt_node s i)))\<rparr>"
  obtain c r where pr: "on_proposal hs i ?b (nt_node s i) = (c, r)" by fastforce
  let ?msg = "ProposalMsg i (co_view (nt_node s i)) ?b"
  have s': "s' = send ?msg (set_node i c ?p)"
    using assms pr by (auto simp: propose_def Let_def split: if_splits)
  have own: "own_step i s s'" unfolding s' by (auto simp: own_step_def set_node_def send_def)
  have "local_ok m i s'" if ok: "local_ok m i s"
  proof -
    have p: "local_ok m i ?p" using ok by (simp add: local_ok_def)
    have "node_ok m i (nt_sent ?p) c" using node_ok_proposal [OF _ pr] ok by (simp add: local_ok_def)
    from local_ok_node [OF p this] on_proposal_isolated [OF pr] have "local_ok m i (set_node i c ?p)" by simp
    then show ?thesis unfolding s' by (rule local_ok_send) simp
  qed
  then show ?thesis using own by (simp add: handled_def)
qed

lemma net_ok_step:
  assumes net: "net_ok m faulty s" and step: "net_step hs faulty s e = Some s'" and rise: "views_rise e s s'"
  shows "net_ok m faulty s'"
proof (cases "actor e")
  case None
  then obtain msg where "e = Forge msg" by (cases e) simp_all
  then show ?thesis using step net_ok_forge [OF net] by (auto split: if_splits)
next
  case (Some j)
  have j: "acts faulty s j" using step Some by (cases e) (auto simp: receive_def split: if_splits)
  have same: "handled m j s s" by (simp add: handled_def)
  have "handled m j s s'"
    using step Some same handled_proposal handled_vote handled_accuse handled_isolate handled_clock handled_raise handled_propose
    by (cases e) (auto simp: receive_def split: if_splits)
  then show ?thesis
    using net_ok_own [OF net j] net_ok_local [OF net j] rise Some by (simp add: handled_def views_rise_def)
qed

lemma net_ok_initial: "net_ok m faulty (initial_net m timeout)"
proof -
  have "rogue_ok m {} (new_consensus i m timeout) new_ledger" for i
    by (rule rogue_okI [where ops = "[]"]) (simp_all add: new_consensus_def new_ledger_def ledger_ok_def)
  then show ?thesis by (simp add: net_ok_def initial_net_def local_ok_def node_ok_def) (simp add: new_consensus_def)
qed

lemma net_ok_run:
  assumes "net_ok m faulty s" and "net_run hs faulty s es = Some s'" and "no_wrap hs faulty s es"
  shows "net_ok m faulty s'"
  using assms
proof (induction es arbitrary: s)
  case (Cons e es)
  obtain u where u: "net_step hs faulty s e = Some u" using Cons.prems(2) by (cases "net_step hs faulty s e") auto
  have "net_ok m faulty u" by (rule net_ok_step [OF Cons.prems(1) u]) (use Cons.prems(3) u in simp)
  then show ?case using Cons u by simp
qed simp

section \<open>Quorums intersect\<close>

text \<open>Two quorums of \<open>2f + 1\<close> among \<open>3f + 1\<close> members share one outside any \<open>f\<close>.\<close>

lemma quorum_intersection:
  assumes "card N = 3 * f + 1" and "finite N" and "K \<subseteq> N" and "L \<subseteq> N" and "2 * f + 1 \<le> card K" and "2 * f + 1 \<le> card L"
    and "card B \<le> f" and "finite B"
  shows "\<exists>k. k \<in> K \<and> k \<in> L \<and> k \<notin> B"
proof -
  have fin: "finite K" "finite L" using assms(2-4) finite_subset by auto
  have "card (K \<union> L) \<le> 3 * f + 1" using card_mono [of N "K \<union> L"] assms(1-4) by simp
  then have "f < card (K \<inter> L)" using card_Un_Int [OF fin] assms(5,6) by simp
  then have "\<not> K \<inter> L \<subseteq> B" using card_mono [OF assms(8), of "K \<inter> L"] assms(7) by linarith
  then show ?thesis by blast
qed

lemma certified_once:
  assumes ok: "net_ok m faulty s" and "distinct (mb_nodes m)" and "length (mb_nodes m) = 3 * f + 1"
    and "faulty \<subseteq> set (mb_nodes m)" and "card faulty \<le> f"
    and c: "certified (2 * f + 1) (nt_sent s) v h" and c': "certified (2 * f + 1) (nt_sent s) v h'"
  shows "h = h'"
proof -
  have sender: "k \<in> set (mb_nodes m)" if "VoteMsg kind k v h \<in> nt_sent s" for kind k v h
    using ok that assms(4) unfolding net_ok_def by (metis UnE sender.simps(2) subsetD)
  obtain K where K: "2 * f + 1 \<le> card K" "\<And>k. k \<in> K \<Longrightarrow> VoteMsg ''commit'' k v h \<in> nt_sent s"
    using c unfolding certified_def by blast
  obtain L where L: "2 * f + 1 \<le> card L" "\<And>k. k \<in> L \<Longrightarrow> VoteMsg ''commit'' k v h' \<in> nt_sent s"
    using c' unfolding certified_def by blast
  have sub: "K \<subseteq> set (mb_nodes m)" "L \<subseteq> set (mb_nodes m)" using K(2) L(2) sender by blast+
  have "card (set (mb_nodes m)) = 3 * f + 1" using assms(2,3) by (simp add: distinct_card)
  from quorum_intersection [OF this _ sub K(1) L(1) assms(5) finite_subset [OF assms(4)]]
  obtain k where k: "k \<in> K" "k \<in> L" "k \<notin> faulty" by auto
  have "node_ok m k (nt_sent s) (nt_node s k)" using ok sub(1) k(1,3) by (auto simp: net_ok_def local_ok_def)
  then have "\<And>v h h'. VoteMsg ''commit'' k v h \<in> nt_sent s \<Longrightarrow> VoteMsg ''commit'' k v h' \<in> nt_sent s \<Longrightarrow> h = h'"
    by (simp add: node_ok_def)
  from this [OF K(2) [OF k(1)] L(2) [OF k(2)]] show ?thesis .
qed

text \<open>Whom a node isolates, a quorum has accused; more than \<open>f\<close> of them are not faulty.\<close>

lemma isolated_accused:
  assumes rok: "rogue_ok m sent c l" and x: "x \<in> co_isolated c" and q: "decision_quorum (length (mb_nodes m)) = 2 * f + 1"
    and fin: "finite faulty" "card faulty \<le> f"
  shows "\<exists>A k. f < card A \<and> A \<inter> faulty = {} \<and> (\<forall>a \<in> A. \<exists>ev d. AccuseMsg a x k ev d \<in> sent)"
  using rok
proof (rule rogue_okE)
  fix ops
  assume iso: "co_isolated c = re_node ` set (rl_entries l)" and ok: "ledger_ok (decision_quorum (length (mb_nodes m))) ops l"
    and wire: "\<And>a x k ev d. Accuse a x k ev d \<in> set ops \<Longrightarrow> AccuseMsg a x k ev d \<in> sent"
  obtain e where e: "e \<in> set (rl_entries l)" "re_node e = x" using x iso by auto
  let ?A = "set (re_accusers e) - faulty"
  have "distinct (re_accusers e)" "2 * f + 1 \<le> length (re_accusers e)"
    and acc: "\<forall>a \<in> set (re_accusers e). \<exists>y \<in> set (rl_accusations l). ac_accuser y = a \<and> ac_accused y = x \<and> ac_kind y = re_kind e"
    and filed: "\<forall>y \<in> set (rl_accusations l). Accuse (ac_accuser y) (ac_accused y) (ac_kind y) (ac_evidence y) (ac_evidence_digest y) \<in> set ops"
    using ok e unfolding ledger_ok_def q by blast+
  then have "2 * f + 1 \<le> card (set (re_accusers e))" by (simp add: distinct_card)
  then have "f < card ?A" using diff_card_le_card_Diff [OF fin(1), of "set (re_accusers e)"] fin(2) by linarith
  moreover have "\<forall>a \<in> ?A. \<exists>ev d. AccuseMsg a x (re_kind e) ev d \<in> sent" using acc filed wire by (metis DiffD1)
  ultimately show ?thesis by (intro exI [of _ ?A] exI [of _ "re_kind e"]) auto
qed

section \<open>Properties\<close>

text \<open>C22: What the quorum is worth in the whole node loop, accusations and isolations included. With \<open>3f + 1\<close>
  members of which at most \<open>f\<close> are faulty, in every run in which no view wraps around: what an honest
  member decides carries on the wire the commit votes of the quorum of the members it has not isolated,
  that is \<open>2f + 1\<close> while it has isolated nobody; no two hashes carry \<open>2f + 1\<close> commit votes in the same view,
  so honest members that have isolated nobody never decide two hashes in one view; and whom an honest member
  isolates, more than \<open>f\<close> honest members have accused of one thing. After an isolation the quorum is smaller
  and the second part no longer applies to what is decided.\<close>

theorem agreement_within_view:
  assumes "net_run hs faulty (initial_net m timeout) es = Some s" and "no_wrap hs faulty (initial_net m timeout) es"
    and "distinct (mb_nodes m)" and "length (mb_nodes m) = 3 * f + 1"
    and "faulty \<subseteq> set (mb_nodes m)" and "card faulty \<le> f"
  shows "(\<forall>i h. i \<in> set (mb_nodes m) - faulty \<longrightarrow> co_decided (nt_node s i) = Some h \<longrightarrow>
      (\<exists>v. certified (quorum (nt_node s i)) (nt_sent s) v h) \<and> (co_isolated (nt_node s i) = {} \<longrightarrow> quorum (nt_node s i) = 2 * f + 1)) \<and>
    (\<forall>v h h'. certified (2 * f + 1) (nt_sent s) v h \<longrightarrow> certified (2 * f + 1) (nt_sent s) v h' \<longrightarrow> h = h') \<and>
    (\<forall>i x. i \<in> set (mb_nodes m) - faulty \<longrightarrow> x \<in> co_isolated (nt_node s i) \<longrightarrow>
      (\<exists>A k. f < card A \<and> A \<inter> faulty = {} \<and> (\<forall>a \<in> A. \<exists>ev d. AccuseMsg a x k ev d \<in> nt_sent s)))"
proof -
  have ok: "net_ok m faulty s" by (rule net_ok_run [OF net_ok_initial assms(1,2)])
  have q: "decision_quorum (length (mb_nodes m)) = 2 * f + 1"
    by (simp add: assms(4) decision_quorum_def byzantine_tolerance_def)
  have dec: "(\<exists>v. certified (quorum (nt_node s i)) (nt_sent s) v h) \<and> (co_isolated (nt_node s i) = {} \<longrightarrow> quorum (nt_node s i) = 2 * f + 1)"
    if "i \<in> set (mb_nodes m) - faulty" "co_decided (nt_node s i) = Some h" for i h
  proof -
    have n: "node_ok m i (nt_sent s) (nt_node s i)" using ok that(1) by (simp add: net_ok_def local_ok_def)
    then have "\<exists>v. certified (live_quorum m (nt_node s i)) (nt_sent s) v h" using that(2) unfolding node_ok_def by blast
    then show ?thesis using q unfolding node_ok_quorum [OF n] by simp
  qed
  have iso: "\<exists>A k. f < card A \<and> A \<inter> faulty = {} \<and> (\<forall>a \<in> A. \<exists>ev d. AccuseMsg a x k ev d \<in> nt_sent s)"
    if "i \<in> set (mb_nodes m) - faulty" "x \<in> co_isolated (nt_node s i)" for i x
  proof -
    have "rogue_ok m (nt_sent s) (nt_node s i) (nt_rogue s i)" using ok that(1) by (simp add: net_ok_def local_ok_def)
    from isolated_accused [OF this that(2) q _ assms(6)] show ?thesis using finite_subset [OF assms(5)] by simp
  qed
  show ?thesis using dec iso certified_once [OF ok assms(3-6)] by blast
qed

end
