(* ===== verification/Mesh_Demo.thy ===== *)
theory Mesh_Demo
  imports Mesh_Network
begin

text \<open>
  A cluster of seven without any faulty member that decides twice, a cluster of four that one faulty
  member splits after an isolation, and small nodes for the witnesses.
\<close>

section \<open>Two views\<close>

definition demo_members :: membership where
  "demo_members = \<lparr>mb_nodes = [''a'', ''b'', ''c'', ''d'', ''e'', ''f'', ''g''], mb_hash = ''m'', mb_total_drives = 7,
     mb_tolerance = 2, mb_quorum = 5\<rparr>"

text \<open>The speaker of view 0 is \<open>a\<close>, of view 1 \<open>b\<close>.\<close>

definition demo_hashes :: hashes where
  "demo_hashes = \<lparr>hs_block = \<lambda>b. bl_report_root b @ dec (unat (bl_view b)), hs_speaker = \<lambda>_ v. unat v, hs_text = \<lambda>t. t\<rparr>"

definition demo_block :: "u32 \<Rightarrow> block" where
  "demo_block v = \<lparr>bl_membership_hash = ''m'', bl_report_root = ''r'', bl_report_count = 7, bl_spot_root = ''s'',
     bl_spot_count = 7, bl_rogue_entries = [], bl_view = v\<rparr>"

text \<open>Deliver the votes of some members to one.\<close>

definition votes_to :: "string \<Rightarrow> string \<Rightarrow> string list \<Rightarrow> u32 \<Rightarrow> string \<Rightarrow> event list" where
  "votes_to kind j ks v h = map (\<lambda>k. DeliverVote j kind k v h) (filter (\<lambda>k. k \<noteq> j) ks)"

text \<open>The speaker proposes; the followers prepare and commit; only the speaker hears the commits.\<close>

definition round_of :: "string \<Rightarrow> string list \<Rightarrow> u32 \<Rightarrow> string \<Rightarrow> event list" where
  "round_of spk followers v h =
     [Propose spk (''r'', 7) (''s'', 7)] @ map (\<lambda>j. DeliverProposal j spk v (demo_block v) True) followers @
     concat (map (\<lambda>j. votes_to ''prepare'' j followers v h) (spk # butlast followers)) @
     votes_to ''commit'' spk (butlast followers) v h"

definition split_run :: "event list" where
  "split_run = round_of ''a'' [''b'', ''c'', ''d'', ''e'', ''f''] 0 ''r0'' @
     map (\<lambda>j. TickNode j False) [''b'', ''c'', ''d'', ''e'', ''f'', ''g''] @
     round_of ''b'' [''c'', ''d'', ''e'', ''f'', ''g''] 1 ''r1''"

lemma split_decides:
  "map_option (\<lambda>s. (co_decided (nt_node s ''a''), co_decided (nt_node s ''b'')))
     (net_run demo_hashes {} (initial_net demo_members 1) split_run) = Some (Some ''r0'', Some ''r1'')"
  by code_simp

lemma split_isolates_nobody:
  "map_option (\<lambda>s. co_isolated (nt_node s ''a'')) (net_run demo_hashes {} (initial_net demo_members 1) split_run) = Some {}"
  by code_simp

lemma split_no_wrap: "no_wrap demo_hashes {} (initial_net demo_members 1) split_run"
  by code_simp

lemma demo_members_seven: "distinct (mb_nodes demo_members)" "length (mb_nodes demo_members) = 3 * 2 + 1"
  "''a'' \<in> set (mb_nodes demo_members)" "''b'' \<in> set (mb_nodes demo_members)"
  by (simp_all add: demo_members_def)

text \<open>C23: Agreement does not carry across views. Nothing locks a node to what it committed: there is a run of a
  cluster of seven, no member faulty and no message forged, in which a speaker decides in view 0 and,
  after its followers time out before hearing the commits, the next one decides another hash.\<close>

theorem views_disagree:
  "\<exists>hs m es s i j h h'. distinct (mb_nodes m) \<and> length (mb_nodes m) = 7 \<and>
     net_run hs {} (initial_net m 1) es = Some s \<and> no_wrap hs {} (initial_net m 1) es \<and>
     i \<in> set (mb_nodes m) \<and> j \<in> set (mb_nodes m) \<and>
     co_decided (nt_node s i) = Some h \<and> co_decided (nt_node s j) = Some h' \<and> h \<noteq> h'"
proof -
  obtain s where s: "net_run demo_hashes {} (initial_net demo_members 1) split_run = Some s"
    "co_decided (nt_node s ''a'') = Some ''r0''" "co_decided (nt_node s ''b'') = Some ''r1''"
    using split_decides by auto
  have "(''r0'' :: string) \<noteq> ''r1''" by simp
  then show ?thesis
    using s split_no_wrap demo_members_seven by (intro exI conjI) (assumption | simp)+
qed

section \<open>After an isolation\<close>

definition four_members :: membership where
  "four_members = \<lparr>mb_nodes = [''a'', ''b'', ''c'', ''d''], mb_hash = ''m'', mb_total_drives = 4, mb_tolerance = 1, mb_quorum = 3\<rparr>"

text \<open>The speaker of every view is the third of the live members: \<open>d\<close>, once \<open>c\<close> is gone.\<close>

definition third_speaks :: hashes where
  "third_speaks = \<lparr>hs_block = bl_report_root, hs_speaker = \<lambda>_ _. 2, hs_text = \<lambda>t. t\<rparr>"

definition forged_block :: "string \<Rightarrow> block" where
  "forged_block root = (demo_block 1)\<lparr>bl_report_root := root, bl_rogue_entries := [\<lparr>re_node = ''c'', re_kind = Timeout,
     re_evidence_digest = ''e'', re_evidence = [], re_accusers = [''a'', ''b'', ''d''], re_isolated_at_view = 1\<rparr>]\<rparr>"

text \<open>\<open>a\<close> and \<open>b\<close> time the slow \<open>c\<close> out, \<open>d\<close> joins in, and then shows each of them a block of its own.\<close>

definition split_by :: "string \<Rightarrow> string \<Rightarrow> event list" where
  "split_by j root =
     [Forge (ProposalMsg ''d'' 1 (forged_block root)), DeliverProposal j ''d'' 1 (forged_block root) True,
      Forge (VoteMsg ''prepare'' ''d'' 1 root), DeliverVote j ''prepare'' ''d'' 1 root,
      Forge (VoteMsg ''commit'' ''d'' 1 root), DeliverVote j ''commit'' ''d'' 1 root]"

definition isolation_run :: "event list" where
  "isolation_run =
     [Suspect ''a'' ''c'' Timeout ''e'', Suspect ''b'' ''c'' Timeout ''e'', Forge (AccuseMsg ''d'' ''c'' Timeout ''e'' ''e''),
      DeliverAccuse ''a'' ''b'' ''c'' Timeout ''e'' ''e'', DeliverAccuse ''a'' ''d'' ''c'' Timeout ''e'' ''e'',
      DeliverAccuse ''b'' ''a'' ''c'' Timeout ''e'' ''e'', DeliverAccuse ''b'' ''d'' ''c'' Timeout ''e'' ''e''] @
     split_by ''a'' ''p'' @ split_by ''b'' ''q''"

lemma isolation_decides:
  "map_option (\<lambda>s. (co_decided (nt_node s ''a''), co_decided (nt_node s ''b''), co_view (nt_node s ''a''), co_view (nt_node s ''b''),
       co_isolated (nt_node s ''a''), co_isolated (nt_node s ''b'')))
     (net_run third_speaks {''d''} (initial_net four_members 9) isolation_run) = Some (Some ''p'', Some ''q'', 1, 1, {''c''}, {''c''})"
  by code_simp

lemma isolation_no_wrap: "no_wrap third_speaks {''d''} (initial_net four_members 9) isolation_run"
  by code_simp

text \<open>C25: One isolation ends agreement within a view. In a cluster of four with one faulty member there is a run
  in which two honest members time out a third, honest one and isolate it with the accusation of the faulty
  one; their quorum is then a single vote, and in the next view the faulty member, now the speaker, makes them
  decide two different hashes in the same view.\<close>

theorem isolation_breaks_agreement:
  "\<exists>hs m es s bad x i j h h'. distinct (mb_nodes m) \<and> length (mb_nodes m) = 4 \<and> bad \<in> set (mb_nodes m) \<and>
     net_run hs {bad} (initial_net m 9) es = Some s \<and> no_wrap hs {bad} (initial_net m 9) es \<and>
     i \<in> set (mb_nodes m) - {bad} \<and> j \<in> set (mb_nodes m) - {bad} \<and> x \<in> set (mb_nodes m) - {bad} \<and>
     co_isolated (nt_node s i) = {x} \<and> co_isolated (nt_node s j) = {x} \<and> co_view (nt_node s i) = co_view (nt_node s j) \<and>
     co_decided (nt_node s i) = Some h \<and> co_decided (nt_node s j) = Some h' \<and> h \<noteq> h'"
proof -
  have "map_option (\<lambda>s. (co_decided (nt_node s ''a''), co_decided (nt_node s ''b''), co_view (nt_node s ''a''), co_view (nt_node s ''b''),
       co_isolated (nt_node s ''a''), co_isolated (nt_node s ''b'')))
     (net_run third_speaks {''d''} (initial_net four_members 9) isolation_run) = Some (Some ''p'', Some ''q'', 1, 1, {''c''}, {''c''})"
    by (rule isolation_decides)
  then obtain s where s: "net_run third_speaks {''d''} (initial_net four_members 9) isolation_run = Some s"
    and "(co_decided (nt_node s ''a''), co_decided (nt_node s ''b''), co_view (nt_node s ''a''), co_view (nt_node s ''b''),
       co_isolated (nt_node s ''a''), co_isolated (nt_node s ''b'')) = (Some ''p'', Some ''q'', 1, 1, {''c''}, {''c''})"
    unfolding map_option_eq_Some by (elim exE conjE)
  then have at: "co_decided (nt_node s ''a'') = Some ''p''" "co_decided (nt_node s ''b'') = Some ''q''"
    "co_view (nt_node s ''a'') = co_view (nt_node s ''b'')" "co_isolated (nt_node s ''a'') = {''c''}" "co_isolated (nt_node s ''b'') = {''c''}"
    unfolding prod.inject by simp_all
  have m: "distinct (mb_nodes four_members)" "length (mb_nodes four_members) = 4" "''d'' \<in> set (mb_nodes four_members)"
    "''a'' \<in> set (mb_nodes four_members) - {''d''}" "''b'' \<in> set (mb_nodes four_members) - {''d''}"
    "''c'' \<in> set (mb_nodes four_members) - {''d''}" "(''p'' :: string) \<noteq> ''q''"
    by (simp_all add: four_members_def)
  show ?thesis
    by (rule exI [of _ third_speaks], rule exI [of _ four_members], rule exI [of _ isolation_run], rule exI [of _ s],
        rule exI [of _ "''d''"], rule exI [of _ "''c''"], rule exI [of _ "''a''"], rule exI [of _ "''b''"],
        rule exI [of _ "''p''"], rule exI [of _ "''q''"], intro conjI; (fact | rule isolation_no_wrap))
qed

section \<open>Witnesses\<close>

theorem agreement_within_view_witness:
  "\<exists>s v. net_run demo_hashes {} (initial_net demo_members 1) split_run = Some s \<and>
     co_decided (nt_node s ''a'') = Some ''r0'' \<and> certified 5 (nt_sent s) v ''r0''"
proof -
  obtain s where s: "net_run demo_hashes {} (initial_net demo_members 1) split_run = Some s"
    "co_decided (nt_node s ''a'') = Some ''r0''"
    using split_decides by auto
  have "co_isolated (nt_node s ''a'') = {}" using s(1) split_isolates_nobody by simp
  moreover have "(\<exists>v. certified (quorum (nt_node s ''a'')) (nt_sent s) v ''r0'') \<and>
      (co_isolated (nt_node s ''a'') = {} \<longrightarrow> quorum (nt_node s ''a'') = 2 * 2 + 1)"
    by (rule agreement_within_view [OF s(1) split_no_wrap demo_members_seven(1,2), THEN conjunct1, rule_format])
      (use demo_members_seven(3) s(2) in simp_all)
  ultimately have "\<exists>v. certified 5 (nt_sent s) v ''r0''" by auto
  then show ?thesis using s by blast
qed

text \<open>A node of the cluster that has seen a proposal.\<close>

definition prepared_node :: consensus where
  "prepared_node = fst (on_proposal demo_hashes ''a'' (demo_block 0) (new_consensus ''b'' demo_members 10))"

lemma prepared_node_fields:
  "voting_on Prepared ''r0'' prepared_node" "co_membership prepared_node = demo_members" "co_isolated prepared_node = {}"
  "co_prepare_votes prepared_node ''r0'' = {''b''}" "co_commit_votes prepared_node ''r0'' = {}"
proof -
  have h: "hs_block demo_hashes (demo_block 0) = ''r0''" by code_simp
  have "hs_speaker demo_hashes ''m'' 0 = 0" by (simp add: demo_hashes_def)
  then show "voting_on Prepared ''r0'' prepared_node" "co_membership prepared_node = demo_members" "co_isolated prepared_node = {}"
    "co_prepare_votes prepared_node ''r0'' = {''b''}" "co_commit_votes prepared_node ''r0'' = {}"
    using h by (simp_all add: prepared_node_def on_proposal_def new_consensus_def demo_members_def demo_block_def
        note_proposal_digest_def speaker_of_def live_nodes_def record_prepare_def voting_on_def Let_def)
qed

theorem outsiders_decide_witness:
  "let ks = [''u'', ''v'', ''w'', ''x'', ''y''] in
   set ks \<inter> set (mb_nodes demo_members) = {} \<and>
   co_decided (commits ''r0'' ks (prepares ''r0'' ks prepared_node)) = Some ''r0''"
proof -
  let ?ks = "[''u'', ''v'', ''w'', ''x'', ''y'']"
  have q: "length ?ks = quorum prepared_node"
    by (simp add: quorum_def live_n_def live_nodes_def prepared_node_fields demo_members_def decision_quorum_def byzantine_tolerance_def)
  have "set ?ks \<inter> set (mb_nodes (co_membership prepared_node)) = {}"
    by (simp add: prepared_node_fields demo_members_def)
  with outsiders_decide [OF prepared_node_fields(1) _ q this] show ?thesis
    by (simp add: prepared_node_fields)
qed

theorem isolation_lowers_quorum_witness:
  "quorum (new_consensus ''b'' demo_members 10) = 5 \<and> quorum (apply_isolation ''c'' (new_consensus ''b'' demo_members 10)) = 3"
proof -
  have m: "co_membership (new_consensus ''b'' demo_members 10) = demo_members" "co_isolated (new_consensus ''b'' demo_members 10) = {}"
    by (simp_all add: new_consensus_def)
  show ?thesis
    using isolation_lowers_quorum [of "new_consensus ''b'' demo_members 10" 2 "''c''"] demo_members_seven m
    by (simp add: demo_members_def)
qed

theorem late_vote_drops_block_witness:
  "let c = (new_consensus ''b'' demo_members 10)\<lparr>co_decided := Some ''r0'', co_proposal := Some (demo_block 0)\<rparr>
   in co_proposal (fst (on_vote ''commit'' ''z'' 1 ''q'' c)) = None"
  using late_vote_drops_block [of "(new_consensus ''b'' demo_members 10)\<lparr>co_decided := Some ''r0'', co_proposal := Some (demo_block 0)\<rparr>"
      "''r0''" 1 "''commit''" "''z''" "''q''"]
  by (simp add: new_consensus_def Let_def)

end
