(* ===== verification/Bigint.thy ===== *)
theory Bigint
  imports DC_Prelude "HOL-Library.Log_Nat"
begin

text \<open>
  The fixed-width integers of the time-lock (\<open>crates/dc-vdf/src/bigint.rs\<close>). A \<open>BigUint<L>\<close> is the
  list of its \<open>L\<close> little-endian limbs, \<open>val\<close> the number it denotes. Loops that walk the limbs from
  the top run over the reversed list.
\<close>

type_synonym big = "u64 list"
type_synonym u128 = "128 word"

named_theorems limbs \<open>what the limb loops compute\<close>

section \<open>Values\<close>

definition radix :: nat where "radix = 2 ^ 64"

primrec val :: "big \<Rightarrow> nat" where
  "val [] = 0"
| "val (x # xs) = unat x + radix * val xs"

lemma radix_pos [simp]: "0 < radix" "radix \<noteq> 0"
  by (simp_all add: radix_def)

lemma even_radix [simp]: "even radix"
  by (simp add: radix_def)

lemma unat_limb [simp]: "unat (x :: u64) < radix"
  using unsigned_less [of x] by (simp add: radix_def)

lemma val_append [limbs]: "val (xs @ ys) = val xs + radix ^ length xs * val ys"
  by (induction xs) (simp_all add: algebra_simps)

lemma digit_bound: "u < r \<Longrightarrow> v < n \<Longrightarrow> u + r * v < r * (n :: nat)"
proof -
  assume "u < r" "v < n"
  then have "u + r * v < r * Suc v" by simp
  also have "\<dots> \<le> r * n" using \<open>v < n\<close> by (intro mult_le_mono2) simp
  finally show ?thesis .
qed

lemma val_bound: "val xs < radix ^ length xs"
proof (induction xs)
  case (Cons x xs)
  then show ?case using digit_bound [OF unat_limb [of x] Cons] by simp
qed simp

lemma val_replicate_0 [simp]: "val (replicate n 0) = 0"
  by (induction n) simp_all

lemma radix_power: "radix ^ n = 2 ^ (n * 64)"
  unfolding radix_def power_mult [symmetric] mult.commute [of 64] ..

lemma val_eq_0: "val xs = 0 \<longleftrightarrow> xs = replicate (length xs) 0"
  by (induction xs) (auto simp: unat_eq_zero)

lemma digit_eq: "u < r \<Longrightarrow> u' < r \<Longrightarrow> u + r * v = u' + r * v' \<longleftrightarrow> u = u' \<and> v = (v' :: nat)"
  by (metis add.commute add_left_cancel div_mult_self4 div_less gr_implies_not0 add_0_right mod_less mod_mult_self2)

lemma val_inject: "length xs = length ys \<Longrightarrow> val xs = val ys \<longleftrightarrow> xs = ys"
proof (induction xs ys rule: list_induct2)
  case (Cons x xs y ys)
  then show ?case using digit_eq [OF unat_limb [of x] unat_limb [of y]] by (simp add: word_unat_eq_iff)
qed simp

section \<open>Constants, tests and comparison\<close>

definition zero_big :: "nat \<Rightarrow> big" where
  "zero_big L = replicate L 0"

definition one_big :: "nat \<Rightarrow> big" where
  "one_big L = (replicate L 0)[0 := 1]"

text \<open>\<open>u64::leading_zeros\<close> and \<open>u64::trailing_zeros\<close> of a limb that is not zero.\<close>

definition leading_zeros :: "u64 \<Rightarrow> nat" where
  "leading_zeros x = 64 - floorlog 2 (unat x)"

definition limb_trailing_zeros :: "u64 \<Rightarrow> nat" where
  "limb_trailing_zeros x = length (takeWhile (\<lambda>i. \<not> bit x i) [0..<64])"

definition bits :: "big \<Rightarrow> nat" where
  "bits a = (case List.find (\<lambda>i. a ! i \<noteq> 0) (rev [0..<length a]) of
     Some i \<Rightarrow> i * 64 + (64 - leading_zeros (a ! i))
   | None \<Rightarrow> 0)"

definition is_zero :: "big \<Rightarrow> bool" where
  "is_zero a \<longleftrightarrow> a = replicate (length a) 0"

definition is_odd :: "big \<Rightarrow> bool" where
  "is_odd a = (case a of [] \<Rightarrow> False | l # _ \<Rightarrow> l AND 1 = 1)"

definition bit_at :: "big \<Rightarrow> nat \<Rightarrow> bool" where
  "bit_at a i = (if i \<ge> length a * 64 then False else drop_bit (i mod 64) (a ! (i div 64)) AND 1 = 1)"

datatype ordering = Less | Equal | Greater

fun cmp_limbs :: "u64 list \<Rightarrow> u64 list \<Rightarrow> ordering" where
  "cmp_limbs (x # xs) (y # ys) = (if x = y then cmp_limbs xs ys else if x < y then Less else Greater)"
| "cmp_limbs _ _ = Equal"

definition cmp_to :: "big \<Rightarrow> big \<Rightarrow> ordering" where
  "cmp_to a b = cmp_limbs (rev a) (rev b)"

lemma length_one_big [simp]: "length (one_big L) = L" "length (zero_big L) = L"
  by (simp_all add: one_big_def zero_big_def)

lemma val_zero_big [simp]: "val (zero_big L) = 0"
  by (simp add: zero_big_def)

lemma val_one_big [simp]: "0 < L \<Longrightarrow> val (one_big L) = 1"
  by (cases L) (simp_all add: one_big_def)

lemma is_zero_val: "is_zero a \<longleftrightarrow> val a = 0"
  by (simp add: is_zero_def val_eq_0)

lemma is_odd_val: "is_odd a \<longleftrightarrow> odd (val a)"
proof (cases a)
  case (Cons l ls)
  have "l AND 1 = 1 \<longleftrightarrow> odd l" by (simp add: and_one_eq odd_iff_mod_2_eq_one)
  moreover have "odd l \<longleftrightarrow> odd (unat l)" using bit_unsigned_iff [of l 0, where 'a = nat] by (simp add: bit_0)
  ultimately show ?thesis by (simp add: Cons is_odd_def)
qed (simp add: is_odd_def)

lemma cmp_limbs_val:
  "length xs = length ys \<Longrightarrow> cmp_limbs xs ys =
   (if val (rev xs) < val (rev ys) then Less else if val (rev xs) = val (rev ys) then Equal else Greater)"
proof (induction xs ys rule: list_induct2)
  case (Cons x xs y ys)
  let ?R = "radix ^ length ys" let ?p = "val (rev xs)" let ?q = "val (rev ys)"
  have b: "?p < ?R" "?q < ?R" using val_bound [of "rev xs"] val_bound [of "rev ys"] Cons.hyps by simp_all
  have lt: "?p + ?R * unat x < ?q + ?R * unat y" if "unat x < unat y"
    using digit_bound [OF b(1) that] by simp
  have gt: "?q + ?R * unat y < ?p + ?R * unat x" if "unat y < unat x"
    using digit_bound [OF b(2) that] by simp
  show ?case
  proof (cases x y rule: linorder_cases)
    case less
    then show ?thesis using lt Cons.hyps by (auto simp: val_append word_less_nat_alt)
  next
    case equal
    then show ?thesis using Cons by (simp add: val_append)
  next
    case greater
    then show ?thesis using gt Cons.hyps by (auto simp: val_append word_less_nat_alt)
  qed
qed simp

lemma cmp_to_val [limbs]:
  "length a = length b \<Longrightarrow> cmp_to a b = (if val a < val b then Less else if val a = val b then Equal else Greater)"
  by (simp add: cmp_to_def cmp_limbs_val)

lemma nat_bit_digit:
  assumes "u < 2 ^ 64"
  shows "bit (u + 2 ^ 64 * v :: nat) i \<longleftrightarrow> (if i < 64 then bit u i else bit v (i - 64))"
proof (cases "i < 64")
  case True
  then have "(2 :: nat) ^ 64 = 2 ^ i * 2 ^ (64 - i)" by (simp flip: power_add)
  then have "(u + 2 ^ 64 * v) div 2 ^ i = (u + (2 ^ (64 - i) * v) * 2 ^ i) div 2 ^ i" by (simp add: mult_ac)
  also have "\<dots> = 2 ^ (64 - i) * v + u div 2 ^ i" by (rule div_mult_self1) simp
  finally show ?thesis using True by (simp add: bit_iff_odd)
next
  case False
  then have "(2 :: nat) ^ i = 2 ^ 64 * 2 ^ (i - 64)" unfolding power_add [symmetric] by simp
  then have "(u + 2 ^ 64 * v) div 2 ^ i = ((u + 2 ^ 64 * v) div 2 ^ 64) div 2 ^ (i - 64)"
    by (simp only: div_mult2_eq)
  also have "\<dots> = v div 2 ^ (i - 64)" using assms by simp
  finally show ?thesis using False by (simp add: bit_iff_odd)
qed

lemma bit_val_Cons: "bit (val (x # xs)) i \<longleftrightarrow> (if i < 64 then bit x i else bit (val xs) (i - 64))"
proof -
  have "unat x < 2 ^ 64" using unat_limb [of x] by (simp add: radix_def)
  from nat_bit_digit [OF this] show ?thesis by (simp only: val.simps radix_def) (simp add: bit_unsigned_iff bit_imp_le_length)
qed

lemma bit_val: "bit (val a) i \<longleftrightarrow> i < length a * 64 \<and> bit (a ! (i div 64)) (i mod 64)"
proof (induction a arbitrary: i)
  case (Cons x xs)
  show ?case
  proof (cases "i < 64")
    case False
    then have "i div 64 = Suc ((i - 64) div 64)" "i mod 64 = (i - 64) mod 64"
      by (simp_all add: div_if mod_if [of i])
    then show ?thesis using False Cons [of "i - 64"] by (auto simp: bit_val_Cons simp del: val.simps)
  qed (simp add: bit_val_Cons del: val.simps)
qed simp

lemma bit_at_val: "bit_at a i \<longleftrightarrow> odd (val a div 2 ^ i)"
proof -
  have "drop_bit n w AND 1 = 1 \<longleftrightarrow> bit w n" for w :: u64 and n
    by (simp add: and_one_eq bit_iff_odd_drop_bit odd_iff_mod_2_eq_one)
  then show ?thesis using bit_val [of a i] by (auto simp: bit_at_def bit_iff_odd)
qed

lemma find_cong: "(\<And>x. x \<in> set xs \<Longrightarrow> P x = Q x) \<Longrightarrow> List.find P xs = List.find Q xs"
  by (induction xs) auto

lemma bits_snoc: "bits (a @ [x]) = (if x \<noteq> 0 then length a * 64 + (64 - leading_zeros x) else bits a)"
proof -
  have "List.find (\<lambda>i. (a @ [x]) ! i \<noteq> 0) (rev [0..<length a]) = List.find (\<lambda>i. a ! i \<noteq> 0) (rev [0..<length a])"
    by (rule find_cong) (simp add: nth_append)
  moreover have "(a @ [x]) ! i = a ! i" if "List.find (\<lambda>i. a ! i \<noteq> 0) (rev [0..<length a]) = Some i" for i
    using that by (auto simp: find_Some_iff nth_append rev_nth)
  ultimately show ?thesis
    by (cases "x = 0"; cases "List.find (\<lambda>i. a ! i \<noteq> 0) (rev [0..<length a])") (simp_all add: bits_def)
qed

lemma floorlog_limb: "x \<noteq> 0 \<Longrightarrow> 64 - leading_zeros x = floorlog 2 (unat x) \<and> unat x < 2 ^ floorlog 2 (unat x)"
proof -
  assume "x \<noteq> 0"
  then have "0 < unat x" by (simp add: unat_gt_0)
  then have b: "unat x < 2 ^ floorlog 2 (unat x)" using floorlog_bounds [of "unat x" 2] by simp
  have "floorlog 2 (unat x) \<le> 64"
    using floorlog_le_iff [of 2 "unat x" 64] unat_limb [of x] by (simp add: radix_def)
  then show ?thesis using b by (simp add: leading_zeros_def)
qed

lemma val_less_bits: "val a < 2 ^ bits a"
proof (induction a rule: rev_induct)
  case (snoc x a)
  show ?case
  proof (cases "x = 0")
    case False
    have "val (a @ [x]) < radix ^ length a * 2 ^ (64 - leading_zeros x)"
      using digit_bound [OF val_bound [of a]] floorlog_limb [OF False] by (simp add: val_append)
    then show ?thesis using False by (simp add: bits_snoc radix_power power_add)
  qed (use snoc in \<open>simp add: bits_snoc val_append\<close>)
qed (simp add: bits_def)

section \<open>Addition, subtraction and shifts\<close>

definition overflowing_add :: "u64 \<Rightarrow> u64 \<Rightarrow> u64 \<times> bool" where
  "overflowing_add x y = (x + y, x + y < x)"

definition overflowing_sub :: "u64 \<Rightarrow> u64 \<Rightarrow> u64 \<times> bool" where
  "overflowing_sub x y = (x - y, x < y)"

fun add_limbs :: "u64 \<Rightarrow> big \<Rightarrow> big \<Rightarrow> big \<times> u64" where
  "add_limbs carry (x # xs) (y # ys) =
     (let (v, c1) = overflowing_add x y;
          (v, c2) = overflowing_add v carry;
          (out, cout) = add_limbs (of_bool c1 + of_bool c2) xs ys
      in (v # out, cout))"
| "add_limbs carry _ _ = ([], carry)"

definition checked_add :: "big \<Rightarrow> big \<Rightarrow> big option" where
  "checked_add a b = (case add_limbs 0 a b of (out, carry) \<Rightarrow> if carry \<noteq> 0 then None else Some out)"

fun sub_limbs :: "u64 \<Rightarrow> big \<Rightarrow> big \<Rightarrow> big \<times> u64" where
  "sub_limbs borrow (x # xs) (y # ys) =
     (let (v, b1) = overflowing_sub x y;
          (v, b2) = overflowing_sub v borrow;
          (out, cout) = sub_limbs (of_bool b1 + of_bool b2) xs ys
      in (v # out, cout))"
| "sub_limbs borrow _ _ = ([], borrow)"

definition checked_sub :: "big \<Rightarrow> big \<Rightarrow> big option" where
  "checked_sub a b = (if cmp_to a b = Less then None else Some (fst (sub_limbs 0 a b)))"

text \<open>The shifts return the new limbs and the bit that fell out.\<close>

fun shl1_limbs :: "u64 \<Rightarrow> big \<Rightarrow> big \<times> u64" where
  "shl1_limbs carry (x # xs) =
     (let (out, cout) = shl1_limbs (drop_bit 63 x) xs in ((push_bit 1 x OR carry) # out, cout))"
| "shl1_limbs carry [] = ([], carry)"

definition shl1 :: "big \<Rightarrow> big \<times> u64" where
  "shl1 a = shl1_limbs 0 a"

fun shr1_limbs :: "u64 \<Rightarrow> big \<Rightarrow> big" where
  "shr1_limbs carry (x # xs) = (drop_bit 1 x OR push_bit 63 carry) # shr1_limbs (x AND 1) xs"
| "shr1_limbs carry [] = []"

definition shr1 :: "big \<Rightarrow> big" where
  "shr1 a = rev (shr1_limbs 0 (rev a))"

definition shr_n :: "nat \<Rightarrow> big \<Rightarrow> big" where
  "shr_n n a = (if n \<ge> length a * 64 then zero_big (length a) else (shr1 ^^ n) a)"

definition shl_n :: "nat \<Rightarrow> big \<Rightarrow> big" where
  "shl_n n a = ((\<lambda>a. fst (shl1 a)) ^^ min n (length a * 64)) a"

lemma overflowing_add_val:
  "overflowing_add x y = (v, c) \<Longrightarrow> unat x + unat y = unat v + radix * of_bool c"
proof -
  assume "overflowing_add x y = (v, c)"
  then have v: "v = x + y" "c = (v < x)" by (auto simp: overflowing_add_def)
  have m: "unat v = (unat x + unat y) mod radix" by (simp add: v unat_word_ariths radix_def)
  show ?thesis
  proof (cases "unat x + unat y < radix")
    case True
    then have "unat v = unat x + unat y" using m by simp
    then have "\<not> c" by (simp add: v(2) word_less_nat_alt)
    then show ?thesis using \<open>unat v = unat x + unat y\<close> by simp
  next
    case False
    then have e: "unat v + radix = unat x + unat y"
      using m unat_limb [of x] unat_limb [of y] le_mod_geq [of radix "unat x + unat y"] by (simp add: not_less)
    then have "unat v < unat x" using unat_limb [of y] by linarith
    then have c by (simp add: v(2) word_less_nat_alt)
    then show ?thesis using e by simp
  qed
qed

lemma overflowing_sub_val:
  "overflowing_sub x y = (v, c) \<Longrightarrow> unat x + radix * of_bool c = unat v + unat y"
proof -
  assume "overflowing_sub x y = (v, c)"
  then have v: "v = x - y" "c = (x < y)" by (simp_all add: overflowing_sub_def)
  have "overflowing_add v y = (x, x < v)" by (simp add: overflowing_add_def v)
  from overflowing_add_val [OF this] have e: "unat v + unat y = unat x + radix * of_bool (x < v)" .
  have "(x < v) = c"
  proof (cases "x < v")
    case True
    then have "unat v + unat y = unat x + radix" using e by simp
    then have "unat x < unat y" using unat_limb [of v] by linarith
    then show ?thesis using True by (simp add: v(2) word_less_nat_alt)
  next
    case False
    then have "\<not> unat x < unat y" using e by simp
    then show ?thesis using False by (simp add: v(2) word_less_nat_alt)
  qed
  then show ?thesis using e by simp
qed

lemma carry_zero: "c \<le> 1 \<Longrightarrow> v + R * c < R \<Longrightarrow> c = (0 :: nat)"
  by (cases "c = 0") (auto simp: le_Suc_eq)

lemma carry_bits: "unat (of_bool c1 + of_bool c2 :: u64) = of_bool c1 + of_bool c2"
  by (cases c1; cases c2) simp_all

lemma add_limbs_val [limbs]:
  "length xs = length ys \<Longrightarrow> unat carry \<le> 1 \<Longrightarrow> add_limbs carry xs ys = (out, cout) \<Longrightarrow>
   length out = length ys \<and> unat cout \<le> 1 \<and> val out + radix ^ length ys * unat cout = val xs + val ys + unat carry"
proof (induction xs ys arbitrary: carry out rule: list_induct2)
  case (Cons x xs y ys)
  obtain v c1 where 1: "overflowing_add x y = (v, c1)" by (cases "overflowing_add x y")
  obtain w c2 where 2: "overflowing_add v carry = (w, c2)" by (cases "overflowing_add v carry")
  obtain zs where 3: "add_limbs (of_bool c1 + of_bool c2) xs ys = (zs, cout)" and out: "out = w # zs"
    using Cons.prems(2) by (auto simp: 1 2 split: prod.splits)
  have v: "unat x + unat y = unat v + radix * of_bool c1" "unat v + unat carry = unat w + radix * of_bool c2"
    using overflowing_add_val [OF 1] overflowing_add_val [OF 2] by simp_all
  have "of_bool c1 + of_bool c2 \<le> (1 :: nat)"
    using v unat_limb [of x] unat_limb [of y] Cons.prems(1) by (cases c1; cases c2) simp_all
  then have IH: "length zs = length ys" "unat cout \<le> 1"
    "val zs + radix ^ length ys * unat cout = val xs + val ys + (of_bool c1 + of_bool c2)"
    using Cons.IH [OF _ 3] by (simp_all add: carry_bits)
  have "val out + radix ^ length (y # ys) * unat cout = unat w + radix * (val zs + radix ^ length ys * unat cout)"
    by (simp add: out algebra_simps)
  also have "\<dots> = unat x + unat y + unat carry + radix * (val xs + val ys)"
    unfolding IH(3) using v by (simp add: algebra_simps)
  finally show ?case using IH(1,2) by (simp add: out algebra_simps)
qed simp

lemma checked_add_val [limbs]:
  assumes "length a = length b"
  shows "checked_add a b = (if val a + val b < radix ^ length b then checked_add a b else None)"
    and "checked_add a b = Some s \<Longrightarrow> length s = length b \<and> val s = val a + val b"
    and "val a + val b < radix ^ length b \<Longrightarrow> checked_add a b \<noteq> None"
proof -
  obtain out c where l: "add_limbs 0 a b = (out, c)" by (cases "add_limbs 0 a b")
  from add_limbs_val [OF assms _ l] have *: "length out = length b" "unat c \<le> 1"
    "val out + radix ^ length b * unat c = val a + val b" by simp_all
  have c: "c \<noteq> 0 \<longleftrightarrow> unat c = 1" using *(2) by (auto simp: unat_eq_zero le_Suc_eq)
  have "c \<noteq> 0 \<longleftrightarrow> \<not> val a + val b < radix ^ length b"
    using * c val_bound [of out] by (auto simp: le_Suc_eq)
  then show "checked_add a b = (if val a + val b < radix ^ length b then checked_add a b else None)"
    "checked_add a b = Some s \<Longrightarrow> length s = length b \<and> val s = val a + val b"
    "val a + val b < radix ^ length b \<Longrightarrow> checked_add a b \<noteq> None"
    using * by (auto simp: checked_add_def l split: if_splits)
qed

lemma sub_limbs_val [limbs]:
  "length xs = length ys \<Longrightarrow> unat borrow \<le> 1 \<Longrightarrow> sub_limbs borrow xs ys = (out, cout) \<Longrightarrow>
   length out = length ys \<and> unat cout \<le> 1 \<and> val xs + radix ^ length ys * unat cout = val out + val ys + unat borrow"
proof (induction xs ys arbitrary: borrow out rule: list_induct2)
  case (Cons x xs y ys)
  obtain v c1 where 1: "overflowing_sub x y = (v, c1)" by (cases "overflowing_sub x y")
  obtain w c2 where 2: "overflowing_sub v borrow = (w, c2)" by (cases "overflowing_sub v borrow")
  obtain zs where 3: "sub_limbs (of_bool c1 + of_bool c2) xs ys = (zs, cout)" and out: "out = w # zs"
    using Cons.prems(2) by (auto simp: 1 2 split: prod.splits)
  have v: "unat x + radix * of_bool c1 = unat v + unat y" "unat v + radix * of_bool c2 = unat w + unat borrow"
    using overflowing_sub_val [OF 1] overflowing_sub_val [OF 2] by simp_all
  have "of_bool c1 + of_bool c2 \<le> (1 :: nat)"
    using v unat_limb [of w] unat_limb [of y] Cons.prems(1) by (cases c1; cases c2) simp_all
  then have IH: "length zs = length ys" "unat cout \<le> 1"
    "val xs + radix ^ length ys * unat cout = val zs + val ys + (of_bool c1 + of_bool c2)"
    using Cons.IH [OF _ 3] by (simp_all add: carry_bits)
  have "val (x # xs) + radix ^ length (y # ys) * unat cout = unat x + radix * (val xs + radix ^ length ys * unat cout)"
    by (simp add: algebra_simps)
  also have "\<dots> = unat w + unat borrow + unat y + radix * (val zs + val ys)"
    unfolding IH(3) using v by (simp add: algebra_simps)
  finally show ?case using IH(1,2) by (simp add: out algebra_simps)
qed simp

lemma checked_sub_val [limbs]:
  assumes "length a = length b" and "val b \<le> val a"
  obtains d where "checked_sub a b = Some d" "length d = length b" "val d = val a - val b"
proof -
  obtain out c where l: "sub_limbs 0 a b = (out, c)" by (cases "sub_limbs 0 a b")
  from sub_limbs_val [OF assms(1) _ l] have *: "length out = length b" "unat c \<le> 1"
    "val a + radix ^ length b * unat c = val out + val b" by simp_all
  have "unat c = 0"
  proof (rule ccontr)
    assume "unat c \<noteq> 0"
    then have "unat c = 1" using *(2) by linarith
    then have "val a + radix ^ length b = val out + val b" using *(3) by (simp only: mult_1_right)
    then show False using val_bound [of out, unfolded *(1)] assms(2) by linarith
  qed
  then have "val out = val a - val b" using *(3) by simp
  moreover have "checked_sub a b = Some out" using assms by (simp add: checked_sub_def cmp_to_val l)
  ultimately show thesis using that *(1) by blast
qed

lemma checked_sub_less: "length a = length b \<Longrightarrow> val a < val b \<Longrightarrow> checked_sub a b = None"
  by (simp add: checked_sub_def cmp_to_val)

lemma shl1_limb: "unat c \<le> 1 \<Longrightarrow> unat (push_bit 1 x OR c) + radix * unat (drop_bit 63 x :: u64) = 2 * unat x + unat c \<and> unat (drop_bit 63 x) \<le> 1"
proof -
  assume c: "unat c \<le> 1"
  have d: "unat (drop_bit 63 x) = unat x div 2 ^ 63" unfolding unat_drop_bit_eq by (simp add: drop_bit_eq_div)
  have u: "unat x < 2 ^ 64" using unat_limb [of x] by (simp add: radix_def)
  have p: "unat (push_bit 1 x) = 2 * unat x mod 2 ^ 64" by (simp add: unat_word_ariths mult.commute)
  have e: "even (unat (push_bit 1 x))" unfolding p by (simp add: dvd_mod)
  have o: "unat (push_bit 1 x OR c) = unat (push_bit 1 x) + unat c"
  proof (cases "c = 0")
    case False
    then have "c = 1" using c by (metis One_nat_def le_Suc_eq le_zero_eq unat_eq_zero unat_1 word_unat_eq_iff)
    have "unat (push_bit 1 x OR 1) = unat (push_bit 1 x) OR 1" unfolding unsigned_or_eq by simp
    then show ?thesis using e unfolding \<open>c = 1\<close> by (simp only: or_one_eq) simp
  qed simp
  have "2 * unat x = 2 * unat x mod 2 ^ 64 + 2 ^ 64 * (unat x div 2 ^ 63)"
    using mult_div_mod_eq [of "2 ^ 64" "2 * unat x"] by simp
  then show ?thesis unfolding o p d radix_def using u by auto
qed

lemma shl1_limbs_val [limbs]:
  "unat carry \<le> 1 \<Longrightarrow> shl1_limbs carry xs = (out, cout) \<Longrightarrow>
   length out = length xs \<and> unat cout \<le> 1 \<and> val out + radix ^ length xs * unat cout = 2 * val xs + unat carry"
proof (induction xs arbitrary: carry out)
  case (Cons x xs)
  obtain zs where z: "shl1_limbs (drop_bit 63 x) xs = (zs, cout)" and out: "out = (push_bit 1 x OR carry) # zs"
    using Cons.prems(2) by (auto split: prod.splits)
  have IH: "length zs = length xs" "unat cout \<le> 1" "val zs + radix ^ length xs * unat cout = 2 * val xs + unat (drop_bit 63 x)"
    using Cons.IH [OF _ z] shl1_limb [OF Cons.prems(1), of x] by simp_all
  have "val out + radix ^ length (x # xs) * unat cout = unat (push_bit 1 x OR carry) + radix * (val zs + radix ^ length xs * unat cout)"
    by (simp add: out algebra_simps)
  also have "\<dots> = 2 * val (x # xs) + unat carry"
    unfolding IH(3) using shl1_limb [OF Cons.prems(1), of x] by (simp add: algebra_simps)
  finally show ?case using IH by (simp add: out)
qed simp

lemma shl1_val [limbs]:
  "shl1 a = (out, cout) \<Longrightarrow> length out = length a \<and> unat cout \<le> 1 \<and> val out + radix ^ length a * unat cout = 2 * val a"
  using shl1_limbs_val [of 0 a out cout] by (simp add: shl1_def)

lemma shr1_limb: "unat c \<le> 1 \<Longrightarrow> unat (drop_bit 1 x OR push_bit 63 c :: u64) = unat x div 2 + 2 ^ 63 * unat c"
proof -
  assume c: "unat c \<le> 1"
  have d: "unat (drop_bit 1 x) = unat x div 2" unfolding unat_drop_bit_eq by (simp add: drop_bit_eq_div)
  show ?thesis
  proof (cases "c = 0")
    case False
    then have c1: "c = 1" using c by (metis One_nat_def le_Suc_eq le_zero_eq unat_eq_zero unat_1 word_unat_eq_iff)
    have "drop_bit 1 x AND push_bit 63 1 = 0"
      by (rule bit_word_eqI) (auto simp del: push_bit_of_1 simp: bit_simps dest: bit_imp_le_length)
    from word_plus_and_or [of "drop_bit 1 x" "push_bit 63 1", unfolded this]
    have "drop_bit 1 x OR push_bit 63 1 = drop_bit 1 x + push_bit 63 1" by (simp only: add_0)
    moreover have "unat (drop_bit 1 x + push_bit 63 1) = unat x div 2 + 2 ^ 63"
      unfolding unat_word_ariths d using unat_limb [of x] by (simp add: radix_def)
    ultimately show ?thesis by (simp add: c1)
  qed (use d in simp)
qed

lemma shr1_limbs_val:
  "unat carry \<le> 1 \<Longrightarrow> length (shr1_limbs carry xs) = length xs \<and>
   val (rev (shr1_limbs carry xs)) = (val (rev xs) + radix ^ length xs * unat carry) div 2"
proof (induction xs arbitrary: carry)
  case (Cons x xs)
  have a: "unat (x AND 1) = unat x mod 2" unfolding and_one_eq unat_mod by simp
  have IH: "length (shr1_limbs (x AND 1) xs) = length xs"
    "val (rev (shr1_limbs (x AND 1) xs)) = (val (rev xs) + radix ^ length xs * (unat x mod 2)) div 2"
    using Cons.IH [of "x AND 1"] by (simp_all add: a)
  let ?R = "radix ^ length xs" let ?v = "val (rev xs)"
  have "?v + ?R * unat x + ?R * radix * unat carry = ?v + ?R * (unat x mod 2) + (?R * (unat x div 2 + 2 ^ 63 * unat carry)) * 2"
  proof -
    have "?R * unat x = ?R * (unat x mod 2 + 2 * (unat x div 2))" by simp
    then show ?thesis unfolding radix_def [of] by (simp only: distrib_left) (simp add: radix_def)
  qed
  then have "(?v + ?R * unat x + ?R * radix * unat carry) div 2 =
      ?R * (unat x div 2 + 2 ^ 63 * unat carry) + (?v + ?R * (unat x mod 2)) div 2"
    by (simp only: div_mult_self1 [OF zero_neq_numeral [symmetric]])
  then show ?case
    using IH shr1_limb [OF Cons.prems, of x] by (simp add: val_append algebra_simps)
qed simp

lemma shr1_val [limbs]: "length (shr1 a) = length a \<and> val (shr1 a) = val a div 2"
  using shr1_limbs_val [of 0 "rev a"] by (simp add: shr1_def)

lemma shr_n_val [limbs]: "length (shr_n n a) = length a \<and> val (shr_n n a) = val a div 2 ^ n"
proof (cases "n \<ge> length a * 64")
  case True
  have "val a < 2 ^ n"
    using val_bound [of a] power_increasing [OF True, of "2 :: nat"] unfolding radix_power by linarith
  then show ?thesis using True by (simp add: shr_n_def)
next
  case False
  have "length ((shr1 ^^ n) a) = length a \<and> val ((shr1 ^^ n) a) = val a div 2 ^ n"
    by (induction n) (simp_all add: shr1_val div_mult2_eq [symmetric] mult.commute)
  then show ?thesis using False by (simp add: shr_n_def)
qed

lemma shl_n_val [limbs]:
  assumes "val a * 2 ^ n < radix ^ length a" and "0 < val a"
  shows "length (shl_n n a) = length a \<and> val (shl_n n a) = val a * 2 ^ n"
proof -
  have "2 ^ n < (2 :: nat) ^ (length a * 64)"
    using assms by (metis One_nat_def Suc_leI le_less_trans mult.commute mult.right_neutral mult_le_mono2 radix_power)
  then have n: "min n (length a * 64) = n" by simp
  have "length (((\<lambda>a. fst (shl1 a)) ^^ k) a) = length a \<and> val (((\<lambda>a. fst (shl1 a)) ^^ k) a) = val a * 2 ^ k" if "k \<le> n" for k
    using that
  proof (induction k)
    case (Suc k)
    let ?b = "((\<lambda>a. fst (shl1 a)) ^^ k) a"
    obtain out cout where s: "shl1 ?b = (out, cout)" by (cases "shl1 ?b")
    have b: "length ?b = length a" "val ?b = val a * 2 ^ k" using Suc by simp_all
    from shl1_val [OF s] b have *: "length out = length a" "unat cout \<le> 1"
      "val out + radix ^ length a * unat cout = val a * 2 ^ Suc k" by simp_all
    have "val a * 2 ^ Suc k \<le> val a * 2 ^ n" using Suc.prems by (intro mult_le_mono2 power_increasing) simp_all
    then have "val out + radix ^ length a * unat cout < radix ^ length a" unfolding *(3) using assms(1) by linarith
    then have "unat cout = 0" by (rule carry_zero [OF *(2)])
    then show ?case using * s by simp
  qed simp
  from this [of n] show ?thesis by (simp add: shl_n_def n)
qed

lemma bits_lower: "0 < bits a \<Longrightarrow> 2 ^ (bits a - 1) \<le> val a"
proof (induction a rule: rev_induct)
  case (snoc x a)
  show ?case
  proof (cases "x = 0")
    case False
    let ?f = "floorlog 2 (unat x)"
    have x: "0 < unat x" using False by (simp add: unat_gt_0)
    have f: "2 ^ (?f - 1) \<le> unat x" "0 < ?f" using floorlog_bounds [of "unat x" 2] x by (simp_all add: floorlog_def)
    have b: "bits (a @ [x]) = length a * 64 + ?f" using False floorlog_limb [OF False] by (simp add: bits_snoc)
    have "2 ^ (length a * 64 + ?f - 1) = radix ^ length a * 2 ^ (?f - 1)"
      using f(2) by (simp add: radix_power power_add [symmetric])
    also have "\<dots> \<le> radix ^ length a * unat x" by (rule mult_le_mono2 [OF f(1)])
    also have "\<dots> \<le> val (a @ [x])" by (simp add: val_append)
    finally show ?thesis unfolding b .
  qed (use snoc in \<open>simp add: bits_snoc val_append\<close>)
qed (simp add: bits_def)

lemma bits_power: "k < bits a \<Longrightarrow> 2 ^ k \<le> val a"
proof -
  assume k: "k < bits a"
  then have "(2 :: nat) ^ k \<le> 2 ^ (bits a - 1)" by (intro power_increasing) simp_all
  also have "\<dots> \<le> val a" using k by (intro bits_lower) simp
  finally show ?thesis .
qed

lemma bits_exact: "2 ^ k \<le> val a \<Longrightarrow> val a < 2 ^ Suc k \<Longrightarrow> bits a = Suc k"
proof -
  assume v: "2 ^ k \<le> val a" "val a < 2 ^ Suc k"
  have "(2 :: nat) ^ k < 2 ^ bits a" using val_less_bits [of a] v(1) by linarith
  then have "k < bits a" by simp
  moreover have "(2 :: nat) ^ (bits a - 1) < 2 ^ Suc k" using bits_lower [of a] v(2) \<open>k < bits a\<close> by simp
  then have "bits a - 1 < Suc k" by (rule power_less_imp_less_exp [rotated]) simp
  ultimately show ?thesis by linarith
qed

lemma shl1_small:
  assumes "2 * val a < radix ^ length a"
  shows "length (fst (shl1 a)) = length a \<and> val (fst (shl1 a)) = 2 * val a"
proof -
  obtain out c where s: "shl1 a = (out, c)" by (cases "shl1 a")
  from shl1_val [OF s] have *: "length out = length a" "unat c \<le> 1" "val out + radix ^ length a * unat c = 2 * val a" by simp_all
  have "val out + radix ^ length a * unat c < radix ^ length a" unfolding *(3) by (rule assms)
  then have "unat c = 0" by (rule carry_zero [OF *(2)])
  then show ?thesis using * s by simp
qed

end
