(* ===== verification/Bigint_Gcd.thy ===== *)
theory Bigint_Gcd
  imports Bigint
begin

text \<open>Bytes, hexadecimal and the binary greatest common divisor of \<open>crates/dc-vdf/src/bigint.rs\<close>.\<close>

section \<open>Big-endian bytes\<close>

definition to_bytes_be :: "big \<Rightarrow> byte list" where
  "to_bytes_be a = dropWhile (\<lambda>b. b = 0) (concat (map (\<lambda>l. rev (u64_le l)) (rev a)))"

definition limb_of_bytes :: "byte list \<Rightarrow> u64" where
  "limb_of_bytes bs = fold (\<lambda>b v. push_bit 8 v OR ucast b) bs 0"

definition from_bytes_be :: "nat \<Rightarrow> byte list \<Rightarrow> big" where
  "from_bytes_be L bs = map (\<lambda>i.
     if 8 * i \<ge> length bs then 0
     else (let hi = length bs - 8 * (i + 1); lo = length bs - 8 * i
           in limb_of_bytes (take (lo - hi) (drop hi bs)))) [0..<L]"

text \<open>The number a big-endian byte string denotes.\<close>

definition be_val :: "byte list \<Rightarrow> nat" where
  "be_val bs = foldl (\<lambda>v b. v * 256 + unat b) 0 bs"

lemma be_val_foldl: "foldl (\<lambda>v b. v * 256 + unat b) v bs = v * 256 ^ length bs + be_val bs"
proof (induction bs arbitrary: v)
  case (Cons b bs)
  show ?case unfolding be_val_def foldl.simps Cons [of "v * 256 + unat b"] Cons [of "0 * 256 + unat b"]
    by (simp add: algebra_simps)
qed (simp add: be_val_def)

lemma be_val_append: "be_val (xs @ ys) = be_val xs * 256 ^ length ys + be_val ys"
  using be_val_foldl [of "be_val xs" ys] by (simp add: be_val_def)

lemma be_val_simps [simp]: "be_val [] = 0" "be_val (b # bs) = unat b * 256 ^ length bs + be_val bs"
  using be_val_append [of "[b]" bs] by (simp_all add: be_val_def)

lemma be_val_bound: "be_val bs < 256 ^ length bs"
proof (induction bs)
  case (Cons b bs)
  have "unat b < 256" using unsigned_less [of b] by simp
  then show ?case using digit_bound [OF Cons, of "unat b" 256] by (simp add: mult.commute add.commute)
qed simp

lemma be_val_dropWhile: "be_val (dropWhile (\<lambda>b. b = 0) bs) = be_val bs"
  by (induction bs) auto

lemma unat_byte: "unat (b :: byte) < 256"
  using unsigned_less [of b] by simp

lemma limb_step:
  assumes "unat v < 2 ^ 56"
  shows "unat (push_bit 8 v OR ucast (b :: byte) :: u64) = unat v * 256 + unat b"
proof -
  have "push_bit 8 v AND ucast b = 0"
    by (rule bit_word_eqI) (auto simp: bit_simps dest: bit_imp_le_length)
  from word_plus_and_or [of "push_bit 8 v" "ucast b", unfolded this]
  have o: "push_bit 8 v OR ucast b = push_bit 8 v + ucast b" by (simp only: add_0)
  have "unat (push_bit 8 v) = unat v * 256"
    unfolding push_bit_eq_mult unat_word_ariths using assms by simp
  moreover have "unat (ucast b :: u64) = unat b" using unat_byte [of b] by (simp add: unsigned_ucast_eq take_bit_nat_eq_self)
  ultimately show ?thesis
    unfolding o unat_word_ariths using assms unat_byte [of b] by simp
qed

lemma limb_of_bytes_val:
  assumes "length bs \<le> 8"
  shows "unat (limb_of_bytes bs) = be_val bs"
proof -
  have "unat (fold (\<lambda>b v. push_bit 8 v OR ucast b) bs v :: u64) = unat v * 256 ^ length bs + be_val bs"
    if "unat v * 256 ^ length bs < 2 ^ 64" "unat v < 256 ^ (8 - length bs)" for v
    using assms that
  proof (induction bs arbitrary: v)
    case (Cons b bs)
    let ?w = "push_bit 8 v OR ucast b :: u64"
    have "unat v < 256 ^ (8 - 1)"
      using Cons.prems(1,3) power_increasing [of "8 - length (b # bs)" "8 - 1" "256 :: nat"] by simp
    then have w: "unat ?w = unat v * 256 + unat b" by (intro limb_step) simp
    have "unat v + 1 \<le> 256 ^ (8 - length (b # bs))" using Cons.prems(3) by simp
    then have "(unat v + 1) * 256 \<le> 256 ^ (8 - length (b # bs)) * 256" by (rule mult_le_mono1)
    moreover have "8 - length bs = Suc (8 - length (b # bs))" using Cons.prems(1) by simp
    then have "(256 :: nat) ^ (8 - length (b # bs)) * 256 = 256 ^ (8 - length bs)" by simp
    moreover have "unat b < 256" using unsigned_less [of b] by simp
    ultimately have w1: "unat ?w < 256 ^ (8 - length bs)" unfolding w by (simp add: distrib_right)
    then have "unat ?w * 256 ^ length bs < 256 ^ (8 - length bs) * 256 ^ length bs" by (intro mult_strict_right_mono) simp_all
    then have w2: "unat ?w * 256 ^ length bs < 2 ^ 64" using Cons.prems(1) by (simp flip: power_add)
    show ?case using Cons.IH [OF _ w2 w1] Cons.prems(1) w by (simp add: algebra_simps)
  qed simp
  from this [of 0] show ?thesis by (simp add: limb_of_bytes_def)
qed

lemma from_bytes_be_Suc:
  "from_bytes_be (Suc L) bs =
   limb_of_bytes (drop (length bs - 8) bs) # from_bytes_be L (take (length bs - 8) bs)"
proof -
  have "(if 8 * Suc i \<ge> length bs then 0 else let hi = length bs - 8 * (Suc i + 1); lo = length bs - 8 * Suc i
           in limb_of_bytes (take (lo - hi) (drop hi bs))) =
      (let cs = take (length bs - 8) bs in if 8 * i \<ge> length cs then 0
       else let hi = length cs - 8 * (i + 1); lo = length cs - 8 * i in limb_of_bytes (take (lo - hi) (drop hi cs)))" for i
    by (auto simp: Let_def drop_take min_def)
  moreover have "limb_of_bytes [] = 0" by (simp add: limb_of_bytes_def)
  ultimately show ?thesis
    unfolding from_bytes_be_def map_upt_Suc by (simp add: Let_def min_def)
qed

lemma length_from_bytes_be [simp]: "length (from_bytes_be L bs) = L"
  by (simp add: from_bytes_be_def)

lemma radix_256: "radix = 256 ^ 8"
  by (simp add: radix_def)

lemma from_bytes_be_val [limbs]: "val (from_bytes_be L bs) = be_val bs mod radix ^ L"
proof (induction L arbitrary: bs)
  case 0
  then show ?case by (simp add: from_bytes_be_def)
next
  case (Suc L)
  let ?hi = "take (length bs - 8) bs" let ?lo = "drop (length bs - 8) bs"
  have lo: "unat (limb_of_bytes ?lo) = be_val ?lo" by (rule limb_of_bytes_val) simp
  show ?case
  proof (cases "length bs \<le> 8")
    case True
    then have "be_val bs < radix" using be_val_bound [of bs] power_increasing [OF True, of "256 :: nat"] unfolding radix_256 by linarith
    moreover have "radix \<le> radix ^ Suc L" by (simp add: Suc_le_eq)
    ultimately have "be_val bs < radix ^ Suc L" by linarith
    then show ?thesis using True lo Suc [of "[]"] by (simp add: from_bytes_be_Suc)
  next
    case False
    then have "be_val bs = be_val ?hi * radix + be_val ?lo"
      using be_val_append [of ?hi ?lo] by (simp add: radix_256)
    moreover have "be_val ?lo < radix" using be_val_bound [of ?lo] False by (simp add: radix_256)
    ultimately have "be_val bs mod (radix * radix ^ L) = be_val ?lo + radix * (be_val ?hi mod radix ^ L)"
      by (simp add: mod_mult2_eq)
    then show ?thesis by (simp add: from_bytes_be_Suc lo Suc)
  qed
qed

lemma be_val_u64: "be_val (rev (u64_le x)) = unat x"
proof -
  have "limb_of_bytes (rev (u64_le x)) = x"
  proof -
    have "limb_of_bytes (rev bs) = of_le_bytes bs" for bs
      by (induction bs) (simp_all add: limb_of_bytes_def or.commute)
    then show ?thesis by (simp add: u64_le_def)
  qed
  moreover have "unat (limb_of_bytes (rev (u64_le x))) = be_val (rev (u64_le x))" by (rule limb_of_bytes_val) simp
  ultimately show ?thesis by simp
qed

lemma be_val_to_bytes_be [limbs]: "be_val (to_bytes_be a) = val a"
proof -
  have "be_val (concat (map (\<lambda>l. rev (u64_le l)) (rev a))) = val a"
    by (induction a) (simp_all add: be_val_append be_val_u64 radix_256)
  then show ?thesis by (simp add: to_bytes_be_def be_val_dropWhile)
qed

lemma from_to_bytes_be: "val a < radix ^ L \<Longrightarrow> val (from_bytes_be L (to_bytes_be a)) = val a"
  by (simp add: from_bytes_be_val be_val_to_bytes_be)

section \<open>Trailing zeros and the greatest common divisor\<close>

fun trailing_zeros :: "big \<Rightarrow> nat" where
  "trailing_zeros [] = 0"
| "trailing_zeros (x # xs) = (if x \<noteq> 0 then limb_trailing_zeros x else 64 + trailing_zeros xs)"

partial_function (option) gcd_loop :: "big \<Rightarrow> big \<Rightarrow> big option" where
  "gcd_loop a b =
     (case cmp_to a b of
        Equal \<Rightarrow> Some a
      | Greater \<Rightarrow> (let a = case_option a id (checked_sub a b) in gcd_loop (shr_n (trailing_zeros a) a) b)
      | Less \<Rightarrow> (let b = case_option b id (checked_sub b a) in gcd_loop a (shr_n (trailing_zeros b) b)))"

definition binary_gcd :: "big \<Rightarrow> big \<Rightarrow> big option" where
  "binary_gcd a b =
     (if is_zero a then Some b
      else if is_zero b then Some a
      else (let za = trailing_zeros a; zb = trailing_zeros b
            in map_option (shl_n (min za zb)) (gcd_loop (shr_n za a) (shr_n zb b))))"

lemma limb_trailing_zeros:
  assumes "x \<noteq> 0"
  shows "limb_trailing_zeros x < 64" and "bit x (limb_trailing_zeros x)" and "\<And>i. i < limb_trailing_zeros x \<Longrightarrow> \<not> bit x i"
proof -
  let ?t = "takeWhile (\<lambda>i. \<not> bit x i) [0..<64]"
  have nth: "\<not> bit x i" if "i < length ?t" for i
    using that nth_mem [of i ?t] takeWhile_nth [of i "\<lambda>i. \<not> bit x i" "[0..<64]"] length_takeWhile_le [of "\<lambda>i. \<not> bit x i" "[0..<64]"]
      set_takeWhileD [of "?t ! i" "\<lambda>i. \<not> bit x i" "[0..<64]"] by simp
  have lt: "length ?t < 64"
  proof (rule ccontr)
    assume "\<not> length ?t < 64"
    then have "\<not> bit x i" if "i < 64" for i using nth [of i] that by simp
    then have "x = 0" by (intro bit_word_eqI) simp
    with assms show False ..
  qed
  then show "limb_trailing_zeros x < 64" by (simp add: limb_trailing_zeros_def)
  show "bit x (limb_trailing_zeros x)"
    using nth_length_takeWhile [of "\<lambda>i. \<not> bit x i" "[0..<64]"] lt by (simp add: limb_trailing_zeros_def)
  show "\<And>i. i < limb_trailing_zeros x \<Longrightarrow> \<not> bit x i" using nth by (simp add: limb_trailing_zeros_def)
qed

lemma trailing_zeros_bits:
  "0 < val a \<Longrightarrow> bit (val a) (trailing_zeros a) \<and> (\<forall>i < trailing_zeros a. \<not> bit (val a) i)"
proof (induction a)
  case (Cons x xs)
  show ?case
  proof (cases "x = 0")
    case True
    then have "0 < val xs" using Cons.prems by simp
    then show ?thesis using Cons.IH True by (auto simp: bit_val_Cons simp del: val.simps)
  next
    case False
    then show ?thesis using limb_trailing_zeros [OF False] by (simp add: bit_val_Cons del: val.simps)
  qed
qed simp

lemma trailing_zeros_val:
  assumes "0 < val a"
  shows "odd (val a div 2 ^ trailing_zeros a)" and "val a = val a div 2 ^ trailing_zeros a * 2 ^ trailing_zeros a"
proof -
  let ?k = "trailing_zeros a"
  have b: "bit (val a) ?k" "\<forall>i < ?k. \<not> bit (val a) i" using trailing_zeros_bits [OF assms] by simp_all
  then show "odd (val a div 2 ^ ?k)" by (simp add: bit_iff_odd)
  have "take_bit ?k (val a) = 0" by (rule bit_eqI) (use b(2) in \<open>auto simp: bit_take_bit_iff\<close>)
  then show "val a = val a div 2 ^ ?k * 2 ^ ?k" by (simp add: take_bit_eq_mod mod_eq_0_iff_dvd)
qed

lemma gcd_odd_part: "odd b \<Longrightarrow> gcd (d * 2 ^ k) b = gcd d (b :: nat)"
  by (rule gcd_mult_left_right_cancel) simp

text \<open>Taking the odd part of the difference.\<close>

lemma odd_part:
  assumes "0 < val d" and "odd b"
  shows "odd (val (shr_n (trailing_zeros d) d))" and "gcd (val (shr_n (trailing_zeros d) d)) b = gcd (val d) b"
    and "val (shr_n (trailing_zeros d) d) \<le> val d"
proof -
  show "odd (val (shr_n (trailing_zeros d) d))" using trailing_zeros_val [OF assms(1)] by (simp add: shr_n_val)
  show "gcd (val (shr_n (trailing_zeros d) d)) b = gcd (val d) b"
    using gcd_odd_part [OF assms(2), of "val (shr_n (trailing_zeros d) d)" "trailing_zeros d"] trailing_zeros_val(2) [OF assms(1)]
    by (simp add: shr_n_val)
  show "val (shr_n (trailing_zeros d) d) \<le> val d" by (simp add: shr_n_val)
qed

lemma gcd_loop_val:
  assumes "length a = length b" and "odd (val a)" and "odd (val b)"
  shows "\<exists>g. gcd_loop a b = Some g \<and> length g = length b \<and> val g = gcd (val a) (val b)"
  using assms
proof (induction "val a + val b" arbitrary: a b rule: less_induct)
  case less
  note c = cmp_to_val [OF less.prems(1)]
  have pos: "0 < val a" "0 < val b" using less.prems(2,3) by (auto intro: Nat.gr0I)
  consider "val a = val b" | "val b < val a" | "val a < val b" by linarith
  then show ?case
  proof cases
    case 1
    then show ?thesis using less.prems(1) by (subst gcd_loop.simps) (simp add: c)
  next
    case 2
    then have gt: "cmp_to a b = Greater" by (simp add: c)
    obtain d where d: "checked_sub a b = Some d" "length d = length b" "val d = val a - val b"
      using checked_sub_val [OF less.prems(1)] 2 by (metis less_imp_le)
    let ?a = "shr_n (trailing_zeros d) d"
    have o: "odd (val ?a)" "gcd (val ?a) (val b) = gcd (val d) (val b)" "val ?a \<le> val d" "length ?a = length b"
      using odd_part [of d "val b"] less.prems(3) 2 d by (simp_all add: shr_n_val)
    have "gcd (val d) (val b) = gcd (val a) (val b)" using 2 by (simp add: d(3) gcd_diff1_nat)
    moreover have "val ?a + val b < val a + val b" using o(3) d(3) pos by simp
    ultimately show ?thesis
      using less.hyps [of ?a b] o less.prems by (subst gcd_loop.simps) (simp add: gt d Let_def)
  next
    case 3
    then have lt: "cmp_to a b = Less" by (simp add: c)
    obtain d where d: "checked_sub b a = Some d" "length d = length a" "val d = val b - val a"
      using checked_sub_val [OF less.prems(1) [symmetric]] 3 by (metis less_imp_le)
    let ?b = "shr_n (trailing_zeros d) d"
    have o: "odd (val ?b)" "gcd (val ?b) (val a) = gcd (val d) (val a)" "val ?b \<le> val d" "length ?b = length a"
      using odd_part [of d "val a"] less.prems(2) 3 d by (simp_all add: shr_n_val)
    have "gcd (val d) (val a) = gcd (val a) (val b)" unfolding d(3) using 3 by (simp add: gcd_diff1_nat gcd.commute [of "val a" "val b"])
    moreover have "val a + val ?b < val a + val b" using o(3) d(3) pos by simp
    ultimately show ?thesis
      using less.hyps [of a ?b] o less.prems by (subst gcd_loop.simps) (simp add: lt d Let_def gcd.commute)
  qed
qed

lemma gcd_shift:
  assumes "a = a' * 2 ^ za" and "b = b' * 2 ^ zb" and "odd a'" and "odd (b' :: nat)"
  shows "gcd a b = gcd a' b' * 2 ^ min za zb"
proof (cases "za \<le> zb")
  case True
  then have "b = (b' * 2 ^ (zb - za)) * 2 ^ za" using assms(2) by (simp flip: power_add)
  then have "gcd a b = gcd a' (b' * 2 ^ (zb - za)) * 2 ^ za" by (simp add: assms(1) gcd_mult_distrib_nat mult.commute)
  then show ?thesis using gcd_odd_part [OF assms(3), of b' "zb - za"] True by (simp add: gcd.commute min_def)
next
  case False
  then have "a = (a' * 2 ^ (za - zb)) * 2 ^ zb" using assms(1) by (simp flip: power_add)
  then have "gcd a b = gcd (a' * 2 ^ (za - zb)) b' * 2 ^ zb" by (simp add: assms(2) gcd_mult_distrib_nat mult.commute)
  then show ?thesis using gcd_odd_part [OF assms(4), of a' "za - zb"] False by (simp add: min_def)
qed

text \<open>The loop always ends on numbers of equal width and the final shift loses no bit.\<close>

lemma binary_gcd_val:
  assumes "length a = length b"
  shows "\<exists>g. binary_gcd a b = Some g \<and> length g = length b \<and> val g = gcd (val a) (val b)"
proof (cases "val a = 0 \<or> val b = 0")
  case True
  then show ?thesis using assms by (auto simp: binary_gcd_def is_zero_val)
next
  case False
  then have pos: "0 < val a" "0 < val b" by simp_all
  let ?za = "trailing_zeros a" let ?zb = "trailing_zeros b"
  note ta = trailing_zeros_val [OF pos(1)] and tb = trailing_zeros_val [OF pos(2)]
  obtain g where g: "gcd_loop (shr_n ?za a) (shr_n ?zb b) = Some g" "length g = length b"
    "val g = gcd (val a div 2 ^ ?za) (val b div 2 ^ ?zb)"
    using gcd_loop_val [of "shr_n ?za a" "shr_n ?zb b"] ta tb assms by (auto simp: shr_n_val)
  have v: "val g * 2 ^ min ?za ?zb = gcd (val a) (val b)" unfolding g(3) by (rule gcd_shift [OF ta(2) tb(2) ta(1) tb(1), symmetric])
  have "gcd (val a) (val b) \<le> val b" using pos(2) by (simp add: gcd_le2_nat)
  then have "val g * 2 ^ min ?za ?zb < radix ^ length g" using v val_bound [of b] g(2) by simp
  moreover have "0 < val g" using v pos by (metis gcd_pos_nat mult_is_0 neq0_conv)
  ultimately have "length (shl_n (min ?za ?zb) g) = length b \<and> val (shl_n (min ?za ?zb) g) = gcd (val a) (val b)"
    using shl_n_val [of g "min ?za ?zb"] v g(2) by simp
  then show ?thesis using False g(1) by (simp add: binary_gcd_def is_zero_val Let_def)
qed

end
