(* ===== verification/Montgomery.thy ===== *)
theory Montgomery
  imports Bigint_Gcd
begin

text \<open>
  Montgomery arithmetic (\<open>crates/dc-vdf/src/bigint.rs\<close>): the CIOS product with its 128-bit
  accumulations, repeated squaring and modular exponentiation. The accumulator is its low \<open>L\<close> limbs
  and the words \<open>t[L]\<close>, \<open>t[L + 1]\<close>; the words above stay zero.
\<close>

named_theorems mont \<open>what the Montgomery operations compute\<close>

section \<open>The context\<close>

record montgomery =
  mo_n :: big
  mo_n0inv :: u64
  mo_r2 :: big

definition mont_inv64 :: "u64 \<Rightarrow> u64" where
  "mont_inv64 n = - ((\<lambda>inv. inv * (2 - n * inv)) ^^ 6) 1"

definition mod_double :: "big \<Rightarrow> big \<Rightarrow> big" where
  "mod_double n a =
     (case shl1 a of (v, carry) \<Rightarrow>
        if carry \<noteq> 0 then fst (add_limbs 1 v (map (\<lambda>l. NOT l) n))
        else if cmp_to v n = Less then v
        else case_option v id (checked_sub v n))"

definition new_montgomery :: "big \<Rightarrow> string + montgomery" where
  "new_montgomery n =
     (if is_zero n \<or> \<not> is_odd n then Inl ''Montgomery modulus must be odd and non-zero''
      else Inr \<lparr>mo_n = n, mo_n0inv = mont_inv64 (n ! 0),
                mo_r2 = ((mod_double n) ^^ (128 * length n)) (one_big (length n))\<rparr>)"

section \<open>The product\<close>

text \<open>\<open>t += x * b\<close> on the limbs, with the carry in 128 bits.\<close>

fun mac_limbs :: "u64 \<Rightarrow> u128 \<Rightarrow> big \<Rightarrow> big \<Rightarrow> big \<times> u128" where
  "mac_limbs x carry (t # ts) (b # bs) =
     (let acc = ucast t + ucast x * ucast b + carry;
          (out, cout) = mac_limbs x (drop_bit 64 acc) ts bs
      in (ucast acc # out, cout))"
| "mac_limbs x carry _ _ = ([], carry)"

record accumulator =
  ac_low :: big
  ac_top :: u64
  ac_over :: u64

definition mont_step :: "montgomery \<Rightarrow> big \<Rightarrow> u64 \<Rightarrow> accumulator \<Rightarrow> accumulator" where
  "mont_step ctx b ai t =
     (let (low, carry) = mac_limbs ai 0 (ac_low t) b;
          acc = ucast (ac_top t) + carry;
          top_word = (ucast acc :: u64);
          over = ac_over t + ucast (drop_bit 64 acc);
          m = hd low * mo_n0inv ctx;
          acc = (ucast (hd low) + ucast m * ucast (hd (mo_n ctx)) :: u128);
          (low, carry) = mac_limbs m (drop_bit 64 acc) (tl low) (tl (mo_n ctx));
          acc = ucast top_word + carry
      in \<lparr>ac_low = low @ [ucast acc], ac_top = over + ucast (drop_bit 64 acc), ac_over = 0\<rparr>)"

text \<open>\<open>r\<close> plus the two's complement of \<open>n\<close>, limb by limb.\<close>

fun add_complement :: "u64 \<Rightarrow> big \<Rightarrow> big \<Rightarrow> big" where
  "add_complement carry (r # rs) (n # ns) =
     (let (tc, c1) = overflowing_add (NOT n) carry;
          (v, c2) = overflowing_add r tc
      in v # add_complement (of_bool c1 + of_bool c2) rs ns)"
| "add_complement carry _ _ = []"

definition mont_reduce :: "big \<Rightarrow> accumulator \<Rightarrow> big" where
  "mont_reduce n t =
     (let r = ac_low t in
      if ac_top t \<noteq> 0 then add_complement 1 r n
      else if cmp_to r n = Less then r
      else case_option r id (checked_sub r n))"

definition mont_mul :: "montgomery \<Rightarrow> big \<Rightarrow> big \<Rightarrow> big" where
  "mont_mul ctx a b =
     mont_reduce (mo_n ctx)
       (fold (mont_step ctx b) a \<lparr>ac_low = zero_big (length a), ac_top = 0, ac_over = 0\<rparr>)"

definition mont_sqr :: "montgomery \<Rightarrow> big \<Rightarrow> big" where
  "mont_sqr ctx a = mont_mul ctx a a"

definition to_mont :: "montgomery \<Rightarrow> big \<Rightarrow> big" where
  "to_mont ctx a = mont_mul ctx a (mo_r2 ctx)"

definition from_mont :: "montgomery \<Rightarrow> big \<Rightarrow> big" where
  "from_mont ctx a = mont_mul ctx a (one_big (length (mo_n ctx)))"

text \<open>\<open>progress i\<close> answers the callback of iteration \<open>i\<close>; it is asked every \<open>2^20\<close> squarings.\<close>

fun square_from :: "montgomery \<Rightarrow> (nat \<Rightarrow> bool) \<Rightarrow> nat \<Rightarrow> nat \<Rightarrow> big \<Rightarrow> big" where
  "square_from ctx progress i 0 acc = acc"
| "square_from ctx progress i (Suc k) acc =
     (if i mod 2 ^ 20 = 0 \<and> \<not> progress i then acc
      else square_from ctx progress (i + 1) k (mont_sqr ctx acc))"

definition repeat_square :: "montgomery \<Rightarrow> big \<Rightarrow> u64 \<Rightarrow> (nat \<Rightarrow> bool) \<Rightarrow> big" where
  "repeat_square ctx x steps progress = square_from ctx progress 0 (unat steps) x"

definition modpow :: "montgomery \<Rightarrow> big \<Rightarrow> big \<Rightarrow> big" where
  "modpow ctx base ex =
     (let unit = to_mont ctx (one_big (length (mo_n ctx))) in
      if is_zero ex then unit
      else fold (\<lambda>i acc. let acc = mont_sqr ctx acc in if bit_at ex i then mont_mul ctx acc base else acc)
             (rev [0..<bits ex]) unit)"

section \<open>The constants\<close>

text \<open>Each Newton step squares the error.\<close>

lemma newton_error: "1 - n * (inv * (2 - n * inv)) = (1 - n * inv) ^ 2" for n inv :: u64
  by (simp add: power2_eq_square algebra_simps)

lemma mont_inv64_correct:
  assumes "odd n"
  shows "n * mont_inv64 n = - 1"
proof -
  let ?f = "\<lambda>inv. inv * (2 - n * inv)"
  have e: "1 - n * (?f ^^ k) 1 = (1 - n) ^ (2 ^ k)" for k
  proof (induction k)
    case (Suc k)
    have "1 - n * (?f ^^ Suc k) 1 = (1 - n * (?f ^^ k) 1) ^ 2"
      using newton_error [of n "(?f ^^ k) 1"] by simp
    then show ?case unfolding Suc by (simp flip: power_mult add: mult.commute)
  qed simp
  have "even (1 - n)" using assms by simp
  then obtain h where h: "1 - n = 2 * h" by (elim evenE)
  have "(2 :: u64) ^ 64 = 0" by simp
  then have "(1 - n) ^ 64 = 0" by (simp only: h power_mult_distrib) simp
  then have "n * (?f ^^ 6) 1 = 1" using e [of 6] by simp
  then show ?thesis by (simp add: mont_inv64_def)
qed

lemma val_not: "val (map (\<lambda>l. NOT l) n) + val n + 1 = radix ^ length n"
proof (induction n)
  case (Cons x xs)
  have "unat (NOT x) + unat x + 1 = radix"
  proof -
    have "NOT x = - 1 - x" by (simp add: not_eq_complement)
    then have "unat (NOT x) = 2 ^ 64 - 1 - unat x" by (simp add: unat_sub unsigned_minus_1_eq_mask mask_eq_exp_minus_1)
    then show ?thesis using unat_limb [of x] by (simp add: radix_def)
  qed
  moreover have "val (map (\<lambda>l. NOT l) (x # xs)) + val (x # xs) + 1 =
      (unat (NOT x) + unat x + 1) + radix * (val (map (\<lambda>l. NOT l) xs) + val xs)" by (simp add: algebra_simps)
  ultimately have "val (map (\<lambda>l. NOT l) (x # xs)) + val (x # xs) + 1 = radix * (val (map (\<lambda>l. NOT l) xs) + val xs + 1)"
    by (simp add: algebra_simps)
  then show ?case unfolding Cons by simp
qed simp

lemma add_not_val:
  assumes "length v = length n" and "val n \<le> val v + radix ^ length n" and "val v < val n"
  shows "length (fst (add_limbs 1 v (map (\<lambda>l. NOT l) n))) = length n"
    and "val (fst (add_limbs 1 v (map (\<lambda>l. NOT l) n))) = radix ^ length n + val v - val n"
proof -
  let ?n = "map (\<lambda>l. NOT l) n"
  obtain out c where l: "add_limbs 1 v ?n = (out, c)" by (cases "add_limbs 1 v ?n")
  have *: "length out = length n" "unat c \<le> 1" "val out + radix ^ length n * unat c = val v + val ?n + 1"
    using add_limbs_val [of v ?n 1 out c] l assms(1) by simp_all
  have s: "val out + radix ^ length n * unat c = radix ^ length n + val v - val n"
    using val_not [of n] val_bound [of n] *(3) by linarith
  have "val out + radix ^ length n * unat c < radix ^ length n" unfolding s using assms(3) val_bound [of n] by linarith
  then have "unat c = 0" by (rule carry_zero [OF *(2)])
  then show "length (fst (add_limbs 1 v ?n)) = length n" "val (fst (add_limbs 1 v ?n)) = radix ^ length n + val v - val n"
    using *(1) s by (simp_all add: l)
qed

lemma mod_twice: "v < n \<Longrightarrow> 2 * v mod n = (if 2 * v < n then 2 * v else 2 * v - n)" for n v :: nat
  by (simp add: le_mod_geq)

lemma mod_double_val [mont]:
  assumes "length a = length n" and "val a < val n"
  shows "length (mod_double n a) = length n \<and> val (mod_double n a) = 2 * val a mod val n"
proof -
  obtain v c where s: "shl1 a = (v, c)" by (cases "shl1 a")
  from shl1_val [OF s] assms(1) have *: "length v = length n" "unat c \<le> 1" "val v + radix ^ length n * unat c = 2 * val a"
    by simp_all
  show ?thesis
  proof (cases "c = 0")
    case True
    then have v: "val v = 2 * val a" using *(3) by simp
    show ?thesis
    proof (cases "val v < val n")
      case True
      then show ?thesis using \<open>c = 0\<close> v *(1) assms by (simp add: mod_double_def s cmp_to_val)
    next
      case False
      then have le: "val n \<le> val v" by simp
      obtain d where d: "checked_sub v n = Some d" "length d = length n" "val d = val v - val n"
        using checked_sub_val [OF *(1) le] by metis
      have "cmp_to v n \<noteq> Less" using le *(1) by (simp add: cmp_to_val)
      then show ?thesis
        using \<open>c = 0\<close> d v False mod_twice [OF assms(2)] by (simp add: mod_double_def s)
    qed
  next
    case False
    then have "unat c = 1" using *(2) by (metis le_Suc_eq le_zero_eq One_nat_def unat_eq_zero)
    then have v: "val v + radix ^ length n = 2 * val a" using *(3) by simp
    have lt: "val v < val n" using v assms(2) val_bound [of n] by linarith
    have nv: "val n \<le> val v + radix ^ length n" using v assms(2) val_bound [of n] by linarith
    have "\<not> 2 * val a < val n" using v val_bound [of n] by linarith
    then have "2 * val a mod val n = radix ^ length n + val v - val n" using mod_twice [OF assms(2)] v by simp
    then show ?thesis using add_not_val [OF *(1) nv lt] False by (simp add: mod_double_def s)
  qed
qed

lemma r2_val:
  assumes "1 < val n"
  shows "length ((mod_double n ^^ k) (one_big (length n))) = length n \<and> val ((mod_double n ^^ k) (one_big (length n))) = 2 ^ k mod val n"
proof (induction k)
  case 0
  have "0 < length n" using assms by (cases n) simp_all
  then show ?case using assms by simp
next
  case (Suc k)
  have "val ((mod_double n ^^ k) (one_big (length n))) < val n" using Suc assms by simp
  from mod_double_val [OF _ this] Suc show ?case by (simp add: mod_mult_right_eq)
qed

section \<open>One step\<close>

lemma unat_acc:
  fixes t x b :: u64 and carry :: u128
  assumes "unat carry < radix"
  shows "unat (ucast t + ucast x * ucast b + carry :: u128) = unat t + unat x * unat b + unat carry"
    and "unat (drop_bit 64 (ucast t + ucast x * ucast b + carry :: u128)) = (unat t + unat x * unat b + unat carry) div radix"
    and "unat (ucast (ucast t + ucast x * ucast b + carry :: u128) :: u64) = (unat t + unat x * unat b + unat carry) mod radix"
    and "(unat t + unat x * unat b + unat carry) div radix < radix"
proof -
  have u: "unat (ucast w :: u128) = unat w" for w :: u64
    using unat_limb [of w] by (simp add: unsigned_ucast_eq take_bit_nat_eq_self radix_def)
  have xb: "unat x * unat b \<le> (radix - 1) * (radix - 1)"
    using unat_limb [of x] unat_limb [of b] by (intro mult_le_mono) linarith+
  have r: "(radix - 1) * (radix - 1) + 2 * (radix - 1) < radix * radix" by (simp add: radix_def)
  have tc: "unat t \<le> radix - 1" "unat carry \<le> radix - 1" using unat_limb [of t] assms by linarith+
  have lt: "unat t + unat x * unat b + unat carry < radix * radix" using xb r tc by linarith
  then have small: "unat t + unat x * unat b + unat carry < 2 ^ 128" by (simp add: radix_def)
  then have "unat x * unat b < 2 ^ 128" "unat t + unat x * unat b < 2 ^ 128" by linarith+
  with small show e: "unat (ucast t + ucast x * ucast b + carry :: u128) = unat t + unat x * unat b + unat carry"
    unfolding unat_word_ariths u by simp
  show "unat (drop_bit 64 (ucast t + ucast x * ucast b + carry :: u128)) = (unat t + unat x * unat b + unat carry) div radix"
    unfolding unat_drop_bit_eq e radix_def by (rule drop_bit_eq_div)
  show "unat (ucast (ucast t + ucast x * ucast b + carry :: u128) :: u64) = (unat t + unat x * unat b + unat carry) mod radix"
    unfolding unsigned_ucast_eq e radix_def by (simp add: take_bit_eq_mod)
  show "(unat t + unat x * unat b + unat carry) div radix < radix"
    using lt by (simp add: less_mult_imp_div_less)
qed

lemma mac_limbs_val [mont]:
  "length ts = length bs \<Longrightarrow> unat carry < radix \<Longrightarrow> mac_limbs x carry ts bs = (out, cout) \<Longrightarrow>
   length out = length bs \<and> unat cout < radix \<and>
   val out + radix ^ length bs * unat cout = val ts + unat x * val bs + unat carry"
proof (induction ts bs arbitrary: carry out rule: list_induct2)
  case (Cons t ts b bs)
  let ?acc = "ucast t + ucast x * ucast b + carry :: u128"
  let ?s = "unat t + unat x * unat b + unat carry"
  note a = unat_acc [OF Cons.prems(1), of t x b]
  obtain zs where z: "mac_limbs x (drop_bit 64 ?acc) ts bs = (zs, cout)" and out: "out = ucast ?acc # zs"
    using Cons.prems(2) by (auto simp: Let_def split: prod.splits)
  have "unat (drop_bit 64 ?acc) < radix" unfolding a(2) by (rule a(4))
  from Cons.IH [OF this z] have IH: "length zs = length bs" "unat cout < radix"
    "val zs + radix ^ length bs * unat cout = val ts + unat x * val bs + ?s div radix"
    unfolding a(2) by simp_all
  have "val out + radix ^ length (b # bs) * unat cout = ?s mod radix + radix * (val zs + radix ^ length bs * unat cout)"
    unfolding out val.simps a(3) by (simp add: algebra_simps)
  also have "\<dots> = (?s mod radix + radix * (?s div radix)) + radix * (val ts + unat x * val bs)"
    unfolding IH(3) by (simp add: algebra_simps)
  also have "\<dots> = ?s + radix * (val ts + unat x * val bs)" by simp
  finally show ?case using IH(1,2) by (simp add: out algebra_simps)
qed simp

definition acc_val :: "accumulator \<Rightarrow> nat" where
  "acc_val t = val (ac_low t) + radix ^ length (ac_low t) * unat (ac_top t)"

text \<open>A context the constructor returns, for a modulus of at least three.\<close>

definition mont_ok :: "montgomery \<Rightarrow> bool" where
  "mont_ok ctx \<longleftrightarrow> mo_n ctx \<noteq> [] \<and> odd (val (mo_n ctx)) \<and> 1 < val (mo_n ctx) \<and> hd (mo_n ctx) * mo_n0inv ctx = - 1 \<and>
     length (mo_r2 ctx) = length (mo_n ctx) \<and> val (mo_r2 ctx) = radix ^ length (mo_n ctx) * radix ^ length (mo_n ctx) mod val (mo_n ctx)"

lemma unat_top_add:
  fixes t :: u64 and carry :: u128
  assumes "unat carry < radix"
  shows "unat (ucast (ucast t + carry :: u128) :: u64) = (unat t + unat carry) mod radix"
    and "unat (ucast (drop_bit 64 (ucast t + carry :: u128)) :: u64) = (unat t + unat carry) div radix"
proof -
  note a = unat_acc [OF assms, of t 0 0, simplified]
  show "unat (ucast (ucast t + carry :: u128) :: u64) = (unat t + unat carry) mod radix" using a(3) by simp
  have "unat (ucast (drop_bit 64 (ucast t + carry :: u128)) :: u64) = (unat t + unat carry) div radix mod radix"
    unfolding unsigned_ucast_eq a(2) by (simp add: take_bit_eq_mod radix_def)
  then show "unat (ucast (drop_bit 64 (ucast t + carry :: u128)) :: u64) = (unat t + unat carry) div radix" using a(4) by simp
qed

lemma limb_cancels:
  fixes l n0 inv :: u64
  assumes "n0 * inv = - 1"
  shows "(unat l + unat (l * inv) * unat n0) mod radix = 0"
proof -
  obtain m where m: "m = l * inv" by simp
  have "l + m * n0 = 0" unfolding m using assms by (simp add: mult.assoc mult.commute [of inv])
  then have "unat (l + m * n0) = 0" by simp
  then show ?thesis unfolding unat_word_ariths radix_def m [symmetric] by (simp add: mod_simps)
qed

lemma mont_step_val [mont]:
  assumes ok: "mont_ok ctx" and len: "length b = length (mo_n ctx)" "length (ac_low t) = length (mo_n ctx)" and "ac_over t = 0"
    and b: "val b \<le> val (mo_n ctx)" and bound: "acc_val t < val (mo_n ctx) + val b"
  shows "length (ac_low (mont_step ctx b ai t)) = length (mo_n ctx)" and "ac_over (mont_step ctx b ai t) = 0"
    and "\<exists>m. radix * acc_val (mont_step ctx b ai t) = acc_val t + unat ai * val b + m * val (mo_n ctx)"
    and "acc_val (mont_step ctx b ai t) < val (mo_n ctx) + val b"
proof -
  obtain n0 ns where n: "mo_n ctx = n0 # ns" using ok by (cases "mo_n ctx") (auto simp: mont_ok_def)
  let ?R = "radix ^ length (mo_n ctx)" let ?r = "radix ^ length ns"
  obtain low1 c1 where 1: "mac_limbs ai 0 (ac_low t) b = (low1, c1)" by (cases "mac_limbs ai 0 (ac_low t) b")
  have m1: "length low1 = length (mo_n ctx)" "unat c1 < radix" "val low1 + ?R * unat c1 = val (ac_low t) + unat ai * val b"
    using mac_limbs_val [OF _ _ 1] len by simp_all
  obtain l0 ls where low1: "low1 = l0 # ls" using m1(1) n by (cases low1) simp_all
  let ?m = "l0 * mo_n0inv ctx"
  let ?acc = "ucast l0 + ucast ?m * ucast n0 :: u128"
  let ?s = "unat l0 + unat ?m * unat n0"
  obtain low2 c2 where 2: "mac_limbs ?m (drop_bit 64 ?acc) ls ns = (low2, c2)" by (cases "mac_limbs ?m (drop_bit 64 ?acc) ls ns")
  have acc: "unat (drop_bit 64 ?acc) = ?s div radix" "?s div radix < radix"
    using unat_acc(2,4) [of 0 l0 ?m n0] by simp_all
  have m2: "length low2 = length ns" "unat c2 < radix" "val low2 + ?r * unat c2 = val ls + unat ?m * val ns + ?s div radix"
    using mac_limbs_val [OF _ _ 2] m1(1) acc n low1 by simp_all
  have s0: "radix * (?s div radix) = ?s"
    using limb_cancels [of n0 "mo_n0inv ctx" l0] ok n by (simp add: mont_ok_def mod_eq_0_iff_dvd)
  let ?w = "ucast (ucast (ac_top t) + c1 :: u128) :: u64"
  let ?o = "ucast (drop_bit 64 (ucast (ac_top t) + c1 :: u128)) :: u64"
  have w: "unat ?w = (unat (ac_top t) + unat c1) mod radix" "unat ?o = (unat (ac_top t) + unat c1) div radix"
    using unat_top_add [OF m1(2)] by simp_all
  let ?t = "mont_step ctx b ai t"
  let ?x = "ucast (ucast ?w + c2 :: u128) :: u64" let ?y = "ucast (drop_bit 64 (ucast ?w + c2 :: u128)) :: u64"
  have x: "unat ?x = (unat ?w + unat c2) mod radix" "unat ?y = (unat ?w + unat c2) div radix"
    using unat_top_add [OF m2(2)] by simp_all
  have t: "?t = \<lparr>ac_low = low2 @ [?x], ac_top = ?o + ?y, ac_over = 0\<rparr>"
    using assms(4) by (simp add: mont_step_def 1 2 low1 n Let_def)
  show "length (ac_low ?t) = length (mo_n ctx)" "ac_over ?t = 0" using m2(1) n by (simp_all add: t)
  let ?T = "val low2 + ?r * unat ?x + ?R * (unat ?o + unat ?y)"
  have "?T = val low2 + ?r * (unat ?x + radix * unat ?y) + ?R * unat ?o" by (simp add: n algebra_simps)
  also have "unat ?x + radix * unat ?y = unat ?w + unat c2" unfolding x by (simp only: mod_mult_div_eq)
  finally have T: "?T = (val low2 + ?r * unat c2) + ?r * unat ?w + ?R * unat ?o" by (simp add: algebra_simps)
  have top: "unat ?w + radix * unat ?o = unat (ac_top t) + unat c1" unfolding w by (simp only: mod_mult_div_eq)
  have "radix * ?T = (radix * val ls + unat ?m * (radix * val ns) + radix * (?s div radix)) + ?R * (unat ?w + radix * unat ?o)"
    unfolding T m2(3) by (simp add: n algebra_simps)
  also have "\<dots> = val low1 + unat ?m * val (mo_n ctx) + ?R * (unat (ac_top t) + unat c1)"
    unfolding s0 top by (simp add: low1 n algebra_simps)
  also have "\<dots> = (val low1 + ?R * unat c1) + ?R * unat (ac_top t) + unat ?m * val (mo_n ctx)" by (simp add: algebra_simps)
  also have "\<dots> = acc_val t + unat ai * val b + unat ?m * val (mo_n ctx)"
    unfolding m1(3) by (simp add: acc_val_def len algebra_simps)
  finally have eq: "radix * ?T = acc_val t + unat ai * val b + unat ?m * val (mo_n ctx)" .
  have "unat ai * val b \<le> (radix - 1) * val b" "unat ?m * val (mo_n ctx) \<le> (radix - 1) * val (mo_n ctx)"
    using unat_limb [of ai] unat_limb [of ?m] by (intro mult_le_mono1; linarith)+
  then have "radix * ?T < (val (mo_n ctx) + val b) + (radix - 1) * val b + (radix - 1) * val (mo_n ctx)"
    using eq bound by linarith
  also have "\<dots> = radix * (val (mo_n ctx) + val b)"
  proof -
    obtain q where q: "radix = Suc q" using radix_pos(1) gr0_conv_Suc by blast
    show ?thesis unfolding q by (simp add: algebra_simps)
  qed
  finally have T_bound: "?T < val (mo_n ctx) + val b" by simp
  have "unat ?o + unat ?y < 2"
  proof (rule ccontr)
    assume "\<not> unat ?o + unat ?y < 2"
    then have "?R * 2 \<le> ?R * (unat ?o + unat ?y)" by (intro mult_le_mono2) simp
    then show False using T_bound b val_bound [of "mo_n ctx"] by linarith
  qed
  then have "unat (?o + ?y) = unat ?o + unat ?y" unfolding unat_word_ariths by (simp add: radix_def)
  then have v: "acc_val ?t = ?T" using m2(1) by (simp add: t acc_val_def val_append n)
  show "\<exists>m. radix * acc_val ?t = acc_val t + unat ai * val b + m * val (mo_n ctx)" unfolding v using eq by blast
  show "acc_val ?t < val (mo_n ctx) + val b" unfolding v by (rule T_bound)
qed

section \<open>The product modulo n\<close>

lemma mont_fold_val:
  assumes ok: "mont_ok ctx" and len: "length b = length (mo_n ctx)" and b: "val b \<le> val (mo_n ctx)"
  shows "length (ac_low t) = length (mo_n ctx) \<Longrightarrow> ac_over t = 0 \<Longrightarrow> acc_val t < val (mo_n ctx) + val b \<Longrightarrow>
    length (ac_low (fold (mont_step ctx b) xs t)) = length (mo_n ctx) \<and>
    acc_val (fold (mont_step ctx b) xs t) < val (mo_n ctx) + val b \<and>
    (\<exists>k. radix ^ length xs * acc_val (fold (mont_step ctx b) xs t) = acc_val t + val xs * val b + k * val (mo_n ctx))"
proof (induction xs arbitrary: t)
  case (Cons x xs)
  note step = mont_step_val [OF ok len Cons.prems(1,2) b Cons.prems(3), of x]
  let ?t = "mont_step ctx b x t" let ?u = "fold (mont_step ctx b) xs ?t"
  obtain m where m: "radix * acc_val ?t = acc_val t + unat x * val b + m * val (mo_n ctx)" using step(3) by blast
  obtain k where k: "radix ^ length xs * acc_val ?u = acc_val ?t + val xs * val b + k * val (mo_n ctx)"
    using Cons.IH [OF step(1,2,4)] by blast
  have "radix ^ length (x # xs) * acc_val ?u = radix * acc_val ?t + radix * (val xs * val b) + radix * (k * val (mo_n ctx))"
    using k by (simp add: mult.assoc distrib_left)
  also have "\<dots> = acc_val t + val (x # xs) * val b + (m + radix * k) * val (mo_n ctx)"
    unfolding m by (simp add: algebra_simps)
  finally show ?case using Cons.IH [OF step(1,2,4)] by auto
qed auto

lemma add_complement_val:
  "length rs = length ns \<Longrightarrow> unat carry \<le> 1 \<Longrightarrow>
   length (add_complement carry rs ns) = length ns \<and>
   (\<exists>c. val (add_complement carry rs ns) + radix ^ length ns * c = val rs + val (map (\<lambda>l. NOT l) ns) + unat carry)"
proof (induction rs ns arbitrary: carry rule: list_induct2)
  case (Cons r rs n ns)
  obtain tc c1 where 1: "overflowing_add (NOT n) carry = (tc, c1)" by (cases "overflowing_add (NOT n) carry")
  obtain v c2 where 2: "overflowing_add r tc = (v, c2)" by (cases "overflowing_add r tc")
  have s: "unat (NOT n) + unat carry = unat tc + radix * of_bool c1" "unat r + unat tc = unat v + radix * of_bool c2"
    using overflowing_add_val [OF 1] overflowing_add_val [OF 2] by simp_all
  have "of_bool c1 + of_bool c2 \<le> (1 :: nat)"
    using s unat_limb [of r] unat_limb [of "NOT n"] Cons.prems by (cases c1; cases c2) simp_all
  then have u: "unat (of_bool c1 + of_bool c2 :: u64) \<le> 1" by (simp add: carry_bits)
  let ?zs = "add_complement (of_bool c1 + of_bool c2) rs ns"
  from Cons.IH [OF u] obtain c where c: "length ?zs = length ns"
    "val ?zs + radix ^ length ns * c = val rs + val (map (\<lambda>l. NOT l) ns) + (of_bool c1 + of_bool c2)"
    unfolding carry_bits by blast
  have out: "add_complement carry (r # rs) (n # ns) = v # ?zs" by (simp add: 1 2)
  have "val (v # ?zs) + radix ^ length (n # ns) * c = unat v + radix * (val ?zs + radix ^ length ns * c)"
    by (simp add: algebra_simps)
  also have "\<dots> = val (r # rs) + val (map (\<lambda>l. NOT l) (n # ns)) + unat carry"
    unfolding c(2) using s by (simp add: algebra_simps)
  finally show ?case unfolding out using c(1) by auto
qed simp

lemma mont_reduce_val:
  assumes "length (ac_low t) = length n" and "acc_val t < 2 * val n"
  shows "length (mont_reduce n t) = length n \<and> val (mont_reduce n t) = acc_val t mod val n"
proof (cases "ac_top t = 0")
  case True
  then have v: "val (ac_low t) = acc_val t" by (simp add: acc_val_def)
  show ?thesis
  proof (cases "val (ac_low t) < val n")
    case True
    then show ?thesis using \<open>ac_top t = 0\<close> assms(1) v by (simp add: mont_reduce_def cmp_to_val)
  next
    case False
    then have le: "val n \<le> val (ac_low t)" by simp
    obtain d where d: "checked_sub (ac_low t) n = Some d" "length d = length n" "val d = val (ac_low t) - val n"
      using checked_sub_val [OF assms(1) le] by metis
    have "cmp_to (ac_low t) n \<noteq> Less" using le assms(1) by (simp add: cmp_to_val)
    moreover have "acc_val t mod val n = acc_val t - val n" using le v assms(2) by (simp add: le_mod_geq)
    ultimately show ?thesis using \<open>ac_top t = 0\<close> d v by (simp add: mont_reduce_def)
  qed
next
  case False
  let ?R = "radix ^ length n"
  have "\<not> 2 \<le> unat (ac_top t)"
  proof
    assume "2 \<le> unat (ac_top t)"
    then have "?R * 2 \<le> ?R * unat (ac_top t)" by (intro mult_le_mono2)
    moreover have "acc_val t = val (ac_low t) + ?R * unat (ac_top t)" using assms(1) by (simp add: acc_val_def)
    ultimately show False using assms(2) val_bound [of n] by linarith
  qed
  then have "unat (ac_top t) = 1" using False by (metis One_nat_def Suc_1 le_Suc_eq le_zero_eq not_less_eq_eq unat_eq_zero)
  then have v: "acc_val t = val (ac_low t) + ?R" using assms(1) by (simp add: acc_val_def)
  have r: "val n \<le> acc_val t" "acc_val t - val n < ?R" using v assms(2) val_bound [of n] by linarith+
  from add_complement_val [OF assms(1), of 1] obtain c where c: "length (add_complement 1 (ac_low t) n) = length n"
    "val (add_complement 1 (ac_low t) n) + ?R * c = val (ac_low t) + val (map (\<lambda>l. NOT l) n) + 1" by auto
  have "val (add_complement 1 (ac_low t) n) + ?R * c = acc_val t - val n" using c(2) val_not [of n] r(1) v by linarith
  then have "val (add_complement 1 (ac_low t) n) = acc_val t - val n"
    using r(2) by (cases c) simp_all
  moreover have "acc_val t mod val n = acc_val t - val n" using r(1) assms(2) by (simp add: le_mod_geq)
  ultimately show ?thesis using False c(1) by (simp add: mont_reduce_def)
qed

lemma mont_mul_val [mont]:
  assumes ok: "mont_ok ctx" and len: "length a = length (mo_n ctx)" "length b = length (mo_n ctx)" and b: "val b \<le> val (mo_n ctx)"
  shows "length (mont_mul ctx a b) = length (mo_n ctx)" and "val (mont_mul ctx a b) < val (mo_n ctx)"
    and "radix ^ length (mo_n ctx) * val (mont_mul ctx a b) mod val (mo_n ctx) = val a * val b mod val (mo_n ctx)"
proof -
  let ?n = "val (mo_n ctx)" let ?R = "radix ^ length (mo_n ctx)"
  let ?init = "\<lparr>ac_low = zero_big (length a), ac_top = 0, ac_over = 0\<rparr>"
  let ?t = "fold (mont_step ctx b) a ?init"
  have n: "1 < ?n" using ok by (simp add: mont_ok_def)
  have "acc_val ?init = 0" by (simp add: acc_val_def)
  then have "length (ac_low ?t) = length (mo_n ctx) \<and> acc_val ?t < ?n + val b \<and> (\<exists>k. ?R * acc_val ?t = val a * val b + k * ?n)"
    using mont_fold_val [OF ok len(2) b, of ?init a] n len(1) by simp
  then obtain k where t: "length (ac_low ?t) = length (mo_n ctx)" "acc_val ?t < ?n + val b" "?R * acc_val ?t = val a * val b + k * ?n"
    by blast
  have red: "length (mont_mul ctx a b) = length (mo_n ctx)" "val (mont_mul ctx a b) = acc_val ?t mod ?n"
    using mont_reduce_val [OF t(1)] t(2) b by (simp_all add: mont_mul_def)
  then show "length (mont_mul ctx a b) = length (mo_n ctx)" "val (mont_mul ctx a b) < ?n" using n by simp_all
  have "?R * val (mont_mul ctx a b) mod ?n = ?R * acc_val ?t mod ?n" unfolding red(2) by (rule mod_mult_right_eq)
  then show "?R * val (mont_mul ctx a b) mod ?n = val a * val b mod ?n" unfolding t(3) by simp
qed

section \<open>Residues\<close>

text \<open>\<open>a\<close> is the Montgomery form of \<open>x\<close>: the canonical residue of \<open>x\<close> times the radix power.\<close>

definition is_mont :: "montgomery \<Rightarrow> big \<Rightarrow> nat \<Rightarrow> bool" where
  "is_mont ctx a x \<longleftrightarrow> length a = length (mo_n ctx) \<and> val a = x * radix ^ length (mo_n ctx) mod val (mo_n ctx)"

lemma coprime_radix: "odd n \<Longrightarrow> coprime (radix ^ k) (n :: nat)"
  unfolding radix_power by simp

lemma cancel_mod:
  assumes "coprime c n" and "c * x mod n = c * y mod (n :: nat)"
  shows "x mod n = y mod n"
proof -
  have "int n dvd int c * int x - int c * int y"
    using assms(2) by (metis mod_eq_dvd_iff of_nat_mod of_nat_mult)
  then have "int n dvd int c * (int x - int y)" by (simp add: right_diff_distrib)
  moreover have "coprime (int n) (int c)" using assms(1) by (metis coprime_commute coprime_int_iff)
  ultimately have "int n dvd int x - int y" by (simp add: coprime_dvd_mult_right_iff)
  then have "int x mod int n = int y mod int n" by (simp add: mod_eq_dvd_iff)
  then show ?thesis by (metis nat_int of_nat_mod)
qed

lemma cancel_radix: "odd n \<Longrightarrow> radix ^ k * x mod n = radix ^ k * y mod n \<Longrightarrow> x mod n = y mod n"
  by (rule cancel_mod [OF coprime_radix])

lemma is_mont_mul [mont]:
  assumes ok: "mont_ok ctx" and "is_mont ctx a x" and "is_mont ctx b y"
  shows "is_mont ctx (mont_mul ctx a b) (x * y)"
proof -
  let ?n = "val (mo_n ctx)" let ?R = "radix ^ length (mo_n ctx)"
  have n: "1 < ?n" "odd ?n" using ok by (simp_all add: mont_ok_def)
  have a: "length a = length (mo_n ctx)" "val a = x * ?R mod ?n" and b: "length b = length (mo_n ctx)" "val b = y * ?R mod ?n"
    using assms(2,3) by (simp_all add: is_mont_def)
  have "val b \<le> ?n" using n b(2) by (simp add: less_imp_le)
  note m = mont_mul_val [OF ok a(1) b(1) this]
  have "?R * val (mont_mul ctx a b) mod ?n = (x * ?R) * (y * ?R) mod ?n"
    unfolding m(3) a(2) b(2) by (simp add: mod_simps)
  also have "(x * ?R) * (y * ?R) = ?R * (x * y * ?R)" by (simp add: mult_ac)
  finally have "val (mont_mul ctx a b) mod ?n = x * y * ?R mod ?n" by (rule cancel_radix [OF n(2)])
  then show ?thesis using m(1,2) by (simp add: is_mont_def)
qed

lemma is_mont_to_mont [mont]:
  assumes ok: "mont_ok ctx" and "length a = length (mo_n ctx)"
  shows "is_mont ctx (to_mont ctx a) (val a)"
proof -
  let ?n = "val (mo_n ctx)" let ?R = "radix ^ length (mo_n ctx)"
  have n: "1 < ?n" "odd ?n" and r2: "length (mo_r2 ctx) = length (mo_n ctx)" "val (mo_r2 ctx) = ?R * ?R mod ?n"
    using ok by (simp_all add: mont_ok_def)
  have "val (mo_r2 ctx) \<le> ?n" using n r2(2) by (simp add: less_imp_le)
  note m = mont_mul_val [OF ok assms(2) r2(1) this]
  have "?R * val (to_mont ctx a) mod ?n = val a * (?R * ?R) mod ?n"
    unfolding to_mont_def m(3) r2(2) by (simp add: mod_simps)
  also have "val a * (?R * ?R) = ?R * (val a * ?R)" by (simp add: mult_ac)
  finally have "val (to_mont ctx a) mod ?n = val a * ?R mod ?n" by (rule cancel_radix [OF n(2)])
  then show ?thesis using m(1,2) by (simp add: is_mont_def to_mont_def)
qed

lemma from_mont_val [mont]:
  assumes ok: "mont_ok ctx" and "is_mont ctx a x"
  shows "length (from_mont ctx a) = length (mo_n ctx) \<and> val (from_mont ctx a) = x mod val (mo_n ctx)"
proof -
  let ?n = "val (mo_n ctx)" let ?R = "radix ^ length (mo_n ctx)" let ?one = "one_big (length (mo_n ctx))"
  have n: "1 < ?n" "odd ?n" "0 < length (mo_n ctx)" using ok by (auto simp: mont_ok_def)
  have a: "length a = length (mo_n ctx)" "val a = x * ?R mod ?n" using assms(2) by (simp_all add: is_mont_def)
  have one: "length ?one = length (mo_n ctx)" "val ?one = 1" using n(3) by simp_all
  have "val ?one \<le> ?n" using n one by simp
  note m = mont_mul_val [OF ok a(1) one(1) this]
  have "?R * val (from_mont ctx a) mod ?n = ?R * x mod ?n"
    unfolding from_mont_def m(3) one(2) a(2) by (simp add: mult.commute)
  then have "val (from_mont ctx a) mod ?n = x mod ?n" by (rule cancel_radix [OF n(2)])
  then show ?thesis using m(1,2) by (simp add: from_mont_def)
qed

lemma new_montgomery_ok [mont]:
  assumes "new_montgomery n = Inr ctx" and "1 < val n"
  shows "mont_ok ctx" and "mo_n ctx = n"
proof -
  have n: "odd (val n)" "ctx = \<lparr>mo_n = n, mo_n0inv = mont_inv64 (n ! 0), mo_r2 = ((mod_double n) ^^ (128 * length n)) (one_big (length n))\<rparr>"
    using assms(1) by (auto simp: new_montgomery_def is_odd_val split: if_splits)
  then show "mo_n ctx = n" by simp
  obtain n0 ns where l: "n = n0 # ns" using assms(2) by (cases n) simp_all
  have "is_odd n" using n(1) by (simp add: is_odd_val)
  then have "odd n0" by (simp add: l is_odd_def and_one_eq odd_iff_mod_2_eq_one)
  moreover have "(2 :: nat) ^ (128 * length n) = radix ^ length n * radix ^ length n"
    unfolding radix_power by (simp flip: power_add)
  ultimately show "mont_ok ctx"
    using r2_val [OF assms(2), of "128 * length n"] n(1) assms(2) mont_inv64_correct [of n0]
    by (simp add: mont_ok_def n(2) l)
qed

lemma new_montgomery_iff: "(\<exists>ctx. new_montgomery n = Inr ctx) \<longleftrightarrow> odd (val n)"
  by (auto simp: new_montgomery_def is_zero_val is_odd_val)

lemma is_mont_one [mont]:
  assumes "mont_ok ctx"
  shows "is_mont ctx (to_mont ctx (one_big (length (mo_n ctx)))) 1"
proof -
  have "0 < length (mo_n ctx)" using assms by (simp add: mont_ok_def)
  then show ?thesis using is_mont_to_mont [OF assms, of "one_big (length (mo_n ctx))"] by simp
qed

lemma power_bit_step: "x ^ (v div 2 ^ Suc k) * x ^ (v div 2 ^ Suc k) * (if odd (v div 2 ^ k) then x else 1) = (x :: nat) ^ (v div 2 ^ k)"
proof -
  have e: "v div 2 ^ Suc k = v div 2 ^ k div 2" by (simp add: div_mult2_eq [symmetric] mult.commute)
  have "x ^ (w div 2) * x ^ (w div 2) * (if odd w then x else 1) = x ^ w" for w
  proof (cases "odd w")
    case True
    then have "w = w div 2 + w div 2 + 1" by presburger
    then have "x ^ w = x ^ (w div 2 + w div 2 + 1)" by (rule arg_cong)
    then show ?thesis using True by (simp add: power_add)
  next
    case False
    then have "w = w div 2 + w div 2" by presburger
    then have "x ^ w = x ^ (w div 2 + w div 2)" by (rule arg_cong)
    then show ?thesis using False by (simp add: power_add)
  qed
  from this [of "v div 2 ^ k"] show ?thesis unfolding e .
qed

lemma modpow_val [mont]:
  assumes ok: "mont_ok ctx" and base: "is_mont ctx base x"
  shows "is_mont ctx (modpow ctx base ex) (x ^ val ex)"
proof (cases "is_zero ex")
  case True
  then show ?thesis using is_mont_one [OF ok] by (simp add: modpow_def is_zero_val)
next
  case False
  let ?f = "\<lambda>i acc. let acc = mont_sqr ctx acc in if bit_at ex i then mont_mul ctx acc base else acc"
  have fold: "is_mont ctx (fold ?f (rev [0..<k]) acc) (x ^ val ex)" if "is_mont ctx acc (x ^ (val ex div 2 ^ k))" for k acc
    using that
  proof (induction k arbitrary: acc)
    case (Suc k)
    have sq: "is_mont ctx (mont_sqr ctx acc) (x ^ (val ex div 2 ^ Suc k) * x ^ (val ex div 2 ^ Suc k))"
      unfolding mont_sqr_def by (rule is_mont_mul [OF ok Suc.prems Suc.prems])
    have "is_mont ctx (?f k acc) (x ^ (val ex div 2 ^ k))"
    proof (cases "bit_at ex k")
      case True
      then show ?thesis
        using is_mont_mul [OF ok sq base] power_bit_step [of x "val ex" k] by (simp add: bit_at_val Let_def)
    next
      case False
      then show ?thesis using sq power_bit_step [of x "val ex" k] by (simp add: bit_at_val Let_def)
    qed
    from Suc.IH [OF this] show ?case by simp
  qed simp
  have "val ex div 2 ^ bits ex = 0" using val_less_bits [of ex] by simp
  with is_mont_one [OF ok] have "is_mont ctx (to_mont ctx (one_big (length (mo_n ctx)))) (x ^ (val ex div 2 ^ bits ex))" by simp
  from fold [OF this] show ?thesis using False by (simp add: modpow_def Let_def)
qed

lemma square_from_val [mont]:
  assumes ok: "mont_ok ctx" and "\<And>j. progress j"
  shows "is_mont ctx acc x \<Longrightarrow> is_mont ctx (square_from ctx progress i k acc) (x ^ (2 ^ k))"
proof (induction k arbitrary: i acc x)
  case (Suc k)
  have "is_mont ctx (mont_sqr ctx acc) (x * x)" unfolding mont_sqr_def by (rule is_mont_mul [OF ok Suc.prems Suc.prems])
  from Suc.IH [OF this] have "is_mont ctx (square_from ctx progress (i + 1) k (mont_sqr ctx acc)) ((x * x) ^ 2 ^ k)" .
  moreover have "(x * x) ^ 2 ^ k = x ^ (2 ^ Suc k)" by (simp add: power_mult power2_eq_square power_mult_distrib)
  ultimately show ?case using assms(2) [of i] by simp
qed simp

text \<open>A residue: the width of the modulus and below it.\<close>

definition residue :: "big \<Rightarrow> big \<Rightarrow> bool" where
  "residue n a \<longleftrightarrow> length a = length n \<and> val a < val n"

lemma residue_mont_mul:
  "mont_ok ctx \<Longrightarrow> residue (mo_n ctx) a \<Longrightarrow> length b = length (mo_n ctx) \<Longrightarrow> val b \<le> val (mo_n ctx) \<Longrightarrow> residue (mo_n ctx) (mont_mul ctx a b)"
  using mont_mul_val [of ctx a b] by (simp add: residue_def)

lemma residue_square_from:
  "mont_ok ctx \<Longrightarrow> residue (mo_n ctx) acc \<Longrightarrow> residue (mo_n ctx) (square_from ctx progress i k acc)"
proof (induction k arbitrary: i acc)
  case (Suc k)
  have "residue (mo_n ctx) (mont_sqr ctx acc)"
    unfolding mont_sqr_def by (rule residue_mont_mul) (use Suc.prems in \<open>simp_all add: residue_def\<close>)
  then show ?case using Suc by simp
qed simp

text \<open>C34: Residues are closed under every operation: product, square, doubling, both conversions, modular
  powers and repeated squaring, finished or cancelled, return numbers of the width of the modulus below
  it.\<close>

theorem residues_closed:
  assumes "new_montgomery n = Inr ctx" and "1 < val n" and a: "residue n a" and b: "residue n b"
  shows "residue n (mont_mul ctx a b) \<and> residue n (mont_sqr ctx a) \<and> residue n (mod_double n a) \<and> residue n (to_mont ctx a) \<and>
    residue n (from_mont ctx a) \<and> residue n (modpow ctx a ex) \<and> residue n (repeat_square ctx a steps progress)"
proof -
  note ok = new_montgomery_ok [OF assms(1,2)]
  have mul: "residue n (mont_mul ctx c d)" if "residue n c" "length d = length n" "val d \<le> val n" for c d
    using residue_mont_mul [of ctx c d] that ok by simp
  have le: "length c = length n \<and> val c \<le> val n" if "residue n c" for c using that by (simp add: residue_def)
  have r2: "length (mo_r2 ctx) = length n" "val (mo_r2 ctx) \<le> val n" using ok assms(2) by (simp_all add: mont_ok_def less_imp_le)
  have L: "0 < length n" using ok by (simp add: mont_ok_def)
  then have one: "length (one_big (length n)) = length n" "val (one_big (length n)) \<le> val n" "residue n (one_big (length n))"
    using assms(2) by (simp_all add: residue_def)
  have unit: "residue n (to_mont ctx (one_big (length n)))" unfolding to_mont_def by (rule mul [OF one(3) r2])
  have step: "residue n (let acc = mont_sqr ctx acc in if bit_at ex i then mont_mul ctx acc a else acc)" if "residue n acc" for i acc
    using mul [OF that] le [OF that] mul le [OF a] by (simp add: mont_sqr_def Let_def)
  have "residue n (fold (\<lambda>i acc. let acc = mont_sqr ctx acc in if bit_at ex i then mont_mul ctx acc a else acc) is acc)"
    if "residue n acc" for "is" acc
    using that step by (induction "is" arbitrary: acc) simp_all
  then have pow: "residue n (modpow ctx a ex)" using unit ok(2) by (simp add: modpow_def Let_def)
  have rep: "residue n (repeat_square ctx a steps progress)"
    using residue_square_from [OF ok(1), of a] a ok(2) by (simp add: repeat_square_def)
  have dbl: "residue n (mod_double n a)" using mod_double_val [of a n] a assms(2) by (simp add: residue_def)
  have to: "residue n (to_mont ctx a)" unfolding to_mont_def by (rule mul [OF a r2])
  have frm: "residue n (from_mont ctx a)" unfolding from_mont_def ok(2) by (rule mul [OF a one(1,2)])
  have "residue n (mont_mul ctx a b)" "residue n (mont_sqr ctx a)" using mul [OF a] le a b by (simp_all add: mont_sqr_def)
  then show ?thesis using dbl to frm pow rep by blast
qed

theorem residues_closed_witness:
  "\<exists>ctx. new_montgomery [13, 0] = Inr ctx \<and> residue [13, 0] (modpow ctx [5, 0] [200, 1]) \<and> residue [13, 0] (mont_mul ctx [5, 0] [12, 0])"
proof -
  have "odd (val [13, 0])" by simp
  then obtain ctx where ctx: "new_montgomery [13, 0] = Inr ctx" using new_montgomery_iff by blast
  then show ?thesis using residues_closed [OF ctx, of "[5, 0]" "[12, 0]" "[200, 1]"] by (auto simp: residue_def)
qed

text \<open>C33: The Montgomery context computes products and powers modulo n exactly, for every odd modulus above one, top
  bit set or not, and operands of its width: no 128-bit accumulation overflows, no carry is lost and the
  single subtraction at the end reaches the canonical residue.\<close>

theorem montgomery_exact:
  assumes "new_montgomery n = Inr ctx" and "1 < val n" and "length a = length n" and "length b = length n" and go: "\<And>j. progress j"
  shows "val (from_mont ctx (mont_mul ctx (to_mont ctx a) (to_mont ctx b))) = val a * val b mod val n \<and>
    val (from_mont ctx (modpow ctx (to_mont ctx a) ex)) = val a ^ val ex mod val n \<and>
    val (from_mont ctx (repeat_square ctx (to_mont ctx a) steps progress)) = val a ^ 2 ^ unat steps mod val n"
proof (intro conjI)
  note ok = new_montgomery_ok [OF assms(1,2)]
  have a: "is_mont ctx (to_mont ctx a) (val a)" and b: "is_mont ctx (to_mont ctx b) (val b)"
    using is_mont_to_mont [OF ok(1)] assms(3,4) ok(2) by simp_all
  show "val (from_mont ctx (mont_mul ctx (to_mont ctx a) (to_mont ctx b))) = val a * val b mod val n"
    using from_mont_val [OF ok(1) is_mont_mul [OF ok(1) a b]] ok(2) by simp
  show "val (from_mont ctx (modpow ctx (to_mont ctx a) ex)) = val a ^ val ex mod val n"
    using from_mont_val [OF ok(1) modpow_val [OF ok(1) a]] ok(2) by simp
  show "val (from_mont ctx (repeat_square ctx (to_mont ctx a) steps progress)) = val a ^ 2 ^ unat steps mod val n"
    using from_mont_val [OF ok(1) square_from_val [OF ok(1) go a]] ok(2) by (simp add: repeat_square_def)
qed

text \<open>A two-limb modulus with the top bit set.\<close>

theorem montgomery_exact_witness:
  "\<exists>ctx. new_montgomery [1, 9223372036854775808] = Inr ctx \<and>
     val (from_mont ctx (mont_mul ctx (to_mont ctx [5, 0]) (to_mont ctx [6, 0]))) = 30"
proof -
  let ?n = "[1, 9223372036854775808] :: big"
  have v: "val ?n = 1 + 2 ^ 127" by (simp add: radix_def)
  then have "odd (val ?n)" by simp
  then obtain ctx where ctx: "new_montgomery ?n = Inr ctx" using new_montgomery_iff by blast
  have "val (from_mont ctx (mont_mul ctx (to_mont ctx [5, 0]) (to_mont ctx [6, 0]))) = 30"
    using montgomery_exact [OF ctx, of "[5, 0]" "[6, 0]" "\<lambda>_. True"] v by simp
  then show ?thesis using ctx by blast
qed

end
