(* ===== verification/Prime_Test.thy ===== *)
theory Prime_Test
  imports Montgomery
begin

text \<open>
  Primality screening (\<open>crates/dc-vdf/src/bigint.rs\<close>): the sieve of small primes, trial division and
  the Miller-Rabin rounds. The random bases of the extra rounds are a parameter.
\<close>

section \<open>Small primes\<close>

function mark :: "nat \<Rightarrow> nat \<Rightarrow> nat \<Rightarrow> bool list \<Rightarrow> bool list" where
  "mark n i j sieve = (if j < n \<and> 0 < i then mark n i (j + i) (sieve[j := False]) else sieve)"
  by pat_completeness auto
termination by (relation "measure (\<lambda>(n, i, j, _). n - j)") auto

function sieve_from :: "nat \<Rightarrow> nat \<Rightarrow> bool list \<Rightarrow> bool list" where
  "sieve_from n i sieve =
     (if i * i < n then sieve_from n (i + 1) (if sieve ! i then mark n i (i * i) sieve else sieve) else sieve)"
  by pat_completeness auto
termination
proof (relation "measure (\<lambda>(n, i, _). n - i)")
  fix n i :: nat and s :: "bool list"
  assume "i * i < n"
  then have "i < n" by (metis le_less_trans le_square)
  then show "((n, i + 1, if s ! i then mark n i (i * i) s else s), n, i, s) \<in> measure (\<lambda>(n, i, _). n - i)" by simp
qed simp

declare mark.simps [simp del] sieve_from.simps [simp del]

definition sieve_primes :: "nat \<Rightarrow> nat list" where
  "sieve_primes n = filter (\<lambda>i. sieve_from n 2 ((replicate n True)[0 := False, 1 := False]) ! i) [0..<n]"

definition small_primes :: "nat list" where
  "small_primes = sieve_primes 65536"

definition is_prime :: "nat \<Rightarrow> bool" where
  "is_prime k \<longleftrightarrow> 2 \<le> k \<and> (\<forall>d. d dvd k \<longrightarrow> d = 1 \<or> d = k)"

lemma is_primeD: "is_prime p \<Longrightarrow> d dvd p \<Longrightarrow> d = 1 \<or> d = p"
  by (simp add: is_prime_def)

lemma length_mark [simp]: "length (mark n i j s) = length s"
  by (induction n i j s rule: mark.induct) (subst mark.simps, simp)

lemma mark_nth:
  "0 < i \<Longrightarrow> k < n \<Longrightarrow> length s = n \<Longrightarrow> mark n i j s ! k \<longleftrightarrow> s ! k \<and> \<not> (\<exists>m. k = j + m * i)"
proof (induction n i j s rule: mark.induct)
  case (1 n i j s)
  show ?case
  proof (cases "j < n")
    case True
    have "(\<exists>m. k = j + m * i) \<longleftrightarrow> k = j \<or> (\<exists>m. k = j + i + m * i)"
    proof
      assume "\<exists>m. k = j + m * i"
      then obtain m where "k = j + m * i" by blast
      then show "k = j \<or> (\<exists>m. k = j + i + m * i)" by (cases m) auto
    next
      assume "k = j \<or> (\<exists>m. k = j + i + m * i)"
      then show "\<exists>m. k = j + m * i"
      proof
        assume "\<exists>m. k = j + i + m * i"
        then obtain m where "k = j + i + m * i" by blast
        then have "k = j + Suc m * i" by simp
        then show ?thesis by (rule exI)
      qed (rule exI [of _ 0], simp)
    qed
    then show ?thesis using 1 True by (subst mark.simps) (auto simp: nth_list_update)
  next
    case False
    then show ?thesis using 1 by (subst mark.simps) auto
  qed
qed

text \<open>What the sieve knows before it looks at \<open>i\<close>.\<close>

definition sieved :: "nat \<Rightarrow> nat \<Rightarrow> bool list \<Rightarrow> bool" where
  "sieved n i s \<longleftrightarrow> length s = n \<and> (\<forall>k < n. s ! k \<longleftrightarrow> 2 \<le> k \<and> \<not> (\<exists>d. 2 \<le> d \<and> d < i \<and> d < k \<and> d dvd k))"

lemma sieved_step:
  assumes "sieved n i s" and "2 \<le> i" and "i * i < n"
  shows "sieved n (i + 1) (if s ! i then mark n i (i * i) s else s)"
proof -
  have len: "length s = n" and s: "\<And>k. k < n \<Longrightarrow> s ! k \<longleftrightarrow> 2 \<le> k \<and> \<not> (\<exists>d. 2 \<le> d \<and> d < i \<and> d < k \<and> d dvd k)"
    using assms(1) by (simp_all add: sieved_def)
  have i: "i < n" using assms(3) by (metis le_less_trans le_square)
  show ?thesis
  proof (cases "s ! i")
    case True
    have "mark n i (i * i) s ! k \<longleftrightarrow> 2 \<le> k \<and> \<not> (\<exists>d. 2 \<le> d \<and> d < i + 1 \<and> d < k \<and> d dvd k)" if k: "k < n" for k
    proof -
      have "s ! k \<and> \<not> (\<exists>m. k = i * i + m * i) \<longleftrightarrow> s ! k \<and> \<not> (i < k \<and> i dvd k)"
      proof (cases "s ! k \<and> i < k \<and> i dvd k")
        case True
        then obtain m where m: "k = i * m" by (elim conjE dvdE)
        have "1 < m" using True m assms(2) by (metis less_irrefl mult.right_neutral mult_0_right less_one linorder_neqE_nat not_less0)
        have "i \<le> m"
        proof (rule ccontr)
          assume "\<not> i \<le> m"
          moreover have "m < k" using m \<open>1 < m\<close> assms(2) by simp
          moreover have "m dvd k" unfolding m by simp
          moreover have "2 \<le> m" using \<open>1 < m\<close> by simp
          ultimately show False using s [OF k] True by (metis not_le)
        qed
        then have "k = i * i + (m - i) * i" using m by (simp add: algebra_simps diff_mult_distrib)
        then show ?thesis using True by blast
      next
        case False
        have "i < k \<and> i dvd k" if "k = i * i + m * i" for m
        proof
          have "2 * i \<le> i * i" using assms(2) by (rule mult_le_mono1)
          then show "i < k" unfolding that using assms(2) by linarith
          show "i dvd k" unfolding that by simp
        qed
        then show ?thesis using False by blast
      qed
      then show ?thesis unfolding mark_nth [OF _ k len, OF order.strict_trans2 [OF _ assms(2)], simplified]
        using s [OF k] assms(2) by (auto simp: less_Suc_eq)
    qed
    then show ?thesis using True len by (simp add: sieved_def)
  next
    case False
    then obtain e where e: "2 \<le> e" "e < i" "e dvd i" using s [OF i] assms(2) by auto
    have "s ! k \<longleftrightarrow> 2 \<le> k \<and> \<not> (\<exists>d. 2 \<le> d \<and> d < i + 1 \<and> d < k \<and> d dvd k)" if "k < n" for k
    proof -
      have "\<exists>d. 2 \<le> d \<and> d < i \<and> d < k \<and> d dvd k" if "i < k" "i dvd k"
        using e that dvd_trans [OF e(3) that(2)] by (intro exI [of _ e]) simp
      then show ?thesis using s [OF that] by (auto simp: less_Suc_eq)
    qed
    then show ?thesis using False len by (simp add: sieved_def)
  qed
qed

lemma sieve_from_sieved:
  "sieved n i s \<Longrightarrow> 2 \<le> i \<Longrightarrow> \<exists>j. sieved n j (sieve_from n i s) \<and> n \<le> j * j \<and> 2 \<le> j"
proof (induction n i s rule: sieve_from.induct)
  case (1 n i s)
  show ?case
  proof (cases "i * i < n")
    case True
    then show ?thesis using "1.IH" [OF True sieved_step [OF "1.prems" True]] "1.prems"(2) by (subst sieve_from.simps) simp
  next
    case False
    then show ?thesis using "1.prems" by (subst sieve_from.simps) auto
  qed
qed

text \<open>The sieve returns exactly the primes below its limit, in order.\<close>

lemma sieve_primes_exact:
  assumes "2 \<le> n"
  shows "sieve_primes n = filter is_prime [0..<n]"
proof -
  let ?s = "(replicate n True)[0 := False, 1 := False]"
  have "sieved n 2 ?s" using assms by (auto simp: sieved_def nth_list_update)
  from sieve_from_sieved [OF this] obtain j where j: "sieved n j (sieve_from n 2 ?s)" "n \<le> j * j" by auto
  have "sieve_from n 2 ?s ! k \<longleftrightarrow> is_prime k" if "k < n" for k
  proof -
    have s: "sieve_from n 2 ?s ! k \<longleftrightarrow> 2 \<le> k \<and> \<not> (\<exists>d. 2 \<le> d \<and> d < j \<and> d < k \<and> d dvd k)"
      using j(1) that by (simp add: sieved_def)
    have "\<exists>d. 2 \<le> d \<and> d < j \<and> d < k \<and> d dvd k" if comp: "2 \<le> k" "\<not> is_prime k"
    proof -
      obtain d where d: "d dvd k" "d \<noteq> 1" "d \<noteq> k" using comp by (auto simp: is_prime_def)
      obtain e where e: "k = d * e" using d(1) by (elim dvdE)
      have de: "2 \<le> d" "2 \<le> e" "d < k" "e < k"
      proof -
        have "d \<noteq> 0" "e \<noteq> 1" using e d(3) comp(1) by auto
        moreover have "e \<noteq> 0" using e comp(1) by (cases e) auto
        ultimately show "2 \<le> d" "2 \<le> e" using d(2) by linarith+
        then show "d < k" "e < k" unfolding e by simp_all
      qed
      have "d < j \<or> e < j"
      proof (rule ccontr)
        assume "\<not> (d < j \<or> e < j)"
        then have "j * j \<le> d * e" by (intro mult_le_mono) simp_all
        then show False using j(2) \<open>k < n\<close> e by simp
      qed
      then show ?thesis using de d(1) e by auto
    qed
    then show ?thesis unfolding s by (auto simp: is_prime_def)
  qed
  then show ?thesis unfolding sieve_primes_def by (intro filter_cong) simp_all
qed

lemma sieve_primes_set: "2 \<le> n \<Longrightarrow> q \<in> set (sieve_primes n) \<longleftrightarrow> is_prime q \<and> q < n"
  by (auto simp: sieve_primes_exact)

lemma small_primes_set: "q \<in> set small_primes \<longleftrightarrow> is_prime q \<and> q < 65536"
  unfolding small_primes_def by (rule sieve_primes_set) simp

section \<open>Trial division\<close>

definition limb_mod :: "u128 \<Rightarrow> big \<Rightarrow> u128" where
  "limb_mod p n = fold (\<lambda>limb acc. (push_bit 64 acc mod p + ucast limb) mod p) (rev n) 0"

definition passes_small_primes :: "big \<Rightarrow> bool" where
  "passes_small_primes n =
     (if is_zero n \<or> \<not> is_odd n then False
      else list_all (\<lambda>p. p = 2 \<or> \<not> (limb_mod (of_nat p) n = 0 \<and> bits n > 20)) small_primes)"

lemma limb_mod_val:
  assumes "0 < p" and "p < 2 ^ 32"
  shows "unat (limb_mod (of_nat p) n) = val n mod p"
proof -
  have p: "unat (of_nat p :: u128) = p" using assms(2) by (simp add: unsigned_of_nat take_bit_nat_eq_self)
  have "unat (fold (\<lambda>limb acc. (push_bit 64 acc mod of_nat p + ucast limb) mod of_nat p) xs acc) =
      (unat acc * radix ^ length xs + val (rev xs)) mod p" if "unat acc < p" for xs and acc :: u128
    using that
  proof (induction xs arbitrary: acc)
    case (Cons x xs)
    have u: "unat (ucast x :: u128) = unat x"
      using unat_limb [of x] by (simp add: unsigned_ucast_eq take_bit_nat_eq_self radix_def)
    have a: "unat acc < 2 ^ 32" using Cons.prems assms(2) by linarith
    have "unat (push_bit 64 acc) = unat acc * radix"
      unfolding push_bit_eq_mult unat_word_ariths radix_def using a by simp
    then have "unat (push_bit 64 acc mod of_nat p) = unat acc * radix mod p" unfolding unat_mod p by simp
    moreover have "unat acc * radix mod p < 2 ^ 32" using assms by (meson mod_less_divisor order.strict_trans)
    ultimately have s: "unat (push_bit 64 acc mod of_nat p + ucast x) = unat acc * radix mod p + unat x"
      unfolding unat_word_ariths u using unat_limb [of x] by (simp add: radix_def)
    let ?b = "(push_bit 64 acc mod of_nat p + ucast x) mod of_nat p"
    have b: "unat ?b = (unat acc * radix + unat x) mod p" unfolding unat_mod p s by (simp add: mod_simps)
    then have "unat ?b < p" using assms(1) by simp
    from Cons.IH [OF this] have "unat (fold (\<lambda>limb acc. (push_bit 64 acc mod of_nat p + ucast limb) mod of_nat p) (x # xs) acc) =
        (unat ?b * radix ^ length xs + val (rev xs)) mod p" by simp
    also have "\<dots> = ((unat acc * radix + unat x) * radix ^ length xs + val (rev xs)) mod p" unfolding b by (metis mod_add_left_eq mod_mult_left_eq)
    also have "(unat acc * radix + unat x) * radix ^ length xs + val (rev xs) = unat acc * radix ^ length (x # xs) + val (rev (x # xs))"
      by (simp add: val_append algebra_simps)
    finally show ?case .
  qed simp
  from this [of 0 "rev n"] show ?thesis using assms(1) by (simp add: limb_mod_def)
qed

section \<open>Miller-Rabin\<close>

fun miller_rabin_loop :: "montgomery \<Rightarrow> big \<Rightarrow> nat \<Rightarrow> big \<Rightarrow> bool" where
  "miller_rabin_loop ctx nm1 0 x = False"
| "miller_rabin_loop ctx nm1 (Suc s) x = (if x = nm1 then True else miller_rabin_loop ctx nm1 s (mont_sqr ctx x))"

definition miller_rabin_round :: "montgomery \<Rightarrow> big \<Rightarrow> big \<Rightarrow> big \<Rightarrow> nat \<Rightarrow> bool" where
  "miller_rabin_round ctx a_mont nm1 d s =
     (let x = modpow ctx a_mont d in
      if x = to_mont ctx (one_big (length (mo_n ctx))) then True else miller_rabin_loop ctx nm1 s x)"

definition fixed_bases :: "u64 list" where
  "fixed_bases = [2, 3, 5, 7, 11, 13, 17, 19, 23, 29, 31, 37]"

text \<open>\<open>random_below i\<close> is what the \<open>i\<close>-th extra round draws below \<open>n - 1\<close>, if anything.\<close>

definition is_probable_prime :: "(nat \<Rightarrow> big option) \<Rightarrow> big \<Rightarrow> nat \<Rightarrow> bool" where
  "is_probable_prime random_below n extra_rounds =
     (if \<not> passes_small_primes n then False
      else if bits n \<le> 6 then n ! 0 \<in> set fixed_bases
      else (case new_montgomery n of
              Inl _ \<Rightarrow> False
            | Inr ctx \<Rightarrow>
                (case checked_sub n (one_big (length n)) of
                   None \<Rightarrow> False
                 | Some nm1 \<Rightarrow>
                     (let s = trailing_zeros nm1; d = shr_n s nm1;
                          one = one_big (length n);
                          round = (\<lambda>a. miller_rabin_round ctx (to_mont ctx a) (to_mont ctx nm1) d s)
                      in list_all (\<lambda>b. let a = from_bytes_be (length n) (rev (u64_le b)) in
                             (cmp_to a one \<noteq> Greater \<or> cmp_to a nm1 \<noteq> Less) \<or> round a) fixed_bases \<and>
                         list_all (\<lambda>i. case random_below i of
                             None \<Rightarrow> True
                           | Some a \<Rightarrow> cmp_to a (from_bytes_be (length n) (rev (u64_le 2))) \<noteq> Greater \<or> round a)
                           [0..<extra_rounds]))))"

text \<open>The textbook strong-probable-prime test.\<close>

definition strong_probable_prime :: "nat \<Rightarrow> nat \<Rightarrow> nat \<Rightarrow> nat \<Rightarrow> bool" where
  "strong_probable_prime n d s a \<longleftrightarrow> a ^ d mod n = 1 \<or> (\<exists>r < s. a ^ (2 ^ r * d) mod n = n - 1)"

lemma is_mont_eq:
  assumes ok: "mont_ok ctx" and "is_mont ctx a x" and "is_mont ctx b y"
  shows "a = b \<longleftrightarrow> x mod val (mo_n ctx) = y mod val (mo_n ctx)"
proof -
  let ?n = "val (mo_n ctx)" let ?R = "radix ^ length (mo_n ctx)"
  have "odd ?n" using ok by (simp add: mont_ok_def)
  have "a = b \<longleftrightarrow> val a = val b" using val_inject [of a b] assms(2,3) by (simp add: is_mont_def)
  also have "\<dots> \<longleftrightarrow> ?R * x mod ?n = ?R * y mod ?n" using assms(2,3) by (simp add: is_mont_def mult.commute)
  also have "\<dots> \<longleftrightarrow> x mod ?n = y mod ?n"
    using cancel_radix [OF \<open>odd ?n\<close>, of "length (mo_n ctx)" x y] by (metis mod_mult_right_eq)
  finally show ?thesis .
qed

lemma miller_rabin_loop_val:
  assumes ok: "mont_ok ctx" and nm1: "is_mont ctx nm1 (val (mo_n ctx) - 1)"
  shows "is_mont ctx x u \<Longrightarrow> miller_rabin_loop ctx nm1 s x \<longleftrightarrow> (\<exists>r < s. u ^ 2 ^ r mod val (mo_n ctx) = val (mo_n ctx) - 1)"
proof (induction s arbitrary: x u)
  case (Suc s)
  have n: "(val (mo_n ctx) - 1) mod val (mo_n ctx) = val (mo_n ctx) - 1" using ok by (simp add: mont_ok_def)
  have "is_mont ctx (mont_sqr ctx x) (u * u)" unfolding mont_sqr_def by (rule is_mont_mul [OF ok Suc.prems Suc.prems])
  from Suc.IH [OF this] have IH: "miller_rabin_loop ctx nm1 s (mont_sqr ctx x) \<longleftrightarrow> (\<exists>r < s. u ^ 2 ^ Suc r mod val (mo_n ctx) = val (mo_n ctx) - 1)"
    by (simp add: power_mult_distrib power_add mult_2)
  show ?case using is_mont_eq [OF ok Suc.prems nm1] n IH by (auto simp: Ex_less_Suc2)
qed simp

text \<open>A round is the textbook test, whatever base and exponent it is given.\<close>

lemma miller_rabin_exact:
  assumes "new_montgomery n = Inr ctx" and "1 < val n" and "length a = length n" and "length nm1 = length n" and "val nm1 = val n - 1"
  shows "miller_rabin_round ctx (to_mont ctx a) (to_mont ctx nm1) d s \<longleftrightarrow> strong_probable_prime (val n) (val d) s (val a)"
proof -
  note ok = new_montgomery_ok [OF assms(1,2)]
  have a: "is_mont ctx (to_mont ctx a) (val a)" and m: "is_mont ctx (to_mont ctx nm1) (val (mo_n ctx) - 1)"
    using is_mont_to_mont [OF ok(1)] assms(3-5) ok(2) by metis+
  have x: "is_mont ctx (modpow ctx (to_mont ctx a) d) (val a ^ val d)" by (rule modpow_val [OF ok(1) a])
  have "modpow ctx (to_mont ctx a) d = to_mont ctx (one_big (length (mo_n ctx))) \<longleftrightarrow> val a ^ val d mod val n = 1"
    using is_mont_eq [OF ok(1) x is_mont_one [OF ok(1)]] ok(2) assms(2) by simp
  then show ?thesis
    using miller_rabin_loop_val [OF ok(1) m x, of s] ok(2)
    by (simp add: miller_rabin_round_def strong_probable_prime_def Let_def power_mult [symmetric] mult.commute)
qed

text \<open>Of the primes of at most six bits the test accepts those up to 37, and two never.\<close>

lemma probable_prime_misses_two: "\<not> is_probable_prime rnd [2, 0] k"
  by (simp add: is_probable_prime_def passes_small_primes_def is_odd_def)

lemma probable_prime_misses_61: "\<not> is_probable_prime rnd [61, 0] k"
proof -
  have f: "floorlog 2 61 = (6 :: nat)" by code_simp
  have "bits [61, 0] = 6" by (simp add: bits_def leading_zeros_def f)
  then show ?thesis by (simp add: is_probable_prime_def fixed_bases_def)
qed

section \<open>Primes\<close>

lemma prime_divides_product:
  assumes "is_prime p" and "p dvd a * b"
  shows "p dvd a \<or> p dvd b"
proof (cases "p dvd a")
  case False
  have "gcd p a = 1 \<or> gcd p a = p" using assms(1) by (simp add: is_prime_def)
  then have "coprime p a" using False by (metis coprime_iff_gcd_eq_1 gcd_dvd2)
  then show ?thesis using assms(2) by (simp add: coprime_dvd_mult_right_iff)
qed simp

lemma prime_coprime:
  assumes "is_prime p" and "\<not> p dvd a"
  shows "coprime a p"
proof -
  have "gcd a p = 1 \<or> gcd a p = p" using assms(1) by (simp add: is_prime_def)
  then show ?thesis using assms(2) by (metis coprime_iff_gcd_eq_1 gcd_dvd1)
qed

lemma fermat_little:
  assumes p: "is_prime p" and a: "\<not> p dvd a"
  shows "a ^ (p - 1) mod p = 1"
proof -
  let ?S = "{1..<p}" let ?f = "\<lambda>x. a * x mod p"
  have p2: "2 \<le> p" using p by (simp add: is_prime_def)
  have co: "coprime a p" by (rule prime_coprime [OF p a])
  have inj: "inj_on ?f ?S"
  proof (rule inj_onI)
    fix x y
    assume "x \<in> ?S" "y \<in> ?S" "?f x = ?f y"
    then show "x = y" using cancel_mod [OF co, of x y] by simp
  qed
  have "?f ` ?S \<subseteq> ?S"
  proof
    fix y
    assume "y \<in> ?f ` ?S"
    then obtain x where x: "x \<in> ?S" "y = a * x mod p" by blast
    have "\<not> p dvd x" using x(1) by (auto dest: dvd_imp_le)
    then have "\<not> p dvd a * x" using prime_divides_product [OF p] a by blast
    then show "y \<in> ?S" using x(2) p2 by (simp add: dvd_eq_mod_eq_0 Suc_le_eq)
  qed
  then have bij: "?f ` ?S = ?S" using inj by (intro endo_inj_surj) simp_all
  have "(\<Prod>x\<in>?S. x) = (\<Prod>x\<in>?S. ?f x)" using prod.reindex [OF inj, of id] bij by simp
  then have "(\<Prod>x\<in>?S. x) mod p = (\<Prod>x\<in>?S. a * x) mod p" by (simp only: mod_prod_eq)
  then have e: "(\<Prod>x\<in>?S. x) * a ^ (p - 1) mod p = (\<Prod>x\<in>?S. x) * 1 mod p" by (simp add: prod.distrib mult.commute)
  have "coprime (\<Prod>x\<in>?S. x) p"
  proof (rule prod_coprime_left)
    fix x
    assume "x \<in> ?S"
    then show "coprime x p" by (intro prime_coprime [OF p]) (auto dest: dvd_imp_le)
  qed
  from cancel_mod [OF this e] show ?thesis using p2 by simp
qed

lemma sqrt_of_one:
  assumes p: "is_prime p" and "y * y mod p = 1"
  shows "y mod p = 1 \<or> y mod p = p - 1"
proof -
  have p2: "2 \<le> p" using p by (simp add: is_prime_def)
  have "0 < y" using assms(2) by (cases y) simp_all
  then obtain z where z: "y = Suc z" by (cases y) simp_all
  have "y * y mod p = 1 mod p" using assms(2) p2 by simp
  then have "p dvd y * y - 1" by (subst (asm) mod_eq_dvd_iff_nat) (simp_all add: z)
  moreover have "y * y - 1 = (y - 1) * (y + 1)" by (simp add: z algebra_simps)
  ultimately have "p dvd y - 1 \<or> p dvd y + 1" using prime_divides_product [OF p] by simp
  then show ?thesis
  proof
    assume "p dvd y - 1"
    then obtain k where "y - 1 = p * k" by (elim dvdE)
    then have "y = 1 + p * k" using \<open>0 < y\<close> by simp
    then have "y mod p = 1 mod p" by (simp only: mod_mult_self2)
    then show ?thesis using p2 by simp
  next
    assume "p dvd y + 1"
    then obtain k where k: "y + 1 = p * k" by (elim dvdE)
    then obtain j where "k = Suc j" by (cases k) simp_all
    then have "y = (p - 1) + p * j" using k p2 by simp
    then have "y mod p = (p - 1) mod p" by (simp only: mod_mult_self2)
    then show ?thesis using p2 by simp
  qed
qed

lemma prime_passes_round:
  assumes p: "is_prime p" and a: "\<not> p dvd a" and d: "p - 1 = d * 2 ^ s"
  shows "strong_probable_prime p d s a"
proof -
  have "a ^ (2 ^ r * d) mod p = 1 \<Longrightarrow> a ^ d mod p = 1 \<or> (\<exists>q < r. a ^ (2 ^ q * d) mod p = p - 1)" for r
  proof (induction r)
    case (Suc r)
    have "a ^ (2 ^ r * d) * a ^ (2 ^ r * d) mod p = 1" using Suc.prems by (simp add: mult_2 power_add distrib_right)
    from sqrt_of_one [OF p this] show ?case using Suc.IH less_Suc_eq by blast
  qed simp
  moreover have "a ^ (2 ^ s * d) mod p = 1" using fermat_little [OF p a] d by (simp add: mult.commute)
  ultimately show ?thesis by (auto simp: strong_probable_prime_def)
qed

lemma prime_passes_trial:
  assumes p: "is_prime (val n)" and "6 < bits n"
  shows "passes_small_primes n"
proof -
  have big: "64 \<le> val n" using bits_power [OF assms(2)] by simp
  have "odd (val n)"
  proof
    assume "even (val n)"
    from is_primeD [OF p this] show False using big by simp
  qed
  moreover have "q = 2 \<or> \<not> (limb_mod (of_nat q) n = 0 \<and> 20 < bits n)" if "q \<in> set small_primes" for q
  proof (rule disjCI)
    assume *: "\<not> \<not> (limb_mod (of_nat q) n = 0 \<and> 20 < bits n)"
    have q: "is_prime q" "q < 65536" using that small_primes_set by blast+
    then have "0 < q" "q < 2 ^ 32" by (simp_all add: is_prime_def)
    then have "val n mod q = 0" using limb_mod_val [of q n] * by simp
    then have "q dvd val n" by (rule mod_0_imp_dvd)
    from is_primeD [OF p this] have "q = 1 \<or> q = val n" .
    then have "q = val n" using q(1) by (auto simp: is_prime_def)
    moreover have "2 ^ 20 \<le> val n" using bits_power [of 20 n] * by simp
    ultimately show "q = 2" using q(2) by simp
  qed
  ultimately show ?thesis using big by (auto simp add: passes_small_primes_def is_zero_val is_odd_val list_all_iff)
qed

lemma one_less_prime_parts:
  assumes p: "is_prime (val n)" and "6 < bits n"
  obtains ctx nm1 where "new_montgomery n = Inr ctx" "checked_sub n (one_big (length n)) = Some nm1"
    "length nm1 = length n" "val nm1 = val n - 1" "0 < length n" "64 \<le> val n"
proof -
  have "odd (val n)" using prime_passes_trial [OF assms] by (simp add: passes_small_primes_def is_odd_val split: if_splits)
  then obtain ctx where ctx: "new_montgomery n = Inr ctx" using new_montgomery_iff by blast
  have big: "64 \<le> val n" using bits_power [OF assms(2)] by simp
  then have L: "0 < length n" by (cases n) simp_all
  obtain nm1 where "checked_sub n (one_big (length n)) = Some nm1" "length nm1 = length n" "val nm1 = val n - 1"
    using checked_sub_val [of n "one_big (length n)"] L big by auto
  then show thesis using that ctx L big by blast
qed

text \<open>C35: No prime above six bits is turned away: whatever bases the extra rounds draw below \<open>n - 1\<close>, a prime passes the
  sieve, trial division and every Miller-Rabin round.\<close>

theorem probable_prime_complete:
  assumes p: "is_prime (val n)" and b: "6 < bits n"
    and draws: "\<And>i a. random_below i = Some a \<Longrightarrow> length a = length n \<and> 0 < val a \<and> val a < val n - 1"
  shows "is_probable_prime random_below n k"
proof -
  obtain ctx nm1 where c: "new_montgomery n = Inr ctx" "checked_sub n (one_big (length n)) = Some nm1"
    "length nm1 = length n" "val nm1 = val n - 1" "0 < length n" "64 \<le> val n"
    by (rule one_less_prime_parts [OF p b])
  have n1: "1 < val n" using c(6) by linarith
  let ?s = "trailing_zeros nm1"
  have "0 < val nm1" using c(4,6) by linarith
  then have d: "val n - 1 = val (shr_n ?s nm1) * 2 ^ ?s" using trailing_zeros_val(2) [of nm1] c(4) by (simp add: shr_n_val)
  have round: "miller_rabin_round ctx (to_mont ctx a) (to_mont ctx nm1) (shr_n ?s nm1) ?s"
    if "length a = length n" "0 < val a" "val a < val n" for a
  proof -
    have "\<not> val n dvd val a" using that by (auto dest: dvd_imp_le)
    from prime_passes_round [OF p this d] show ?thesis
      by (subst miller_rabin_exact [OF c(1) n1 that(1) c(3,4)])
  qed
  have drawn: "miller_rabin_round ctx (to_mont ctx a) (to_mont ctx nm1) (shr_n ?s nm1) ?s" if "random_below i = Some a" for i a
  proof -
    have "length a = length n \<and> 0 < val a \<and> val a < val n - 1" by (rule draws [OF that])
    then show ?thesis by (intro round) auto
  qed
  have fixed: "(cmp_to a (one_big (length n)) \<noteq> Greater \<or> cmp_to a nm1 \<noteq> Less) \<or>
      miller_rabin_round ctx (to_mont ctx a) (to_mont ctx nm1) (shr_n ?s nm1) ?s"
    if "length a = length n" for a
    using round [OF that] that c(3-5) by (auto simp: cmp_to_val)
  show ?thesis
    using prime_passes_trial [OF p b] b c(1,2) fixed drawn
    by (auto simp: is_probable_prime_def Let_def list_all_iff split: option.splits)
qed

end
