(* ===== verification/Time_Lock.thy ===== *)
theory Time_Lock
  imports Prime_Test Pattern
begin

text \<open>
  The Wesolowski time-lock of one link (\<open>crates/dc-vdf/src/vdf.rs\<close>): hashing to a challenge prime, the
  evaluation with its streaming proof, and the verifier. \<open>None\<close> is a panic or a loop that never
  ends. SHA-256 and the random bases of the prime test are parameters.
\<close>

datatype vdf_error = BadModulus nat | BadChallenge | Range string | Parse string | Entropy string

record link_proof =
  lp_steps :: u64
  lp_y :: "byte list"
  lp_pi :: "byte list"
  lp_challenge :: big

section \<open>Challenge primes\<close>

record vdf_env =
  ve_sha256 :: "byte list \<Rightarrow> byte list"
  ve_random_below :: "big \<Rightarrow> nat \<Rightarrow> big option"    \<comment> \<open>candidate and round\<close>

definition two_big :: big where
  "two_big = [2, 0]"

text \<open>The loop over candidates: at most \<open>2^22\<close> of them.\<close>

fun search_prime :: "(big \<Rightarrow> bool) \<Rightarrow> nat \<Rightarrow> big \<Rightarrow> big option" where
  "search_prime accepts 0 c = None"
| "search_prime accepts (Suc k) c =
     (if accepts c then Some c
      else (case checked_add c two_big of None \<Rightarrow> None | Some c' \<Rightarrow> search_prime accepts k c'))"

definition hash_to_prime :: "vdf_env \<Rightarrow> byte list \<Rightarrow> big option" where
  "hash_to_prime env transcript =
     (let digest = ve_sha256 env (ascii_bytes ''dc-vdf/challenge/v1'' @ transcript);
          cand = take 16 digest;
          cand = cand[0 := cand ! 0 OR 0x80];
          cand = cand[15 := cand ! 15 OR 1]
      in search_prime (\<lambda>c. passes_small_primes c \<and> is_probable_prime (ve_random_below env c) c 8)
           (2 ^ 22) (from_bytes_be 2 cand))"

section \<open>Evaluation and proof\<close>

definition vdf_eval :: "montgomery \<Rightarrow> big \<Rightarrow> u64 \<Rightarrow> (nat \<Rightarrow> bool) \<Rightarrow> big" where
  "vdf_eval ctx base steps progress = from_mont ctx (repeat_square ctx (to_mont ctx base) steps progress)"

text \<open>Long division of \<open>2^steps\<close> by the challenge, its quotient bits fed to the exponentiation.\<close>

fun prove_loop :: "montgomery \<Rightarrow> big \<Rightarrow> big \<Rightarrow> (nat \<Rightarrow> bool) \<Rightarrow> nat \<Rightarrow> nat \<Rightarrow> big \<Rightarrow> big \<Rightarrow> (vdf_error + big) option" where
  "prove_loop ctx base l3 progress i 0 acc rem = Some (Inr acc)"
| "prove_loop ctx base l3 progress i (Suc k) acc rem =
     (if i mod 2 ^ 20 = 0 \<and> \<not> progress i
      then Some (Inl (Range ''VDF proof generation cancelled''))
      else (let acc = mont_sqr ctx acc; rem = fst (shl1 rem) in
            if cmp_to rem l3 \<noteq> Less
            then (case checked_sub rem l3 of
                    None \<Rightarrow> None
                  | Some rem \<Rightarrow> prove_loop ctx base l3 progress (i + 1) k (mont_mul ctx acc (to_mont ctx base)) rem)
            else prove_loop ctx base l3 progress (i + 1) k acc rem))"

definition link_transcript :: "big \<Rightarrow> big \<Rightarrow> u64 \<Rightarrow> big \<Rightarrow> byte list" where
  "link_transcript n base steps y = to_bytes_be n @ to_bytes_be base @ rev (u64_le steps) @ to_bytes_be y"

definition prove_link :: "vdf_env \<Rightarrow> montgomery \<Rightarrow> big \<Rightarrow> big \<Rightarrow> u64 \<Rightarrow> (nat \<Rightarrow> bool) \<Rightarrow> (vdf_error + link_proof) option" where
  "prove_link env ctx base y steps progress =
     (let n = mo_n ctx in
      if cmp_to base n \<noteq> Less \<or> is_zero base then Some (Inl (Range ''base must be in [1, N)''))
      else if cmp_to y n \<noteq> Less then Some (Inl (Range ''y must be < N''))
      else (case hash_to_prime env (link_transcript n base steps y) of
              None \<Rightarrow> None
            | Some l \<Rightarrow>
                (case prove_loop ctx base [l ! 0, l ! 1, 0] progress 0 (unat steps)
                        (to_mont ctx (one_big (length n))) (one_big 3) of
                   None \<Rightarrow> None
                 | Some (Inl e) \<Rightarrow> Some (Inl e)
                 | Some (Inr acc) \<Rightarrow>
                     Some (Inr \<lparr>lp_steps = steps, lp_y = to_bytes_be y, lp_pi = to_bytes_be (from_mont ctx acc),
                                lp_challenge = l\<rparr>))))"

section \<open>Verification\<close>

definition pad :: "nat \<Rightarrow> big \<Rightarrow> big" where
  "pad L v = (replicate L 0)[0 := v ! 0, 1 := v ! 1]"

text \<open>\<open>pi^l * base^r\<close> in Montgomery form, with \<open>r = 2^steps mod l\<close> computed modulo the challenge.\<close>

definition link_product :: "montgomery \<Rightarrow> montgomery \<Rightarrow> big \<Rightarrow> u64 \<Rightarrow> big \<Rightarrow> big \<Rightarrow> big" where
  "link_product ctx small base steps pf l =
     (let L = length (mo_n ctx);
          steps_b = from_bytes_be 2 (rev (u64_le steps));
          two = from_bytes_be 2 (rev (u64_le 2));
          r_small = from_mont small (modpow small (to_mont small two) steps_b)
      in mont_mul ctx (modpow ctx (to_mont ctx pf) (pad L l)) (modpow ctx (to_mont ctx base) (pad L r_small)))"

definition verify_link :: "montgomery \<Rightarrow> big \<Rightarrow> big \<Rightarrow> u64 \<Rightarrow> big \<Rightarrow> big \<Rightarrow> bool option" where
  "verify_link ctx base y steps pf l =
     (let n = mo_n ctx; L = length n in
      if is_zero base \<or> is_zero pf then Some False
      else if cmp_to base n \<noteq> Less \<or> cmp_to y n \<noteq> Less \<or> cmp_to pf n \<noteq> Less then Some False
      else (case binary_gcd base n of
              None \<Rightarrow> None
            | Some g \<Rightarrow>
                if cmp_to g (one_big L) \<noteq> Equal then Some False
                else if drop_bit 63 (l ! 1) \<noteq> 1 then Some False
                else (case checked_sub l (one_big 2) of
                        None \<Rightarrow> Some False
                      | Some _ \<Rightarrow>
                          (case new_montgomery l of
                             Inl _ \<Rightarrow> Some False
                           | Inr small \<Rightarrow> Some (from_mont ctx (link_product ctx small base steps pf l) = y)))))"

section \<open>What the pieces compute\<close>

lemma val_u64_be: "val (from_bytes_be 2 (rev (u64_le w))) = unat w"
proof -
  have "unat w < radix ^ 2" using unat_limb [of w] by (simp add: radix_def)
  then show ?thesis by (simp add: from_bytes_be_val be_val_u64)
qed

lemma val_pad: "length v = 2 \<Longrightarrow> 2 \<le> L \<Longrightarrow> length (pad L v) = L \<and> val (pad L v) = val v"
proof -
  assume v: "length v = 2" and L: "2 \<le> L"
  from v obtain a b where ab: "v = [a, b]" by (auto simp: length_Suc_conv numeral_2_eq_2)
  obtain k where k: "L = Suc (Suc k)" using le_Suc_ex [OF L] by auto
  show ?thesis by (simp add: pad_def ab k)
qed

lemma drop_bit_63: "length l = 2 \<Longrightarrow> drop_bit 63 (l ! Suc 0) = 1 \<longleftrightarrow> 2 ^ 127 \<le> val l"
proof -
  assume "length l = 2"
  then obtain a b where l: "l = [a, b]" by (auto simp: length_Suc_conv numeral_2_eq_2)
  have u: "unat (drop_bit 63 b) = unat b div 2 ^ 63" unfolding unat_drop_bit_eq by (rule drop_bit_eq_div)
  have "unat b < 2 * 2 ^ 63" using unat_limb [of b] by (simp add: radix_def)
  then have "unat b div 2 ^ 63 < 2" by (rule less_mult_imp_div_less)
  then have "unat b div 2 ^ 63 = 1 \<longleftrightarrow> 0 < unat b div 2 ^ 63" by linarith
  also have "\<dots> \<longleftrightarrow> 2 ^ 63 \<le> unat b" unfolding div_greater_zero_iff by simp
  also have "\<dots> \<longleftrightarrow> 2 ^ 127 \<le> unat a + radix * unat b"
  proof
    assume "2 ^ 63 \<le> unat b"
    then have "radix * 2 ^ 63 \<le> radix * unat b" by (rule mult_le_mono2)
    then show "2 ^ 127 \<le> unat a + radix * unat b" by (simp add: radix_def)
  next
    assume *: "2 ^ 127 \<le> unat a + radix * unat b"
    show "2 ^ 63 \<le> unat b"
    proof (rule ccontr)
      assume "\<not> 2 ^ 63 \<le> unat b"
      then have "unat a + radix * unat b < radix * 2 ^ 63" by (intro digit_bound) simp_all
      then show False using * by (simp add: radix_def)
    qed
  qed
  finally have "unat (drop_bit 63 b) = 1 \<longleftrightarrow> 2 ^ 127 \<le> unat a + radix * unat b" unfolding u .
  moreover have "drop_bit 63 b = 1 \<longleftrightarrow> unat (drop_bit 63 b) = 1" using word_unat_eq_iff [of "drop_bit 63 b" 1] by (simp only: unat_1)
  ultimately show ?thesis unfolding l by (simp only: val.simps nth_Cons_Suc nth_Cons_0 mult_0_right add_0_right)
qed

lemma challenge_big: "2 ^ 127 \<le> val l \<Longrightarrow> 1 < val l"
  by (meson less_le_trans one_less_numeral_iff one_less_power semiring_norm(76) zero_less_numeral)

lemma link_product_val:
  assumes ok: "mont_ok ctx" and L: "2 \<le> length (mo_n ctx)"
    and len: "length base = length (mo_n ctx)" "length pf = length (mo_n ctx)" "length l = 2"
    and s: "new_montgomery l = Inr small" and "1 < val l"
  shows "is_mont ctx (link_product ctx small base steps pf l) (val pf ^ val l * val base ^ (2 ^ unat steps mod val l))"
proof -
  note ok' = new_montgomery_ok [OF s assms(7)]
  let ?two = "from_bytes_be 2 (rev (u64_le 2))" let ?st = "from_bytes_be 2 (rev (u64_le steps))"
  let ?r = "from_mont small (modpow small (to_mont small ?two) ?st)"
  have "is_mont small (to_mont small ?two) 2"
    using is_mont_to_mont [OF ok'(1), of ?two] ok'(2) len(3) by (simp add: val_u64_be)
  from from_mont_val [OF ok'(1) modpow_val [OF ok'(1) this]]
  have r: "length ?r = 2" "val ?r = 2 ^ unat steps mod val l" using ok'(2) len(3) by (simp_all add: val_u64_be)
  have pf: "is_mont ctx (to_mont ctx pf) (val pf)" and base: "is_mont ctx (to_mont ctx base) (val base)"
    using is_mont_to_mont [OF ok] len by simp_all
  show ?thesis
    using is_mont_mul [OF ok modpow_val [OF ok pf] modpow_val [OF ok base], of "pad (length (mo_n ctx)) l" "pad (length (mo_n ctx)) ?r"]
      val_pad [OF len(3) L] val_pad [OF r(1) L] r(2) by (simp add: link_product_def Let_def)
qed

lemma verify_link_iff:
  assumes n: "new_montgomery n = Inr ctx" "1 < val n" and L: "2 \<le> length n"
    and len: "length base = length n" "length y = length n" "length pf = length n" "length l = 2"
  shows "verify_link ctx base y steps pf l = Some
    (0 < val base \<and> 0 < val pf \<and> val base < val n \<and> val y < val n \<and> val pf < val n \<and> gcd (val base) (val n) = 1 \<and>
     2 ^ 127 \<le> val l \<and> odd (val l) \<and> val y = val pf ^ val l * val base ^ (2 ^ unat steps mod val l) mod val n)"
proof -
  note ok = new_montgomery_ok [OF n]
  have L0: "0 < length n" using L by linarith
  obtain g where g: "binary_gcd base n = Some g" "length g = length n" "val g = gcd (val base) (val n)"
    using binary_gcd_val [OF len(1)] by blast
  have g1: "cmp_to g (one_big (length n)) = Equal \<longleftrightarrow> gcd (val base) (val n) = 1"
    using g L0 by (simp add: cmp_to_val)
  have cmp: "cmp_to base n = Less \<longleftrightarrow> val base < val n" "cmp_to y n = Less \<longleftrightarrow> val y < val n" "cmp_to pf n = Less \<longleftrightarrow> val pf < val n"
    using len by (simp_all add: cmp_to_val)
  show ?thesis
  proof (cases "0 < val base \<and> 0 < val pf \<and> val base < val n \<and> val y < val n \<and> val pf < val n \<and>
      gcd (val base) (val n) = 1 \<and> 2 ^ 127 \<le> val l \<and> odd (val l)")
    case False
    show ?thesis
    proof (cases "2 ^ 127 \<le> val l \<and> \<not> odd (val l)")
      case True
      then obtain e where "new_montgomery l = Inl e" by (auto simp: new_montgomery_def is_odd_val)
      then show ?thesis using False True len
        by (auto simp: verify_link_def Let_def ok(2) is_zero_val cmp g(1) g1 drop_bit_63 split: option.splits)
    next
      case bad: False
      then show ?thesis using False len
        by (auto simp: verify_link_def Let_def ok(2) is_zero_val cmp g(1) g1 drop_bit_63)
    qed
  next
    case True
    then obtain small where s: "new_montgomery l = Inr small" using new_montgomery_iff by blast
    have l1: "1 < val l" using True by (intro challenge_big) simp
    obtain d where d: "checked_sub l (one_big 2) = Some d"
      using checked_sub_val [of l "one_big 2"] len(4) l1 by auto
    let ?lhs = "link_product ctx small base steps pf l"
    have "is_mont ctx ?lhs (val pf ^ val l * val base ^ (2 ^ unat steps mod val l))"
      using link_product_val [OF ok(1) _ _ _ len(4) s l1] L len ok(2) by simp
    from from_mont_val [OF ok(1) this] ok(2)
    have "from_mont ctx ?lhs = y \<longleftrightarrow> val y = val pf ^ val l * val base ^ (2 ^ unat steps mod val l) mod val n"
      using val_inject [of "from_mont ctx ?lhs" y] len(2) by auto
    then show ?thesis
      using True d s len by (simp add: verify_link_def Let_def ok(2) is_zero_val cmp g(1) g1 drop_bit_63)
  qed
qed

section \<open>The honest prover\<close>

lemma search_prime_shape:
  "search_prime accepts k c = Some l \<Longrightarrow> length c = 2 \<Longrightarrow> accepts l \<and> length l = 2 \<and> val c \<le> val l"
proof (induction k arbitrary: c)
  case (Suc k)
  show ?case
  proof (cases "accepts c")
    case False
    then obtain d where d: "checked_add c two_big = Some d" and r: "search_prime accepts k d = Some l"
      using Suc.prems by (auto split: option.splits)
    have "length d = 2 \<and> val d = val c + val two_big"
      using checked_add_val(2) [of c two_big d] d Suc.prems(2) by (simp add: two_big_def)
    then show ?thesis using Suc.IH [OF r] by simp
  qed (use Suc.prems in simp)
qed simp

lemma hash_to_prime_shape:
  assumes "hash_to_prime env t = Some l" and sha: "\<And>bs. length (ve_sha256 env bs) = 32"
  shows "length l = 2" and "odd (val l)" and "2 ^ 127 \<le> val l"
proof -
  obtain cand b where cand: "length cand = 16" "cand ! 0 = b OR 0x80"
    and s: "search_prime (\<lambda>c. passes_small_primes c \<and> is_probable_prime (ve_random_below env c) c 8) (2 ^ 22) (from_bytes_be 2 cand) = Some l"
  proof -
    let ?d = "take 16 (ve_sha256 env (ascii_bytes ''dc-vdf/challenge/v1'' @ t))"
    let ?c = "(?d[0 := ?d ! 0 OR 0x80])[15 := ?d[0 := ?d ! 0 OR 0x80] ! 15 OR 1]"
    have "length ?d = 16" using sha by simp
    then have "length ?c = 16" "?c ! 0 = ?d ! 0 OR 0x80" by simp_all
    then show thesis using that [of ?c "?d ! 0"] assms(1) by (simp only: hash_to_prime_def Let_def)
  qed
  have "128 \<le> unat (cand ! 0)"
  proof -
    have "bit (cand ! 0) 7" unfolding cand(2) by (simp add: bit_or_iff)
    then have "bit (unat (cand ! 0)) 7" by (simp add: bit_unsigned_iff)
    then have "odd (unat (cand ! 0) div 2 ^ 7)" by (rule bit_iff_odd [THEN iffD1])
    then have "unat (cand ! 0) div 2 ^ 7 \<noteq> 0" by (metis dvd_0_right)
    then have "1 \<le> unat (cand ! 0) div 2 ^ 7" by linarith
    then show ?thesis by simp
  qed
  obtain c0 cs where c: "cand = c0 # cs" "length cs = 15" using cand(1) by (cases cand) simp_all
  have "2 ^ 127 = 128 * (256 :: nat) ^ 15" by simp
  also have "\<dots> \<le> unat c0 * 256 ^ 15" using \<open>128 \<le> unat (cand ! 0)\<close> by (intro mult_le_mono1) (simp add: c)
  also have "\<dots> \<le> be_val cand" by (simp add: c)
  finally have "2 ^ 127 \<le> be_val cand" .
  moreover have "val (from_bytes_be 2 cand) = be_val cand"
    using be_val_bound [of cand] cand(1) by (simp add: from_bytes_be_val radix_def)
  ultimately have low: "2 ^ 127 \<le> val (from_bytes_be 2 cand)" by simp
  note l = search_prime_shape [OF s]
  show "length l = 2" using l by simp
  show "odd (val l)" using l by (simp add: passes_small_primes_def is_odd_val split: if_splits)
  show "2 ^ 127 \<le> val l" using l low by simp
qed

lemma double_div: "2 * a div l = 2 * (a div l) + 2 * (a mod l) div (l :: nat)" if "0 < l"
proof -
  have "2 * a = l * (2 * (a div l)) + 2 * (a mod l)" by (metis mult.left_commute mult_div_mod_eq distrib_left)
  then show ?thesis using that by (metis div_mult_self4 neq0_conv)
qed

lemma double_mod_lt: "a mod l * 2 < l \<Longrightarrow> 2 * a mod l = 2 * (a mod l)" for a l :: nat
  by (metis mod_less mod_mult_right_eq mult.commute)

lemma double_mod_ge: "0 < l \<Longrightarrow> l \<le> 2 * (a mod l) \<Longrightarrow> 2 * a mod l = 2 * (a mod l) - l" for a l :: nat
  using mod_twice [of "a mod l" l] by (simp add: mod_mult_right_eq)

lemma prove_loop_val:
  assumes ok: "mont_ok ctx" and base: "length base = length (mo_n ctx)" and go: "\<And>j. progress j"
    and l3: "length l3 = 3" "val l3 = l" "0 < l" "2 * l < radix ^ 3"
  shows "is_mont ctx acc (val base ^ (2 ^ i div l)) \<Longrightarrow> length rem = 3 \<Longrightarrow> val rem = 2 ^ i mod l \<Longrightarrow>
    \<exists>out. prove_loop ctx base l3 progress i k acc rem = Some (Inr out) \<and> is_mont ctx out (val base ^ (2 ^ (i + k) div l))"
proof (induction k arbitrary: i acc rem)
  case (Suc k)
  let ?q = "2 ^ i div l" let ?r = "2 ^ i mod l"
  let ?rem = "fst (shl1 rem)" let ?acc = "mont_sqr ctx acc"
  have "?r < l" using l3(3) by simp
  then have rem: "length ?rem = 3" "val ?rem = 2 * ?r"
    using shl1_small [of rem] Suc.prems(2,3) l3(4) by simp_all
  have sq: "is_mont ctx ?acc (val base ^ (2 * ?q))"
    using is_mont_mul [OF ok Suc.prems(1) Suc.prems(1)] by (simp add: mont_sqr_def mult_2 power_add)
  have d: "2 ^ Suc i div l = 2 * ?q + 2 * ?r div l" using double_div [OF l3(3), of "2 ^ i"] by simp
  have cmp: "cmp_to ?rem l3 = Less \<longleftrightarrow> 2 * ?r < l" using rem l3 by (simp add: cmp_to_val)
  show ?case
  proof (cases "2 * ?r < l")
    case True
    have d0: "2 ^ Suc i div l = 2 * ?q" unfolding d using True by simp
    have "is_mont ctx ?acc (val base ^ (2 ^ Suc i div l))" unfolding d0 by (rule sq)
    moreover have "val ?rem = 2 ^ Suc i mod l" using rem(2) double_mod_lt [of "2 ^ i" l] True by (simp add: mult.commute)
    ultimately show ?thesis
      using Suc.IH [of ?acc "Suc i" ?rem] rem(1) True cmp go [of i] by (simp add: Let_def)
  next
    case False
    then have le: "l \<le> 2 * ?r" by simp
    obtain rem2 where r2: "checked_sub ?rem l3 = Some rem2" "length rem2 = 3" "val rem2 = 2 * ?r - l"
      using checked_sub_val [of ?rem l3] rem l3 le by metis
    have "2 * ?r div l = 1" using le \<open>?r < l\<close> by (simp add: div_nat_eqI)
    then have d1: "2 ^ Suc i div l = 2 * ?q + 1" using d by simp
    let ?acc2 = "mont_mul ctx ?acc (to_mont ctx base)"
    have "is_mont ctx ?acc2 (val base ^ (2 ^ Suc i div l))"
      using is_mont_mul [OF ok sq is_mont_to_mont [OF ok base]] unfolding d1 by (simp add: mult.commute)
    moreover have "val rem2 = 2 ^ Suc i mod l" using r2(3) double_mod_ge [OF l3(3) le] by simp
    ultimately show ?thesis
      using Suc.IH [of ?acc2 "Suc i" rem2] r2 False cmp go [of i] by (simp add: Let_def)
  qed
qed simp

lemma coprime_power_pos: "coprime b n \<Longrightarrow> 1 < n \<Longrightarrow> 0 < b ^ k mod (n :: nat)"
proof (rule ccontr)
  assume *: "coprime b n" "1 < n" "\<not> 0 < b ^ k mod n"
  then have "n dvd b ^ k" by (simp add: mod_eq_0_iff_dvd)
  moreover have "coprime (b ^ k) n" using *(1) by simp
  ultimately have "n dvd 1" by (metis coprime_common_divisor dvd_refl)
  then show False using *(2) by simp
qed

lemma length_dropWhile_bytes: "length (to_bytes_be a) \<le> 8 * length a"
proof -
  have "length (concat (map (\<lambda>l. rev (u64_le l)) (rev a))) = 8 * length a" by (induction a) simp_all
  then show ?thesis using length_dropWhile_le [of "\<lambda>b. b = 0" "concat (map (\<lambda>l. rev (u64_le l)) (rev a))"]
    by (simp add: to_bytes_be_def)
qed

lemma from_to_bytes [limbs]: "from_bytes_be (length a) (to_bytes_be a) = a"
  using val_inject [of "from_bytes_be (length a) (to_bytes_be a)" a] from_to_bytes_be [OF val_bound [of a]] by simp

lemma vdf_eval_val [mont]:
  assumes "mont_ok ctx" and "length base = length (mo_n ctx)" and "\<And>j. progress j"
  shows "length (vdf_eval ctx base steps progress) = length (mo_n ctx) \<and>
    val (vdf_eval ctx base steps progress) = val base ^ 2 ^ unat steps mod val (mo_n ctx)"
  unfolding vdf_eval_def repeat_square_def
  by (rule from_mont_val [OF assms(1) square_from_val [OF assms(1,3) is_mont_to_mont [OF assms(1,2)]]])

lemma prove_link_complete:
  assumes n: "new_montgomery n = Inr ctx" "1 < val n" and L: "2 \<le> length n"
    and base: "length base = length n" "0 < val base" "val base < val n" "coprime (val base) (val n)"
    and go: "\<And>j. progress j" and sha: "\<And>bs. length (ve_sha256 env bs) = 32"
    and y: "length y = length n" "val y = val base ^ 2 ^ unat steps mod val n"
    and l: "hash_to_prime env (link_transcript n base steps y) = Some l"
  shows "\<exists>p. prove_link env ctx base y steps progress = Some (Inr p) \<and> lp_challenge p = l \<and>
    lp_pi p = to_bytes_be (from_bytes_be (length n) (lp_pi p)) \<and>
    verify_link ctx base y steps (from_bytes_be (length n) (lp_pi p)) l = Some True"
proof -
  note ok = new_montgomery_ok [OF n]
  note sh = hash_to_prime_shape [OF l sha]
  obtain a b where ab: "l = [a, b]" using sh(1) by (auto simp: length_Suc_conv numeral_2_eq_2)
  have l3: "length [l ! 0, l ! 1, 0 :: u64] = 3" "val [l ! 0, l ! 1, 0] = val l" by (simp_all add: ab)
  have lpos: "0 < val l" using sh(3) by (meson less_le_trans zero_less_numeral zero_less_power)
  have lmax: "2 * val l < radix ^ 3" using val_bound [of l] sh(1) by (simp add: radix_def)
  have l2: "1 < val l" by (rule challenge_big [OF sh(3)])
  have "is_mont ctx (to_mont ctx (one_big (length n))) (val base ^ (2 ^ 0 div val l))"
    using is_mont_one [OF ok(1)] ok(2) l2 by simp
  from prove_loop_val [where k = "unat steps" and progress = progress and rem = "one_big 3", OF ok(1) _ go l3(1) l3(2) lpos lmax this] base(1) ok(2) l2
  obtain out where out: "prove_loop ctx base [l ! 0, l ! 1, 0] progress 0 (unat steps) (to_mont ctx (one_big (length n))) (one_big 3) = Some (Inr out)"
    "is_mont ctx out (val base ^ (2 ^ unat steps div val l))" by auto
  let ?pf = "from_mont ctx out"
  have pf: "length ?pf = length n" "val ?pf = val base ^ (2 ^ unat steps div val l) mod val n"
    using from_mont_val [OF ok(1) out(2)] ok(2) by simp_all
  let ?p = "\<lparr>lp_steps = steps, lp_y = to_bytes_be y, lp_pi = to_bytes_be ?pf, lp_challenge = l\<rparr>"
  have y_lt: "val y < val n" using y(2) n(2) by simp
  have prove: "prove_link env ctx base y steps progress = Some (Inr ?p)"
    using base y_lt y(1) out(1) l by (simp add: prove_link_def Let_def ok(2) cmp_to_val is_zero_val)
  have bk: "from_bytes_be (length n) (to_bytes_be ?pf) = ?pf" using from_to_bytes [of ?pf] pf(1) by simp
  have pos: "0 < val ?pf" "val ?pf < val n" using coprime_power_pos [OF base(4) n(2)] pf(2) n(2) by simp_all
  have "val ?pf ^ val l * val base ^ (2 ^ unat steps mod val l) mod val n =
      (val base ^ (2 ^ unat steps div val l)) ^ val l * val base ^ (2 ^ unat steps mod val l) mod val n"
    unfolding pf(2) by (metis mod_mult_left_eq power_mod)
  also have "(val base ^ (2 ^ unat steps div val l)) ^ val l * val base ^ (2 ^ unat steps mod val l) = val base ^ 2 ^ unat steps"
    by (simp add: power_mult [symmetric] power_add [symmetric])
  finally have eq: "val y = val ?pf ^ val l * val base ^ (2 ^ unat steps mod val l) mod val n" using y(2) by simp
  have "verify_link ctx base y steps ?pf l = Some True"
    unfolding verify_link_iff [OF n L base(1) y(1) pf(1) sh(1)]
    using base pos y_lt sh eq by (simp add: coprime_iff_gcd_eq_1)
  then show ?thesis using prove bk by simp
qed

end
