(* ===== verification/Time_Weave.thy ===== *)
theory Time_Weave
  imports Time_Lock
begin

text \<open>
  The drive weave (\<open>crates/dc-vdf/src/weave.rs\<close>): one link of the time-lock per overwrite pass, the
  evidence it leaves and the standalone verifier. Hexadecimal and BLAKE3 are parameters; times and
  measured rates, which are notes, are left out. \<open>None\<close> is a panic.
\<close>

section \<open>Parameters and evidence\<close>

record weave_env =
  we_vdf :: vdf_env
  we_blake3 :: "byte list \<Rightarrow> digest"
  we_encode :: "byte list \<Rightarrow> string"
  we_decode :: "string \<Rightarrow> byte list option"

record vdf_params =
  vp_modulus_n :: string
  vp_steps_per_pass :: u64
  vp_passes :: byte
  vp_beacon :: "string option"

record pass_binding =
  pb_pass_index :: byte
  pb_state :: string
  pb_seed_fingerprint :: string
  pb_challenge_prime :: string
  pb_proof :: string

record timeline_evidence =
  te_modulus_n :: string
  te_challenge_x :: string
  te_steps_per_pass :: u64
  te_beacon :: "string option"
  te_passes :: "pass_binding list"
  te_squarings_done :: u64

definition rsa_limbs :: nat where
  "rsa_limbs = 32"

text \<open>\<open>trim_start_matches("0x")\<close> removes every leading repetition.\<close>

fun trim_0x :: "string \<Rightarrow> string" where
  "trim_0x (c # d # s) = (if c = CHR ''0'' \<and> d = CHR ''x'' then trim_0x s else c # d # s)"
| "trim_0x s = s"

definition from_hex :: "weave_env \<Rightarrow> nat \<Rightarrow> string \<Rightarrow> string + big" where
  "from_hex env L s =
     (case we_decode env (trim_0x s) of
        None \<Rightarrow> Inl ''hex''
      | Some bs \<Rightarrow> if length bs > L * 8 then Inl ''value exceeds limbs'' else Inr (from_bytes_be L bs))"

definition to_hex :: "weave_env \<Rightarrow> big \<Rightarrow> string" where
  "to_hex env a = we_encode env (to_bytes_be a)"

definition params_context :: "weave_env \<Rightarrow> vdf_params \<Rightarrow> vdf_error + montgomery" where
  "params_context env p =
     (case from_hex env rsa_limbs (vp_modulus_n p) of
        Inl e \<Rightarrow> Inl (Parse e)
      | Inr n \<Rightarrow>
          if \<not> (512 \<le> bits n \<and> bits n \<le> 2048) then Inl (BadModulus (bits n))
          else if \<not> is_odd n then Inl (BadModulus (bits n))
          else (case new_montgomery n of Inl e \<Rightarrow> Inl (Parse e) | Inr ctx \<Rightarrow> Inr ctx))"

definition seed_fingerprint :: "weave_env \<Rightarrow> byte list \<Rightarrow> byte \<Rightarrow> string" where
  "seed_fingerprint env state_bytes pass_index =
     we_encode env (digest_bytes (we_blake3 env (digest_bytes (vdf_pass_seed (we_blake3 env) state_bytes pass_index))))"

section \<open>The lock\<close>

record vdf_lock =
  vl_ctx :: montgomery
  vl_n_bytes :: "byte list"
  vl_x_bytes :: "byte list"
  vl_state_m :: big
  vl_steps_per_pass :: u64
  vl_next_pass :: byte
  vl_bindings :: "pass_binding list"
  vl_squarings_done :: u64
  vl_beacon :: "string option"

definition new_lock :: "weave_env \<Rightarrow> vdf_params \<Rightarrow> byte list \<Rightarrow> (vdf_error + vdf_lock) option" where
  "new_lock env p run_material =
     (case params_context env p of
        Inl e \<Rightarrow> Some (Inl e)
      | Inr ctx \<Rightarrow>
          let n_bytes = to_bytes_be (mo_n ctx);
              beacon = (case vp_beacon p of None \<Rightarrow> [] | Some b \<Rightarrow> case_option [] id (we_decode env (trim_0x b)));
              x = from_bytes_be rsa_limbs
                    (digest_bytes (we_blake3 env (ascii_bytes ''dc-vdf/x/v1'' @ n_bytes @ beacon @ run_material)))
          in if is_zero x then Some (Inl BadChallenge)
             else (case binary_gcd x (mo_n ctx) of
                     None \<Rightarrow> None
                   | Some g \<Rightarrow>
                       if cmp_to g (one_big rsa_limbs) \<noteq> Equal then Some (Inl BadChallenge)
                       else Some (Inr \<lparr>vl_ctx = ctx, vl_n_bytes = n_bytes, vl_x_bytes = to_bytes_be x,
                              vl_state_m = to_mont ctx x, vl_steps_per_pass = vp_steps_per_pass p, vl_next_pass = 0,
                              vl_bindings = [], vl_squarings_done = 0, vl_beacon = vp_beacon p\<rparr>)))"

definition vdf_advance :: "weave_env \<Rightarrow> (nat \<Rightarrow> bool) \<Rightarrow> vdf_lock \<Rightarrow> (vdf_error + vdf_lock \<times> pass_binding) option" where
  "vdf_advance env progress lock =
     (if vl_next_pass lock = 255 then Some (Inl (Range ''pass index overflow''))
      else
        let ctx = vl_ctx lock; pass_index = vl_next_pass lock; steps = vl_steps_per_pass lock;
            base = from_mont ctx (vl_state_m lock);
            y_m = repeat_square ctx (vl_state_m lock) steps progress;
            y = from_mont ctx y_m;
            state_bytes = to_bytes_be y
        in (case prove_link (we_vdf env) ctx base y steps progress of
              None \<Rightarrow> None
            | Some (Inl e) \<Rightarrow> Some (Inl e)
            | Some (Inr prf) \<Rightarrow>
                let b = \<lparr>pb_pass_index = pass_index, pb_state = we_encode env state_bytes,
                         pb_seed_fingerprint = seed_fingerprint env state_bytes pass_index,
                         pb_challenge_prime = to_hex env (lp_challenge prf),
                         pb_proof = we_encode env (lp_pi prf)\<rparr>
                in Some (Inr (lock\<lparr>vl_bindings := vl_bindings lock @ [b], vl_state_m := y_m,
                      vl_next_pass := pass_index + 1, vl_squarings_done := vl_squarings_done lock + steps\<rparr>, b))))"

definition evidence :: "weave_env \<Rightarrow> vdf_lock \<Rightarrow> timeline_evidence" where
  "evidence env lock =
     \<lparr>te_modulus_n = we_encode env (vl_n_bytes lock), te_challenge_x = we_encode env (vl_x_bytes lock),
      te_steps_per_pass = vl_steps_per_pass lock, te_beacon = vl_beacon lock, te_passes = vl_bindings lock,
      te_squarings_done = vl_squarings_done lock\<rparr>"

section \<open>The standalone verifier\<close>

datatype timeline_error =
  ModulusBad | MontgomeryBad string | ChallengeBad | PassDiscontinuity byte byte
| StateMalformed byte | ProofMalformed byte | ChallengeMalformed byte | LinkInvalid byte | SeedMismatch byte

record timeline_walk =
  wk_prev :: big
  wk_expected :: byte
  wk_total :: u64
  wk_verified :: u32
  wk_errors :: "timeline_error list"

record timeline_verdict =
  tv_verified :: bool
  tv_passes_verified :: u32
  tv_total_steps :: u64
  tv_errors :: "timeline_error list"

definition note_error :: "timeline_error \<Rightarrow> timeline_walk \<Rightarrow> timeline_walk" where
  "note_error e w = w\<lparr>wk_errors := wk_errors w @ [e]\<rparr>"

definition verify_pass :: "weave_env \<Rightarrow> montgomery \<Rightarrow> u64 \<Rightarrow> pass_binding \<Rightarrow> timeline_walk \<Rightarrow> timeline_walk option" where
  "verify_pass env ctx steps b w =
     (let i = pb_pass_index b;
          w = (if i \<noteq> wk_expected w then (note_error (PassDiscontinuity (wk_expected w) i) w)\<lparr>wk_expected := i\<rparr> else w)
      in case from_hex env rsa_limbs (pb_state b) of
           Inl _ \<Rightarrow> Some (note_error (StateMalformed i) w)
         | Inr state \<Rightarrow>
             (case from_hex env rsa_limbs (pb_proof b) of
                Inl _ \<Rightarrow> Some (note_error (ProofMalformed i) w)
              | Inr pf \<Rightarrow>
                  (case from_hex env 2 (pb_challenge_prime b) of
                     Inl _ \<Rightarrow> Some (note_error (ChallengeMalformed i) w)
                   | Inr l \<Rightarrow>
                       (case verify_link ctx (wk_prev w) state steps pf l of
                          None \<Rightarrow> None
                        | Some valid \<Rightarrow>
                            let w = (if valid
                                     then w\<lparr>wk_verified := wk_verified w + 1, wk_total := wk_total w + steps\<rparr>
                                     else note_error (LinkInvalid i) w);
                                w = (if seed_fingerprint env (to_bytes_be state) i \<noteq> pb_seed_fingerprint b
                                     then note_error (SeedMismatch i) w else w)
                            in Some (w\<lparr>wk_prev := state, wk_expected := wk_expected w + 1\<rparr>)))))"

fun verify_passes :: "weave_env \<Rightarrow> montgomery \<Rightarrow> u64 \<Rightarrow> pass_binding list \<Rightarrow> timeline_walk \<Rightarrow> timeline_walk option" where
  "verify_passes env ctx steps [] w = Some w"
| "verify_passes env ctx steps (b # bs) w = Option.bind (verify_pass env ctx steps b w) (verify_passes env ctx steps bs)"

definition refused :: "timeline_error \<Rightarrow> timeline_verdict" where
  "refused e = \<lparr>tv_verified = False, tv_passes_verified = 0, tv_total_steps = 0, tv_errors = [e]\<rparr>"

definition verify_timeline :: "weave_env \<Rightarrow> timeline_evidence \<Rightarrow> timeline_verdict option" where
  "verify_timeline env ev =
     (case from_hex env rsa_limbs (te_modulus_n ev) of
        Inl _ \<Rightarrow> Some (refused ModulusBad)
      | Inr n \<Rightarrow>
          if \<not> (is_odd n \<and> 512 \<le> bits n \<and> bits n \<le> 2048) then Some (refused ModulusBad)
          else (case new_montgomery n of
                  Inl e \<Rightarrow> Some (refused (MontgomeryBad e))
                | Inr ctx \<Rightarrow>
                    (case from_hex env rsa_limbs (te_challenge_x ev) of
                       Inl _ \<Rightarrow> Some (refused ChallengeBad)
                     | Inr x \<Rightarrow>
                         if cmp_to x (mo_n ctx) \<noteq> Less then Some (refused ChallengeBad)
                         else map_option (\<lambda>w.
                           \<lparr>tv_verified = te_passes ev \<noteq> [] \<and> wk_verified w = of_nat (length (te_passes ev)) \<and> wk_errors w = [],
                            tv_passes_verified = wk_verified w, tv_total_steps = wk_total w, tv_errors = wk_errors w\<rparr>)
                           (verify_passes env ctx (te_steps_per_pass ev) (te_passes ev)
                             \<lparr>wk_prev = x, wk_expected = 0, wk_total = 0, wk_verified = 0, wk_errors = []\<rparr>))))"

section \<open>One accepted pass\<close>

text \<open>What the development assumes of the hexadecimal crate and of SHA-256.\<close>

definition hex_ok :: "weave_env \<Rightarrow> bool" where
  "hex_ok env \<longleftrightarrow> (\<forall>bs. we_decode env (we_encode env bs) = Some bs) \<and> (\<forall>bs. trim_0x (we_encode env bs) = we_encode env bs)"

lemma from_hex_encode:
  assumes "hex_ok env" and "length a = L"
  shows "from_hex env L (we_encode env (to_bytes_be a)) = Inr a"
  using assms length_dropWhile_bytes [of a] from_to_bytes [of a] by (simp add: hex_ok_def from_hex_def mult.commute)

text \<open>The binding of a pass over state, challenge and proof.\<close>

definition binding_of :: "weave_env \<Rightarrow> byte \<Rightarrow> big \<Rightarrow> big \<Rightarrow> big \<Rightarrow> pass_binding" where
  "binding_of env i state l pf =
     \<lparr>pb_pass_index = i, pb_state = we_encode env (to_bytes_be state),
      pb_seed_fingerprint = seed_fingerprint env (to_bytes_be state) i,
      pb_challenge_prime = to_hex env l, pb_proof = we_encode env (to_bytes_be pf)\<rparr>"

lemma verify_pass_ok:
  assumes "hex_ok env" and "length state = rsa_limbs" and "length pf = rsa_limbs" and "length l = 2"
    and "verify_link ctx (wk_prev w) state steps pf l = Some True"
  shows "verify_pass env ctx steps (binding_of env (wk_expected w) state l pf) w =
    Some (w\<lparr>wk_prev := state, wk_expected := wk_expected w + 1, wk_total := wk_total w + steps, wk_verified := wk_verified w + 1\<rparr>)"
  using assms(5) from_hex_encode [OF assms(1,2)] from_hex_encode [OF assms(1,3)] from_hex_encode [OF assms(1,4)]
  by (simp add: verify_pass_def binding_of_def to_hex_def Let_def)

lemma verify_passes_append:
  "verify_passes env ctx steps (bs @ cs) w = Option.bind (verify_passes env ctx steps bs w) (verify_passes env ctx steps cs)"
  by (induction bs arbitrary: w) (simp_all split: Option.bind_split)

text \<open>The verifier from its start state, over evidence whose modulus and challenge are in range.\<close>

definition start_walk :: "big \<Rightarrow> timeline_walk" where
  "start_walk x = \<lparr>wk_prev = x, wk_expected = 0, wk_total = 0, wk_verified = 0, wk_errors = []\<rparr>"

definition modulus_ok :: "big \<Rightarrow> bool" where
  "modulus_ok n \<longleftrightarrow> length n = rsa_limbs \<and> odd (val n) \<and> 512 \<le> bits n \<and> bits n \<le> 2048"

lemma modulus_big: "modulus_ok n \<Longrightarrow> 2 ^ 511 \<le> val n"
  by (rule bits_power) (simp add: modulus_ok_def)

lemma modulus_above_1: "modulus_ok n \<Longrightarrow> 1 < val n"
  by (rule less_le_trans [OF _ modulus_big]) (simp_all add: one_less_power)

lemma verify_timeline_run:
  assumes hex: "hex_ok env" and n: "modulus_ok n" "new_montgomery n = Inr ctx" and x: "length x = rsa_limbs" "val x < val n"
    and ev: "te_modulus_n ev = we_encode env (to_bytes_be n)" "te_challenge_x ev = we_encode env (to_bytes_be x)"
    and run: "verify_passes env ctx (te_steps_per_pass ev) (te_passes ev) (start_walk x) = Some w"
    and w: "wk_verified w = of_nat (length (te_passes ev))" "wk_errors w = []"
  shows "verify_timeline env ev = Some \<lparr>tv_verified = te_passes ev \<noteq> [], tv_passes_verified = wk_verified w,
    tv_total_steps = wk_total w, tv_errors = []\<rparr>"
proof -
  have len: "length n = rsa_limbs" "is_odd n" "512 \<le> bits n" "bits n \<le> 2048" using n(1) by (simp_all add: modulus_ok_def is_odd_val)
  have ctx: "mo_n ctx = n" by (rule new_montgomery_ok(2) [OF n(2) modulus_above_1 [OF n(1)]])
  have "cmp_to x n = Less" using x len(1) by (simp add: cmp_to_val)
  then show ?thesis
    using from_hex_encode [OF hex len(1)] from_hex_encode [OF hex x(1)] len n(2) ctx run w ev
    by (simp add: verify_timeline_def start_walk_def)
qed

section \<open>Forged evidence\<close>

text \<open>One pass without a single sequential squaring: pick any challenge and any proof, and declare the state
  that makes the verifier's equation hold.\<close>

definition forge_state :: "montgomery \<Rightarrow> u64 \<Rightarrow> big \<Rightarrow> big \<Rightarrow> big \<Rightarrow> big" where
  "forge_state ctx steps l pf prev =
     (case new_montgomery l of
        Inl _ \<Rightarrow> prev
      | Inr small \<Rightarrow> from_mont ctx (link_product ctx small prev steps pf l))"

fun forge :: "weave_env \<Rightarrow> montgomery \<Rightarrow> u64 \<Rightarrow> big \<Rightarrow> big \<Rightarrow> nat \<Rightarrow> byte \<Rightarrow> big \<Rightarrow> pass_binding list" where
  "forge env ctx steps l pf 0 i prev = []"
| "forge env ctx steps l pf (Suc k) i prev =
     (let state = forge_state ctx steps l pf prev
      in binding_of env i state l pf # forge env ctx steps l pf k (i + 1) state)"

lemma length_forge [simp]: "length (forge env ctx steps l pf k i prev) = k"
  by (induction k arbitrary: i prev) (simp_all add: Let_def)

lemma forge_state_ok:
  assumes n: "new_montgomery n = Inr ctx" "modulus_ok n"
    and prev: "length prev = rsa_limbs" "0 < val prev" "val prev < val n" "coprime (val prev) (val n)"
    and pf: "length pf = rsa_limbs" "0 < val pf" "val pf < val n" "coprime (val pf) (val n)"
    and l: "length l = 2" "odd (val l)" "2 ^ 127 \<le> val l"
  shows "length (forge_state ctx steps l pf prev) = rsa_limbs" and "0 < val (forge_state ctx steps l pf prev)"
    and "val (forge_state ctx steps l pf prev) < val n" and "coprime (val (forge_state ctx steps l pf prev)) (val n)"
    and "verify_link ctx prev (forge_state ctx steps l pf prev) steps pf l = Some True"
proof -
  note n1 = modulus_above_1 [OF n(2)]
  note ok = new_montgomery_ok [OF n(1) n1]
  have len: "length n = rsa_limbs" "2 \<le> length n" using n(2) by (simp_all add: modulus_ok_def rsa_limbs_def)
  obtain small where s: "new_montgomery l = Inr small" using l(2) new_montgomery_iff by blast
  let ?y = "forge_state ctx steps l pf prev" let ?e = "val pf ^ val l * val prev ^ (2 ^ unat steps mod val l)"
  have "is_mont ctx (link_product ctx small prev steps pf l) ?e"
    by (rule link_product_val [OF ok(1) _ _ _ l(1) s challenge_big [OF l(3)]]) (use len ok(2) prev(1) pf(1) in simp_all)
  from from_mont_val [OF ok(1) this] have y: "length ?y = rsa_limbs" "val ?y = ?e mod val n"
    using s ok(2) len(1) by (simp_all add: forge_state_def)
  have co: "coprime ?e (val n)" using prev(4) pf(4) by simp
  show "length ?y = rsa_limbs" "val ?y < val n" using y n1 by simp_all
  show "0 < val ?y" using coprime_power_pos [OF co n1, of 1] y(2) by simp
  show "coprime (val ?y) (val n)" using co n1 by (simp add: y(2) coprime_mod_left_iff)
  show "verify_link ctx prev ?y steps pf l = Some True"
    unfolding verify_link_iff [OF n(1) n1 len(2) prev(1) [folded len(1)] y(1) [folded len(1)] pf(1) [folded len(1)] l(1)]
    using prev pf l y n1 by (simp add: coprime_iff_gcd_eq_1)
qed

lemma forge_accepted:
  assumes hex: "hex_ok env" and n: "new_montgomery n = Inr ctx" "modulus_ok n"
    and pf: "length pf = rsa_limbs" "0 < val pf" "val pf < val n" "coprime (val pf) (val n)"
    and l: "length l = 2" "odd (val l)" "2 ^ 127 \<le> val l"
  shows "length (wk_prev w) = rsa_limbs \<Longrightarrow> 0 < val (wk_prev w) \<Longrightarrow> val (wk_prev w) < val n \<Longrightarrow> coprime (val (wk_prev w)) (val n) \<Longrightarrow>
    \<exists>w'. verify_passes env ctx steps (forge env ctx steps l pf k (wk_expected w) (wk_prev w)) w = Some w' \<and>
      wk_verified w' = wk_verified w + of_nat k \<and> wk_total w' = wk_total w + of_nat k * steps \<and> wk_errors w' = wk_errors w"
proof (induction k arbitrary: w)
  case (Suc k)
  let ?y = "forge_state ctx steps l pf (wk_prev w)"
  note f = forge_state_ok [OF n Suc.prems pf l, of steps]
  note step = verify_pass_ok [OF hex f(1) pf(1) l(1) f(5)]
  let ?w = "w\<lparr>wk_prev := ?y, wk_expected := wk_expected w + 1, wk_total := wk_total w + steps, wk_verified := wk_verified w + 1\<rparr>"
  obtain w' where w': "verify_passes env ctx steps (forge env ctx steps l pf k (wk_expected ?w) (wk_prev ?w)) ?w = Some w'"
    "wk_verified w' = wk_verified ?w + of_nat k" "wk_total w' = wk_total ?w + of_nat k * steps" "wk_errors w' = wk_errors ?w"
    using Suc.IH [of ?w] f by auto
  have "verify_passes env ctx steps (forge env ctx steps l pf (Suc k) (wk_expected w) (wk_prev w)) w = Some w'"
    using w'(1) by (simp add: Let_def step)
  moreover have "wk_verified w' = wk_verified w + of_nat (Suc k)" "wk_total w' = wk_total w + of_nat (Suc k) * steps"
    using w'(2,3) by (simp_all add: algebra_simps)
  ultimately show ?case using w'(4) by auto
qed auto

section \<open>The honest lock\<close>

fun advances :: "weave_env \<Rightarrow> (nat \<Rightarrow> bool) \<Rightarrow> nat \<Rightarrow> vdf_lock \<Rightarrow> (vdf_error + vdf_lock) option" where
  "advances env progress 0 lock = Some (Inr lock)"
| "advances env progress (Suc k) lock =
     (case vdf_advance env progress lock of
        None \<Rightarrow> None
      | Some (Inl e) \<Rightarrow> Some (Inl e)
      | Some (Inr (lock', _)) \<Rightarrow> advances env progress k lock')"

text \<open>The verifier follows the lock: it accepts its bindings so far and stands at its state.\<close>

definition lock_ok :: "weave_env \<Rightarrow> vdf_lock \<Rightarrow> bool" where
  "lock_ok env lock \<longleftrightarrow> (\<exists>n x s. modulus_ok n \<and> new_montgomery n = Inr (vl_ctx lock) \<and> vl_n_bytes lock = to_bytes_be n \<and>
     length x = rsa_limbs \<and> val x < val n \<and> vl_x_bytes lock = to_bytes_be x \<and>
     is_mont (vl_ctx lock) (vl_state_m lock) s \<and> coprime s (val n) \<and>
     verify_passes env (vl_ctx lock) (vl_steps_per_pass lock) (vl_bindings lock) (start_walk x) =
       Some \<lparr>wk_prev = from_mont (vl_ctx lock) (vl_state_m lock), wk_expected = vl_next_pass lock,
             wk_total = vl_squarings_done lock, wk_verified = of_nat (length (vl_bindings lock)), wk_errors = []\<rparr>)"

definition sha_ok :: "vdf_env \<Rightarrow> bool" where
  "sha_ok env \<longleftrightarrow> (\<forall>bs. length (ve_sha256 env bs) = 32)"

text \<open>The only way an honest lock fails: the search for a challenge prime runs out of candidates and panics.\<close>

definition search_fails :: "vdf_env \<Rightarrow> bool" where
  "search_fails env \<longleftrightarrow> (\<exists>t. hash_to_prime env t = None)"

lemma vdf_advance_ok:
  assumes hex: "hex_ok env" and sha_ok: "sha_ok (we_vdf env)" and go: "\<And>j. progress j"
    and lock: "lock_ok env lock" and np: "vl_next_pass lock \<noteq> 255"
  shows "(search_fails (we_vdf env) \<and> vdf_advance env progress lock = None) \<or> (\<exists>lock' b. vdf_advance env progress lock = Some (Inr (lock', b)) \<and> lock_ok env lock' \<and>
    vl_bindings lock' = vl_bindings lock @ [b] \<and> vl_next_pass lock' = vl_next_pass lock + 1 \<and>
    vl_steps_per_pass lock' = vl_steps_per_pass lock \<and>
    vl_squarings_done lock' = vl_squarings_done lock + vl_steps_per_pass lock)"
proof -
  let ?ctx = "vl_ctx lock" let ?steps = "vl_steps_per_pass lock"
  from lock obtain n x s where L: "modulus_ok n" "new_montgomery n = Inr ?ctx" "vl_n_bytes lock = to_bytes_be n"
    "length x = rsa_limbs" "val x < val n" "vl_x_bytes lock = to_bytes_be x"
    "is_mont ?ctx (vl_state_m lock) s" "coprime s (val n)"
    and run: "verify_passes env ?ctx ?steps (vl_bindings lock) (start_walk x) =
       Some \<lparr>wk_prev = from_mont ?ctx (vl_state_m lock), wk_expected = vl_next_pass lock,
             wk_total = vl_squarings_done lock, wk_verified = of_nat (length (vl_bindings lock)), wk_errors = []\<rparr>"
    unfolding lock_ok_def by blast
  note n1 = modulus_above_1 [OF L(1)]
  note ok = new_montgomery_ok [OF L(2) n1]
  have len: "length n = rsa_limbs" "2 \<le> length n" using L(1) by (simp_all add: modulus_ok_def rsa_limbs_def)
  let ?base = "from_mont ?ctx (vl_state_m lock)"
  let ?ym = "repeat_square ?ctx (vl_state_m lock) ?steps progress" let ?y = "from_mont ?ctx ?ym"
  have base: "length ?base = length n" "val ?base = s mod val n" using from_mont_val [OF ok(1) L(7)] ok(2) by simp_all
  have base': "0 < val ?base" "val ?base < val n" "coprime (val ?base) (val n)"
    using coprime_power_pos [OF L(8) n1, of 1] L(8) n1 by (simp_all add: base(2) coprime_mod_left_iff)
  have ym: "is_mont ?ctx ?ym (s ^ 2 ^ unat ?steps)" unfolding repeat_square_def by (rule square_from_val [OF ok(1) go L(7)])
  have y: "length ?y = length n" "val ?y = val ?base ^ 2 ^ unat ?steps mod val n"
    using from_mont_val [OF ok(1) ym] ok(2) by (simp_all add: base(2) power_mod)
  have y_lt: "val ?y < val n" using y(2) n1 by simp
  show ?thesis
  proof (cases "hash_to_prime (we_vdf env) (link_transcript n ?base ?steps ?y)")
    case None
    then have "prove_link (we_vdf env) ?ctx ?base ?y ?steps progress = None"
      using base base' y(1) y_lt by (simp add: prove_link_def ok(2) cmp_to_val is_zero_val)
    then show ?thesis using np None by (auto simp: vdf_advance_def Let_def search_fails_def)
  next
  case (Some l)
  note l = Some
  have sha: "\<And>bs. length (ve_sha256 (we_vdf env) bs) = 32" using sha_ok by (simp add: sha_ok_def)
  from prove_link_complete [where progress = progress, OF L(2) n1 len(2) base(1) base' go sha y l]
  obtain p where p: "prove_link (we_vdf env) ?ctx ?base ?y ?steps progress = Some (Inr p)" "lp_challenge p = l"
    "lp_pi p = to_bytes_be (from_bytes_be (length n) (lp_pi p))"
    "verify_link ?ctx ?base ?y ?steps (from_bytes_be (length n) (lp_pi p)) l = Some True" by blast
  let ?pf = "from_bytes_be (length n) (lp_pi p)"
  let ?b = "binding_of env (vl_next_pass lock) ?y l ?pf"
  let ?lock = "lock\<lparr>vl_bindings := vl_bindings lock @ [?b], vl_state_m := ?ym,
                      vl_next_pass := vl_next_pass lock + 1, vl_squarings_done := vl_squarings_done lock + ?steps\<rparr>"
  have adv: "vdf_advance env progress lock = Some (Inr (?lock, ?b))"
    using np p(1,2) by (simp add: vdf_advance_def Let_def binding_of_def to_hex_def p(3) [symmetric])
  have l2: "length l = 2" by (rule hash_to_prime_shape(1) [OF l sha])
  have pass: "verify_pass env ?ctx ?steps ?b
      \<lparr>wk_prev = ?base, wk_expected = vl_next_pass lock, wk_total = vl_squarings_done lock,
       wk_verified = of_nat (length (vl_bindings lock)), wk_errors = []\<rparr> =
    Some \<lparr>wk_prev = ?y, wk_expected = vl_next_pass lock + 1, wk_total = vl_squarings_done lock + ?steps,
       wk_verified = of_nat (length (vl_bindings lock)) + 1, wk_errors = []\<rparr>"
    using verify_pass_ok [OF hex y(1) [unfolded len(1)] _ l2, of ?pf ?ctx
      "\<lparr>wk_prev = ?base, wk_expected = vl_next_pass lock, wk_total = vl_squarings_done lock,
       wk_verified = of_nat (length (vl_bindings lock)), wk_errors = []\<rparr>" ?steps] p(4) len(1) by simp
  have run': "verify_passes env ?ctx ?steps (vl_bindings lock @ [?b]) (start_walk x) =
      Some \<lparr>wk_prev = ?y, wk_expected = vl_next_pass lock + 1, wk_total = vl_squarings_done lock + ?steps,
       wk_verified = of_nat (length (vl_bindings lock @ [?b])), wk_errors = []\<rparr>"
    by (simp add: verify_passes_append run pass add.commute)
  have "coprime (s ^ 2 ^ unat ?steps) (val n)" using L(8) by simp
  then have "lock_ok env ?lock"
    unfolding lock_ok_def
    by (intro exI [of _ n] exI [of _ x] exI [of _ "s ^ 2 ^ unat ?steps"]) (simp add: L(1-6) ym run')
  then show ?thesis using adv by auto
  qed
qed

lemma advances_ok:
  assumes hex: "hex_ok env" and sha: "sha_ok (we_vdf env)" and go: "\<And>j. progress j"
  shows "lock_ok env lock \<Longrightarrow> unat (vl_next_pass lock) + k \<le> 255 \<Longrightarrow>
    (search_fails (we_vdf env) \<and> advances env progress k lock = None) \<or> (\<exists>lock'. advances env progress k lock = Some (Inr lock') \<and> lock_ok env lock' \<and>
      length (vl_bindings lock') = length (vl_bindings lock) + k \<and> vl_steps_per_pass lock' = vl_steps_per_pass lock \<and>
      vl_squarings_done lock' = vl_squarings_done lock + of_nat k * vl_steps_per_pass lock)"
proof (induction k arbitrary: lock)
  case (Suc k)
  have ne: "vl_next_pass lock \<noteq> 255" using Suc.prems(2) by auto
  consider "search_fails (we_vdf env) \<and> vdf_advance env progress lock = None"
    | lock1 b where "vdf_advance env progress lock = Some (Inr (lock1, b))" "lock_ok env lock1"
      "vl_bindings lock1 = vl_bindings lock @ [b]" "vl_next_pass lock1 = vl_next_pass lock + 1"
      "vl_steps_per_pass lock1 = vl_steps_per_pass lock"
      "vl_squarings_done lock1 = vl_squarings_done lock + vl_steps_per_pass lock"
    using vdf_advance_ok [where progress = progress, OF hex sha go Suc.prems(1) ne] by blast
  then show ?case
  proof cases
    case (2 lock1 b)
    have "unat (vl_next_pass lock1) = unat (vl_next_pass lock) + 1"
      unfolding 2(4) unat_word_ariths using Suc.prems(2) by simp
    then have "unat (vl_next_pass lock1) + k \<le> 255" using Suc.prems(2) by simp
    from Suc.IH [OF 2(2) this] show ?thesis using 2 by (auto simp: algebra_simps)
  qed simp
qed simp

lemma params_context_ok:
  assumes "params_context env p = Inr ctx"
  obtains n where "from_hex env rsa_limbs (vp_modulus_n p) = Inr n" "modulus_ok n" "new_montgomery n = Inr ctx"
proof -
  have "length n = L" if "from_hex env L h = Inr n" for L h n
    using that by (auto simp: from_hex_def split: option.splits if_splits)
  then show thesis using that assms
    by (auto simp: params_context_def modulus_ok_def is_odd_val split: sum.splits if_splits)
qed

lemma new_lock_ok:
  assumes "new_lock env p run_material = Some (Inr lock)"
  shows "lock_ok env lock \<and> vl_bindings lock = [] \<and> vl_next_pass lock = 0 \<and> vl_squarings_done lock = 0 \<and>
    vl_steps_per_pass lock = vp_steps_per_pass p"
proof -
  obtain ctx where c: "params_context env p = Inr ctx" using assms by (auto simp: new_lock_def split: sum.splits)
  then obtain n where n: "modulus_ok n" "new_montgomery n = Inr ctx" by (rule params_context_ok)
  note n1 = modulus_above_1 [OF n(1)]
  note ok = new_montgomery_ok [OF n(2) n1]
  have len: "length n = rsa_limbs" "0 < rsa_limbs" using n(1) by (simp_all add: modulus_ok_def rsa_limbs_def)
  obtain bs where x: "lock = \<lparr>vl_ctx = ctx, vl_n_bytes = to_bytes_be n, vl_x_bytes = to_bytes_be (from_bytes_be rsa_limbs (digest_bytes bs)),
       vl_state_m = to_mont ctx (from_bytes_be rsa_limbs (digest_bytes bs)), vl_steps_per_pass = vp_steps_per_pass p, vl_next_pass = 0,
       vl_bindings = [], vl_squarings_done = 0, vl_beacon = vp_beacon p\<rparr>"
    "\<exists>g. binary_gcd (from_bytes_be rsa_limbs (digest_bytes bs)) n = Some g \<and> cmp_to g (one_big rsa_limbs) = Equal"
    using assms c ok(2) by (auto simp: new_lock_def Let_def split: if_splits option.splits)
  let ?x = "from_bytes_be rsa_limbs (digest_bytes bs)"
  have xl: "length ?x = length n" by (simp add: len)
  have "gcd (val ?x) (val n) = 1"
    using binary_gcd_val [OF xl] x(2) len by (auto simp: cmp_to_val split: if_splits)
  then have co: "coprime (val ?x) (val n)" by (simp add: coprime_iff_gcd_eq_1)
  have "val ?x \<le> be_val (digest_bytes bs)" by (simp add: from_bytes_be_val)
  also have "\<dots> < 256 ^ 32" using be_val_bound [of "digest_bytes bs"] by simp
  also have "(256 :: nat) ^ 32 = 2 ^ 256" by simp
  also have "(2 :: nat) ^ 256 \<le> 2 ^ 511" by (rule power_increasing) simp_all
  also have "\<dots> \<le> val n" by (rule modulus_big [OF n(1)])
  finally have lt: "val ?x < val n" .
  have m: "is_mont ctx (to_mont ctx ?x) (val ?x)" by (rule is_mont_to_mont [OF ok(1)]) (simp add: len ok(2))
  have "length (from_mont ctx (to_mont ctx ?x)) = length ?x \<and> val (from_mont ctx (to_mont ctx ?x)) = val ?x"
    using from_mont_val [OF ok(1) m] ok(2) xl lt by simp
  then have fm: "from_mont ctx (to_mont ctx ?x) = ?x" using val_inject by blast
  have "lock_ok env lock"
    unfolding lock_ok_def
    by (intro exI [of _ n] exI [of _ ?x] exI [of _ "val ?x"]) (simp add: x(1) n m co lt len start_walk_def fm)
  then show ?thesis by (simp add: x(1))
qed

section \<open>Properties\<close>

text \<open>C31: An honest run verifies. Whatever the number of passes and squarings, advancing the lock either panics in
  the search for a challenge prime or succeeds, and then the standalone verifier accepts its evidence for
  exactly the claimed number of squarings.\<close>

theorem honest_timeline_verifies:
  assumes hex: "hex_ok env" and sha: "sha_ok (we_vdf env)" and go: "\<And>j. progress j"
    and new: "new_lock env p run_material = Some (Inr lock)" and k: "0 < k" "k \<le> 255"
  shows "(search_fails (we_vdf env) \<and> advances env progress k lock = None) \<or>
    (\<exists>lock' v. advances env progress k lock = Some (Inr lock') \<and> verify_timeline env (evidence env lock') = Some v \<and>
      tv_verified v \<and> tv_passes_verified v = of_nat k \<and> tv_total_steps v = of_nat k * vp_steps_per_pass p)"
proof -
  note l = new_lock_ok [OF new]
  have "unat (vl_next_pass lock) + k \<le> 255" using l k by simp
  with advances_ok [where progress = progress, OF hex sha go, of lock k] l
  consider "search_fails (we_vdf env) \<and> advances env progress k lock = None"
    | lock' where "advances env progress k lock = Some (Inr lock')" "lock_ok env lock'" "length (vl_bindings lock') = k"
      "vl_steps_per_pass lock' = vp_steps_per_pass p" "vl_squarings_done lock' = of_nat k * vp_steps_per_pass p"
    by auto
  then show ?thesis
  proof cases
    case l': (2 lock')
    from l'(2) obtain n x where L: "modulus_ok n" "new_montgomery n = Inr (vl_ctx lock')" "vl_n_bytes lock' = to_bytes_be n"
      "length x = rsa_limbs" "val x < val n" "vl_x_bytes lock' = to_bytes_be x"
      and run: "verify_passes env (vl_ctx lock') (vl_steps_per_pass lock') (vl_bindings lock') (start_walk x) =
         Some \<lparr>wk_prev = from_mont (vl_ctx lock') (vl_state_m lock'), wk_expected = vl_next_pass lock',
               wk_total = vl_squarings_done lock', wk_verified = of_nat (length (vl_bindings lock')), wk_errors = []\<rparr>"
      unfolding lock_ok_def by blast
    have "vl_bindings lock' \<noteq> []" using l'(3) k(1) by auto
    moreover have "verify_timeline env (evidence env lock') = Some \<lparr>tv_verified = vl_bindings lock' \<noteq> [],
        tv_passes_verified = of_nat (length (vl_bindings lock')), tv_total_steps = vl_squarings_done lock', tv_errors = []\<rparr>"
      using verify_timeline_run [OF hex L(1,2,4,5), of "evidence env lock'"] run L(3,6) by (simp add: evidence_def)
    ultimately show ?thesis using l' by simp
  qed simp
qed

text \<open>C32: The time-lock proves no time. Because the verifier never recomputes the challenge from the transcript, evidence
  for any number of passes and any number of squarings is accepted that was made with a few short
  exponentiations: from any start, any proof value and any odd 128-bit challenge.\<close>

theorem timeline_forgeable:
  assumes hex: "hex_ok env" and n: "new_montgomery n = Inr ctx" "modulus_ok n"
    and x: "length x = rsa_limbs" "0 < val x" "val x < val n" "coprime (val x) (val n)"
    and pf: "length pf = rsa_limbs" "0 < val pf" "val pf < val n" "coprime (val pf) (val n)"
    and l: "length l = 2" "odd (val l)" "2 ^ 127 \<le> val l" and "0 < k"
  shows "\<exists>v. verify_timeline env \<lparr>te_modulus_n = we_encode env (to_bytes_be n), te_challenge_x = we_encode env (to_bytes_be x),
      te_steps_per_pass = steps, te_beacon = beacon, te_passes = forge env ctx steps l pf k 0 x, te_squarings_done = sq\<rparr> = Some v \<and>
    tv_verified v \<and> tv_errors v = [] \<and> tv_total_steps v = of_nat k * steps"
proof -
  obtain w where w: "verify_passes env ctx steps (forge env ctx steps l pf k 0 x) (start_walk x) = Some w"
    "wk_verified w = of_nat k" "wk_total w = of_nat k * steps" "wk_errors w = []"
    using forge_accepted [OF hex n pf l, of "start_walk x" steps k] x by (auto simp: start_walk_def)
  have "forge env ctx steps l pf k 0 x \<noteq> []" using \<open>0 < k\<close> length_forge by (metis length_0_conv less_irrefl)
  then show ?thesis
    using verify_timeline_run [OF hex n(2,1) x(1,3), of "\<lparr>te_modulus_n = we_encode env (to_bytes_be n),
      te_challenge_x = we_encode env (to_bytes_be x), te_steps_per_pass = steps, te_beacon = beacon,
      te_passes = forge env ctx steps l pf k 0 x, te_squarings_done = sq\<rparr>" w] w by simp
qed

end
