(* ===== verification/Time_Ceremony.thy ===== *)
theory Time_Ceremony
  imports Time_Weave
begin

text \<open>
  The parameter ceremony of the time-lock (\<open>crates/dc-vdf/src/ceremony.rs\<close>): the deterministic generator, the
  search for safe primes and the modulus. The ChaCha20 keystream is a parameter, a block of 64 bytes
  per refill; durations and progress messages are left out.
\<close>

section \<open>The generator\<close>

record vdf_rng =
  vr_keystream :: "nat \<Rightarrow> byte list"    \<comment> \<open>block number to its 64 bytes\<close>
  vr_block :: nat
  vr_buf :: "byte list"
  vr_pos :: nat

definition rng_from_seed :: "(byte list \<Rightarrow> nat \<Rightarrow> byte list) \<Rightarrow> byte list \<Rightarrow> vdf_rng" where
  "rng_from_seed chacha20 seed =
     (let key = take 32 seed @ replicate (32 - length seed) 0
      in \<lparr>vr_keystream = chacha20 key, vr_block = 0, vr_buf = replicate 64 0, vr_pos = 64\<rparr>)"

definition refill :: "vdf_rng \<Rightarrow> vdf_rng" where
  "refill r = r\<lparr>vr_buf := vr_keystream r (vr_block r), vr_block := vr_block r + 1, vr_pos := 0\<rparr>"

definition next_u64 :: "vdf_rng \<Rightarrow> u64 \<times> vdf_rng" where
  "next_u64 r =
     (let r = (if vr_pos r + 8 > length (vr_buf r) then refill r else r)
      in (of_le_bytes (take 8 (drop (vr_pos r) (vr_buf r))), r\<lparr>vr_pos := vr_pos r + 8\<rparr>))"

fun fill_limbs :: "nat \<Rightarrow> vdf_rng \<Rightarrow> u64 list \<times> vdf_rng" where
  "fill_limbs 0 r = ([], r)"
| "fill_limbs (Suc k) r = (let (l, r) = next_u64 r; (ls, r) = fill_limbs k r in (l # ls, r))"

section \<open>The product\<close>

text \<open>The carry walks on from limb \<open>k\<close> while there are limbs.\<close>

fun propagate :: "u128 \<Rightarrow> big \<Rightarrow> big" where
  "propagate carry [] = []"
| "propagate carry (x # xs) =
     (if carry = 0 then x # xs
      else let acc = ucast x + carry in ucast acc # propagate (drop_bit 64 acc) xs)"

text \<open>Row \<open>i\<close> adds \<open>a_i * b\<close> to the output from limb \<open>i\<close> on.\<close>

fun mul_rows :: "big \<Rightarrow> big \<Rightarrow> big \<Rightarrow> big" where
  "mul_rows [] b out = out"
| "mul_rows (a # as) b out =
     (let out = (if a = 0 then out
                 else (case mac_limbs a 0 (take (length b) out) b of
                         (low, carry) \<Rightarrow> low @ propagate carry (drop (length b) out)))
      in (case out of [] \<Rightarrow> [] | x # xs \<Rightarrow> x # mul_rows as b xs))"

definition mul_wide :: "nat \<Rightarrow> big \<Rightarrow> big \<Rightarrow> big" where
  "mul_wide w3 a b = mul_rows a b (zero_big w3)"

section \<open>Safe primes\<close>

definition shape_candidate :: "nat \<Rightarrow> big \<Rightarrow> big" where
  "shape_candidate q_bits limbs =
     (let top_limb = q_bits div 64; top_bits = q_bits mod 64;
          limbs = take (top_limb + 1) limbs @ replicate (length limbs - (top_limb + 1)) 0;
          limbs = (if top_bits \<ge> 2
                   then limbs[top_limb := limbs ! top_limb AND (push_bit top_bits 1 - 1)
                                OR (push_bit (top_bits - 1) 1 OR push_bit (top_bits - 2) 1)]
                   else if top_bits = 1 then limbs[top_limb := limbs ! top_limb OR 1]
                   else limbs)
      in limbs[0 := limbs ! 0 OR 1])"

definition no_random :: "nat \<Rightarrow> big option" where
  "no_random = (\<lambda>_. None)"    \<comment> \<open>zero extra rounds draw nothing\<close>

definition accept_candidate :: "big \<Rightarrow> big option" where
  "accept_candidate q =
     (if \<not> passes_small_primes q then None
      else (case Option.bind (checked_add q q) (\<lambda>d. checked_add d (one_big (length q))) of
              None \<Rightarrow> None
            | Some p \<Rightarrow>
                if \<not> passes_small_primes p then None
                else if \<not> is_probable_prime no_random q 0 then None
                else if \<not> is_probable_prime no_random p 0 then None
                else Some p))"

fun generate_safe_prime :: "nat \<Rightarrow> nat \<Rightarrow> nat \<Rightarrow> vdf_rng \<Rightarrow> big option \<times> vdf_rng" where
  "generate_safe_prime L prime_bits 0 r = (None, r)"
| "generate_safe_prime L prime_bits (Suc budget) r =
     (case fill_limbs L r of
        (limbs, r) \<Rightarrow>
          (case accept_candidate (shape_candidate (prime_bits - 1) limbs) of
             Some p \<Rightarrow> (Some p, r)
           | None \<Rightarrow> generate_safe_prime L prime_bits budget r))"

section \<open>The modulus\<close>

datatype ceremony_error = Exhausted string | Unsupported nat | InternalWidth nat

definition finish_ceremony :: "weave_env \<Rightarrow> nat \<Rightarrow> big \<Rightarrow> big \<Rightarrow> ceremony_error + string" where
  "finish_ceremony env modulus_bits p q =
     (let n = mul_wide (2 * length p) p q in
      if (of_nat (bits n) :: 16 word) \<noteq> of_nat modulus_bits then Inl (InternalWidth (bits n)) else Inr (to_hex env n))"

definition both_safe_primes :: "nat \<Rightarrow> nat \<Rightarrow> vdf_rng \<Rightarrow> ceremony_error + big \<times> big" where
  "both_safe_primes L half_bits r =
     (case generate_safe_prime L half_bits 200000 r of
        (None, _) \<Rightarrow> Inl (Exhausted ''p'')
      | (Some p, r) \<Rightarrow>
          (case generate_safe_prime L half_bits 200000 r of
             (None, _) \<Rightarrow> Inl (Exhausted ''q'')
           | (Some q, _) \<Rightarrow> Inr (p, q)))"

definition generate_modulus :: "weave_env \<Rightarrow> nat \<Rightarrow> vdf_rng \<Rightarrow> ceremony_error + string" where
  "generate_modulus env modulus_bits r =
     (if modulus_bits = 512 then and_then (both_safe_primes 4 256 r) (\<lambda>(p, q). finish_ceremony env 512 p q)
      else if modulus_bits = 1024 then and_then (both_safe_primes 8 512 r) (\<lambda>(p, q). finish_ceremony env 1024 p q)
      else if modulus_bits = 2048 then and_then (both_safe_primes 16 1024 r) (\<lambda>(p, q). finish_ceremony env 2048 p q)
      else Inl (Unsupported modulus_bits))"

definition validate_modulus_hex :: "weave_env \<Rightarrow> string \<Rightarrow> string + unit" where
  "validate_modulus_hex env n_hex =
     (case we_decode env (trim_0x n_hex) of
        None \<Rightarrow> Inl ''hex''
      | Some v \<Rightarrow>
          if length v < 65 \<or> length v > 256 then Inl ''modulus width out of range''
          else if v = [] \<or> \<not> odd (last v) then Inl ''modulus must be odd''
          else Inr ())"

section \<open>What the product computes\<close>

lemma propagate_val:
  "unat carry < radix \<Longrightarrow> val xs + unat carry < radix ^ length xs \<Longrightarrow>
   length (propagate carry xs) = length xs \<and> val (propagate carry xs) = val xs + unat carry"
proof (induction xs arbitrary: carry)
  case (Cons x xs)
  show ?case
  proof (cases "carry = 0")
    case False
    let ?acc = "ucast x + carry :: u128"
    note a = unat_acc [OF Cons.prems(1), of x 0 0, simplified]
    have s: "val (x # xs) + unat carry = (unat x + unat carry) mod radix + radix * (val xs + (unat x + unat carry) div radix)"
    proof -
      have "unat x + unat carry = (unat x + unat carry) mod radix + radix * ((unat x + unat carry) div radix)" by simp
      then show ?thesis by (simp add: algebra_simps)
    qed
    have "radix * (val xs + (unat x + unat carry) div radix) \<le> val (x # xs) + unat carry" unfolding s by simp
    also have "\<dots> < radix * radix ^ length xs" using Cons.prems(2) by simp
    finally have "radix * (val xs + (unat x + unat carry) div radix) < radix * radix ^ length xs" .
    then have "val xs + unat (drop_bit 64 ?acc) < radix ^ length xs" using a(2) by simp
    moreover have "unat (drop_bit 64 ?acc) < radix" using a(2,4) by simp
    ultimately have IH: "length (propagate (drop_bit 64 ?acc) xs) = length xs"
      "val (propagate (drop_bit 64 ?acc) xs) = val xs + (unat x + unat carry) div radix"
      using Cons.IH a(2) by simp_all
    have u: "unat (ucast ?acc :: u64) = (unat x + unat carry) mod radix" using a(3) by simp
    have "propagate carry (x # xs) = ucast ?acc # propagate (drop_bit 64 ?acc) xs" using False by (simp add: Let_def)
    then show ?thesis unfolding s using IH u by (simp only: length_Cons val.simps)
  qed simp
qed simp

lemma mul_rows_val:
  "length as + length b \<le> length out \<Longrightarrow> val out + val as * val b < radix ^ length out \<Longrightarrow>
   length (mul_rows as b out) = length out \<and> val (mul_rows as b out) = val out + val as * val b"
proof (induction as arbitrary: out)
  case (Cons a as)
  let ?row = "if a = 0 then out
              else (case mac_limbs a 0 (take (length b) out) b of (low, carry) \<Rightarrow> low @ propagate carry (drop (length b) out))"
  have total: "val out + unat a * val b + radix * (val as * val b) = val out + val (a # as) * val b" by (simp add: algebra_simps)
  have row: "length ?row = length out \<and> val ?row = val out + unat a * val b"
  proof (cases "a = 0")
    case False
    obtain low carry where m: "mac_limbs a 0 (take (length b) out) b = (low, carry)" by (cases "mac_limbs a 0 (take (length b) out) b")
    have lb: "length (take (length b) out) = length b" using Cons.prems(1) by simp
    from mac_limbs_val [OF lb _ m] have mv: "length low = length b" "unat carry < radix"
      "val low + radix ^ length b * unat carry = val (take (length b) out) + unat a * val b" by simp_all
    let ?d = "drop (length b) out"
    have o: "val out = val (take (length b) out) + radix ^ length b * val ?d"
      using val_append [of "take (length b) out" ?d] lb by simp
    have "radix ^ length b * (val ?d + unat carry) \<le> val out + unat a * val b"
      using mv(3) o by (simp add: distrib_left)
    also have "\<dots> < radix ^ length out" using Cons.prems(2) total by linarith
    also have "radix ^ length out = radix ^ length b * radix ^ length ?d"
      using Cons.prems(1) by (simp flip: power_add)
    finally have "val ?d + unat carry < radix ^ length ?d" by simp
    from propagate_val [OF mv(2) this] have p: "length (propagate carry ?d) = length ?d" "val (propagate carry ?d) = val ?d + unat carry"
      by simp_all
    have "val (low @ propagate carry ?d) = val low + radix ^ length b * unat carry + radix ^ length b * val ?d"
      by (simp add: val_append mv(1) p(2) algebra_simps)
    also have "\<dots> = val out + unat a * val b" using mv(3) o by simp
    finally show ?thesis using False m mv(1) p(1) Cons.prems(1) by simp
  qed simp
  obtain x xs where r: "?row = x # xs" using row Cons.prems(1) by (cases ?row) auto
  have len: "length xs + 1 = length out" using row r by simp
  have v: "unat x + radix * val xs = val out + unat a * val b" using row r by simp
  have "radix * (val xs + val as * val b) < radix * radix ^ length xs"
  proof -
    have "radix * (val xs + val as * val b) \<le> val out + val (a # as) * val b" using v total by (simp add: distrib_left)
    also have "\<dots> < radix ^ length out" by (rule Cons.prems(2))
    also have "\<dots> = radix * radix ^ length xs" using len by (metis Suc_eq_plus1 power_Suc)
    finally show ?thesis .
  qed
  then have "val xs + val as * val b < radix ^ length xs" by simp
  moreover have "length as + length b \<le> length xs" using Cons.prems(1) len by simp
  ultimately have IH: "length (mul_rows as b xs) = length xs" "val (mul_rows as b xs) = val xs + val as * val b"
    using Cons.IH [of xs] by simp_all
  have "mul_rows (a # as) b out = x # mul_rows as b xs" using r by (simp add: Let_def)
  then show ?case using IH v total len by (simp add: distrib_left)
qed simp

lemma mul_wide_val:
  assumes "length a + length b \<le> w3"
  shows "length (mul_wide w3 a b) = w3 \<and> val (mul_wide w3 a b) = val a * val b"
proof -
  have "val a * val b < radix ^ length a * radix ^ length b" using val_bound [of a] val_bound [of b] by (intro mult_strict_mono) simp_all
  also have "\<dots> \<le> radix ^ w3" using assms by (simp flip: power_add add: power_increasing Suc_leI)
  finally show ?thesis using mul_rows_val [of a b "zero_big w3"] assms by (simp add: mul_wide_def)
qed

section \<open>The width of the modulus\<close>

lemma or_mask_le: "unat y \<le> unat (x OR y :: u64)"
proof -
  have "y = (x OR y) AND y" by (rule bit_word_eqI) (auto simp: bit_simps)
  then have "unat y = unat (x OR y) AND unat y" by (metis unsigned_and_eq)
  then show ?thesis by (metis and_nat_def AND_upper1 of_nat_0_le_iff nat_int nat_mono)
qed

lemma length_fill_limbs: "length (fst (fill_limbs k r)) = k"
  by (induction k arbitrary: r) (simp_all add: Let_def split: prod.splits, metis fst_conv)

lemma top_limb_le: "length m = Suc k \<Longrightarrow> radix ^ k * unat (m ! k) \<le> val m"
proof -
  assume m: "length m = Suc k"
  then have "m = take k m @ [m ! k]" by (metis lessI take_Suc_conv_app_nth take_all_iff order_refl)
  then have "val m = val (take k m) + radix ^ k * unat (m ! k)" using val_append [of "take k m" "[m ! k]"] m by simp
  then show ?thesis by simp
qed

lemma shape_candidate_low:
  assumes "length limbs = Suc (Suc k)"
  shows "length (shape_candidate (64 * Suc (Suc k) - 1) limbs) = Suc (Suc k)"
    and "radix ^ Suc k * (3 * 2 ^ 61) \<le> val (shape_candidate (64 * Suc (Suc k) - 1) limbs)"
proof -
  let ?m = "shape_candidate (64 * Suc (Suc k) - 1) limbs"
  have dm: "(64 * Suc (Suc k) - 1) div 64 = Suc k" "(64 * Suc (Suc k) - 1) mod 64 = 63" by (simp_all add: div_nat_eqI mod_nat_eqI)
  let ?v = "limbs ! Suc k AND (push_bit 63 1 - 1) OR (push_bit 62 1 OR push_bit 61 1) :: u64"
  have m: "?m = (limbs[Suc k := ?v])[0 := limbs ! 0 OR 1]"
    using assms unfolding shape_candidate_def dm by (simp add: Let_def)
  then show len: "length ?m = Suc (Suc k)" using assms by simp
  have "?m ! Suc k = ?v" unfolding m using assms by simp
  moreover have "3 * 2 ^ 61 \<le> unat ?v"
    using or_mask_le [of "push_bit 62 1 OR push_bit 61 1" "limbs ! Suc k AND (push_bit 63 1 - 1)"] by simp
  ultimately have "radix ^ Suc k * (3 * 2 ^ 61) \<le> radix ^ Suc k * unat (?m ! Suc k)" by (intro mult_le_mono2) simp
  also have "\<dots> \<le> val ?m" by (rule top_limb_le [OF len])
  finally show "radix ^ Suc k * (3 * 2 ^ 61) \<le> val ?m" .
qed

lemma accept_candidate_val:
  assumes "accept_candidate q = Some p" and "0 < length q"
  shows "length p = length q \<and> val p = 2 * val q + 1 \<and> odd (val p) \<and> is_probable_prime no_random p 0 \<and> is_probable_prime no_random q 0"
proof -
  obtain d where d: "checked_add q q = Some d" "checked_add d (one_big (length q)) = Some p"
    "is_probable_prime no_random q 0" "is_probable_prime no_random p 0"
    using assms(1) by (auto simp: accept_candidate_def split: if_splits option.splits Option.bind_splits)
  have "length d = length q \<and> val d = val q + val q" using checked_add_val(2) [of q q d] d(1) by simp
  then have "length p = length q \<and> val p = val q + val q + 1" using checked_add_val(2) [of d "one_big (length q)" p] d(2) assms(2) by simp
  then show ?thesis using d(3,4) by simp
qed

text \<open>What the search returns: a number \<open>2 q + 1\<close>, both of which pass the test, with the two top bits set.\<close>

text \<open>A number \<open>2q + 1\<close> that passed the screens of the ceremony together with \<open>q\<close>; not a proof of primality.\<close>

definition screened_prime :: "nat \<Rightarrow> big \<Rightarrow> bool" where
  "screened_prime L p \<longleftrightarrow> length p = L \<and> 3 * 2 ^ (64 * L - 2) \<le> val p \<and>
     (\<exists>q. accept_candidate q = Some p \<and> val p = 2 * val q + 1 \<and> is_probable_prime no_random p 0 \<and> is_probable_prime no_random q 0)"

lemma generate_screened_prime:
  assumes "2 \<le> L"
  shows "generate_safe_prime L (64 * L) budget r = (Some p, r') \<Longrightarrow> screened_prime L p"
proof (induction budget arbitrary: r)
  case (Suc budget)
  obtain limbs r1 where f: "fill_limbs L r = (limbs, r1)" by (cases "fill_limbs L r")
  obtain k where k: "L = Suc (Suc k)" using le_Suc_ex [OF assms] by auto
  have len: "length limbs = Suc (Suc k)" using length_fill_limbs [of L r] f k by simp
  let ?q = "shape_candidate (64 * L - 1) limbs"
  note q = shape_candidate_low [OF len, folded k]
  show ?case
  proof (cases "accept_candidate ?q")
    case None
    then show ?thesis using Suc f by simp
  next
    case (Some p')
    then have p: "p' = p" using Suc.prems f by simp
    have "0 < length ?q" using q(1) assms by linarith
    note v = accept_candidate_val [OF Some this, unfolded p q(1)]
    then have a: "length p = L" "val p = 2 * val ?q + 1" "is_probable_prime no_random p 0" "is_probable_prime no_random ?q 0"
      by blast+
    have "3 * 2 ^ (64 * L - 2) = 2 * (radix ^ Suc k * (3 * 2 ^ 61))"
    proof -
      have "64 * L - 2 = 1 + (Suc k * 64 + 61)" by (simp add: k)
      then show ?thesis unfolding radix_power by (simp only: power_add) simp
    qed
    also have "\<dots> \<le> val p" using q(2) a(2) by simp
    finally show ?thesis using a Some p by (auto simp: screened_prime_def)
  qed
qed simp

lemma finish_ceremony_val:
  assumes p: "screened_prime L p" and q: "screened_prime L q" and "0 < L"
  shows "finish_ceremony env (128 * L) p q = Inr (to_hex env (mul_wide (2 * L) p q)) \<and> bits (mul_wide (2 * L) p q) = 128 * L \<and>
    val (mul_wide (2 * L) p q) = val p * val q"
proof -
  have len: "length p = L" "length q = L" using p q by (simp_all add: screened_prime_def)
  then have m: "length (mul_wide (2 * L) p q) = 2 * L" "val (mul_wide (2 * L) p q) = val p * val q"
    using mul_wide_val [of p q "2 * L"] by simp_all
  have "2 \<le> 64 * L" using assms(3) by simp
  then obtain j where "64 * L = 2 + j" using le_Suc_ex by blast
  then have j: "64 * L = j + 2" by simp
  have "3 * 2 ^ j \<le> val p" "3 * 2 ^ j \<le> val q" using p q j by (simp_all add: screened_prime_def)
  then have "(3 * 2 ^ j) * (3 * 2 ^ j) \<le> val p * val q" by (rule mult_le_mono)
  moreover have "(2 :: nat) ^ (128 * L - 1) \<le> (3 * 2 ^ j) * (3 * 2 ^ j)"
  proof -
    have "128 * L - 1 = 3 + (j + j)" using j by linarith
    then show ?thesis by (simp only: power_add) simp
  qed
  ultimately have lo: "2 ^ (128 * L - 1) \<le> val (mul_wide (2 * L) p q)" using m(2) by linarith
  have hi: "val (mul_wide (2 * L) p q) < 2 ^ (128 * L)" using val_bound [of "mul_wide (2 * L) p q"] m(1) by (simp add: radix_power mult.commute)
  have "Suc (128 * L - 1) = 128 * L" using assms(3) by simp
  then have b: "bits (mul_wide (2 * L) p q) = 128 * L" using bits_exact [OF lo] hi by simp
  then show ?thesis using m(2) len by (simp add: finish_ceremony_def Let_def)
qed

lemma both_safe_primes_shape:
  "both_safe_primes L (64 * L) r = Inr (p, q) \<Longrightarrow> 2 \<le> L \<Longrightarrow> screened_prime L p \<and> screened_prime L q"
  using generate_screened_prime [of L]
  by (auto simp: both_safe_primes_def split: prod.splits option.splits)

lemma ceremony_at:
  assumes "2 \<le> L"
  shows "case and_then (both_safe_primes L (64 * L) r) (\<lambda>(p, q). finish_ceremony env (128 * L) p q) of
      Inl e \<Rightarrow> e = Exhausted ''p'' \<or> e = Exhausted ''q''
    | Inr h \<Rightarrow> \<exists>n p q. h = to_hex env n \<and> bits n = 128 * L \<and> val n = val p * val q \<and> screened_prime L p \<and> screened_prime L q"
proof (cases "both_safe_primes L (64 * L) r")
  case (Inl e)
  then show ?thesis by (auto simp: both_safe_primes_def split: prod.splits option.splits)
next
  case (Inr pq)
  obtain p q where pq: "pq = (p, q)" by (cases pq)
  then have s: "screened_prime L p" "screened_prime L q" using both_safe_primes_shape [of L r p q] Inr assms by simp_all
  have "0 < L" using assms by simp
  from finish_ceremony_val [OF s this] s show ?thesis using Inr pq by auto
qed

text \<open>C36: Whatever the keystream, the ceremony answers a width of 512, 1024 or 2048 bits with a modulus of exactly
  that width or with an exhausted search for \<open>p\<close> or for \<open>q\<close>, and any other width with the error for it: the
  internal width check never fires. The modulus is the product of two numbers of the form \<open>2q + 1\<close>, of half
  the limbs and with the two top bits set, that pass the trial division and the Miller-Rabin rounds for the
  twelve fixed bases, as their halves \<open>q\<close> do. That they are safe primes is not claimed: no random round is run.\<close>

theorem ceremony_modulus_width:
  "case generate_modulus env b r of
     Inl e \<Rightarrow> if b \<in> {512, 1024, 2048} then e = Exhausted ''p'' \<or> e = Exhausted ''q'' else e = Unsupported b
   | Inr h \<Rightarrow> b \<in> {512, 1024, 2048} \<and> (\<exists>n p q. h = to_hex env n \<and> bits n = b \<and> val n = val p * val q \<and>
       screened_prime (b div 128) p \<and> screened_prime (b div 128) q)"
proof -
  have "b = 512 \<or> b = 1024 \<or> b = 2048 \<or> b \<notin> {512, 1024, 2048}" by blast
  then show ?thesis
    using ceremony_at [where L=4 and r=r and env=env] ceremony_at [where L=8 and r=r and env=env] ceremony_at [where L=16 and r=r and env=env]
    by (elim disjE) (auto simp: generate_modulus_def split: sum.splits)
qed

section \<open>The validator of imported moduli\<close>

lemma length_to_bytes_be:
  assumes "bits a = 8 * k" and "0 < k"
  shows "length (to_bytes_be a) = k"
proof -
  let ?bs = "to_bytes_be a"
  have lo: "2 ^ (8 * k - 1) \<le> val a" using bits_lower [of a] assms by simp
  have hi: "val a < 2 ^ (8 * k)" using val_less_bits [of a] assms(1) by simp
  have "?bs \<noteq> []" using be_val_to_bytes_be [of a] lo by auto
  then obtain b cs where bs: "?bs = b # cs" by (cases ?bs) simp_all
  have "b \<noteq> 0" using hd_dropWhile [of "\<lambda>b. b = 0"] bs by (metis list.sel(1) to_bytes_be_def list.distinct(1))
  then have "1 \<le> unat b" by (simp add: unat_gt_0 Suc_leI)
  then have "1 * 256 ^ length cs \<le> unat b * 256 ^ length cs" by (rule mult_le_mono1)
  moreover have "unat b * 256 ^ length cs \<le> be_val ?bs" unfolding bs by simp
  ultimately have "256 ^ length cs \<le> val a" using be_val_to_bytes_be [of a] by linarith
  moreover have "val a < 256 ^ k" using hi by (simp add: power_mult)
  ultimately have "(256 :: nat) ^ length cs < 256 ^ k" by (rule le_less_trans)
  then have "length cs < k" by (rule power_less_imp_less_exp [rotated]) simp
  moreover have "(2 :: nat) ^ (8 * k - 1) < 2 ^ (8 * length ?bs)"
    using lo be_val_bound [of ?bs] be_val_to_bytes_be [of a] by (simp add: power_mult)
  then have "8 * k - 1 < 8 * length ?bs" by (rule power_less_imp_less_exp [rotated]) simp
  ultimately show ?thesis using bs assms(2) by simp
qed

text \<open>The 512-bit modulus that the ceremony offers and the lock accepts is turned down on import.\<close>

lemma validator_refuses_512:
  assumes "hex_ok env" and "bits n = 512"
  shows "validate_modulus_hex env (to_hex env n) = Inl ''modulus width out of range''"
  using assms length_to_bytes_be [of n 64] by (simp add: validate_modulus_hex_def to_hex_def hex_ok_def)

end
