(* ===== verification/Time_Demo.thy ===== *)
theory Time_Demo
  imports Time_Weave
begin

text \<open>A toy instance of the time-lock, for the witnesses of its properties.\<close>

definition demo_encode :: "byte list \<Rightarrow> string" where
  "demo_encode bs = CHR ''x'' # map (\<lambda>b. char_of (unat b)) bs"

definition demo_decode :: "string \<Rightarrow> byte list option" where
  "demo_decode s = (case s of [] \<Rightarrow> None | _ # cs \<Rightarrow> Some (map of_char cs))"

definition demo_env :: weave_env where
  "demo_env = \<lparr>we_vdf = \<lparr>ve_sha256 = (\<lambda>_. replicate 32 7), ve_random_below = (\<lambda>_ _. None)\<rparr>,
     we_blake3 = (\<lambda>_. of_le_bytes (replicate 31 0 @ [2])), we_encode = demo_encode, we_decode = demo_decode\<rparr>"

text \<open>The modulus \<open>2^511 + 1\<close>, the challenge 2, the proof value 1 and the challenge number \<open>2^127 + 1\<close>.\<close>

definition demo_modulus :: big where
  "demo_modulus = [1, 0, 0, 0, 0, 0, 0, 2 ^ 63] @ replicate 24 0"

definition demo_x :: big where "demo_x = 2 # replicate 31 0"
definition demo_proof :: big where "demo_proof = 1 # replicate 31 0"
definition demo_challenge :: big where "demo_challenge = [1, 2 ^ 63]"

definition demo_params :: vdf_params where
  "demo_params = \<lparr>vp_modulus_n = we_encode demo_env (to_bytes_be demo_modulus), vp_steps_per_pass = 4096, vp_passes = 3,
     vp_beacon = None\<rparr>"

lemma time_demo_hex: "hex_ok demo_env"
proof -
  have "trim_0x (CHR ''x'' # s) = CHR ''x'' # s" for s by (cases s) simp_all
  moreover have "demo_decode (demo_encode bs) = Some bs" for bs
    by (simp add: demo_encode_def demo_decode_def comp_def of_char_byte)
  ultimately show ?thesis by (simp add: hex_ok_def demo_env_def) (simp add: demo_encode_def)
qed

lemma demo_vals:
  "length demo_modulus = rsa_limbs" "val demo_modulus = 1 + 2 ^ 511" "length demo_x = rsa_limbs" "val demo_x = 2"
  "length demo_proof = rsa_limbs" "val demo_proof = 1" "length demo_challenge = 2" "val demo_challenge = 1 + 2 ^ 127"
  by (simp_all add: demo_modulus_def demo_x_def demo_proof_def demo_challenge_def rsa_limbs_def radix_def val_append)

lemma demo_modulus_ok: "modulus_ok demo_modulus"
proof -
  have "(1 + 2 ^ 511 :: nat) < 2 ^ Suc 511" by simp
  then have "bits demo_modulus = Suc 511" by (intro bits_exact) (simp_all only: demo_vals le_add2)
  moreover have "odd (val demo_modulus)" by (simp only: demo_vals) simp
  ultimately show ?thesis by (simp add: modulus_ok_def demo_vals(1))
qed

lemma demo_coprime: "coprime 2 (val demo_modulus)"
  using demo_modulus_ok by (simp add: modulus_ok_def coprime_left_2_iff_odd)

theorem timeline_forgeable_witness:
  "\<exists>ctx v. new_montgomery demo_modulus = Inr ctx \<and>
    verify_timeline demo_env \<lparr>te_modulus_n = we_encode demo_env (to_bytes_be demo_modulus),
      te_challenge_x = we_encode demo_env (to_bytes_be demo_x), te_steps_per_pass = 2 ^ 40, te_beacon = None,
      te_passes = forge demo_env ctx (2 ^ 40) demo_challenge demo_proof 5 0 demo_x, te_squarings_done = 0\<rparr> = Some v \<and>
    tv_verified v \<and> tv_total_steps v = 5 * 2 ^ 40"
proof -
  have "odd (val demo_modulus)" using demo_modulus_ok by (simp add: modulus_ok_def)
  then obtain ctx where ctx: "new_montgomery demo_modulus = Inr ctx" using new_montgomery_iff by blast
  have lt: "2 < val demo_modulus"
    by (rule less_le_trans [OF _ modulus_big [OF demo_modulus_ok]]) simp
  have "odd (val demo_challenge)" "2 ^ 127 \<le> val demo_challenge" by (simp_all only: demo_vals le_add2) simp
  from timeline_forgeable [OF time_demo_hex ctx demo_modulus_ok demo_vals(3) _ _ _ demo_vals(5) _ _ _ demo_vals(7) this, of 5 "2 ^ 40" None 0]
  show ?thesis using ctx lt demo_coprime by (auto simp add: demo_vals(4,6))
qed

lemma demo_lock: "\<exists>lock. new_lock demo_env demo_params [] = Some (Inr lock)"
proof -
  have "odd (val demo_modulus)" using demo_modulus_ok by (simp add: modulus_ok_def)
  then obtain ctx where ctx: "new_montgomery demo_modulus = Inr ctx" using new_montgomery_iff by blast
  note ok = new_montgomery_ok [OF ctx modulus_above_1 [OF demo_modulus_ok]]
  have p: "params_context demo_env demo_params = Inr ctx"
    using from_hex_encode [OF time_demo_hex demo_vals(1)] demo_modulus_ok ctx
    by (simp add: params_context_def demo_params_def modulus_ok_def is_odd_val)
  let ?x = "from_bytes_be rsa_limbs (digest_bytes (of_le_bytes (replicate 31 0 @ [2])))"
  have "digest_bytes (of_le_bytes (replicate 31 0 @ [2])) = replicate 31 0 @ [2]"
    unfolding digest_bytes_def by (rule le_bytes_of_le_bytes) simp_all
  moreover have "be_val (replicate k 0) = 0" for k by (induction k) simp_all
  ultimately have "be_val (digest_bytes (of_le_bytes (replicate 31 0 @ [2]))) = 2" by (simp only: be_val_append) simp
  then have x: "val ?x = 2" by (simp add: from_bytes_be_val rsa_limbs_def radix_def)
  have xl: "length ?x = length demo_modulus" by (simp add: demo_vals(1))
  obtain g where g: "binary_gcd ?x demo_modulus = Some g" "length g = rsa_limbs" "val g = 1"
    using binary_gcd_val [OF xl] demo_coprime x demo_vals(1) by (auto simp: coprime_iff_gcd_eq_1)
  have "cmp_to g (one_big rsa_limbs) = Equal" using g(2,3) by (simp add: cmp_to_val rsa_limbs_def)
  moreover have "we_blake3 demo_env = (\<lambda>_. of_le_bytes (replicate 31 0 @ [2]))" by (simp add: demo_env_def)
  ultimately show ?thesis using p x g(1) ok(2) by (simp add: new_lock_def Let_def is_zero_val)
qed

theorem honest_timeline_verifies_witness:
  "\<exists>lock. new_lock demo_env demo_params [] = Some (Inr lock) \<and>
    ((search_fails (we_vdf demo_env) \<and> advances demo_env (\<lambda>_. True) 3 lock = None) \<or>
     (\<exists>lock' v. advances demo_env (\<lambda>_. True) 3 lock = Some (Inr lock') \<and>
        verify_timeline demo_env (evidence demo_env lock') = Some v \<and> tv_verified v \<and> tv_total_steps v = 3 * 4096))"
proof -
  obtain lock where lock: "new_lock demo_env demo_params [] = Some (Inr lock)" using demo_lock by blast
  have "sha_ok (we_vdf demo_env)" by (simp add: sha_ok_def demo_env_def)
  from honest_timeline_verifies [OF time_demo_hex this _ lock, of "\<lambda>_. True" 3] lock show ?thesis
    by (auto simp: demo_params_def)
qed

theorem probable_prime_complete_witness: "is_probable_prime (\<lambda>_. Some [10, 0]) [97, 0] 8"
proof (rule probable_prime_complete)
  have "\<forall>d \<in> {2..<97 :: nat}. \<not> d dvd 97" by code_simp
  then have "d = 1 \<or> d = 97" if "d dvd 97" for d :: nat
    using that dvd_imp_le [of d 97] by (cases "d = 0"; cases "d = 1") (auto simp: not_less)
  then show "is_prime (val [97, 0])" by (simp add: is_prime_def)
  have "bits [97, 0] = Suc 6" by (rule bits_exact) simp_all
  then show "6 < bits [97, 0]" by simp
qed auto

end
