(* ===== verification/Photon_Random.thy ===== *)
theory Photon_Random
  imports DC_Prelude
begin

text \<open>
  The random numbers of the fountain code (\<open>crates/dc-photon/src/lt.rs\<close>): SplitMix64 and Lemire's
  debiased draw below a bound. The loop of the draw has no counter; it ends because the generator runs
  through all its states and mixes them bijectively, which is the termination proof of \<open>below\<close>.
\<close>

section \<open>SplitMix64\<close>

abbreviation golden :: u64 where "golden \<equiv> 0x9E3779B97F4A7C15"

definition mix :: "u64 \<Rightarrow> u64" where
  "mix z =
     (let z = (z XOR drop_bit 30 z) * 0xBF58476D1CE4E5B9;
          z = (z XOR drop_bit 27 z) * 0x94D049BB133111EB
      in z XOR drop_bit 31 z)"

text \<open>\<open>next\<close>: the value drawn and the state left.\<close>

definition splitmix_next :: "u64 \<Rightarrow> u64 \<times> u64" where
  "splitmix_next s = (let s = s + golden in (mix s, s))"

text \<open>The shifts can be undone from the top bit down, the factors are odd.\<close>

lemma xorshift_inject:
  fixes x y :: u64
  assumes eq: "x XOR drop_bit k x = y XOR drop_bit k y" and k: "0 < k"
  shows "x = y"
proof (rule bit_word_eqI)
  fix n assume "n < LENGTH(64)"
  then show "bit x n \<longleftrightarrow> bit y n"
  proof (induction "64 - n" arbitrary: n rule: less_induct)
    case less
    have "bit (x XOR drop_bit k x) n \<longleftrightarrow> bit (y XOR drop_bit k y) n" by (simp only: eq)
    then have "(bit x n \<noteq> bit x (k + n)) \<longleftrightarrow> (bit y n \<noteq> bit y (k + n))" by (simp add: bit_xor_iff bit_drop_bit_eq)
    moreover have "bit x (k + n) \<longleftrightarrow> bit y (k + n)"
    proof (cases "k + n < 64")
      case True
      then show ?thesis using less.hyps [of "k + n"] less.prems k by simp
    next
      case False
      then show ?thesis using bit_imp_le_length [of x "k + n"] bit_imp_le_length [of y "k + n"] by auto
    qed
    ultimately show ?case by blast
  qed
qed

lemma inj_xorshift: "0 < k \<Longrightarrow> inj (\<lambda>z :: u64. z XOR drop_bit k z)"
  by (rule injI) (rule xorshift_inject)

lemma inj_times:
  assumes "c * d = 1"
  shows "inj (\<lambda>z :: u64. z * c)"
proof (rule injI)
  fix x y :: u64
  assume "x * c = y * c"
  then have "x * (c * d) = y * (c * d)" by (simp only: mult.assoc [symmetric])
  then show "x = y" by (simp only: assms mult_1_right)
qed

lemma factor_inverses:
  "0xBF58476D1CE4E5B9 * 10871156337175269513 = (1 :: u64)"
  "0x94D049BB133111EB * 3573116690164977347 = (1 :: u64)"
  "17428512612931826493 * golden = 1"
  by simp_all

lemma mix_inj: "inj mix"
proof -
  have m: "mix = (\<lambda>z. z XOR drop_bit 31 z) \<circ> (\<lambda>z. z * 0x94D049BB133111EB) \<circ> (\<lambda>z. z XOR drop_bit 27 z) \<circ>
      (\<lambda>z. z * 0xBF58476D1CE4E5B9) \<circ> (\<lambda>z. z XOR drop_bit 30 z)"
    by (rule ext) (simp only: mix_def Let_def o_def)
  show ?thesis
    unfolding m by (intro inj_compose inj_xorshift inj_times [OF factor_inverses(1)] inj_times [OF factor_inverses(2)] zero_less_numeral)
qed

lemma mix_hits: "\<exists>z. mix z = t"
  using finite_UNIV_inj_surj [OF _ mix_inj] by (metis finite surj_def)

text \<open>Any output comes up after some number of draws.\<close>

lemma splitmix_reaches: "\<exists>j. mix (s + word_of_nat (Suc j) * golden) = t"
proof -
  obtain z where z: "mix z = t" using mix_hits by blast
  let ?u = "(z - s) * 17428512612931826493"
  have "?u * golden = z - s" by (simp only: mult.assoc factor_inverses(3) mult_1_right)
  moreover have "word_of_nat (Suc (unat (?u - 1))) = ?u" by simp
  ultimately have "s + word_of_nat (Suc (unat (?u - 1))) * golden = z" by (simp del: of_nat_Suc)
  then show ?thesis using z by (intro exI [of _ "unat (?u - 1)"]) (simp only:)
qed

section \<open>Uniform draws\<close>

definition widening_mul :: "u64 \<Rightarrow> u64 \<Rightarrow> 128 word" where
  "widening_mul x y = ucast x * ucast y"

lemma unat_widening_mul: "unat (widening_mul x y) = unat x * unat y"
proof -
  have "unat x * unat y < 2 ^ 64 * 2 ^ 64" using unsigned_less [of x, where ?'a = nat] unsigned_less [of y, where ?'a = nat] by (intro mult_strict_mono) simp_all
  moreover have "unat (ucast x :: 128 word) = unat x" "unat (ucast y :: 128 word) = unat y"
    using unsigned_less [of x, where ?'a = nat] unsigned_less [of y, where ?'a = nat]
    by (simp_all add: unsigned_ucast_eq take_bit_eq_mod)
  ultimately show ?thesis by (simp add: widening_mul_def unat_word_ariths)
qed

lemma low_widening_mul: "ucast (widening_mul x y) = x * y"
  by (rule word_unat_eq_iff [THEN iffD2]) (simp add: unsigned_ucast_eq take_bit_eq_mod unat_widening_mul unat_word_ariths)

definition accepts :: "u64 \<Rightarrow> u64 \<Rightarrow> bool" where
  "accepts bound x \<longleftrightarrow> ucast (widening_mul x bound) \<ge> - bound mod bound"

text \<open>The largest draw is always accepted.\<close>

lemma accepts_max: "accepts bound (- 1)"
  by (simp add: accepts_def low_widening_mul word_le_nat_alt unat_mod)

text \<open>\<open>% 0\<close> panics.\<close>

function below :: "u64 \<Rightarrow> u64 \<Rightarrow> (u64 \<times> u64) option" where
  "below bound s =
     (if bound = 0 then None
      else (case splitmix_next s of
              (x, s) \<Rightarrow>
                if accepts bound x then Some (ucast (drop_bit 64 (widening_mul x bound)), s)
                else below bound s))"
  by pat_completeness auto

definition draws_left :: "u64 \<Rightarrow> u64 \<Rightarrow> nat" where
  "draws_left bound s = (LEAST j. accepts bound (mix (s + word_of_nat (Suc j) * golden)))"

lemma draws_left_less:
  assumes "\<not> accepts bound (mix (s + golden))"
  shows "draws_left bound (s + golden) < draws_left bound s"
proof -
  let ?P = "\<lambda>j. accepts bound (mix (s + word_of_nat (Suc j) * golden))"
  obtain j where "mix (s + word_of_nat (Suc j) * golden) = - 1" using splitmix_reaches by blast
  then have "?P j" using accepts_max by simp
  then have hit: "?P (draws_left bound s)" unfolding draws_left_def by (rule LeastI)
  then obtain i where i: "draws_left bound s = Suc i" using assms by (cases "draws_left bound s") simp_all
  have "accepts bound (mix ((s + golden) + word_of_nat (Suc i) * golden))"
    using hit unfolding i by (simp add: algebra_simps)
  then have "draws_left bound (s + golden) \<le> i" unfolding draws_left_def by (rule Least_le)
  then show ?thesis using i by simp
qed

termination below
  by (relation "measure (\<lambda>(bound, s). draws_left bound s)") (auto simp: splitmix_next_def Let_def intro: draws_left_less)

declare below.simps [simp del]

lemma below_bounded:
  assumes "0 < bound"
  shows "\<exists>v s'. below bound s = Some (v, s') \<and> v < bound"
  using assms
proof (induction bound s rule: below.induct)
  case (1 bound s)
  obtain x s1 where n: "splitmix_next s = (x, s1)" by fastforce
  show ?case
  proof (cases "accepts bound x")
    case True
    have "unat x * unat bound < 2 ^ 64 * unat bound" using unsigned_less [of x, where ?'a = nat] 1(2) by (simp add: word_less_nat_alt)
    then have q: "unat x * unat bound div 2 ^ 64 < unat bound" by (simp add: less_mult_imp_div_less mult.commute)
    then have "unat x * unat bound div 2 ^ 64 < 2 ^ 64" using unsigned_less [of bound, where ?'a = nat] by simp
    moreover have "unat (drop_bit 64 (widening_mul x bound)) = unat x * unat bound div 2 ^ 64"
      unfolding unat_drop_bit_eq unat_widening_mul by (rule drop_bit_eq_div)
    ultimately have "unat (ucast (drop_bit 64 (widening_mul x bound)) :: u64) = unat x * unat bound div 2 ^ 64"
      by (simp only: unsigned_ucast_eq take_bit_eq_mod) simp
    then have "(ucast (drop_bit 64 (widening_mul x bound)) :: u64) < bound" using q by (simp add: word_less_nat_alt)
    then show ?thesis using True n 1(2) by (subst below.simps) simp
  next
    case False
    have "bound \<noteq> 0" using 1(2) by auto
    from 1(1) [OF this n [symmetric] False 1(2)] show ?thesis using False n \<open>bound \<noteq> 0\<close> by (subst below.simps) simp
  qed
qed

end
