(* ===== verification/Photon_Fountain.thy ===== *)
theory Photon_Fountain
  imports Photon_Random "HOL-Library.Multiset"
begin

text \<open>
  The fountain code of the optical bridge (\<open>crates/dc-photon/src/lt.rs\<close>): the encoder, which emits the
  XOR of a pseudo-random set of blocks per symbol, and the peeling decoder with its list of pending
  symbols and its references from blocks to them.

  The degree distribution is floating-point arithmetic: \<open>deg k x\<close> stands for \<open>sample_degree\<close> over
  the distribution for \<open>k\<close> blocks at the draw \<open>x\<close>, and nothing is assumed about it. A panic is
  \<open>None\<close>.
\<close>

section \<open>Neighbours\<close>

definition swap_remove :: "nat \<Rightarrow> 'a list \<Rightarrow> 'a \<times> 'a list" where
  "swap_remove j xs = (xs ! j, butlast (xs[j := last xs]))"

fun pick :: "nat \<Rightarrow> nat list \<Rightarrow> nat list \<Rightarrow> u64 \<Rightarrow> nat list option" where
  "pick 0 avail picked s = Some picked"
| "pick (Suc d) avail picked s =
     (case below (word_of_nat (length avail)) s of
        None \<Rightarrow> None
      | Some (j, s) \<Rightarrow>
          if unat j < length avail
          then (case swap_remove (unat j) avail of (x, avail) \<Rightarrow> pick d avail (picked @ [x]) s)
          else None)"

definition neighbors :: "(nat \<Rightarrow> u64 \<Rightarrow> nat) \<Rightarrow> u64 \<Rightarrow> nat \<Rightarrow> u64 \<Rightarrow> nat list option" where
  "neighbors deg symbol_id k stream_seed =
     (if symbol_id < word_of_nat k then Some [unat symbol_id]
      else (let fountain_id = symbol_id - word_of_nat k;
                s = stream_seed XOR word_rotl 32 fountain_id;
                (x, s) = splitmix_next s;
                degree = min (deg k x) k
            in pick degree [0..<k] [] s))"

section \<open>The encoder\<close>

datatype lt_error = DecodeIncomplete (decoded_blocks: nat) (total_blocks: nat) | InvalidParameter string

record lt_encoder =
  en_blocks :: "byte list list"
  en_block_size :: nat
  en_stream_seed :: u64

definition blocks_ceil :: "nat \<Rightarrow> nat \<Rightarrow> nat" where
  "blocks_ceil a b = a div b + (if a mod b = 0 then 0 else 1)"

definition block_at :: "byte list \<Rightarrow> nat \<Rightarrow> nat \<Rightarrow> byte list" where
  "block_at payload block_size i =
     (let start = i * block_size;
          stop = min ((i + 1) * block_size) (length payload);
          b = (if start \<le> stop \<and> stop \<le> length payload then take (stop - start) (drop start payload) else [])
      in b @ replicate (block_size - length b) 0)"

definition new_encoder :: "byte list \<Rightarrow> nat \<Rightarrow> u64 \<Rightarrow> lt_error + lt_encoder" where
  "new_encoder payload block_size stream_seed =
     (if block_size = 0 \<or> block_size > 65535 then Inl (InvalidParameter ''block size must be 1..=65535'')
      else let k = max (blocks_ceil (length payload) block_size) 1
           in Inr \<lparr>en_blocks = map (block_at payload block_size) [0..<k], en_block_size = block_size,
                   en_stream_seed = stream_seed\<rparr>)"

text \<open>\<open>for (o, b) in out.iter_mut().zip(b) { *o ^= b }\<close>.\<close>

definition xor_into :: "byte list \<Rightarrow> byte list \<Rightarrow> byte list" where
  "xor_into out b = map2 (XOR) out b @ drop (length b) out"

definition encode_symbol :: "(nat \<Rightarrow> u64 \<Rightarrow> nat) \<Rightarrow> lt_encoder \<Rightarrow> u64 \<Rightarrow> byte list option" where
  "encode_symbol deg e symbol_id =
     map_option (\<lambda>ns. fold (\<lambda>n out. xor_into out (en_blocks e ! n)) ns (replicate (en_block_size e) 0))
       (neighbors deg symbol_id (length (en_blocks e)) (en_stream_seed e))"

section \<open>The decoder\<close>

record lt_decoder =
  ld_k :: nat
  ld_block_size :: nat
  ld_stream_seed :: u64
  ld_decoded :: "byte list option list"
  ld_pending :: "(byte list \<times> nat list) list"
  ld_references :: "nat list list"
  ld_resolved :: nat

definition new_decoder :: "nat \<Rightarrow> nat \<Rightarrow> u64 \<Rightarrow> lt_decoder" where
  "new_decoder k block_size stream_seed =
     \<lparr>ld_k = k, ld_block_size = block_size, ld_stream_seed = stream_seed, ld_decoded = replicate k None,
      ld_pending = [], ld_references = replicate k [], ld_resolved = 0\<rparr>"

text \<open>One reference of the resolved block \<open>b\<close> with value \<open>d\<close>: \<open>p\<close> indexes the pending symbols.\<close>

definition peel_entry :: "nat \<Rightarrow> byte list \<Rightarrow> nat \<Rightarrow> lt_decoder \<times> nat list \<Rightarrow> (lt_decoder \<times> nat list) option" where
  "peel_entry b d p = (\<lambda>(ld, queue).
     if p \<ge> length (ld_pending ld) then Some (ld, queue)
     else (case ld_pending ld ! p of (v, unres) \<Rightarrow>
       if unres = [] then Some (ld, queue)
       else (case (if b \<in> set unres
                   then (xor_into v d, snd (swap_remove (length (takeWhile (\<lambda>x. x \<noteq> b) unres)) unres))
                   else (v, unres)) of (v, unres) \<Rightarrow>
         if length unres = 1
         then (let revealed = hd unres; ld = ld\<lparr>ld_pending := (ld_pending ld)[p := ([], [])]\<rparr>
               in if revealed \<ge> length (ld_decoded ld) then None
                  else if ld_decoded ld ! revealed = None
                  then Some (ld\<lparr>ld_decoded := (ld_decoded ld)[revealed := Some v],
                                ld_resolved := ld_resolved ld + 1\<rparr>, queue @ [revealed])
                  else Some (ld, queue))
         else Some (ld\<lparr>ld_pending := (ld_pending ld)[p := (v, unres)]\<rparr>, queue))))"

fun peel_refs :: "nat \<Rightarrow> byte list \<Rightarrow> nat list \<Rightarrow> lt_decoder \<times> nat list \<Rightarrow> (lt_decoder \<times> nat list) option" where
  "peel_refs b d [] st = Some st"
| "peel_refs b d (p # ps) st = Option.bind (peel_entry b d p st) (peel_refs b d ps)"

text \<open>The work left: every queued block is popped once, every block is queued once.\<close>

definition ripple_work :: "lt_decoder \<times> nat list \<Rightarrow> nat" where
  "ripple_work st = length (filter (\<lambda>x. x = None) (ld_decoded (fst st))) + length (snd st)"

lemma filter_update_Some:
  "r < length xs \<Longrightarrow> xs ! r = None \<Longrightarrow>
   Suc (length (filter (\<lambda>x. x = None) (xs[r := Some v]))) = length (filter (\<lambda>x. x = None) xs)"
proof (induction xs arbitrary: r)
  case (Cons x xs)
  then show ?case by (cases r) auto
qed simp

lemma peel_entry_work: "peel_entry b d p st = Some st' \<Longrightarrow> ripple_work st' = ripple_work st"
  using filter_update_Some [of _ "ld_decoded (fst st)"]
  by (auto simp: peel_entry_def ripple_work_def Let_def split: prod.splits if_splits)

lemma peel_refs_work: "peel_refs b d ps st = Some st' \<Longrightarrow> ripple_work st' = ripple_work st"
  by (induction ps arbitrary: st) (auto simp: peel_entry_work split: Option.bind_splits)

function ripple :: "lt_decoder \<Rightarrow> nat list \<Rightarrow> lt_decoder option" where
  "ripple ld queue =
     (if queue = [] then Some ld
      else (let b = last queue; refs = ld_references ld ! b; queue = butlast queue;
                ld = ld\<lparr>ld_references := (ld_references ld)[b := []]\<rparr>
            in case ld_decoded ld ! b of
                 None \<Rightarrow> None
               | Some d \<Rightarrow>
                   (case peel_refs b d refs (ld, queue) of
                      None \<Rightarrow> None
                    | Some (ld, queue) \<Rightarrow> ripple ld queue)))"
  by pat_completeness auto
termination
proof (relation "measure ripple_work")
  fix ld and queue :: "nat list" and b refs queue' and ld' :: lt_decoder and d x ld'' queue''
  assume "queue \<noteq> []" and "queue' = butlast queue"
    and l: "ld' = ld\<lparr>ld_references := (ld_references ld)[b := []]\<rparr>"
    and "peel_refs b d refs (ld', queue') = Some x" and "(ld'', queue'') = x"
  then have "ripple_work (ld'', queue'') = ripple_work (ld', queue')" by (simp add: peel_refs_work)
  then show "((ld'', queue''), (ld, queue)) \<in> measure ripple_work"
    using \<open>queue \<noteq> []\<close> \<open>queue' = butlast queue\<close> by (cases queue rule: rev_cases) (simp_all add: ripple_work_def l)
qed simp

declare ripple.simps [simp del]

definition resolve :: "nat \<Rightarrow> byte list \<Rightarrow> lt_decoder \<Rightarrow> lt_decoder option" where
  "resolve block value ld =
     ripple (ld\<lparr>ld_decoded := (ld_decoded ld)[block := Some value], ld_resolved := ld_resolved ld + 1\<rparr>) [block]"

fun fold_known :: "byte list option list \<Rightarrow> nat list \<Rightarrow> byte list \<Rightarrow> nat list \<Rightarrow> byte list \<times> nat list" where
  "fold_known decoded [] value unresolved = (value, unresolved)"
| "fold_known decoded (n # ns) value unresolved =
     (case decoded ! n of
        Some d \<Rightarrow> fold_known decoded ns (xor_into value d) unresolved
      | None \<Rightarrow> fold_known decoded ns value (unresolved @ [n]))"

definition push_symbol :: "(nat \<Rightarrow> u64 \<Rightarrow> nat) \<Rightarrow> u64 \<Rightarrow> byte list \<Rightarrow> lt_decoder \<Rightarrow> (lt_error + lt_decoder) option" where
  "push_symbol deg symbol_id bytes ld =
     (if length bytes \<noteq> ld_block_size ld then Some (Inl (InvalidParameter ''symbol size''))
      else (case neighbors deg symbol_id (ld_k ld) (ld_stream_seed ld) of
              None \<Rightarrow> None
            | Some ns \<Rightarrow>
                (case fold_known (ld_decoded ld) ns bytes [] of (value, unresolved) \<Rightarrow>
                   if length unresolved = 0 then Some (Inr ld)
                   else if length unresolved = 1 then map_option Inr (resolve (hd unresolved) value ld)
                   else (let idx = length (ld_pending ld);
                             references = fold (\<lambda>n rs. rs[n := rs ! n @ [idx]]) unresolved (ld_references ld)
                         in Some (Inr (ld\<lparr>ld_references := references,
                                          ld_pending := ld_pending ld @ [(value, unresolved)]\<rparr>))))))"

definition lt_finish :: "lt_decoder \<Rightarrow> (lt_error + byte list) option" where
  "lt_finish ld =
     (if ld_resolved ld < ld_k ld then Some (Inl (DecodeIncomplete (ld_resolved ld) (ld_k ld)))
      else if None \<in> set (ld_decoded ld) then None
      else Some (Inr (concat (map the (ld_decoded ld)))))"

end
