(* ===== verification/Photon_Peeling.thy ===== *)
theory Photon_Peeling
  imports Photon_Fountain
begin

text \<open>
  Correctness of the fountain code (\<open>crates/dc-photon/src/lt.rs\<close>). The specification is a set: a block is
  known once some received symbol covers it and only known blocks beside it (\<open>peeled\<close>). The decoder's
  stacks, reference lists and in-place updates compute exactly that set, in every order of arrival.
\<close>

section \<open>Neighbours are distinct blocks\<close>

lemma mset_swap_remove:
  "j < length xs \<Longrightarrow> add_mset (xs ! j) (mset (snd (swap_remove j xs))) = mset xs"
proof (cases xs rule: rev_cases)
  case (snoc ys y)
  assume j: "j < length xs"
  show ?thesis
  proof (cases "j = length ys")
    case False
    then have "j < length ys" using j snoc by simp
    then have "mset ys = add_mset (ys ! j) (mset ys - {#ys ! j#})" by simp
    moreover have "mset (ys[j := y]) = add_mset y (mset ys - {#ys ! j#})" using \<open>j < length ys\<close> by (simp add: mset_update)
    ultimately show ?thesis using snoc \<open>j < length ys\<close> by (simp add: swap_remove_def list_update_append nth_append)
  qed (simp add: snoc swap_remove_def)
qed simp

lemma swap_remove_distinct:
  assumes "j < length xs" and "distinct xs"
  shows "distinct (snd (swap_remove j xs)) \<and> set (snd (swap_remove j xs)) = set xs - {xs ! j} \<and>
    length (snd (swap_remove j xs)) = length xs - 1"
proof -
  let ?rest = "snd (swap_remove j xs)"
  have m: "mset (xs ! j # ?rest) = mset xs" using mset_swap_remove [OF assms(1)] by simp
  have "distinct (xs ! j # ?rest)" using mset_eq_imp_distinct_iff [OF m] assms(2) by simp
  moreover have "insert (xs ! j) (set ?rest) = set xs" using mset_eq_setD [OF m] by simp
  moreover have "length ?rest = length xs - 1" by (simp add: swap_remove_def)
  ultimately show ?thesis by auto
qed

lemma pick_distinct:
  "d \<le> length avail \<Longrightarrow> length avail < 2 ^ 64 \<Longrightarrow> distinct (picked @ avail) \<Longrightarrow>
   \<exists>ns. pick d avail picked s = Some ns \<and> distinct ns \<and> set ns \<subseteq> set (picked @ avail)"
proof (induction d arbitrary: avail picked s)
  case (Suc d)
  have u: "unat (word_of_nat (length avail) :: u64) = length avail" using Suc.prems(2) by (simp add: unat_of_nat)
  have "0 < length avail" using Suc.prems(1) by (cases avail) simp_all
  then have "0 < (word_of_nat (length avail) :: u64)" unfolding word_less_nat_alt u by simp
  then obtain v s' where b: "below (word_of_nat (length avail)) s = Some (v, s')" "v < word_of_nat (length avail)"
    using below_bounded by blast
  then have j: "unat v < length avail" using u by (simp add: word_less_nat_alt)
  obtain x rest where sr: "swap_remove (unat v) avail = (x, rest)" by fastforce
  then have x: "x = avail ! unat v" by (simp add: swap_remove_def)
  have r: "distinct rest" "set rest = set avail - {x}" "length rest = length avail - 1"
    using swap_remove_distinct [OF j] Suc.prems(3) sr x by simp_all
  have "distinct ((picked @ [x]) @ rest)" "set ((picked @ [x]) @ rest) = set (picked @ avail)"
    using Suc.prems(3) r(1,2) j x by auto
  then show ?case using Suc.IH [of rest "picked @ [x]" s'] Suc.prems(1,2) r(3) b(1) j sr by simp
qed simp

lemma neighbors_ok:
  assumes "k < 2 ^ 64" and "0 < k"
  shows "\<exists>ns. neighbors deg i k seed = Some ns \<and> distinct ns \<and> set ns \<subseteq> {..<k}"
proof -
  have u: "unat (word_of_nat k :: u64) = k" using assms(1) by (simp add: unat_of_nat)
  show ?thesis
  proof (cases "i < word_of_nat k")
    case True
    then show ?thesis using u by (simp add: neighbors_def word_less_nat_alt)
  next
    case False
    then show ?thesis
      using pick_distinct [of _ "[0..<k]" "[]"] assms(1)
      by (auto simp: neighbors_def Let_def lessThan_atLeast0 split: prod.splits)
  qed
qed

section \<open>XOR of blocks\<close>

lemma length_xor_into [simp]: "length (xor_into v d) = length v"
  by (simp add: xor_into_def)

lemma nth_xor_into: "i < length v \<Longrightarrow> xor_into v d ! i = v ! i XOR (if i < length d then d ! i else 0)"
  by (auto simp: xor_into_def nth_append)

lemma xor_into_commute: "xor_into (xor_into v d) e = xor_into (xor_into v e) d"
  by (rule nth_equalityI) (simp_all add: nth_xor_into xor.assoc xor.commute)

lemma xor_into_twice [simp]: "xor_into (xor_into v d) d = v"
  by (rule nth_equalityI) (simp_all add: nth_xor_into xor.assoc)

lemma xor_into_zeros [simp]: "length d = n \<Longrightarrow> xor_into (replicate n 0) d = d"
  by (rule nth_equalityI) (simp_all add: nth_xor_into)

text \<open>The content of a symbol over the blocks \<open>T\<close> of size \<open>z\<close>.\<close>

definition content :: "nat \<Rightarrow> (nat \<Rightarrow> byte list) \<Rightarrow> nat list \<Rightarrow> byte list" where
  "content z T ns = fold (\<lambda>n out. xor_into out (T n)) ns (replicate z 0)"

lemma content_mset: "mset ns = mset ms \<Longrightarrow> content z T ns = content z T ms"
  unfolding content_def by (rule fun_cong [OF fold_multiset_equiv]) (auto simp: xor_into_commute)

lemma content_snoc: "content z T (ns @ [n]) = xor_into (content z T ns) (T n)"
  by (simp add: content_def)

lemma length_content [simp]: "length (content z T ns) = z"
  by (induction ns rule: rev_induct) (simp_all add: content_snoc, simp add: content_def)

lemma content_single: "length (T n) = z \<Longrightarrow> content z T [n] = T n"
  by (simp add: content_def)

lemma content_remove:
  assumes "b \<in> set ns"
  shows "xor_into (content z T ns) (T b) = content z T (snd (swap_remove (length (takeWhile (\<lambda>x. x \<noteq> b) ns)) ns))"
proof -
  let ?j = "length (takeWhile (\<lambda>x. x \<noteq> b) ns)" 
  let ?rest = "snd (swap_remove ?j ns)"
  have j: "?j < length ns" using assms by (induction ns) auto
  have "ns ! ?j = b" using nth_length_takeWhile [OF j] by simp
  then have "mset ns = mset (?rest @ [b])" using mset_swap_remove [OF j] by simp
  then have "content z T ns = xor_into (content z T ?rest) (T b)" by (metis content_mset content_snoc)
  then show ?thesis by simp
qed

section \<open>The specification\<close>

inductive_set peeled :: "nat set set \<Rightarrow> nat set" for R where
  peel: "n \<in> peeled R" if "N \<in> R" "n \<in> N" "\<And>m. m \<in> N \<Longrightarrow> m \<noteq> n \<Longrightarrow> m \<in> peeled R"

lemma peeled_mono: "R \<subseteq> R' \<Longrightarrow> n \<in> peeled R \<Longrightarrow> n \<in> peeled R'"
proof -
  assume sub: "R \<subseteq> R'" and "n \<in> peeled R"
  from this(2) show ?thesis
  proof induction
    case (peel N n)
    show ?case by (rule peeled.peel [of N]) (use peel sub in auto)
  qed
qed

section \<open>The invariant of the decoder\<close>

definition known :: "lt_decoder \<Rightarrow> nat set" where
  "known ld = {n. n < length (ld_decoded ld) \<and> ld_decoded ld ! n \<noteq> None}"

text \<open>An unresolved block leads back to its symbol: by a reference that is still to be followed (\<open>E\<close>), or
  by the reference list of the block, which is queued when the block is known.\<close>

definition linked :: "lt_decoder \<Rightarrow> nat list \<Rightarrow> (nat \<times> nat) set \<Rightarrow> nat \<Rightarrow> nat \<Rightarrow> bool" where
  "linked ld queue E n p \<longleftrightarrow> (n, p) \<in> E \<or> (p \<in> set (ld_references ld ! n) \<and> (n \<in> known ld \<longrightarrow> n \<in> set queue))"

definition entry_ok :: "nat \<Rightarrow> (nat \<Rightarrow> byte list) \<Rightarrow> nat set set \<Rightarrow> lt_decoder \<Rightarrow> nat list \<Rightarrow> (nat \<times> nat) set \<Rightarrow> nat \<Rightarrow> bool" where
  "entry_ok z T R ld queue E p \<longleftrightarrow>
     (case ld_pending ld ! p of (v, us) \<Rightarrow>
        us = [] \<or> (2 \<le> length us \<and> distinct us \<and> set us \<subseteq> {..<ld_k ld} \<and> v = content z T us \<and>
          (\<forall>n \<in> set us. linked ld queue E n p) \<and> (\<exists>N \<in> R. set us \<subseteq> N \<and> N \<subseteq> known ld \<union> set us)))"

definition peel_core :: "nat \<Rightarrow> (nat \<Rightarrow> byte list) \<Rightarrow> nat set set \<Rightarrow> lt_decoder \<Rightarrow> nat list \<Rightarrow> (nat \<times> nat) set \<Rightarrow> bool" where
  "peel_core z T R ld queue E \<longleftrightarrow>
     length (ld_decoded ld) = ld_k ld \<and> length (ld_references ld) = ld_k ld \<and>
     (\<forall>n < ld_k ld. length (T n) = z) \<and> (\<forall>n \<in> known ld. ld_decoded ld ! n = Some (T n)) \<and>
     ld_resolved ld = card (known ld) \<and> set queue \<subseteq> known ld \<and> known ld \<subseteq> peeled R \<and>
     (\<forall>p < length (ld_pending ld). entry_ok z T R ld queue E p)"

text \<open>Every received symbol is used up or still pending.\<close>

definition used_up :: "lt_decoder \<Rightarrow> nat set \<Rightarrow> bool" where
  "used_up ld N \<longleftrightarrow> N \<subseteq> known ld \<or>
     (\<exists>p < length (ld_pending ld). snd (ld_pending ld ! p) \<noteq> [] \<and> set (snd (ld_pending ld ! p)) \<subseteq> N \<and>
        N \<subseteq> known ld \<union> set (snd (ld_pending ld ! p)))"

lemma used_up_known: "N \<subseteq> known ld \<Longrightarrow> used_up ld N"
  by (simp add: used_up_def)

lemma used_up_pending:
  "p < length (ld_pending ld) \<Longrightarrow> snd (ld_pending ld ! p) \<noteq> [] \<Longrightarrow> set (snd (ld_pending ld ! p)) \<subseteq> N \<Longrightarrow>
   N \<subseteq> known ld \<union> set (snd (ld_pending ld ! p)) \<Longrightarrow> used_up ld N"
  by (auto simp: used_up_def)

lemma used_upE:
  assumes "used_up ld N"
  obtains "N \<subseteq> known ld"
    | p where "p < length (ld_pending ld)" "snd (ld_pending ld ! p) \<noteq> []" "set (snd (ld_pending ld ! p)) \<subseteq> N"
        "N \<subseteq> known ld \<union> set (snd (ld_pending ld ! p))"
  using assms by (auto simp: used_up_def)

definition covered :: "nat set set \<Rightarrow> lt_decoder \<Rightarrow> bool" where
  "covered R ld \<longleftrightarrow> (\<forall>N \<in> R. used_up ld N)"

lemma peel_coreD:
  assumes "peel_core z T R ld queue E"
  shows "length (ld_decoded ld) = ld_k ld" "length (ld_references ld) = ld_k ld" "n < ld_k ld \<Longrightarrow> length (T n) = z"
    "n \<in> known ld \<Longrightarrow> ld_decoded ld ! n = Some (T n)" "ld_resolved ld = card (known ld)" "set queue \<subseteq> known ld"
    "known ld \<subseteq> peeled R" "p < length (ld_pending ld) \<Longrightarrow> entry_ok z T R ld queue E p"
  using assms by (simp_all add: peel_core_def)

lemma known_simps [simp]:
  "known (ld\<lparr>ld_pending := ps\<rparr>) = known ld" "known (ld\<lparr>ld_references := rs\<rparr>) = known ld"
  by (simp_all add: known_def)

lemma known_subset: "length (ld_decoded ld) = ld_k ld \<Longrightarrow> known ld \<subseteq> {..<ld_k ld}"
  by (auto simp: known_def)

lemma finite_known [simp]: "finite (known ld)"
  by (simp add: known_def)

definition learn :: "nat \<Rightarrow> byte list \<Rightarrow> lt_decoder \<Rightarrow> lt_decoder" where
  "learn r v ld = ld\<lparr>ld_decoded := (ld_decoded ld)[r := Some v], ld_resolved := ld_resolved ld + 1\<rparr>"

lemma learn_simps [simp]:
  "ld_k (learn r v ld) = ld_k ld" "ld_block_size (learn r v ld) = ld_block_size ld"
  "ld_stream_seed (learn r v ld) = ld_stream_seed ld" "ld_pending (learn r v ld) = ld_pending ld"
  "ld_references (learn r v ld) = ld_references ld"
  "length (ld_decoded (learn r v ld)) = length (ld_decoded ld)" "ld_resolved (learn r v ld) = ld_resolved ld + 1"
  "r < length (ld_decoded ld) \<Longrightarrow> known (learn r v ld) = insert r (known ld)"
  by (auto simp: learn_def known_def nth_list_update)

text \<open>Learning a block that the specification knows.\<close>

lemma peel_core_learn:
  assumes c: "peel_core z T R ld queue E" and r: "r < ld_k ld" "r \<notin> known ld" "r \<in> peeled R"
  shows "peel_core z T R (learn r (T r) ld) (queue @ [r]) E"
proof -
  note D = peel_coreD [OF c]
  have k: "known (learn r (T r) ld) = insert r (known ld)" using r(1) D(1) by simp
  have "entry_ok z T R (learn r (T r) ld) (queue @ [r]) E p" if "p < length (ld_pending ld)" for p
  proof -
    obtain v us where vu: "ld_pending ld ! p = (v, us)" by fastforce
    have old: "us = [] \<or> (2 \<le> length us \<and> distinct us \<and> set us \<subseteq> {..<ld_k ld} \<and> v = content z T us \<and>
        (\<forall>n \<in> set us. linked ld queue E n p) \<and> (\<exists>N \<in> R. set us \<subseteq> N \<and> N \<subseteq> known ld \<union> set us))"
      using D(8) [OF that] vu by (simp add: entry_ok_def)
    have link: "linked (learn r (T r) ld) (queue @ [r]) E n p" if "linked ld queue E n p" for n
      using that by (auto simp: linked_def k)
    have "\<exists>N \<in> R. set us \<subseteq> N \<and> N \<subseteq> insert r (known ld) \<union> set us" if "\<exists>N \<in> R. set us \<subseteq> N \<and> N \<subseteq> known ld \<union> set us"
      using that by (elim bexE conjE, intro bexI conjI) (assumption, rule subset_trans, assumption, blast)
    then show ?thesis using old link by (simp add: entry_ok_def vu k) blast
  qed
  moreover have "ld_decoded (learn r (T r) ld) ! n = Some (T n)" if "n \<in> insert r (known ld)" for n
    using that D(4) [of n] r(1) D(1) by (auto simp: learn_def nth_list_update)
  moreover have "ld_resolved (learn r (T r) ld) = card (insert r (known ld))" using D(5) r(2) by simp
  moreover have "set (queue @ [r]) \<subseteq> insert r (known ld)" "insert r (known ld) \<subseteq> peeled R" using D(6,7) r(3) by auto
  ultimately show ?thesis unfolding peel_core_def k using D(1-3) by simp
qed

lemma used_up_mono:
  assumes "used_up ld N" and "known ld \<subseteq> known ld'" and "ld_pending ld' = ld_pending ld"
  shows "used_up ld' N"
  using assms(1)
proof (cases rule: used_upE)
  case 1
  then show ?thesis using assms(2) by (intro used_up_known) (rule subset_trans)
next
  case (2 p)
  then show ?thesis by (intro used_up_pending [of p]) (use assms(2) in \<open>simp_all add: assms(3)\<close>, blast)
qed

lemma covered_learn: "covered R ld \<Longrightarrow> r < length (ld_decoded ld) \<Longrightarrow> covered R (learn r v ld)"
  unfolding covered_def by (metis learn_simps(4) learn_simps(8) subset_insertI used_up_mono)

lemma entry_ok_cong:
  "ld_pending ld' ! p = ld_pending ld ! p \<Longrightarrow> ld_k ld' = ld_k ld \<Longrightarrow> known ld' = known ld \<Longrightarrow>
   (\<And>n. n \<in> set (snd (ld_pending ld ! p)) \<Longrightarrow> linked ld queue E n p \<Longrightarrow> linked ld' queue' E' n p) \<Longrightarrow>
   entry_ok z T R ld queue E p \<Longrightarrow> entry_ok z T R ld' queue' E' p"
  by (cases "ld_pending ld ! p") (simp add: entry_ok_def, blast)

lemma linked_pending [simp]: "linked (ld\<lparr>ld_pending := ps\<rparr>) queue E n p = linked ld queue E n p"
  by (simp add: linked_def)

text \<open>Clearing a pending symbol whose blocks are all known.\<close>

lemma peel_core_clear:
  assumes c: "peel_core z T R ld queue E"
  shows "peel_core z T R (ld\<lparr>ld_pending := (ld_pending ld)[p := ([], [])]\<rparr>) queue E"
proof -
  note D = peel_coreD [OF c]
  have "entry_ok z T R (ld\<lparr>ld_pending := (ld_pending ld)[p := ([], [])]\<rparr>) queue E q" if q: "q < length (ld_pending ld)" for q
  proof (cases "q = p")
    case True
    then show ?thesis using q by (simp add: entry_ok_def)
  next
    case False
    show ?thesis by (rule entry_ok_cong [OF _ _ _ _ D(8) [OF q]]) (use False in simp_all)
  qed
  then show ?thesis using D(1-7) by (simp add: peel_core_def)
qed

lemma covered_clear:
  assumes c: "covered R ld" and "set (snd (ld_pending ld ! p)) \<subseteq> known ld"
  shows "covered R (ld\<lparr>ld_pending := (ld_pending ld)[p := ([], [])]\<rparr>)"
  unfolding covered_def
proof (intro ballI)
  fix N assume "N \<in> R"
  then have "used_up ld N" using c by (simp add: covered_def)
  then show "used_up (ld\<lparr>ld_pending := (ld_pending ld)[p := ([], [])]\<rparr>) N"
  proof (cases rule: used_upE)
    case (2 q)
    show ?thesis
    proof (cases "q = p")
      case True
      then show ?thesis using 2(4) assms(2) by (intro used_up_known) auto
    next
      case False
      then show ?thesis using 2 by (intro used_up_pending [of q]) simp_all
    qed
  qed (simp add: used_up_known)
qed

text \<open>Folding a known block out of a pending symbol that keeps two blocks.\<close>

lemma peel_core_fold:
  assumes c: "peel_core z T R ld queue E" and p: "p < length (ld_pending ld)" "ld_pending ld ! p = (v, us)"
    and b: "b \<in> known ld" and rest: "mset us = add_mset b (mset rest)" "2 \<le> length rest"
  shows "peel_core z T R (ld\<lparr>ld_pending := (ld_pending ld)[p := (content z T rest, rest)]\<rparr>) queue E"
proof -
  note D = peel_coreD [OF c]
  have us: "set us = insert b (set rest)" using mset_eq_setD [of us "b # rest"] rest(1) by simp
  have "us \<noteq> []" using rest by auto
  then have e: "distinct us" "set us \<subseteq> {..<ld_k ld}" "\<forall>n \<in> set us. linked ld queue E n p" "\<exists>N \<in> R. set us \<subseteq> N \<and> N \<subseteq> known ld \<union> set us"
    using D(8) [OF p(1)] unfolding entry_ok_def p(2) prod.case by simp_all
  have "distinct rest" using e(1) mset_eq_imp_distinct_iff [of us "b # rest"] rest(1) by simp
  obtain N where N: "N \<in> R" "set us \<subseteq> N" "N \<subseteq> known ld \<union> set us" using e(4) by (elim bexE conjE)
  have "set rest \<subseteq> N" "N \<subseteq> known ld \<union> set rest" using N(2,3) b unfolding us by auto
  then have "\<exists>N \<in> R. set rest \<subseteq> N \<and> N \<subseteq> known ld \<union> set rest" using N(1) by (intro bexI conjI)
  moreover have "set rest \<subseteq> {..<ld_k ld}" "\<forall>n \<in> set rest. linked ld queue E n p" using e(2,3) unfolding us by simp_all
  ultimately have new: "entry_ok z T R (ld\<lparr>ld_pending := (ld_pending ld)[p := (content z T rest, rest)]\<rparr>) queue E p"
    unfolding entry_ok_def using p(1) \<open>distinct rest\<close> rest(2) by simp
  have "entry_ok z T R (ld\<lparr>ld_pending := (ld_pending ld)[p := (content z T rest, rest)]\<rparr>) queue E q"
    if q: "q < length (ld_pending ld)" for q
  proof (cases "q = p")
    case False
    show ?thesis by (rule entry_ok_cong [OF _ _ _ _ D(8) [OF q]]) (use False in simp_all)
  qed (use new in simp)
  then show ?thesis using D(1-7) by (simp add: peel_core_def)
qed

lemma covered_fold:
  assumes c: "covered R ld" and p: "p < length (ld_pending ld)" "ld_pending ld ! p = (v, us)"
    and b: "b \<in> known ld" and rest: "set us = insert b (set rest)" "rest \<noteq> []"
  shows "covered R (ld\<lparr>ld_pending := (ld_pending ld)[p := (w, rest)]\<rparr>)"
  unfolding covered_def
proof (intro ballI)
  let ?ld = "ld\<lparr>ld_pending := (ld_pending ld)[p := (w, rest)]\<rparr>"
  fix N assume "N \<in> R"
  then have "used_up ld N" using c by (simp add: covered_def)
  then show "used_up ?ld N"
  proof (cases rule: used_upE)
    case (2 q)
    show ?thesis
    proof (cases "q = p")
      case True
      then have "set us \<subseteq> N" "N \<subseteq> known ld \<union> set us" using 2 p(2) by simp_all
      then have "set rest \<subseteq> N" "N \<subseteq> known ld \<union> set rest" using rest(1) b by auto
      then show ?thesis using p(1) rest(2) by (intro used_up_pending [of p]) simp_all
    next
      case False
      then show ?thesis using 2 by (intro used_up_pending [of q]) simp_all
    qed
  qed (simp add: used_up_known)
qed

text \<open>A reference that has been followed is no longer owed.\<close>

lemma peel_core_shrink:
  assumes c: "peel_core z T R ld queue ({b} \<times> set (p # ps))"
    and gone: "p < length (ld_pending ld) \<Longrightarrow> b \<notin> set (snd (ld_pending ld ! p))"
  shows "peel_core z T R ld queue ({b} \<times> set ps)"
proof -
  note D = peel_coreD [OF c]
  have "entry_ok z T R ld queue ({b} \<times> set ps) q" if q: "q < length (ld_pending ld)" for q
    by (rule entry_ok_cong [OF refl refl refl _ D(8) [OF q]]) (use gone q in \<open>auto simp: linked_def\<close>)
  then show ?thesis using D(1-7) by (simp add: peel_core_def)
qed

text \<open>What every step keeps.\<close>

definition same_stream :: "lt_decoder \<Rightarrow> lt_decoder \<Rightarrow> bool" where
  "same_stream ld ld' \<longleftrightarrow> ld_k ld' = ld_k ld \<and> ld_block_size ld' = ld_block_size ld \<and> ld_stream_seed ld' = ld_stream_seed ld"

lemma same_stream_trans: "same_stream a b \<Longrightarrow> same_stream b c \<Longrightarrow> same_stream a c"
  by (simp add: same_stream_def)

definition peel_inv :: "nat \<Rightarrow> (nat \<Rightarrow> byte list) \<Rightarrow> nat set set \<Rightarrow> lt_decoder \<Rightarrow> nat list \<Rightarrow> (nat \<times> nat) set \<Rightarrow> bool" where
  "peel_inv z T R ld queue E \<longleftrightarrow> peel_core z T R ld queue E \<and> covered R ld"

lemma peel_inv_entry:
  assumes inv: "peel_inv z T R ld queue ({b} \<times> set (p # ps))" and b: "b \<in> known ld"
  shows "\<exists>ld' queue'. peel_entry b (T b) p (ld, queue) = Some (ld', queue') \<and> peel_inv z T R ld' queue' ({b} \<times> set ps) \<and>
    known ld \<subseteq> known ld' \<and> same_stream ld ld'"
proof -
  have c: "peel_core z T R ld queue ({b} \<times> set (p # ps))" and cov: "covered R ld" using inv by (simp_all add: peel_inv_def)
  note D = peel_coreD [OF c]
  obtain v us where vu: "ld_pending ld ! p = (v, us)" by fastforce
  show ?thesis
  proof (cases "p < length (ld_pending ld) \<and> b \<in> set us")
    case False
    have "peel_core z T R ld queue ({b} \<times> set ps)" by (rule peel_core_shrink [OF c]) (use False vu in simp)
    moreover have "peel_entry b (T b) p (ld, queue) = Some (ld, queue)"
    proof (cases "p < length (ld_pending ld) \<and> us \<noteq> []")
      case True
      then have "length us \<noteq> 1" using D(8) [of p] vu by (auto simp: entry_ok_def)
      moreover have "(ld_pending ld)[p := (v, us)] = ld_pending ld" using vu list_update_id [of "ld_pending ld" p] by simp
      ultimately show ?thesis using True False vu by (simp add: peel_entry_def)
    qed (auto simp: peel_entry_def vu)
    ultimately show ?thesis using cov by (simp add: peel_inv_def same_stream_def)
  next
    case True
    then have p: "p < length (ld_pending ld)" and bus: "b \<in> set us" by simp_all
    have "us \<noteq> []" using bus by auto
    then have e: "2 \<le> length us" "distinct us" "set us \<subseteq> {..<ld_k ld}" "v = content z T us"
        "\<exists>N \<in> R. set us \<subseteq> N \<and> N \<subseteq> known ld \<union> set us"
      using D(8) [OF p] unfolding entry_ok_def vu prod.case by simp_all
    let ?j = "length (takeWhile (\<lambda>x. x \<noteq> b) us)"
    let ?rest = "snd (swap_remove ?j us)"
    have j: "?j < length us" using bus by (induction us) auto
    have "us ! ?j = b" using nth_length_takeWhile [OF j] by simp
    then have m: "mset us = add_mset b (mset ?rest)" using mset_swap_remove [OF j] by simp
    then have len: "length us = Suc (length ?rest)" using mset_eq_length [of us "b # ?rest"] m by simp
    have us: "set us = insert b (set ?rest)" using mset_eq_setD [of us "b # ?rest"] m by simp
    have bn: "b \<notin> set ?rest" using e(2) mset_eq_imp_distinct_iff [of us "b # ?rest"] m by simp
    have val: "xor_into v (T b) = content z T ?rest" unfolding e(4) by (rule content_remove [OF bus])
    show ?thesis
    proof (cases "length ?rest = 1")
      case False
      let ?ld = "ld\<lparr>ld_pending := (ld_pending ld)[p := (content z T ?rest, ?rest)]\<rparr>"
      have two: "2 \<le> length ?rest" using False e(1) len by linarith
      then have ne: "?rest \<noteq> []" by (intro notI) simp
      note peel_core_fold [OF c p vu b m two] covered_fold [OF cov p vu b us ne, of "content z T ?rest"]
      moreover have "peel_core z T R ?ld queue ({b} \<times> set ps)"
        by (rule peel_core_shrink [OF calculation(1)]) (use p bn in simp)
      moreover have "peel_entry b (T b) p (ld, queue) = Some (?ld, queue)"
        using False p vu bus \<open>us \<noteq> []\<close> val by (simp add: peel_entry_def)
      ultimately show ?thesis by (simp add: peel_inv_def same_stream_def)
    next
      case True
      then obtain r where r: "?rest = [r]" by (auto simp: length_Suc_conv)
      have rk: "r < ld_k ld" using e(3) us r by auto
      have v: "content z T ?rest = T r" unfolding r by (rule content_single) (rule D(3) [OF rk])
      have hd: "hd ?rest = r" using r by simp
      show ?thesis
      proof (cases "r \<in> known ld")
        case True
        let ?ld = "ld\<lparr>ld_pending := (ld_pending ld)[p := ([], [])]\<rparr>"
        have "peel_core z T R ?ld queue ({b} \<times> set (p # ps))" "covered R ?ld"
          using peel_core_clear [OF c] covered_clear [OF cov, of p] vu us r b True by simp_all
        moreover have "peel_core z T R ?ld queue ({b} \<times> set ps)"
          by (rule peel_core_shrink [OF calculation(1)]) (use p in simp)
        moreover have "ld_decoded ld ! r \<noteq> None" "\<not> length (ld_decoded ld) \<le> r" using True rk D(1) by (simp_all add: known_def)
        then have "peel_entry b (T b) p (ld, queue) = Some (?ld, queue)"
          using p vu bus \<open>us \<noteq> []\<close> val \<open>length ?rest = 1\<close> hd by (auto simp: peel_entry_def Let_def)
        ultimately show ?thesis by (simp add: peel_inv_def same_stream_def)
      next
        case False
        let ?ld1 = "learn r (T r) ld"
        let ?ld = "?ld1\<lparr>ld_pending := (ld_pending ?ld1)[p := ([], [])]\<rparr>"
        obtain N where N: "N \<in> R" "set us \<subseteq> N" "N \<subseteq> known ld \<union> set us" using e(5) by blast
        have "r \<in> peeled R"
          by (rule peeled.peel [OF N(1)]) (use N us r b D(7) in auto)
        then have c1: "peel_core z T R ?ld1 (queue @ [r]) ({b} \<times> set (p # ps))"
          by (rule peel_core_learn [OF c rk False])
        have cov1: "covered R ?ld1" using cov rk D(1) by (simp add: covered_learn)
        have k1: "known ?ld1 = insert r (known ld)" using rk D(1) by simp
        have "peel_core z T R ?ld (queue @ [r]) ({b} \<times> set (p # ps))" "covered R ?ld"
          using peel_core_clear [OF c1] covered_clear [OF cov1, of p] vu us r b k1 by simp_all
        moreover have "peel_core z T R ?ld (queue @ [r]) ({b} \<times> set ps)"
          by (rule peel_core_shrink [OF calculation(1)]) (use p in simp)
        moreover have "ld_decoded ld ! r = None" "\<not> length (ld_decoded ld) \<le> r" using False rk D(1) by (simp_all add: known_def)
        then have "peel_entry b (T b) p (ld, queue) = Some (?ld, queue @ [r])"
          using p vu bus \<open>us \<noteq> []\<close> val \<open>length ?rest = 1\<close> hd v by (simp add: peel_entry_def learn_def Let_def)
        ultimately show ?thesis using k1 by (auto simp: peel_inv_def same_stream_def)
      qed
    qed
  qed
qed

lemma peel_inv_refs:
  "peel_inv z T R ld queue ({b} \<times> set ps) \<Longrightarrow> b \<in> known ld \<Longrightarrow>
   \<exists>ld' queue'. peel_refs b (T b) ps (ld, queue) = Some (ld', queue') \<and> peel_inv z T R ld' queue' {} \<and> same_stream ld ld'"
proof (induction ps arbitrary: ld queue)
  case (Cons p ps)
  obtain ld1 queue1 where s: "peel_entry b (T b) p (ld, queue) = Some (ld1, queue1)" "peel_inv z T R ld1 queue1 ({b} \<times> set ps)"
    "known ld \<subseteq> known ld1" "same_stream ld ld1"
    using peel_inv_entry [OF Cons.prems] by blast
  have "b \<in> known ld1" using s(3) Cons.prems(2) by blast
  from Cons.IH [OF s(2) this] obtain ld' queue' where t: "peel_refs b (T b) ps (ld1, queue1) = Some (ld', queue')"
    "peel_inv z T R ld' queue' {}" "same_stream ld1 ld'" by blast
  show ?case using s(1) t(1,2) same_stream_trans [OF s(4) t(3)] by simp
qed (simp add: same_stream_def)

lemma peel_core_pop:
  assumes c: "peel_core z T R ld queue {}" and q: "queue \<noteq> []"
  shows "peel_core z T R (ld\<lparr>ld_references := (ld_references ld)[last queue := []]\<rparr>) (butlast queue)
    ({last queue} \<times> set (ld_references ld ! last queue))"
proof -
  let ?b = "last queue"
  let ?ld = "ld\<lparr>ld_references := (ld_references ld)[?b := []]\<rparr>"
  note D = peel_coreD [OF c]
  have mem: "n \<in> set (butlast queue)" if "n \<in> set queue" "n \<noteq> ?b" for n
    using that q by (cases queue rule: rev_cases) auto
  have "entry_ok z T R ?ld (butlast queue) ({?b} \<times> set (ld_references ld ! ?b)) p" if p: "p < length (ld_pending ld)" for p
  proof (rule entry_ok_cong [OF _ _ _ _ D(8) [OF p]])
    fix n assume "linked ld queue {} n p"
    then show "linked ?ld (butlast queue) ({?b} \<times> set (ld_references ld ! ?b)) n p"
      by (cases "n = ?b") (auto simp: linked_def intro: mem)
  qed simp_all
  moreover have "set (butlast queue) \<subseteq> known ld" using D(6) in_set_butlastD [of _ queue] by blast
  ultimately show ?thesis using D(1-5,7) by (simp add: peel_core_def)
qed

lemma peel_inv_ripple:
  "peel_inv z T R ld queue {} \<Longrightarrow> \<exists>ld'. ripple ld queue = Some ld' \<and> peel_inv z T R ld' [] {} \<and> same_stream ld ld'"
proof (induction ld queue rule: ripple.induct)
  case (1 ld queue)
  show ?case
  proof (cases "queue = []")
    case True
    then show ?thesis using 1(2) by (subst ripple.simps) (simp add: same_stream_def)
  next
    case False
    let ?b = "last queue" and ?ld = "ld\<lparr>ld_references := (ld_references ld)[last queue := []]\<rparr>"
    have c: "peel_core z T R ld queue {}" and cov: "covered R ld" using 1(2) by (simp_all add: peel_inv_def)
    note D = peel_coreD [OF c]
    have b: "?b \<in> known ld" using D(6) False by (meson last_in_set subsetD)
    have "covered R ?ld" using cov unfolding covered_def by (metis known_simps(2) order_refl used_up_mono lt_decoder.ext_inject lt_decoder.surjective lt_decoder.update_convs(6))
    then have inv: "peel_inv z T R ?ld (butlast queue) ({?b} \<times> set (ld_references ld ! ?b))"
      using peel_core_pop [OF c False] by (simp add: peel_inv_def)
    have "?b \<in> known ?ld" using b by simp
    from peel_inv_refs [OF inv this] obtain ld1 queue1 where
      r: "peel_refs ?b (T ?b) (ld_references ld ! ?b) (?ld, butlast queue) = Some (ld1, queue1)" "peel_inv z T R ld1 queue1 {}"
        "same_stream ?ld ld1" by blast
    have d: "ld_decoded ?ld ! ?b = Some (T ?b)" using D(4) [OF b] by simp
    from 1(1) [OF False refl refl refl refl d r(1) refl r(2)] obtain ld' where
      t: "ripple ld1 queue1 = Some ld'" "peel_inv z T R ld' [] {}" "same_stream ld1 ld'" by blast
    have "ripple ld queue = Some ld'" using False d r(1) t(1) by (subst ripple.simps) (simp add: Let_def)
    moreover have "same_stream ld ld'" using r(3) t(3) by (simp add: same_stream_def)
    ultimately show ?thesis using t(2) by blast
  qed
qed

text \<open>At rest the decoder knows exactly what the specification knows.\<close>

lemma peel_inv_exact:
  assumes "peel_inv z T R ld [] {}"
  shows "known ld = peeled R"
proof (rule set_eqI, rule iffI)
  have c: "peel_core z T R ld [] {}" and cov: "covered R ld" using assms by (simp_all add: peel_inv_def)
  note D = peel_coreD [OF c]
  fix n
  show "n \<in> peeled R" if "n \<in> known ld" using D(7) that by blast
  assume "n \<in> peeled R"
  then show "n \<in> known ld"
  proof induction
    case (peel N n)
    have "used_up ld N" using cov peel(1) by (simp add: covered_def)
    then show ?case
    proof (cases rule: used_upE)
      case 1
      then show ?thesis using peel(2) by blast
    next
      case (2 p)
      let ?us = "snd (ld_pending ld ! p)"
      obtain v where v: "ld_pending ld ! p = (v, ?us)" by (metis prod.collapse)
      have e: "2 \<le> length ?us" "distinct ?us" "\<forall>m \<in> set ?us. linked ld [] {} m p"
        using D(8) [OF 2(1)] 2(2) v by (auto simp: entry_ok_def split: prod.splits)
      then have fresh: "m \<notin> known ld" if "m \<in> set ?us" for m using that by (auto simp: linked_def)
      have "\<not> set ?us \<subseteq> {n}" using e(1,2) card_mono [of "{n}" "set ?us"] distinct_card [OF e(2)] by auto
      then obtain m where "m \<in> set ?us" "m \<noteq> n" by blast
      then show ?thesis using peel(4) 2(3) fresh by blast
    qed
  qed
qed

section \<open>Receiving\<close>

lemma peel_core_mono:
  assumes c: "peel_core z T R ld queue E" and sub: "R \<subseteq> R'"
  shows "peel_core z T R' ld queue E"
proof -
  note D = peel_coreD [OF c]
  have "entry_ok z T R' ld queue E p" if "p < length (ld_pending ld)" for p
    using D(8) [OF that] sub by (cases "ld_pending ld ! p") (simp add: entry_ok_def, blast)
  then show ?thesis using D(1-7) peeled_mono [OF sub] by (auto simp: peel_core_def)
qed

lemma fold_known_content:
  "\<forall>n \<in> set ns. decoded ! n = None \<or> decoded ! n = Some (T n) \<Longrightarrow>
   fold_known decoded ns (content z T (us @ ns)) us =
     (content z T (us @ filter (\<lambda>n. decoded ! n = None) ns), us @ filter (\<lambda>n. decoded ! n = None) ns)"
proof (induction ns arbitrary: us)
  case (Cons n ns)
  show ?case
  proof (cases "decoded ! n")
    case None
    then show ?thesis using Cons.IH [of "us @ [n]"] Cons.prems by simp
  next
    case (Some d)
    then have "d = T n" using Cons.prems by simp
    have "mset (us @ n # ns) = mset ((us @ ns) @ [n])" by simp
    then have "content z T (us @ n # ns) = xor_into (content z T (us @ ns)) (T n)" by (metis content_mset content_snoc)
    then show ?thesis using Cons.IH [of us] Cons.prems Some \<open>d = T n\<close> by simp
  qed
qed simp

lemma length_add_references: "length (fold (\<lambda>n rs. rs[n := rs ! n @ [idx]]) us rs) = length rs"
  by (induction us arbitrary: rs) simp_all

lemma nth_add_references:
  "distinct us \<Longrightarrow> set us \<subseteq> {..<length rs} \<Longrightarrow> m < length rs \<Longrightarrow>
   length (fold (\<lambda>n rs. rs[n := rs ! n @ [idx]]) us rs) = length rs \<and>
   fold (\<lambda>n rs. rs[n := rs ! n @ [idx]]) us rs ! m = rs ! m @ (if m \<in> set us then [idx] else [])"
  by (induction us arbitrary: rs) (auto simp: nth_list_update)

lemma push_symbol_ok:
  assumes inv: "peel_inv z T R ld [] {}" and z: "ld_block_size ld = z"
    and ns: "neighbors deg i (ld_k ld) (ld_stream_seed ld) = Some ns" "distinct ns" "set ns \<subseteq> {..<ld_k ld}"
  shows "\<exists>ld'. push_symbol deg i (content z T ns) ld = Some (Inr ld') \<and> peel_inv z T (insert (set ns) R) ld' [] {} \<and> same_stream ld ld'"
proof -
  let ?R = "insert (set ns) R"
  have c: "peel_core z T R ld [] {}" and cov: "covered R ld" using inv by (simp_all add: peel_inv_def)
  note D = peel_coreD [OF c]
  have c': "peel_core z T ?R ld [] {}" by (rule peel_core_mono [OF c]) blast
  let ?us = "filter (\<lambda>n. ld_decoded ld ! n = None) ns"
  have u: "set ?us = set ns - known ld" using ns(3) D(1) by (auto simp: known_def)
  have us: "distinct ?us" "set ?us \<subseteq> {..<ld_k ld}" "set ?us \<subseteq> set ns" "set ns \<subseteq> known ld \<union> set ?us"
    using ns(2,3) u by (simp_all add: subset_iff) 
  have "\<forall>n \<in> set ns. ld_decoded ld ! n = None \<or> ld_decoded ld ! n = Some (T n)"
  proof
    fix n assume "n \<in> set ns"
    then have "n < length (ld_decoded ld)" using ns(3) D(1) by auto
    then show "ld_decoded ld ! n = None \<or> ld_decoded ld ! n = Some (T n)"
      using D(4) [of n] by (cases "ld_decoded ld ! n = None") (simp_all add: known_def)
  qed
  from fold_known_content [OF this, of z "[]"]
  have fk: "fold_known (ld_decoded ld) ns (content z T ns) [] = (content z T ?us, ?us)" by simp
  consider "length ?us = 0" | "length ?us = 1" | "2 \<le> length ?us" by linarith
  then show ?thesis
  proof cases
    case 1
    then have "set ns \<subseteq> known ld" using us(4) by simp
    then have "covered ?R ld" using cov by (simp add: covered_def used_up_known)
    then show ?thesis using c' 1 fk z ns(1) by (simp add: push_symbol_def peel_inv_def same_stream_def)
  next
    case 2
    then obtain r where r: "?us = [r]" by (auto simp: length_Suc_conv)
    have rk: "r < ld_k ld" "r \<notin> known ld" "r \<in> set ns" using us(2,3) u r by auto
    have "r \<in> peeled ?R"
    proof (rule peeled.peel [of "set ns"])
      show "m \<in> peeled ?R" if "m \<in> set ns" "m \<noteq> r" for m
        using that us(4) r peel_coreD(7) [OF c'] by auto
    qed (use rk in simp_all)
    then have c1: "peel_core z T ?R (learn r (T r) ld) [r] {}" using peel_core_learn [OF c' rk(1,2)] by simp
    have k1: "known (learn r (T r) ld) = insert r (known ld)" using rk(1) D(1) by simp
    then have "set ns \<subseteq> known (learn r (T r) ld)" using us(4) r by auto
    moreover have "covered R (learn r (T r) ld)" using cov rk(1) D(1) by (simp add: covered_learn)
    ultimately have "peel_inv z T ?R (learn r (T r) ld) [r] {}" using c1 by (simp add: peel_inv_def covered_def used_up_known)
    from peel_inv_ripple [OF this] obtain ld' where
      t: "ripple (learn r (T r) ld) [r] = Some ld'" "peel_inv z T ?R ld' [] {}" "same_stream (learn r (T r) ld) ld'" by blast
    have "content z T ?us = T r" unfolding r by (rule content_single) (rule D(3) [OF rk(1)])
    then have "push_symbol deg i (content z T ns) ld = Some (Inr ld')"
      using fk r t(1) z ns(1) by (simp add: push_symbol_def resolve_def learn_def)
    then show ?thesis using t(2,3) by (simp add: same_stream_def)
  next
    case 3
    then have ne: "?us \<noteq> []" by (metis list.size(3) not_numeral_le_zero)
    let ?idx = "length (ld_pending ld)"
    let ?refs = "fold (\<lambda>n rs. rs[n := rs ! n @ [?idx]]) ?us (ld_references ld)"
    let ?ld = "ld\<lparr>ld_references := ?refs, ld_pending := ld_pending ld @ [(content z T ?us, ?us)]\<rparr>"
    have len: "length ?refs = ld_k ld"
      by (simp add: length_add_references D(2))
    have refs: "?refs ! m = ld_references ld ! m @ (if m \<in> set ?us then [?idx] else [])" if "m < ld_k ld" for m
      using nth_add_references [OF us(1), of "ld_references ld" m ?idx] us(2) that D(2) by simp
    have "entry_ok z T ?R ?ld [] {} p" if p: "p < length (ld_pending ?ld)" for p
    proof (cases "p = ?idx")
      case True
      have "\<exists>N \<in> ?R. set ?us \<subseteq> N \<and> N \<subseteq> known ld \<union> set ?us" using us(3,4) by (intro bexI [of _ "set ns"]) simp_all
      moreover have "\<forall>n \<in> set ?us. linked ?ld [] {} n ?idx"
      proof
        fix n assume n: "n \<in> set ?us"
        have "n < ld_k ld" using subsetD [OF us(2) n] by simp
        have "n \<in> set ns - known ld" using n by (simp only: u)
        then have "n \<notin> known ld" by simp
        moreover have "?idx \<in> set (?refs ! n)" unfolding refs [OF \<open>n < ld_k ld\<close>] using n by simp
        ultimately show "linked ?ld [] {} n ?idx" by (simp add: linked_def)
      qed
      ultimately show ?thesis using True 3 us(1,2) by (simp add: entry_ok_def)
    next
      case False
      then have q: "p < ?idx" using p by simp
      have "n < ld_k ld" if "n \<in> set (snd (ld_pending ld ! p))" for n
        using peel_coreD(8) [OF c' q] that by (auto simp: entry_ok_def split: prod.splits)
      then show ?thesis
        by (intro entry_ok_cong [OF _ _ _ _ peel_coreD(8) [OF c' q]]) (use q refs in \<open>auto simp: nth_append linked_def\<close>)
    qed
    then have "peel_core z T ?R ?ld [] {}" using peel_coreD(1-7) [OF c'] len by (simp add: peel_core_def)
    moreover have "used_up ?ld N" if "N \<in> ?R" for N
    proof (cases "N = set ns")
      case True
      have pend: "ld_pending ?ld ! ?idx = (content z T ?us, ?us)" by simp
      have "snd (ld_pending ?ld ! ?idx) \<noteq> []" unfolding pend snd_conv by (rule ne)
      moreover have "set (snd (ld_pending ?ld ! ?idx)) \<subseteq> N" "N \<subseteq> known ?ld \<union> set (snd (ld_pending ?ld ! ?idx))"
        unfolding pend snd_conv True using us(3,4) by simp_all
      ultimately show ?thesis by (intro used_up_pending [of ?idx]) simp
    next
      case False
      then have "used_up ld N" using cov that by (simp add: covered_def)
      then show ?thesis
      proof (cases rule: used_upE)
        case 1
        then show ?thesis by (intro used_up_known) simp
      next
        case (2 p)
        then show ?thesis by (intro used_up_pending [of p]) (simp_all add: nth_append)
      qed
    qed
    ultimately have "peel_inv z T ?R ?ld [] {}" by (simp add: peel_inv_def covered_def)
    moreover have "push_symbol deg i (content z T ns) ld = Some (Inr ?ld)"
      using 3 ne fk z ns(1) by (simp only: push_symbol_def Let_def length_content prod.case option.case) simp
    ultimately show ?thesis by (auto simp: same_stream_def)
  qed
qed

section \<open>The property\<close>

text \<open>Pushing the symbols \<open>ids\<close> of an encoder, in this order.\<close>

fun receive :: "(nat \<Rightarrow> u64 \<Rightarrow> nat) \<Rightarrow> lt_encoder \<Rightarrow> u64 list \<Rightarrow> lt_decoder \<Rightarrow> (lt_error + lt_decoder) option" where
  "receive deg e [] ld = Some (Inr ld)"
| "receive deg e (i # ids) ld =
     (case encode_symbol deg e i of
        None \<Rightarrow> None
      | Some bytes \<Rightarrow>
          (case push_symbol deg i bytes ld of
             None \<Rightarrow> None
           | Some (Inl err) \<Rightarrow> Some (Inl err)
           | Some (Inr ld) \<Rightarrow> receive deg e ids ld))"

definition symbol_sets :: "(nat \<Rightarrow> u64 \<Rightarrow> nat) \<Rightarrow> lt_encoder \<Rightarrow> u64 set \<Rightarrow> nat set set" where
  "symbol_sets deg e ids = {set ns |ns i. i \<in> ids \<and> neighbors deg i (length (en_blocks e)) (en_stream_seed e) = Some ns}"

definition encoder_ok :: "lt_encoder \<Rightarrow> bool" where
  "encoder_ok e \<longleftrightarrow> 0 < length (en_blocks e) \<and> length (en_blocks e) < 2 ^ 64 \<and> (\<forall>b \<in> set (en_blocks e). length b = en_block_size e)"

text \<open>A decoder that has received the symbols \<open>ids\<close> of \<open>e\<close>, in some order, and is at rest.\<close>

definition decoder_holds :: "(nat \<Rightarrow> u64 \<Rightarrow> nat) \<Rightarrow> lt_encoder \<Rightarrow> u64 set \<Rightarrow> lt_decoder \<Rightarrow> bool" where
  "decoder_holds deg e ids ld \<longleftrightarrow>
     encoder_ok e \<and> ld_k ld = length (en_blocks e) \<and> ld_block_size ld = en_block_size e \<and> ld_stream_seed ld = en_stream_seed e \<and>
     peel_inv (en_block_size e) (\<lambda>n. en_blocks e ! n) (symbol_sets deg e ids) ld [] {}"

lemma decoder_holds_new:
  "encoder_ok e \<Longrightarrow> decoder_holds deg e {} (new_decoder (length (en_blocks e)) (en_block_size e) (en_stream_seed e))"
  by (auto simp: decoder_holds_def new_decoder_def peel_inv_def peel_core_def covered_def known_def encoder_ok_def symbol_sets_def)

lemma encode_push:
  assumes h: "decoder_holds deg e ids ld"
  shows "\<exists>bytes ld'. encode_symbol deg e i = Some bytes \<and> length bytes = en_block_size e \<and>
    push_symbol deg i bytes ld = Some (Inr ld') \<and> decoder_holds deg e (insert i ids) ld'"
proof -
  let ?k = "length (en_blocks e)" and ?T = "\<lambda>n. en_blocks e ! n"
  have e: "encoder_ok e" using h by (simp add: decoder_holds_def)
  obtain ns where ns: "neighbors deg i ?k (en_stream_seed e) = Some ns" "distinct ns" "set ns \<subseteq> {..<?k}"
    using neighbors_ok [of ?k deg i "en_stream_seed e"] e by (auto simp: encoder_ok_def)
  have enc: "encode_symbol deg e i = Some (content (en_block_size e) ?T ns)"
    using ns(1) by (simp add: encode_symbol_def content_def)
  have p: "ld_k ld = ?k" "ld_block_size ld = en_block_size e" "ld_stream_seed ld = en_stream_seed e"
      "peel_inv (en_block_size e) ?T (symbol_sets deg e ids) ld [] {}"
    using h by (simp_all add: decoder_holds_def)
  obtain ld' where ld': "push_symbol deg i (content (en_block_size e) ?T ns) ld = Some (Inr ld')"
      "peel_inv (en_block_size e) ?T (insert (set ns) (symbol_sets deg e ids)) ld' [] {}" "same_stream ld ld'"
    using push_symbol_ok [OF p(4,2), of deg i ns] ns p(1,3) by auto
  have "symbol_sets deg e (insert i ids) = insert (set ns) (symbol_sets deg e ids)"
    using ns(1) by (auto simp: symbol_sets_def)
  then have "decoder_holds deg e (insert i ids) ld'" using e ld'(2,3) p(1-3) by (simp add: decoder_holds_def same_stream_def)
  then show ?thesis using enc ld'(1) by simp
qed

lemma receive_holds:
  "decoder_holds deg e ids ld \<Longrightarrow>
   \<exists>ld'. receive deg e new ld = Some (Inr ld') \<and> decoder_holds deg e (ids \<union> set new) ld'"
proof (induction new arbitrary: ids ld)
  case (Cons i new)
  obtain bytes ld1 where s: "encode_symbol deg e i = Some bytes" "push_symbol deg i bytes ld = Some (Inr ld1)"
    "decoder_holds deg e (insert i ids) ld1" using encode_push [OF Cons.prems, of i] by blast
  then show ?case using Cons.IH [OF s(3)] by simp
qed simp

definition recovered :: "(nat \<Rightarrow> u64 \<Rightarrow> nat) \<Rightarrow> lt_encoder \<Rightarrow> u64 set \<Rightarrow> nat set" where
  "recovered deg e ids = peeled (symbol_sets deg e ids)"

lemma card_below_iff: "S \<subseteq> {..<n} \<Longrightarrow> card S < n \<longleftrightarrow> S \<noteq> {..<n}"
  using psubset_card_mono [of "{..<n}" S] by auto

lemma decoder_holds_resolved:
  assumes "decoder_holds deg e ids ld"
  shows "recovered deg e ids \<subseteq> {..<length (en_blocks e)}" and "ld_resolved ld = card (recovered deg e ids)"
    and "ld_resolved ld < ld_k ld \<longleftrightarrow> recovered deg e ids \<noteq> {..<length (en_blocks e)}"
proof -
  have p: "ld_k ld = length (en_blocks e)" "peel_inv (en_block_size e) (\<lambda>n. en_blocks e ! n) (symbol_sets deg e ids) ld [] {}"
    using assms by (simp_all add: decoder_holds_def)
  have k: "known ld = recovered deg e ids" unfolding recovered_def by (rule peel_inv_exact [OF p(2)])
  have c: "peel_core (en_block_size e) (\<lambda>n. en_blocks e ! n) (symbol_sets deg e ids) ld [] {}" using p(2) by (simp add: peel_inv_def)
  note D = peel_coreD [OF c]
  show s: "recovered deg e ids \<subseteq> {..<length (en_blocks e)}" using known_subset [OF D(1)] k p(1) by simp
  show r: "ld_resolved ld = card (recovered deg e ids)" using D(5) k by simp
  show "ld_resolved ld < ld_k ld \<longleftrightarrow> recovered deg e ids \<noteq> {..<length (en_blocks e)}"
    unfolding r p(1) by (rule card_below_iff [OF s])
qed

lemma decoder_holds_finish:
  assumes "decoder_holds deg e ids ld"
  shows "lt_finish ld = (if recovered deg e ids = {..<length (en_blocks e)} then Some (Inr (concat (en_blocks e)))
    else Some (Inl (DecodeIncomplete (card (recovered deg e ids)) (length (en_blocks e)))))"
proof -
  note R = decoder_holds_resolved [OF assms]
  have p: "ld_k ld = length (en_blocks e)" "peel_inv (en_block_size e) (\<lambda>n. en_blocks e ! n) (symbol_sets deg e ids) ld [] {}"
    using assms by (simp_all add: decoder_holds_def)
  have k: "known ld = recovered deg e ids" unfolding recovered_def by (rule peel_inv_exact [OF p(2)])
  have c: "peel_core (en_block_size e) (\<lambda>n. en_blocks e ! n) (symbol_sets deg e ids) ld [] {}" using p(2) by (simp add: peel_inv_def)
  note D = peel_coreD [OF c]
  show ?thesis
  proof (cases "recovered deg e ids = {..<length (en_blocks e)}")
    case True
    have dec: "ld_decoded ld = map Some (en_blocks e)"
    proof (rule nth_equalityI)
      fix n assume "n < length (ld_decoded ld)"
      then have n: "n < length (en_blocks e)" using D(1) p(1) by simp
      then have "n \<in> known ld" using k True by simp
      then show "ld_decoded ld ! n = map Some (en_blocks e) ! n" using D(4) [of n] n by simp
    qed (simp add: D(1) p(1))
    have "\<not> ld_resolved ld < ld_k ld" using True R(3) by simp
    moreover have "None \<notin> set (ld_decoded ld)" unfolding dec by auto
    moreover have "map the (ld_decoded ld) = en_blocks e" unfolding dec by (simp add: o_def)
    ultimately show ?thesis using True by (simp add: lt_finish_def)
  next
    case False
    then show ?thesis using R(2,3) p(1) by (simp add: lt_finish_def)
  qed
qed

section \<open>Blocks of a payload\<close>

lemma blocks_ceil_le: "0 < z \<Longrightarrow> n \<le> blocks_ceil n z * z"
proof -
  assume "0 < z"
  then have "n mod z \<le> z" by simp
  then have a: "n \<le> n div z * z + z" using div_mult_mod_eq [of n z] by linarith
  have b: "n = n div z * z" if "n mod z = 0" using that div_mult_mod_eq [of n z] by linarith
  show ?thesis using a b by (cases "n mod z = 0") (simp_all add: blocks_ceil_def add_mult_distrib)
qed

lemma length_block_at: "0 < z \<Longrightarrow> length (block_at payload z i) = z"
  by (auto simp: block_at_def Let_def min_def)

lemma concat_blocks:
  "concat (map (block_at payload z) [0..<k]) = take (k * z) payload @ replicate (k * z - length payload) 0"
proof (induction k)
  case (Suc k)
  have b: "block_at payload z k = take z (drop (k * z) payload) @ replicate (z - (length payload - k * z)) 0"
  proof (cases "k * z \<le> length payload")
    case True
    have t: "min ((k + 1) * z) (length payload) - k * z = min z (length payload - k * z)" using True by (simp add: min_def) linarith
    have tk: "take (min z (length payload - k * z)) (drop (k * z) payload) = take z (drop (k * z) payload)"
      by (simp add: min_def)
    have c: "k * z \<le> min ((k + 1) * z) (length payload) \<and> min ((k + 1) * z) (length payload) \<le> length payload"
      using True by simp
    have "z - length (take z (drop (k * z) payload)) = z - (length payload - k * z)" by (simp add: min_def)
    then show ?thesis unfolding block_at_def Let_def using c t tk by (simp only: simp_thms if_True)
  next
    case False
    then show ?thesis by (auto simp: block_at_def Let_def)
  qed
  show ?case
  proof (cases "k * z \<le> length payload")
    case True
    then have "k * z - length payload = 0" by simp
    then show ?thesis using Suc.IH b by (simp add: take_add add.commute [of z])
  next
    case False
    then show ?thesis using Suc.IH b by (simp add: replicate_add [symmetric] add.commute)
  qed
qed simp

lemma new_encoder_ok:
  assumes "new_encoder payload z seed = Inr e" and "length payload < 2 ^ 63"
  shows "encoder_ok e" and "en_block_size e = z" and "en_stream_seed e = seed" and "0 < z"
    and "length (en_blocks e) = max (blocks_ceil (length payload) z) 1"
    and "concat (en_blocks e) = payload @ replicate (length (en_blocks e) * z - length payload) 0"
proof -
  let ?k = "max (blocks_ceil (length payload) z) 1"
  have z: "0 < z" and e: "e = \<lparr>en_blocks = map (block_at payload z) [0..<?k], en_block_size = z, en_stream_seed = seed\<rparr>"
    using assms(1) by (auto simp: new_encoder_def Let_def split: if_splits)
  have "blocks_ceil (length payload) z \<le> length payload div z + 1" by (simp add: blocks_ceil_def)
  then have "?k \<le> length payload + 1" using div_le_dividend [of "length payload" z] by linarith
  then have "?k < 2 ^ 64" using assms(2) by simp
  then show "encoder_ok e" using z by (auto simp: e encoder_ok_def length_block_at)
  have "length payload \<le> ?k * z" using blocks_ceil_le [OF z, of "length payload"] by (simp add: le_trans [OF _ mult_le_mono1])
  then show "concat (en_blocks e) = payload @ replicate (length (en_blocks e) * z - length payload) 0"
    by (simp add: e concat_blocks)
qed (use assms(1) in \<open>auto simp: new_encoder_def Let_def split: if_splits\<close>)

text \<open>The symbols that carry the blocks themselves are enough.\<close>

lemma systematic_complete:
  assumes "encoder_ok e" and "\<And>n. n < length (en_blocks e) \<Longrightarrow> word_of_nat n \<in> ids"
  shows "{..<length (en_blocks e)} \<subseteq> recovered deg e ids"
proof
  fix n assume "n \<in> {..<length (en_blocks e)}"
  then have n: "n < length (en_blocks e)" by simp
  moreover have u: "unat (word_of_nat m :: u64) = m" if "m \<le> length (en_blocks e)" for m
    using that assms(1) by (simp add: encoder_ok_def unat_of_nat)
  ultimately have "neighbors deg (word_of_nat n) (length (en_blocks e)) (en_stream_seed e) = Some [n]"
    unfolding neighbors_def word_less_nat_alt by simp
  then have "{n} \<in> symbol_sets deg e ids" using assms(2) [OF n] by (force simp: symbol_sets_def)
  then show "n \<in> recovered deg e ids" unfolding recovered_def by (rule peeled.peel) simp_all
qed

lemma recovered_mono: "ids \<subseteq> ids' \<Longrightarrow> recovered deg e ids \<subseteq> recovered deg e ids'"
proof -
  assume "ids \<subseteq> ids'"
  then have "symbol_sets deg e ids \<subseteq> symbol_sets deg e ids'" unfolding symbol_sets_def by blast
  from peeled_mono [OF this] show ?thesis unfolding recovered_def by (rule subsetI)
qed

lemma recovered_bounded:
  assumes "encoder_ok e"
  shows "recovered deg e ids \<subseteq> {..<length (en_blocks e)}"
proof
  fix n assume "n \<in> recovered deg e ids"
  then show "n \<in> {..<length (en_blocks e)}"
    unfolding recovered_def
  proof cases
    case (peel N)
    then obtain ns i where ns: "N = set ns" "neighbors deg i (length (en_blocks e)) (en_stream_seed e) = Some ns"
      by (auto simp: symbol_sets_def)
    then have "set ns \<subseteq> {..<length (en_blocks e)}"
      using neighbors_ok [of "length (en_blocks e)" deg i "en_stream_seed e"] assms by (auto simp: encoder_ok_def)
    then show ?thesis using peel(2) ns(1) by blast
  qed
qed

text \<open>C37: The fountain decoder is exact. Whatever symbols of a payload arrive, in whatever order and however often, the
  decoder never panics and never guesses: it ends with exactly the blocks that peeling the received
  symbol sets determines, returns the payload with its padding when those are all blocks and otherwise
  reports how many it has. The draw loop behind the symbol sets always ends.\<close>

theorem fountain_exact:
  assumes "new_encoder payload z seed = Inr e" and "length payload < 2 ^ 63"
  shows "\<exists>ld. receive deg e ids (new_decoder (length (en_blocks e)) z seed) = Some (Inr ld) \<and>
    lt_finish ld =
      (if recovered deg e (set ids) = {..<length (en_blocks e)}
       then Some (Inr (payload @ replicate (length (en_blocks e) * z - length payload) 0))
       else Some (Inl (DecodeIncomplete (card (recovered deg e (set ids))) (length (en_blocks e)))))"
proof -
  note E = new_encoder_ok [OF assms]
  have "decoder_holds deg e {} (new_decoder (length (en_blocks e)) z seed)" using decoder_holds_new [OF E(1)] E(2,3) by simp
  from receive_holds [OF this, of ids] obtain ld where
    r: "receive deg e ids (new_decoder (length (en_blocks e)) z seed) = Some (Inr ld)" "decoder_holds deg e (set ids) ld" by auto
  show ?thesis using r(1) decoder_holds_finish [OF r(2)] E(6) by simp
qed

text \<open>Three blocks, the middle one received first and twice.\<close>

theorem fountain_exact_witness:
  "\<exists>e ld. new_encoder [1, 2, 3, 4, 5] 2 7 = Inr e \<and>
     receive (\<lambda>k x. 2) e [1, 0, 1, 2] (new_decoder (length (en_blocks e)) 2 7) = Some (Inr ld) \<and>
     lt_finish ld = Some (Inr ([1, 2, 3, 4, 5] @ replicate (length (en_blocks e) * 2 - 5) 0))"
proof -
  let ?deg = "\<lambda>(k :: nat) (x :: u64). 2 :: nat" and ?ids = "[1, 0, 1, 2] :: u64 list"
  obtain e where e: "new_encoder [1, 2, 3, 4, 5] 2 7 = Inr e" by (simp add: new_encoder_def Let_def)
  have l: "length [1, 2, 3, 4, 5 :: byte] < 2 ^ 63" by simp
  note E = new_encoder_ok [OF e l]
  have k: "length (en_blocks e) = 3" using E(5) by (simp add: blocks_ceil_def)
  have "word_of_nat n \<in> set ?ids" if "n < length (en_blocks e)" for n
  proof -
    have "n = 0 \<or> n = 1 \<or> n = 2" using that k by linarith
    then show ?thesis by (elim disjE) simp_all
  qed
  then have "{..<length (en_blocks e)} \<subseteq> recovered ?deg e (set ?ids)" by (rule systematic_complete [OF E(1)])
  moreover have "recovered ?deg e (set ?ids) \<subseteq> {..<length (en_blocks e)}" by (rule recovered_bounded [OF E(1)])
  ultimately have "recovered ?deg e (set ?ids) = {..<length (en_blocks e)}" by (rule equalityI [rotated])
  with fountain_exact [OF e l, of ?deg ?ids] obtain ld where
    r: "receive ?deg e ?ids (new_decoder (length (en_blocks e)) 2 7) = Some (Inr ld)" and
    f: "lt_finish ld = Some (Inr ([1, 2, 3, 4, 5] @ replicate (length (en_blocks e) * 2 - length [1, 2, 3, 4, 5 :: byte]) 0))"
    by (simp only: simp_thms if_True) (elim exE conjE, rule that)
  have "length [1, 2, 3, 4, 5 :: byte] = 5" by simp
  show ?thesis by (rule exI [of _ e], rule exI [of _ ld]) (intro conjI e r f [unfolded \<open>length [1, 2, 3, 4, 5 :: byte] = 5\<close>])
qed

end
