(* ===== verification/Photon_Frame.thy ===== *)
theory Photon_Frame
  imports Photon_Peeling
begin

text \<open>
  Frames of the optical bridge (\<open>crates/dc-photon/src/frame.rs\<close>): the wire format, the transmitter's
  endless stream of frames and the receiver that reassembles the payload. BLAKE3 is a parameter;
  \<open>u32\<close> counters wrap as in a release build, a panic is \<open>None\<close>.
\<close>

section \<open>The wire format\<close>

type_synonym u16 = "16 word"

record frame_header =
  fh_stream_id :: u32
  fh_payload_len :: u32
  fh_payload_blake3 :: digest
  fh_first_symbol :: u32
  fh_symbol_count :: byte
  fh_symbol_size :: u16

record photon_frame =
  pf_header :: frame_header
  pf_symbols :: "(u32 \<times> byte list) list"

datatype frame_error = Truncated | BadMagic | BadVersion byte

definition frame_magic :: "byte list" where "frame_magic = [0x44, 0x43, 0x50, 0x48]"    \<comment> \<open>DCPH\<close>

definition header_len :: nat where "header_len = 52"

definition encode_symbols :: "(u32 \<times> byte list) list \<Rightarrow> byte list" where
  "encode_symbols ss = concat (map (\<lambda>(i, bs). u32_le i @ bs) ss)"

definition encode_frame :: "photon_frame \<Rightarrow> byte list" where
  "encode_frame f =
     (let h = pf_header f in
      frame_magic @ [1] @ u32_le (fh_stream_id h) @ u32_le (fh_payload_len h) @ digest_bytes (fh_payload_blake3 h) @
      u32_le (fh_first_symbol h) @ [fh_symbol_count h] @ le_bytes 2 (fh_symbol_size h) @ encode_symbols (pf_symbols f))"

fun decode_symbols :: "nat \<Rightarrow> nat \<Rightarrow> byte list \<Rightarrow> (u32 \<times> byte list) list" where
  "decode_symbols z 0 buf = []"
| "decode_symbols z (Suc n) buf =
     (of_u32_le (take 4 buf), take z (drop 4 buf)) # decode_symbols z n (drop (4 + z) buf)"

definition decode_frame :: "byte list \<Rightarrow> frame_error + photon_frame" where
  "decode_frame buf =
     (if length buf < header_len then Inl Truncated
      else if take 4 buf \<noteq> frame_magic then Inl BadMagic
      else if buf ! 4 \<noteq> 1 then Inl (BadVersion (buf ! 4))
      else (let h = \<lparr>fh_stream_id = of_u32_le (take 4 (drop 5 buf)), fh_payload_len = of_u32_le (take 4 (drop 9 buf)),
                     fh_payload_blake3 = of_le_bytes (take 32 (drop 13 buf)),
                     fh_first_symbol = of_u32_le (take 4 (drop 45 buf)), fh_symbol_count = buf ! 49,
                     fh_symbol_size = of_le_bytes (take 2 (drop 50 buf))\<rparr>;
                need = header_len + unat (fh_symbol_count h) * (4 + unat (fh_symbol_size h))
            in if length buf < need then Inl Truncated
               else Inr \<lparr>pf_header = h,
                 pf_symbols = decode_symbols (unat (fh_symbol_size h)) (unat (fh_symbol_count h)) (drop header_len buf)\<rparr>))"

section \<open>The transmitter\<close>

record frame_stream =
  fs_encoder :: lt_encoder
  fs_payload_blake3 :: digest
  fs_stream_id :: u32
  fs_payload_len :: nat
  fs_symbols_per_frame :: byte
  fs_next_symbol :: u32

definition max_byte_payload_v10_m :: nat where "max_byte_payload_v10_m = 213"

definition new_frame_stream :: "(byte list \<Rightarrow> digest) \<Rightarrow> byte list \<Rightarrow> nat \<Rightarrow> byte \<Rightarrow> u64 \<Rightarrow> lt_error + frame_stream" where
  "new_frame_stream blake3 payload block_size symbols_per_frame seed =
     (let per_symbol = 4 + block_size; room = max_byte_payload_v10_m - header_len in
      if per_symbol > room then Inl (InvalidParameter ''block size leaves no room'')
      else (let max_batch = (word_of_nat (room div per_symbol) :: byte);
                symbols_per_frame = min (max symbols_per_frame 1) (max max_batch 1)
            in and_then (new_encoder payload block_size seed) (\<lambda>e.
               let d = blake3 payload in
               Inr \<lparr>fs_encoder = e, fs_payload_blake3 = d, fs_stream_id = of_u32_le (take 4 (digest_bytes d)),
                    fs_payload_len = length payload, fs_symbols_per_frame = max symbols_per_frame 1, fs_next_symbol = 0\<rparr>)))"

fun batch :: "(nat \<Rightarrow> u64 \<Rightarrow> nat) \<Rightarrow> lt_encoder \<Rightarrow> u32 list \<Rightarrow> (u32 \<times> byte list) list option" where
  "batch deg e [] = Some []"
| "batch deg e (i # ids) =
     (case encode_symbol deg e (ucast i) of
        None \<Rightarrow> None
      | Some bs \<Rightarrow> map_option (\<lambda>ss. (i, bs) # ss) (batch deg e ids))"

definition next_frame :: "(nat \<Rightarrow> u64 \<Rightarrow> nat) \<Rightarrow> frame_stream \<Rightarrow> (photon_frame \<times> frame_stream) option" where
  "next_frame deg fs =
     (let count = unat (fs_symbols_per_frame fs); first = fs_next_symbol fs in
      map_option (\<lambda>symbols.
        (\<lparr>pf_header = \<lparr>fh_stream_id = fs_stream_id fs, fh_payload_len = word_of_nat (fs_payload_len fs),
           fh_payload_blake3 = fs_payload_blake3 fs, fh_first_symbol = first, fh_symbol_count = word_of_nat count,
           fh_symbol_size = word_of_nat (en_block_size (fs_encoder fs))\<rparr>, pf_symbols = symbols\<rparr>,
         fs\<lparr>fs_next_symbol := fs_next_symbol fs + word_of_nat count\<rparr>))
        (batch deg (fs_encoder fs) (map (\<lambda>i. first + word_of_nat i) [0..<count])))"

section \<open>The receiver\<close>

record reassembler =
  ra_decoder :: "lt_decoder option"
  ra_payload_blake3 :: "digest option"
  ra_payload_len :: nat
  ra_stream_id :: u32
  ra_frames_seen :: u32
  ra_stream_seed :: u64

datatype stream_error = StreamMismatch | LtFailed lt_error | HashMismatch

definition new_reassembler :: "u64 \<Rightarrow> reassembler" where
  "new_reassembler seed =
     \<lparr>ra_decoder = None, ra_payload_blake3 = None, ra_payload_len = 0, ra_stream_id = 0, ra_frames_seen = 0,
      ra_stream_seed = seed\<rparr>"

text \<open>The first frame fixes the stream; \<open>blocks_ceil\<close> by zero panics.\<close>

definition admit_frame :: "frame_header \<Rightarrow> reassembler \<Rightarrow> (stream_error + reassembler) option" where
  "admit_frame h ra =
     (case ra_payload_blake3 ra of
        Some expected \<Rightarrow>
          Some (if expected \<noteq> fh_payload_blake3 h \<or> ra_stream_id ra \<noteq> fh_stream_id h then Inl StreamMismatch else Inr ra)
      | None \<Rightarrow>
          (let block_size = unat (fh_symbol_size h); payload_len = unat (fh_payload_len h) in
           if block_size = 0 then None
           else Some (Inr (ra\<lparr>ra_payload_blake3 := Some (fh_payload_blake3 h), ra_stream_id := fh_stream_id h,
                  ra_payload_len := payload_len,
                  ra_decoder := Some (new_decoder (max (blocks_ceil payload_len block_size) 1) block_size (ra_stream_seed ra))\<rparr>))))"

fun push_symbols :: "(nat \<Rightarrow> u64 \<Rightarrow> nat) \<Rightarrow> (u32 \<times> byte list) list \<Rightarrow> lt_decoder \<Rightarrow> (lt_decoder \<times> lt_error option) option" where
  "push_symbols deg [] ld = Some (ld, None)"
| "push_symbols deg ((i, bs) # ss) ld =
     (case push_symbol deg (ucast i) bs ld of
        None \<Rightarrow> None
      | Some (Inl err) \<Rightarrow> Some (ld, Some err)
      | Some (Inr ld) \<Rightarrow> push_symbols deg ss ld)"

definition push_frame :: "(nat \<Rightarrow> u64 \<Rightarrow> nat) \<Rightarrow> (byte list \<Rightarrow> digest) \<Rightarrow> photon_frame \<Rightarrow> reassembler \<Rightarrow>
    (reassembler \<times> (stream_error + byte list option)) option" where
  "push_frame deg blake3 f ra =
     (case admit_frame (pf_header f) ra of
        None \<Rightarrow> None
      | Some (Inl err) \<Rightarrow> Some (ra, Inl err)
      | Some (Inr ra) \<Rightarrow>
          (let ra = ra\<lparr>ra_frames_seen := ra_frames_seen ra + 1\<rparr> in
           case ra_decoder ra of
             None \<Rightarrow> None
           | Some ld \<Rightarrow>
               (case push_symbols deg (pf_symbols f) ld of
                  None \<Rightarrow> None
                | Some (ld, Some err) \<Rightarrow> Some (ra\<lparr>ra_decoder := Some ld\<rparr>, Inl (LtFailed err))
                | Some (ld, None) \<Rightarrow>
                    if ld_resolved ld < ld_k ld then Some (ra\<lparr>ra_decoder := Some ld\<rparr>, Inr None)
                    else (let ra = ra\<lparr>ra_decoder := None\<rparr> in
                          case lt_finish ld of
                            None \<Rightarrow> None
                          | Some (Inl err) \<Rightarrow> Some (ra, Inl (LtFailed err))
                          | Some (Inr full) \<Rightarrow>
                              let full = take (ra_payload_len ra) full in
                              if Some (blake3 full) \<noteq> ra_payload_blake3 ra then Some (ra, Inl HashMismatch)
                              else Some (ra, Inr (Some full))))))"

section \<open>The format is exact\<close>

definition frame_wf :: "photon_frame \<Rightarrow> bool" where
  "frame_wf f \<longleftrightarrow> length (pf_symbols f) = unat (fh_symbol_count (pf_header f)) \<and>
     (\<forall>(i, bs) \<in> set (pf_symbols f). length bs = unat (fh_symbol_size (pf_header f)))"

lemma length_encode_symbols: "\<forall>(i, bs) \<in> set ss. length bs = z \<Longrightarrow> length (encode_symbols ss) = length ss * (4 + z)"
  by (induction ss) (auto simp: encode_symbols_def)

lemma decode_encode_symbols:
  "\<forall>(i, bs) \<in> set ss. length bs = z \<Longrightarrow> decode_symbols z (length ss) (encode_symbols ss @ rest) = ss"
  by (induction ss) (auto simp: encode_symbols_def)

lemma encode_decode_symbols:
  "n * (4 + z) \<le> length buf \<Longrightarrow> encode_symbols (decode_symbols z n buf) = take (n * (4 + z)) buf \<and>
   length (decode_symbols z n buf) = n \<and> (\<forall>(i, bs) \<in> set (decode_symbols z n buf). length bs = z)"
proof (induction n arbitrary: buf)
  case (Suc n)
  have "n * (4 + z) \<le> length (drop (4 + z) buf)" using Suc.prems by simp
  note IH = Suc.IH [OF this]
  have "u32_le (of_u32_le (take 4 buf)) @ take z (drop 4 buf) = take (4 + z) buf"
    using Suc.prems by (simp add: take_add)
  then have "encode_symbols (decode_symbols z (Suc n) buf) = take (4 + z) buf @ take (n * (4 + z)) (drop (4 + z) buf)"
    using IH by (simp add: encode_symbols_def)
  also have "\<dots> = take (Suc n * (4 + z)) buf" by (simp add: take_add [symmetric] add.commute)
  finally show ?case using IH Suc.prems by auto
qed (simp add: encode_symbols_def)

text \<open>The fixed header as the decoder cuts it up.\<close>

lemma header_split:
  fixes buf :: "byte list"
  assumes "52 \<le> length buf"
  shows "take 52 buf = take 4 buf @ [buf ! 4] @ take 4 (drop 5 buf) @ take 4 (drop 9 buf) @ take 32 (drop 13 buf) @
    take 4 (drop 45 buf) @ [buf ! 49] @ take 2 (drop 50 buf)"
proof -
  have one: "[buf ! n] = take 1 (drop n buf)" if "n < length buf" for n using that by (simp add: Cons_nth_drop_Suc [symmetric])
  have cut: "take (a + b) xs = take a xs @ take b (drop a xs)" for a b and xs :: "byte list" by (rule take_add)
  have "take 52 buf = take (4 + (1 + (4 + (4 + (32 + (4 + (1 + 2))))))) buf" by simp
  also have "\<dots> = take 4 buf @ take 1 (drop 4 buf) @ take 4 (drop 5 buf) @ take 4 (drop 9 buf) @ take 32 (drop 13 buf) @
      take 4 (drop 45 buf) @ take 1 (drop 49 buf) @ take 2 (drop 50 buf)"
    by (simp only: cut drop_drop) simp
  finally show ?thesis using one [of 4] one [of 49] assms by simp
qed

lemma header_fields:
  fixes s l f :: u32 and d :: digest and c :: byte and z :: u16 and rest :: "byte list"
  defines "b \<equiv> frame_magic @ [1] @ u32_le s @ u32_le l @ digest_bytes d @ u32_le f @ [c] @ le_bytes 2 z @ rest"
  shows "take 4 b = frame_magic" "b ! 4 = 1" "take 4 (drop 5 b) = u32_le s" "take 4 (drop 9 b) = u32_le l"
    "take 32 (drop 13 b) = digest_bytes d" "take 4 (drop 45 b) = u32_le f" "b ! 49 = c" "take 2 (drop 50 b) = le_bytes 2 z"
    "drop 52 b = rest" "52 \<le> length b"
  by (simp_all add: b_def frame_magic_def nth_append)

text \<open>C39: The frame decoder accepts exactly the encodings of well-formed frames, followed by anything: it inverts the
  encoder, and every accepted buffer starts with the encoding of what was decoded.\<close>

theorem frame_codec_exact:
  "decode_frame buf = Inr f \<longleftrightarrow> frame_wf f \<and> (\<exists>rest. buf = encode_frame f @ rest)"
proof
  assume d: "decode_frame buf = Inr f"
  let ?h = "pf_header f"
  have len: "52 \<le> length buf" and magic: "take 4 buf = frame_magic" "buf ! 4 = 1"
    and h: "?h = \<lparr>fh_stream_id = of_u32_le (take 4 (drop 5 buf)), fh_payload_len = of_u32_le (take 4 (drop 9 buf)),
                     fh_payload_blake3 = of_le_bytes (take 32 (drop 13 buf)),
                     fh_first_symbol = of_u32_le (take 4 (drop 45 buf)), fh_symbol_count = buf ! 49,
                     fh_symbol_size = of_le_bytes (take 2 (drop 50 buf))\<rparr>"
    and need: "52 + unat (fh_symbol_count ?h) * (4 + unat (fh_symbol_size ?h)) \<le> length buf"
    and ss: "pf_symbols f = decode_symbols (unat (fh_symbol_size ?h)) (unat (fh_symbol_count ?h)) (drop 52 buf)"
    using d by (auto simp: decode_frame_def Let_def header_len_def split: if_splits)
  let ?n = "unat (fh_symbol_count ?h)" and ?z = "unat (fh_symbol_size ?h)"
  have "?n * (4 + ?z) \<le> length (drop 52 buf)" using need by simp
  note S = encode_decode_symbols [OF this, folded ss]
  have t: "length (take 4 (drop 5 buf)) = 4" "length (take 4 (drop 9 buf)) = 4" "length (take 32 (drop 13 buf)) = 32"
      "length (take 4 (drop 45 buf)) = 4" "length (take 2 (drop 50 buf)) = 2" using len by simp_all
  have "u32_le (fh_stream_id ?h) = take 4 (drop 5 buf)" "u32_le (fh_payload_len ?h) = take 4 (drop 9 buf)"
      "u32_le (fh_first_symbol ?h) = take 4 (drop 45 buf)" "fh_symbol_count ?h = buf ! 49"
    unfolding h frame_header.simps using u32_le_of_u32_le [OF t(1)] u32_le_of_u32_le [OF t(2)] u32_le_of_u32_le [OF t(4)] by simp_all
  moreover have "digest_bytes (fh_payload_blake3 ?h) = take 32 (drop 13 buf)"
    unfolding h frame_header.simps digest_bytes_def by (rule le_bytes_of_le_bytes) (simp_all only: t, simp_all)
  moreover have "le_bytes 2 (fh_symbol_size ?h) = take 2 (drop 50 buf)"
    unfolding h frame_header.simps by (rule le_bytes_of_le_bytes) (simp_all only: t, simp_all)
  ultimately have "encode_frame f = take 52 buf @ take (?n * (4 + ?z)) (drop 52 buf)"
    using S magic by (simp add: encode_frame_def Let_def header_split [OF len])
  then have "buf = encode_frame f @ drop (?n * (4 + ?z)) (drop 52 buf)" by (metis append.assoc append_take_drop_id)
  then show "frame_wf f \<and> (\<exists>rest. buf = encode_frame f @ rest)" using S by (auto simp: frame_wf_def)
next
  assume "frame_wf f \<and> (\<exists>rest. buf = encode_frame f @ rest)"
  then obtain rest where wf: "frame_wf f" and buf: "buf = encode_frame f @ rest" by blast
  let ?h = "pf_header f"
  let ?tail = "encode_symbols (pf_symbols f) @ rest"
  have b: "buf = frame_magic @ [1] @ u32_le (fh_stream_id ?h) @ u32_le (fh_payload_len ?h) @ digest_bytes (fh_payload_blake3 ?h) @
      u32_le (fh_first_symbol ?h) @ [fh_symbol_count ?h] @ le_bytes 2 (fh_symbol_size ?h) @ ?tail"
    by (simp add: buf encode_frame_def Let_def)
  note F = header_fields [of "fh_stream_id ?h" "fh_payload_len ?h" "fh_payload_blake3 ?h" "fh_first_symbol ?h" "fh_symbol_count ?h"
    "fh_symbol_size ?h" ?tail, folded b]
  have w: "length (pf_symbols f) = unat (fh_symbol_count ?h)" "\<forall>(i, bs) \<in> set (pf_symbols f). length bs = unat (fh_symbol_size ?h)"
    using wf by (simp_all add: frame_wf_def)
  have "length (encode_symbols (pf_symbols f)) = unat (fh_symbol_count ?h) * (4 + unat (fh_symbol_size ?h))"
    using length_encode_symbols [OF w(2)] w(1) by simp
  then have need: "header_len + unat (fh_symbol_count ?h) * (4 + unat (fh_symbol_size ?h)) \<le> length buf"
    using arg_cong [OF F(9), of length] F(10) by (simp add: header_len_def)
  have sym: "decode_symbols (unat (fh_symbol_size ?h)) (unat (fh_symbol_count ?h)) ?tail = pf_symbols f"
    using decode_encode_symbols [OF w(2), of rest] w(1) by simp
  have inv: "of_u32_le (u32_le x) = x" "of_le_bytes (digest_bytes y) = y" "of_le_bytes (le_bytes 2 z) = z"
    for x :: u32 and y :: digest and z :: u16 by (simp_all add: digest_bytes_def)
  have h: "\<lparr>fh_stream_id = of_u32_le (take 4 (drop 5 buf)), fh_payload_len = of_u32_le (take 4 (drop 9 buf)),
      fh_payload_blake3 = of_le_bytes (take 32 (drop 13 buf)), fh_first_symbol = of_u32_le (take 4 (drop 45 buf)),
      fh_symbol_count = buf ! 49, fh_symbol_size = of_le_bytes (take 2 (drop 50 buf))\<rparr> = ?h"
    unfolding F inv by simp
  have "\<not> length buf < header_len" using F(10) by (simp add: header_len_def)
  then show "decode_frame buf = Inr f"
    unfolding decode_frame_def Let_def h using F(1,2,9) need sym by (simp add: header_len_def)
qed

section \<open>Transmission\<close>

lemma batch_ok:
  assumes "encoder_ok e"
  shows "\<exists>ss. batch deg e ids = Some ss \<and> map fst ss = ids \<and> (\<forall>(i, bs) \<in> set ss. length bs = en_block_size e)"
proof (induction ids)
  case (Cons i ids)
  have "\<exists>bs. encode_symbol deg e (ucast i) = Some bs \<and> length bs = en_block_size e"
    using encode_push [OF decoder_holds_new [OF assms], of deg "ucast i"] by blast
  then show ?case using Cons.IH by auto
qed simp

lemma push_batch:
  "batch deg e ids = Some ss \<Longrightarrow> decoder_holds deg e S ld \<Longrightarrow>
   \<exists>ld'. push_symbols deg ss ld = Some (ld', None) \<and> decoder_holds deg e (S \<union> ucast ` set ids) ld'"
proof (induction ids arbitrary: ss S ld)
  case (Cons i ids)
  obtain bs ld1 where s: "encode_symbol deg e (ucast i) = Some bs" "push_symbol deg (ucast i) bs ld = Some (Inr ld1)"
    "decoder_holds deg e (insert (ucast i) S) ld1" using encode_push [OF Cons.prems(2), of "ucast i"] by blast
  obtain ss' where ss: "batch deg e ids = Some ss'" "ss = (i, bs) # ss'"
    using Cons.prems(1) s(1) by (auto split: option.splits)
  from Cons.IH [OF ss(1) s(3)] show ?case using s(2) ss(2) by simp
qed simp

text \<open>The frames of one transmission, and what is the same in all of them.\<close>

fun emit :: "(nat \<Rightarrow> u64 \<Rightarrow> nat) \<Rightarrow> nat \<Rightarrow> frame_stream \<Rightarrow> photon_frame list option" where
  "emit deg 0 fs = Some []"
| "emit deg (Suc n) fs =
     (case next_frame deg fs of
        None \<Rightarrow> None
      | Some (f, fs) \<Rightarrow> map_option (\<lambda>fr. f # fr) (emit deg n fs))"

definition frame_ids :: "photon_frame \<Rightarrow> u64 set" where
  "frame_ids f = (\<lambda>s. ucast (fst s)) ` set (pf_symbols f)"

definition sent_by :: "(nat \<Rightarrow> u64 \<Rightarrow> nat) \<Rightarrow> frame_stream \<Rightarrow> photon_frame \<Rightarrow> bool" where
  "sent_by deg fs f \<longleftrightarrow> fh_stream_id (pf_header f) = fs_stream_id fs \<and> fh_payload_len (pf_header f) = word_of_nat (fs_payload_len fs) \<and>
     fh_payload_blake3 (pf_header f) = fs_payload_blake3 fs \<and>
     fh_symbol_size (pf_header f) = word_of_nat (en_block_size (fs_encoder fs)) \<and>
     (\<exists>ids. batch deg (fs_encoder fs) ids = Some (pf_symbols f)) \<and>
     length (pf_symbols f) = unat (fs_symbols_per_frame fs) \<and>
     fh_symbol_count (pf_header f) = fs_symbols_per_frame fs"

lemma next_frame_ok:
  assumes "encoder_ok (fs_encoder fs)"
  shows "\<exists>f. next_frame deg fs = Some (f, fs\<lparr>fs_next_symbol := fs_next_symbol fs + word_of_nat (unat (fs_symbols_per_frame fs))\<rparr>) \<and>
    sent_by deg fs f"
proof -
  let ?ids = "map (\<lambda>i. fs_next_symbol fs + word_of_nat i) [0..<unat (fs_symbols_per_frame fs)]"
  obtain ss where ss: "batch deg (fs_encoder fs) ?ids = Some ss" "map fst ss = ?ids" using batch_ok [OF assms] by blast
  have "length ss = unat (fs_symbols_per_frame fs)" using arg_cong [OF ss(2), of length] by simp
  then show ?thesis using ss(1) by (auto simp: next_frame_def Let_def sent_by_def)
qed

lemma sent_by_next: "sent_by deg (fs\<lparr>fs_next_symbol := i\<rparr>) f = sent_by deg fs f"
  by (simp add: sent_by_def)

lemma emit_ok:
  "encoder_ok (fs_encoder fs) \<Longrightarrow> \<exists>fr. emit deg n fs = Some fr \<and> length fr = n \<and> (\<forall>f \<in> set fr. sent_by deg fs f)"
proof (induction n arbitrary: fs)
  case (Suc n)
  obtain f fs' where f: "next_frame deg fs = Some (f, fs')" "sent_by deg fs f"
    "fs' = fs\<lparr>fs_next_symbol := fs_next_symbol fs + word_of_nat (unat (fs_symbols_per_frame fs))\<rparr>"
    using next_frame_ok [OF Suc.prems] by blast
  have "encoder_ok (fs_encoder fs')" using Suc.prems by (simp add: f(3))
  from Suc.IH [OF this] obtain fr where "emit deg n fs' = Some fr" "length fr = n" "\<forall>g \<in> set fr. sent_by deg fs' g" by blast
  then show ?case using f by (simp add: sent_by_next)
qed simp

text \<open>The receiver stops at the first payload or error.\<close>

fun capture :: "(nat \<Rightarrow> u64 \<Rightarrow> nat) \<Rightarrow> (byte list \<Rightarrow> digest) \<Rightarrow> photon_frame list \<Rightarrow> reassembler \<Rightarrow>
    (reassembler \<times> (stream_error + byte list option)) option" where
  "capture deg blake3 [] ra = Some (ra, Inr None)"
| "capture deg blake3 (f # fr) ra =
     (case push_frame deg blake3 f ra of
        Some (ra, Inr None) \<Rightarrow> capture deg blake3 fr ra
      | r \<Rightarrow> r)"

text \<open>A receiver that has admitted the stream and holds the symbols \<open>S\<close>.\<close>

definition listening :: "(nat \<Rightarrow> u64 \<Rightarrow> nat) \<Rightarrow> frame_stream \<Rightarrow> u64 set \<Rightarrow> reassembler \<Rightarrow> bool" where
  "listening deg fs S ra \<longleftrightarrow> ra_payload_blake3 ra = Some (fs_payload_blake3 fs) \<and> ra_stream_id ra = fs_stream_id fs \<and>
     ra_payload_len ra = fs_payload_len fs \<and>
     (\<exists>ld. ra_decoder ra = Some ld \<and> decoder_holds deg (fs_encoder fs) S ld)"

definition stream_ok :: "(byte list \<Rightarrow> digest) \<Rightarrow> byte list \<Rightarrow> frame_stream \<Rightarrow> bool" where
  "stream_ok blake3 payload fs \<longleftrightarrow> encoder_ok (fs_encoder fs) \<and> fs_payload_blake3 fs = blake3 payload \<and>
     fs_payload_len fs = length payload \<and> length payload < 2 ^ 32 \<and> 0 < en_block_size (fs_encoder fs) \<and>
     en_block_size (fs_encoder fs) < 2 ^ 16 \<and>
     length (en_blocks (fs_encoder fs)) = max (blocks_ceil (length payload) (en_block_size (fs_encoder fs))) 1 \<and>
     take (length payload) (concat (en_blocks (fs_encoder fs))) = payload"

lemma new_frame_stream_ok:
  assumes "new_frame_stream blake3 payload z spf seed = Inr fs" and "length payload < 2 ^ 32"
  shows "stream_ok blake3 payload fs" and "en_stream_seed (fs_encoder fs) = seed"
proof -
  obtain e where e: "new_encoder payload z seed = Inr e" and fs: "fs_encoder fs = e" "fs_payload_blake3 fs = blake3 payload"
      "fs_payload_len fs = length payload" and z: "4 + z \<le> 161"
    using assms(1) by (auto simp: new_frame_stream_def Let_def and_then_eq_Inr max_byte_payload_v10_m_def header_len_def split: if_splits)
  have "length payload < 2 ^ 63" using assms(2) by simp
  note E = new_encoder_ok [OF e this]
  show "stream_ok blake3 payload fs" using E z assms(2) by (simp add: stream_ok_def fs)
  show "en_stream_seed (fs_encoder fs) = seed" using E(3) by (simp add: fs)
qed

lemma push_frame_listening:
  assumes ok: "stream_ok blake3 payload fs" and f: "sent_by deg fs f" and ra: "listening deg fs S ra"
  shows "\<exists>ra'. push_frame deg blake3 f ra = Some (ra', Inr (if recovered deg (fs_encoder fs) (S \<union> frame_ids f) = {..<length (en_blocks (fs_encoder fs))}
      then Some payload else None)) \<and>
    (recovered deg (fs_encoder fs) (S \<union> frame_ids f) \<noteq> {..<length (en_blocks (fs_encoder fs))} \<longrightarrow> listening deg fs (S \<union> frame_ids f) ra')"
proof -
  let ?e = "fs_encoder fs"
  obtain ld where ld: "ra_decoder ra = Some ld" "decoder_holds deg ?e S ld" using ra by (auto simp: listening_def)
  obtain ids where ids: "batch deg ?e ids = Some (pf_symbols f)" using f by (auto simp: sent_by_def)
  have e: "encoder_ok ?e" using ok by (simp add: stream_ok_def)
  have "map fst (pf_symbols f) = ids" using batch_ok [OF e, of deg ids] ids by auto
  then have "set ids = fst ` set (pf_symbols f)" by (metis list.set_map)
  then have im: "ucast ` set ids = frame_ids f" by (simp only: frame_ids_def image_image)
  from push_batch [OF ids ld(2)] obtain ld' where
    p: "push_symbols deg (pf_symbols f) ld = Some (ld', None)" "decoder_holds deg ?e (S \<union> frame_ids f) ld'" unfolding im by blast
  note R = decoder_holds_resolved(3) [OF p(2)]
  have adm: "admit_frame (pf_header f) ra = Some (Inr ra)"
    using f ra by (simp add: admit_frame_def sent_by_def listening_def)
  show ?thesis
  proof (cases "recovered deg ?e (S \<union> frame_ids f) = {..<length (en_blocks ?e)}")
    case True
    have "\<not> ld_resolved ld' < ld_k ld'" using R True by simp
    moreover have "lt_finish ld' = Some (Inr (concat (en_blocks ?e)))" using decoder_holds_finish [OF p(2)] True by simp
    moreover have "take (ra_payload_len ra) (concat (en_blocks ?e)) = payload" "Some (blake3 payload) = ra_payload_blake3 ra"
      using ok ra by (simp_all add: stream_ok_def listening_def)
    ultimately show ?thesis using adm ld(1) p(1) True by (simp add: push_frame_def Let_def)
  next
    case False
    then have "ld_resolved ld' < ld_k ld'" using R by simp
    then have "push_frame deg blake3 f ra = Some (ra\<lparr>ra_frames_seen := ra_frames_seen ra + 1, ra_decoder := Some ld'\<rparr>, Inr None)"
      using adm ld(1) p(1) by (simp add: push_frame_def Let_def)
    moreover have "listening deg fs (S \<union> frame_ids f) (ra\<lparr>ra_frames_seen := ra_frames_seen ra + 1, ra_decoder := Some ld'\<rparr>)"
      using ra p(2) by (simp add: listening_def)
    ultimately show ?thesis using False by simp
  qed
qed

text \<open>The first frame makes a fresh receiver listen.\<close>

lemma push_frame_first:
  assumes ok: "stream_ok blake3 payload fs" and f: "sent_by deg fs f" and seed: "en_stream_seed (fs_encoder fs) = seed"
  shows "\<exists>ra. listening deg fs {} ra \<and> push_frame deg blake3 f (new_reassembler seed) = push_frame deg blake3 f ra"
proof -
  let ?e = "fs_encoder fs" and ?z = "en_block_size (fs_encoder fs)"
  let ?k = "length (en_blocks (fs_encoder fs))"
  let ?ra = "(new_reassembler seed)\<lparr>ra_payload_blake3 := Some (fs_payload_blake3 fs), ra_stream_id := fs_stream_id fs,
      ra_payload_len := fs_payload_len fs, ra_decoder := Some (new_decoder ?k ?z seed)\<rparr>"
  have e: "encoder_ok ?e" using ok by (simp add: stream_ok_def)
  have u: "unat (fh_symbol_size (pf_header f)) = ?z" "unat (fh_payload_len (pf_header f)) = fs_payload_len fs"
    using ok f by (simp_all add: stream_ok_def sent_by_def unat_of_nat)
  have k: "max (blocks_ceil (fs_payload_len fs) ?z) 1 = ?k" and z: "?z \<noteq> 0" using ok by (simp_all add: stream_ok_def)
  have h: "fh_payload_blake3 (pf_header f) = fs_payload_blake3 fs" "fh_stream_id (pf_header f) = fs_stream_id fs"
    using f by (simp_all add: sent_by_def)
  have "admit_frame (pf_header f) (new_reassembler seed) = Some (Inr ?ra)"
    unfolding admit_frame_def Let_def u h k using z by (simp add: new_reassembler_def)
  moreover have "admit_frame (pf_header f) ?ra = Some (Inr ?ra)" by (simp add: admit_frame_def h)
  ultimately have "push_frame deg blake3 f (new_reassembler seed) = push_frame deg blake3 f ?ra" by (simp only: push_frame_def option.case sum.case)
  moreover have "listening deg fs {} ?ra" using decoder_holds_new [OF e, of deg] seed by (simp add: listening_def)
  ultimately show ?thesis by blast
qed

lemma capture_listening:
  assumes ok: "stream_ok blake3 payload fs"
  shows "\<forall>f \<in> set fr. sent_by deg fs f \<Longrightarrow> listening deg fs S ra \<Longrightarrow>
    recovered deg (fs_encoder fs) S \<noteq> {..<length (en_blocks (fs_encoder fs))} \<Longrightarrow>
    \<exists>ra'. capture deg blake3 fr ra = Some (ra', Inr (if recovered deg (fs_encoder fs) (S \<union> (\<Union>f \<in> set fr. frame_ids f)) =
      {..<length (en_blocks (fs_encoder fs))} then Some payload else None))"
proof (induction fr arbitrary: S ra)
  case (Cons f fr)
  let ?k = "{..<length (en_blocks (fs_encoder fs))}" and ?S = "S \<union> frame_ids f"
  have f: "sent_by deg fs f" using Cons.prems(1) by simp
  have e: "encoder_ok (fs_encoder fs)" using ok by (simp add: stream_ok_def)
  obtain ra' where r: "push_frame deg blake3 f ra = Some (ra', Inr (if recovered deg (fs_encoder fs) ?S = ?k then Some payload else None))"
    "recovered deg (fs_encoder fs) ?S \<noteq> ?k \<longrightarrow> listening deg fs ?S ra'"
    using push_frame_listening [OF ok f Cons.prems(2)] by blast
  have assoc: "?S \<union> (\<Union>f \<in> set fr. frame_ids f) = S \<union> (\<Union>f \<in> set (f # fr). frame_ids f)" by auto
  show ?case
  proof (cases "recovered deg (fs_encoder fs) ?S = ?k")
    case True
    have "?S \<subseteq> S \<union> (\<Union>f \<in> set (f # fr). frame_ids f)" by auto
    from recovered_mono [OF this, of deg "fs_encoder fs"] True recovered_bounded [OF e, of deg "S \<union> (\<Union>f \<in> set (f # fr). frame_ids f)"]
    have "recovered deg (fs_encoder fs) (S \<union> (\<Union>f \<in> set (f # fr). frame_ids f)) = ?k" by (simp only: set_eq_subset)
    then show ?thesis using r(1) True by simp
  next
    case False
    have l: "\<forall>f \<in> set fr. sent_by deg fs f" "listening deg fs ?S ra'" using Cons.prems(1) r(2) False by simp_all
    from Cons.IH [OF l False] show ?thesis unfolding assoc using r(1) False by simp
  qed
qed simp

section \<open>Properties\<close>

text \<open>C38: What is captured is what was sent. For every payload below 4 GiB the transmitter emits frames for ever, and a
  receiver that sees any of them, in any order, with losses and repeats, never panics or errs: it returns
  exactly the payload as soon as the captured symbols determine it and nothing before.\<close>

theorem capture_exact:
  assumes "new_frame_stream blake3 payload z spf seed = Inr fs" and "length payload < 2 ^ 32"
  shows "\<exists>sent. emit deg n fs = Some sent \<and> length sent = n \<and> (\<forall>captured. set captured \<subseteq> set sent \<longrightarrow>
    (\<exists>ra. capture deg blake3 captured (new_reassembler seed) = Some (ra, Inr
      (if recovered deg (fs_encoder fs) (\<Union>f \<in> set captured. frame_ids f) = {..<length (en_blocks (fs_encoder fs))}
       then Some payload else None))))"
proof -
  note ok = new_frame_stream_ok [OF assms]
  let ?k = "{..<length (en_blocks (fs_encoder fs))}"
  have e: "encoder_ok (fs_encoder fs)" using ok(1) by (simp add: stream_ok_def)
  obtain sent where sent: "emit deg n fs = Some sent" "length sent = n" "\<forall>f \<in> set sent. sent_by deg fs f"
    using emit_ok [OF e, of deg n] by blast
  have "peeled {} = {}" by (auto elim: peeled.cases)
  then have none: "recovered deg (fs_encoder fs) {} \<noteq> ?k"
    using e by (auto simp: recovered_def symbol_sets_def encoder_ok_def lessThan_empty_iff)
  have "\<exists>ra. capture deg blake3 captured (new_reassembler seed) = Some (ra, Inr
      (if recovered deg (fs_encoder fs) (\<Union>f \<in> set captured. frame_ids f) = ?k then Some payload else None))"
    if c: "set captured \<subseteq> set sent" for captured
  proof (cases captured)
    case Nil
    then show ?thesis using none by simp
  next
    case (Cons f fr)
    have by_fs: "\<forall>g \<in> set (f # fr). sent_by deg fs g" using c sent(3) Cons by blast
    then have "sent_by deg fs f" by simp
    then obtain ra where ra: "listening deg fs {} ra" "push_frame deg blake3 f (new_reassembler seed) = push_frame deg blake3 f ra"
      using push_frame_first [OF ok(1) _ ok(2)] by blast
    have "capture deg blake3 captured (new_reassembler seed) = capture deg blake3 (f # fr) ra" using ra(2) Cons by simp
    then show ?thesis using capture_listening [OF ok(1) by_fs ra(1) none] Cons by simp
  qed
  then show ?thesis using sent(1,2) by blast
qed

text \<open>A capture may not go on. Once a receiver has returned the payload, the next frame of the same stream panics:
  the decoder was taken, the stream identity was not.\<close>

theorem capture_after_payload_panics:
  assumes "push_frame deg blake3 f ra = Some (ra', Inr (Some payload))"
    and "fh_payload_blake3 (pf_header g) = fh_payload_blake3 (pf_header f)" and "fh_stream_id (pf_header g) = fh_stream_id (pf_header f)"
  shows "push_frame deg blake3 g ra' = None"
proof -
  obtain ra1 where adm: "admit_frame (pf_header f) ra = Some (Inr ra1)" and r: "ra' = ra1\<lparr>ra_frames_seen := ra_frames_seen ra1 + 1, ra_decoder := None\<rparr>"
    using assms(1) by (auto simp: push_frame_def Let_def split: option.splits sum.splits prod.splits if_splits)
  from adm have "ra_payload_blake3 ra1 = Some (fh_payload_blake3 (pf_header f)) \<and> ra_stream_id ra1 = fh_stream_id (pf_header f)"
    by (auto simp: admit_frame_def Let_def split: option.splits if_splits)
  then show ?thesis using assms(2,3) r by (simp add: push_frame_def admit_frame_def)
qed

text \<open>A first frame that announces symbols of size zero panics as well.\<close>

lemma zero_symbol_size_panics:
  "ra_payload_blake3 ra = None \<Longrightarrow> fh_symbol_size (pf_header f) = 0 \<Longrightarrow> push_frame deg blake3 f ra = None"
  by (simp add: push_frame_def admit_frame_def)

section \<open>Witnesses\<close>

definition demo_photon_frame :: photon_frame where
  "demo_photon_frame = \<lparr>pf_header = \<lparr>fh_stream_id = 9, fh_payload_len = 1, fh_payload_blake3 = 9, fh_first_symbol = 0, fh_symbol_count = 1,
     fh_symbol_size = 1\<rparr>, pf_symbols = [(0, [7])]\<rparr>"

lemma demo_photon_push:
  "\<exists>ra. push_frame (\<lambda>k x. 1) (\<lambda>_. 9) demo_photon_frame (new_reassembler 5) = Some (ra, Inr (Some [7]))"
  by (simp add: push_frame_def admit_frame_def demo_photon_frame_def new_reassembler_def Let_def blocks_ceil_def new_decoder_def
      push_symbol_def neighbors_def resolve_def ripple.simps lt_finish_def)

theorem capture_after_payload_panics_witness:
  "\<exists>ra. push_frame (\<lambda>k x. 1) (\<lambda>_. 9) demo_photon_frame (new_reassembler 5) = Some (ra, Inr (Some [7])) \<and>
     push_frame (\<lambda>k x. 1) (\<lambda>_. 9) demo_photon_frame ra = None"
  using demo_photon_push capture_after_payload_panics [OF _ refl refl] by blast

text \<open>Two blocks, one frame of two symbols.\<close>

theorem capture_exact_witness:
  "\<exists>fs sent ra. new_frame_stream (\<lambda>_. 9) [1, 2, 3] 2 2 7 = Inr fs \<and> emit (\<lambda>k x. 1) 1 fs = Some sent \<and>
     capture (\<lambda>k x. 1) (\<lambda>_. 9) sent (new_reassembler 7) = Some (ra, Inr (Some [1, 2, 3]))"
proof -
  let ?deg = "\<lambda>(k :: nat) (x :: u64). 1 :: nat"
  obtain fs where fs: "new_frame_stream (\<lambda>_. 9) [1, 2, 3] 2 2 7 = Inr fs" and sp: "fs_symbols_per_frame fs = 2" "fs_next_symbol fs = 0"
    and k: "length (en_blocks (fs_encoder fs)) = 2"
    by (simp add: new_frame_stream_def new_encoder_def Let_def max_byte_payload_v10_m_def header_len_def blocks_ceil_def)
  have l: "length [1, 2, 3 :: byte] < 2 ^ 32" by simp
  have e: "encoder_ok (fs_encoder fs)" using new_frame_stream_ok(1) [OF fs l] by (simp add: stream_ok_def)
  from capture_exact [OF fs l, of ?deg 1] obtain sent where
    sent: "emit ?deg 1 fs = Some sent" and all: "\<And>captured. set captured \<subseteq> set sent \<Longrightarrow>
      \<exists>ra. capture ?deg (\<lambda>_. 9) captured (new_reassembler 7) = Some (ra, Inr
        (if recovered ?deg (fs_encoder fs) (\<Union>f \<in> set captured. frame_ids f) = {..<length (en_blocks (fs_encoder fs))}
         then Some [1, 2, 3] else None))" by blast
  have "\<exists>f a b. sent = [f] \<and> pf_symbols f = [(0, a), (1, b)]"
    using sent by (auto simp: next_frame_def Let_def sp upt_rec split: option.splits)
  then obtain f a b where f: "sent = [f]" "pf_symbols f = [(0, a), (1, b)]" by blast
  then have ids: "frame_ids f = {0, 1}" by (simp add: frame_ids_def)
  have "word_of_nat n \<in> frame_ids f" if "n < length (en_blocks (fs_encoder fs))" for n
  proof -
    have "n = 0 \<or> n = 1" using that k by linarith
    then show ?thesis unfolding ids by auto
  qed
  from systematic_complete [OF e this] recovered_bounded [OF e, of ?deg "frame_ids f"]
  have "recovered ?deg (fs_encoder fs) (frame_ids f) = {..<length (en_blocks (fs_encoder fs))}" by (simp only: set_eq_subset)
  then show ?thesis using all [of sent] fs sent f(1) by auto
qed

end
