(* ===== verification/Scsi_Purge.thy ===== *)
theory Scsi_Purge
  imports DC_Prelude
begin

text \<open>
  The SCSI codec (\<open>crates/dc-hw/src/scsi_codec.rs\<close>) and the SCSI purge ladder
  (\<open>crates/dc-scsi/src/purge.rs\<close>). The transport is any function from a state of the drive and a
  request to a new state and a reply or a fault; the world records every exchange. The identity and
  temperature probes, which the ladder does not use, are left out.
\<close>

section \<open>Codec\<close>

datatype scsi_sanitize_action = ScsiOverwrite | ScsiBlockErase | ScsiCryptoErase | ScsiExitFailureMode

fun scsi_action_code :: "scsi_sanitize_action \<Rightarrow> byte" where
  "scsi_action_code ScsiOverwrite = 0x01"
| "scsi_action_code ScsiBlockErase = 0x02"
| "scsi_action_code ScsiCryptoErase = 0x03"
| "scsi_action_code ScsiExitFailureMode = 0x1F"

record scsi_sense_data =
  sd_sense_key :: byte
  sd_asc :: byte
  sd_ascq :: byte
  sd_progress_permille :: "nat option"

definition encode_scsi_sanitize :: "scsi_sanitize_action \<Rightarrow> bool \<Rightarrow> byte list" where
  "encode_scsi_sanitize action immed =
     [0x48, (scsi_action_code action AND 0x1F) OR (if immed then 0x80 else 0)] @ replicate 14 0"

definition encode_scsi_format_unit :: "bool \<Rightarrow> byte list" where
  "encode_scsi_format_unit immed = [0x04, if immed then 0x80 else 0, 0, 0, 0, 0]"

definition encode_scsi_request_sense :: "byte \<Rightarrow> byte list" where
  "encode_scsi_request_sense alloc_len = [0x03, 0, 0, 0, alloc_len, 0]"

definition encode_scsi_log_sense_temperature :: "byte list" where
  "encode_scsi_log_sense_temperature = [0x4D, 0x40 OR 0x0D, 0, 0, 0, 0, 0, 0x00, 0x20, 0]"

definition encode_scsi_inquiry :: "byte \<Rightarrow> byte list" where
  "encode_scsi_inquiry alloc_len = [0x12, 0, 0, 0, alloc_len, 0]"

definition encode_scsi_read_defect_data :: "bool \<Rightarrow> 16 word \<Rightarrow> byte list" where
  "encode_scsi_read_defect_data grown_only alloc_len =
     [0x37, if grown_only then 0x08 else 0x10, 0, 0, 0, 0, 0, ucast (drop_bit 8 alloc_len), ucast alloc_len, 0]"

definition decode_scsi_defect_list_count :: "byte list \<Rightarrow> nat option" where
  "decode_scsi_defect_list_count header =
     (if length header < 4 then None
      else Some (unat (push_bit 8 (ucast (header ! 2)) OR ucast (header ! 3) :: 16 word) div 8))"

text \<open>Fixed and descriptor format.\<close>

definition decode_scsi_sense_data :: "byte list \<Rightarrow> scsi_sense_data option" where
  "decode_scsi_sense_data raw =
     (if length raw < 8 then None
      else (let response_code = raw ! 0 AND 0x7F in
            if response_code = 0x70 \<or> response_code = 0x71
            then Some \<lparr>sd_sense_key = raw ! 2 AND 0x0F,
                       sd_asc = (if length raw > 12 then raw ! 12 else 0),
                       sd_ascq = (if length raw > 13 then raw ! 13 else 0),
                       sd_progress_permille =
                         (if length raw \<ge> 18 \<and> raw ! 15 AND 0x80 \<noteq> 0
                          then Some ((unat (push_bit 8 (ucast (raw ! 16)) OR ucast (raw ! 17) :: 16 word) * 1000 + 32768) div 65536)
                          else None)\<rparr>
            else Some \<lparr>sd_sense_key = raw ! 1 AND 0x0F,
                       sd_asc = (if length raw > 2 then raw ! 2 else 0),
                       sd_ascq = (if length raw > 3 then raw ! 3 else 0),
                       sd_progress_permille = None\<rparr>))"

section \<open>Transport\<close>

datatype scsi_xfer = ScsiNone | ScsiFromDev nat | ScsiToDev "byte list"

record scsi_reply =
  sy_status :: byte
  sy_sense :: "byte list"
  sy_data_in :: "byte list"

definition scsi_good :: "scsi_reply \<Rightarrow> bool" where
  "scsi_good r \<longleftrightarrow> sy_status r = 0"

record scsi_request =
  sx_cdb :: "byte list"
  sx_xfer :: scsi_xfer
  sx_timeout_ms :: nat

record 's scsi_client =
  sl_issue :: "'s \<Rightarrow> scsi_request \<Rightarrow> 's \<times> (string + scsi_reply)"
  sl_max_polls :: nat

record 's scsi_world =
  sn_dev :: 's
  sn_trace :: "(scsi_request \<times> (string + scsi_reply)) list"
  sn_progress :: "nat list"

definition scsi_issue :: "'s scsi_client \<Rightarrow> byte list \<Rightarrow> scsi_xfer \<Rightarrow> nat \<Rightarrow> 's scsi_world \<Rightarrow> 's scsi_world \<times> (string + scsi_reply)" where
  "scsi_issue d cdb xfer timeout w =
     (let rq = \<lparr>sx_cdb = cdb, sx_xfer = xfer, sx_timeout_ms = timeout\<rparr>
      in case sl_issue d (sn_dev w) rq of
           (s, r) \<Rightarrow> (w\<lparr>sn_dev := s, sn_trace := sn_trace w @ [(rq, r)]\<rparr>, r))"

definition sanitize_issue_timeout_ms :: nat where "sanitize_issue_timeout_ms = 60000"
definition format_unit_timeout_ms :: nat where "format_unit_timeout_ms = 24 * 60 * 60 * 1000"
definition probe_timeout_ms :: nat where "probe_timeout_ms = 30000"
definition request_sense_alloc :: byte where "request_sense_alloc = 32"

section \<open>Mechanisms, evidence, errors\<close>

record scsi_purge_permit =
  sp_target_device :: string
  sp_target_wwn :: string
  sp_authorized_at_utc :: nat

definition scsi_mint :: "string \<Rightarrow> string \<Rightarrow> nat \<Rightarrow> scsi_purge_permit" where
  "scsi_mint target_device target_wwn timestamp_utc =
     \<lparr>sp_target_device = target_device, sp_target_wwn = target_wwn, sp_authorized_at_utc = timestamp_utc\<rparr>"

datatype scsi_mechanism = ScsiSanitizeCrypto | ScsiSanitizeBlock | ScsiFormatUnit

fun scsi_label :: "scsi_mechanism \<Rightarrow> string" where
  "scsi_label ScsiSanitizeCrypto = ''SCSI Sanitize Crypto Erase''"
| "scsi_label ScsiSanitizeBlock = ''SCSI Sanitize Block Erase''"
| "scsi_label ScsiFormatUnit = ''SCSI Format Unit (FMTDATA=0)''"

definition scsi_nist_class :: "scsi_mechanism \<Rightarrow> string" where
  "scsi_nist_class m = ''Purge''"

datatype scsi_evidence = SensePollTerminal | BlockingFormatUnitReturn

record scsi_fallback =
  sf_from :: string
  sf_to :: string
  sf_reason :: "byte \<times> byte"    \<comment> \<open>the ASC and ASCQ of the ILLEGAL REQUEST\<close>

record scsi_summary =
  ss_executed_mechanism :: scsi_mechanism
  ss_fallbacks :: "scsi_fallback list"
  ss_completion_evidence :: scsi_evidence
  ss_progress_permille :: nat
  ss_grown_defects_pre :: "nat option"
  ss_terminal_sense :: scsi_sense_data

datatype scsi_fatal =
  ScsiTransport string
| ScsiUndecodable
| ScsiSanitizeIssueFailed byte byte
| ScsiSanitizeFailed byte byte byte
| ScsiSanitizeIncomplete nat nat
| ScsiUnclassifiedSense byte byte byte
| ScsiFormatFault string string
| ScsiLadderExhausted "scsi_sense_data option" string

datatype scsi_step = ScsiRejected "byte \<times> byte" | ScsiFatal scsi_fatal

section \<open>The client\<close>

definition read_grown_defects :: "'s scsi_client \<Rightarrow> 's scsi_world \<Rightarrow> 's scsi_world \<times> nat option" where
  "read_grown_defects d w =
     (case scsi_issue d (encode_scsi_read_defect_data True 4) (ScsiFromDev 4) probe_timeout_ms w of
        (w, Inl e) \<Rightarrow> (w, None)
      | (w, Inr reply) \<Rightarrow> (w, if \<not> scsi_good reply then None else decode_scsi_defect_list_count (sy_data_in reply)))"

text \<open>The sense is looked for in the autosense buffer, not in the data the command returns.\<close>

definition idle_sense :: scsi_sense_data where
  "idle_sense = \<lparr>sd_sense_key = 0, sd_asc = 0, sd_ascq = 0, sd_progress_permille = None\<rparr>"

definition request_sense :: "'s scsi_client \<Rightarrow> 's scsi_world \<Rightarrow> 's scsi_world \<times> (scsi_fatal + scsi_sense_data)" where
  "request_sense d w =
     (case scsi_issue d (encode_scsi_request_sense request_sense_alloc) (ScsiFromDev (unat request_sense_alloc)) probe_timeout_ms w of
        (w, Inl e) \<Rightarrow> (w, Inl (ScsiTransport e))
      | (w, Inr reply) \<Rightarrow>
          (w, if sy_sense reply = [] then Inr idle_sense
              else ok_or ScsiUndecodable (decode_scsi_sense_data (sy_sense reply))))"

definition illegal_request_reason :: "scsi_reply \<Rightarrow> (byte \<times> byte) option" where
  "illegal_request_reason reply =
     (let s = sy_sense reply;
          fields = (if length s \<ge> 4 \<and> (s ! 0) AND 0x7F = 0x72
                    then Some ((s ! 1) AND 0x0F, s ! 2, s ! 3)
                    else if length s \<ge> 14 then Some ((s ! 2) AND 0x0F, s ! 12, s ! 13)
                    else None)
      in case fields of
           None \<Rightarrow> None
         | Some (key, asc, ascq) \<Rightarrow> if key = 0x05 then Some (asc, ascq) else None)"

lemma scsi_issue_trace:
  "scsi_issue d cdb xfer timeout w = (w', r) \<Longrightarrow>
   sn_trace w' = sn_trace w @ [(\<lparr>sx_cdb = cdb, sx_xfer = xfer, sx_timeout_ms = timeout\<rparr>, r)]"
  by (auto simp: scsi_issue_def Let_def split: prod.splits)

function poll_sense :: "'s scsi_client \<Rightarrow> nat \<Rightarrow> 's scsi_world \<Rightarrow> 's scsi_world \<times> (scsi_step + nat \<times> scsi_sense_data)" where
  "poll_sense d polls w =
     (case request_sense d w of
        (w, Inl e) \<Rightarrow> (w, Inl (ScsiFatal e))
      | (w, Inr sense) \<Rightarrow>
          (let key = sd_sense_key sense; asc = sd_asc sense; ascq = sd_ascq sense in
           if key = 0x06 \<and> asc = 0x29 then (w, Inr (1000, sense))
           else if key = 0x00 then (w, Inr (1000, sense))
           else if key = 0x02 \<and> asc = 0x31 then (w, Inl (ScsiFatal (ScsiSanitizeFailed key asc ascq)))
           else if key = 0x02 \<and> asc = 0x04
           then (let progress = (case sd_progress_permille sense of None \<Rightarrow> 0 | Some p \<Rightarrow> p);
                     w = w\<lparr>sn_progress := sn_progress w @ [progress]\<rparr> in
                 if polls \<ge> sl_max_polls d then (w, Inl (ScsiFatal (ScsiSanitizeIncomplete progress polls)))
                 else poll_sense d (polls + 1) w)
           else (w, Inl (ScsiFatal (ScsiUnclassifiedSense key asc ascq)))))"
  by pat_completeness auto
termination
  by (relation "measure (\<lambda>(d, polls, _). sl_max_polls d - polls)") auto

declare poll_sense.simps [simp del]

definition scsi_run_sanitize :: "'s scsi_client \<Rightarrow> scsi_sanitize_action \<Rightarrow> 's scsi_world \<Rightarrow> 's scsi_world \<times> (scsi_step + nat \<times> scsi_sense_data)" where
  "scsi_run_sanitize d action w =
     (case scsi_issue d (encode_scsi_sanitize action True) ScsiNone sanitize_issue_timeout_ms w of
        (w, Inl e) \<Rightarrow> (w, Inl (ScsiFatal (ScsiTransport e)))
      | (w, Inr reply) \<Rightarrow>
          if \<not> scsi_good reply
          then (w, Inl (case illegal_request_reason reply of
                  Some reason \<Rightarrow> ScsiRejected reason
                | None \<Rightarrow> ScsiFatal (ScsiSanitizeIssueFailed (scsi_action_code action) (sy_status reply))))
          else poll_sense d 0 w)"

definition scsi_format_rung :: "'s scsi_client \<Rightarrow> scsi_purge_permit \<Rightarrow> nat option \<Rightarrow> scsi_fallback list \<Rightarrow> 's scsi_world \<Rightarrow>
    's scsi_world \<times> (scsi_fatal + scsi_summary)" where
  "scsi_format_rung d permit defects fallbacks w =
     (case scsi_issue d (encode_scsi_format_unit False) ScsiNone format_unit_timeout_ms w of
        (w, Inl e) \<Rightarrow> (w, Inl (ScsiFormatFault (sp_target_device permit) e))
      | (w, Inr reply) \<Rightarrow>
          if \<not> scsi_good reply
          then (w, Inl (ScsiLadderExhausted (decode_scsi_sense_data (sy_sense reply)) (sp_target_device permit)))
          else (case request_sense d w of
                  (w, sense) \<Rightarrow>
                    (w, Inr \<lparr>ss_executed_mechanism = ScsiFormatUnit, ss_fallbacks = fallbacks,
                       ss_completion_evidence = BlockingFormatUnitReturn, ss_progress_permille = 1000,
                       ss_grown_defects_pre = defects,
                       ss_terminal_sense = (case sense of Inl _ \<Rightarrow> idle_sense | Inr s \<Rightarrow> s)\<rparr>)))"

definition sanitize_summary :: "scsi_mechanism \<Rightarrow> nat option \<Rightarrow> scsi_fallback list \<Rightarrow> nat \<times> scsi_sense_data \<Rightarrow> scsi_summary" where
  "sanitize_summary m defects fallbacks r =
     \<lparr>ss_executed_mechanism = m, ss_fallbacks = fallbacks, ss_completion_evidence = SensePollTerminal,
      ss_progress_permille = fst r, ss_grown_defects_pre = defects, ss_terminal_sense = snd r\<rparr>"

definition scsi_block_rung :: "'s scsi_client \<Rightarrow> scsi_purge_permit \<Rightarrow> nat option \<Rightarrow> scsi_fallback list \<Rightarrow> 's scsi_world \<Rightarrow>
    's scsi_world \<times> (scsi_fatal + scsi_summary)" where
  "scsi_block_rung d permit defects fallbacks w =
     (case scsi_run_sanitize d ScsiBlockErase w of
        (w, Inr r) \<Rightarrow> (w, Inr (sanitize_summary ScsiSanitizeBlock defects fallbacks r))
      | (w, Inl (ScsiRejected reason)) \<Rightarrow>
          scsi_format_rung d permit defects
            (fallbacks @ [\<lparr>sf_from = ''SanitizeBlockErase'', sf_to = ''FormatUnit'', sf_reason = reason\<rparr>]) w
      | (w, Inl (ScsiFatal e)) \<Rightarrow> (w, Inl e))"

definition scsi_crypto_rung :: "'s scsi_client \<Rightarrow> scsi_purge_permit \<Rightarrow> nat option \<Rightarrow> 's scsi_world \<Rightarrow>
    's scsi_world \<times> (scsi_fatal + scsi_summary)" where
  "scsi_crypto_rung d permit defects w =
     (case scsi_run_sanitize d ScsiCryptoErase w of
        (w, Inr r) \<Rightarrow> (w, Inr (sanitize_summary ScsiSanitizeCrypto defects [] r))
      | (w, Inl (ScsiRejected reason)) \<Rightarrow>
          scsi_block_rung d permit defects
            [\<lparr>sf_from = ''SanitizeCryptoErase'', sf_to = ''SanitizeBlockErase'', sf_reason = reason\<rparr>] w
      | (w, Inl (ScsiFatal e)) \<Rightarrow> (w, Inl e))"

definition scsi_purge_ladder :: "'s scsi_client \<Rightarrow> scsi_purge_permit \<Rightarrow> scsi_mechanism option \<Rightarrow> 's scsi_world \<Rightarrow>
    's scsi_world \<times> (scsi_fatal + scsi_summary)" where
  "scsi_purge_ladder d permit requested w =
     (case read_grown_defects d w of
        (w, defects) \<Rightarrow>
          (case (case requested of None \<Rightarrow> ScsiSanitizeCrypto | Some m \<Rightarrow> m) of
             ScsiSanitizeCrypto \<Rightarrow> scsi_crypto_rung d permit defects w
           | ScsiSanitizeBlock \<Rightarrow> scsi_block_rung d permit defects [] w
           | ScsiFormatUnit \<Rightarrow> scsi_format_rung d permit defects [] w))"

section \<open>What a run leaves in the trace\<close>

type_synonym scsi_exchange = "scsi_request \<times> (string + scsi_reply)"

definition defects_rq :: scsi_request where
  "defects_rq = \<lparr>sx_cdb = encode_scsi_read_defect_data True 4, sx_xfer = ScsiFromDev 4, sx_timeout_ms = probe_timeout_ms\<rparr>"

definition scsi_sanitize_rq :: "scsi_sanitize_action \<Rightarrow> scsi_request" where
  "scsi_sanitize_rq a = \<lparr>sx_cdb = encode_scsi_sanitize a True, sx_xfer = ScsiNone, sx_timeout_ms = sanitize_issue_timeout_ms\<rparr>"

definition sense_rq :: scsi_request where
  "sense_rq = \<lparr>sx_cdb = encode_scsi_request_sense request_sense_alloc, sx_xfer = ScsiFromDev (unat request_sense_alloc),
     sx_timeout_ms = probe_timeout_ms\<rparr>"

definition format_rq :: scsi_request where
  "format_rq = \<lparr>sx_cdb = encode_scsi_format_unit False, sx_xfer = ScsiNone, sx_timeout_ms = format_unit_timeout_ms\<rparr>"

lemma issue_rq_trace:
  "scsi_issue d (encode_scsi_read_defect_data True 4) (ScsiFromDev 4) probe_timeout_ms w = (w', r) \<Longrightarrow>
   sn_trace w' = sn_trace w @ [(defects_rq, r)]"
  "scsi_issue d (encode_scsi_sanitize a True) ScsiNone sanitize_issue_timeout_ms w = (w', r) \<Longrightarrow>
   sn_trace w' = sn_trace w @ [(scsi_sanitize_rq a, r)]"
  "scsi_issue d (encode_scsi_request_sense request_sense_alloc) (ScsiFromDev (unat request_sense_alloc)) probe_timeout_ms w = (w', r) \<Longrightarrow>
   sn_trace w' = sn_trace w @ [(sense_rq, r)]"
  "scsi_issue d (encode_scsi_format_unit False) ScsiNone format_unit_timeout_ms w = (w', r) \<Longrightarrow>
   sn_trace w' = sn_trace w @ [(format_rq, r)]"
  by (simp_all add: scsi_issue_trace defects_rq_def scsi_sanitize_rq_def sense_rq_def format_rq_def)

text \<open>The sense a reply to REQUEST SENSE is taken for, and the senses that end a sanitize.\<close>

definition taken_for :: "string + scsi_reply \<Rightarrow> scsi_sense_data \<Rightarrow> bool" where
  "taken_for x s \<longleftrightarrow> (\<exists>reply. x = Inr reply \<and>
     (if sy_sense reply = [] then s = idle_sense else decode_scsi_sense_data (sy_sense reply) = Some s))"

definition ends_sanitize :: "scsi_sense_data \<Rightarrow> bool" where
  "ends_sanitize s \<longleftrightarrow> (sd_sense_key s = 0x06 \<and> sd_asc s = 0x29) \<or> sd_sense_key s = 0"

definition scsi_sanitized :: "scsi_sanitize_action \<Rightarrow> scsi_sense_data \<Rightarrow> scsi_exchange list \<Rightarrow> bool" where
  "scsi_sanitized a s tr \<longleftrightarrow> (\<exists>accepted mid x. tr = (scsi_sanitize_rq a, Inr accepted) # mid @ [(sense_rq, x)] \<and>
     scsi_good accepted \<and> fst ` set mid \<subseteq> {sense_rq} \<and> taken_for x s \<and> ends_sanitize s)"

definition scsi_rejected_by :: "scsi_sanitize_action \<Rightarrow> byte \<times> byte \<Rightarrow> scsi_exchange \<Rightarrow> bool" where
  "scsi_rejected_by a reason x \<longleftrightarrow> (\<exists>reply. x = (scsi_sanitize_rq a, Inr reply) \<and> \<not> scsi_good reply \<and>
     illegal_request_reason reply = Some reason)"

lemma request_sense_trace:
  assumes "request_sense d w = (w', r)"
  shows "\<exists>x. sn_trace w' = sn_trace w @ [(sense_rq, x)] \<and> (\<forall>s. r = Inr s \<longrightarrow> taken_for x s)"
proof -
  obtain v x where i: "scsi_issue d (encode_scsi_request_sense request_sense_alloc) (ScsiFromDev (unat request_sense_alloc))
      probe_timeout_ms w = (v, x)" by fastforce
  note eq = assms [unfolded request_sense_def i prod.case]
  have "w' = v \<and> (\<forall>s. r = Inr s \<longrightarrow> taken_for x s)"
  proof (cases x)
    case (Inl e)
    then show ?thesis using eq by auto
  next
    case (Inr reply)
    then show ?thesis using eq
      by (cases "sy_sense reply = []") (simp_all add: taken_for_def, (elim conjE, hypsubst, simp add: ok_or_eq_Inr)+)
  qed
  then show ?thesis using issue_rq_trace(3) [OF i] by blast
qed

lemma poll_sense_trace:
  "poll_sense d polls w = (w', r) \<Longrightarrow>
   \<exists>mid x. sn_trace w' = sn_trace w @ mid @ [(sense_rq, x)] \<and> length mid \<le> sl_max_polls d - polls \<and>
     fst ` set mid \<subseteq> {sense_rq} \<and> (\<forall>p s. r = Inr (p, s) \<longrightarrow> p = 1000 \<and> taken_for x s \<and> ends_sanitize s) \<and>
     (\<forall>reason. r \<noteq> Inl (ScsiRejected reason))"
proof (induction "sl_max_polls d - polls" arbitrary: polls w rule: less_induct)
  case less
  obtain v a where rs: "request_sense d w = (v, a)" by fastforce
  from request_sense_trace [OF rs] obtain x where x: "sn_trace v = sn_trace w @ [(sense_rq, x)]" "\<forall>s. a = Inr s \<longrightarrow> taken_for x s"
    by (elim exE conjE) (rule that)
  note eq = less.prems [unfolded poll_sense.simps [of d polls w] rs prod.case]
  show ?case
  proof (cases a)
    case (Inl e)
    then have "w' = v" "r = Inl (ScsiFatal e)" using eq by simp_all
    then show ?thesis using x(1) by (intro exI [of _ "[]"] exI [of _ x]) simp
  next
    case (Inr s)
    let ?progress = "case sd_progress_permille s of None \<Rightarrow> 0 | Some p \<Rightarrow> p"
    let ?v = "v\<lparr>sn_progress := sn_progress v @ [?progress]\<rparr>"
    have taken: "taken_for x s" using x(2) Inr by simp
    show ?thesis
    proof (cases "sd_sense_key s = 0x02 \<and> sd_asc s = 0x04 \<and> polls < sl_max_polls d")
      case True
      then have "poll_sense d (polls + 1) ?v = (w', r)" using eq Inr by (simp add: Let_def)
      moreover have "polls < sl_max_polls d" using True by simp
      moreover have "sl_max_polls d - (polls + 1) < sl_max_polls d - polls" using \<open>polls < sl_max_polls d\<close> by linarith
      ultimately have "\<exists>mid y. sn_trace w' = sn_trace ?v @ mid @ [(sense_rq, y)] \<and> length mid \<le> sl_max_polls d - (polls + 1) \<and>
        fst ` set mid \<subseteq> {sense_rq} \<and> (\<forall>p s. r = Inr (p, s) \<longrightarrow> p = 1000 \<and> taken_for y s \<and> ends_sanitize s) \<and>
        (\<forall>reason. r \<noteq> Inl (ScsiRejected reason))" by (intro less.hyps [of "polls + 1" ?v])
      then obtain mid y where m: "sn_trace w' = sn_trace ?v @ mid @ [(sense_rq, y)]" "length mid \<le> sl_max_polls d - (polls + 1)"
        "fst ` set mid \<subseteq> {sense_rq}" "\<forall>p s. r = Inr (p, s) \<longrightarrow> p = 1000 \<and> taken_for y s \<and> ends_sanitize s"
        "\<forall>reason. r \<noteq> Inl (ScsiRejected reason)" by (elim exE conjE) (rule that)
      have "length ((sense_rq, x) # mid) \<le> sl_max_polls d - polls" using m(2) \<open>polls < sl_max_polls d\<close> by simp
      moreover have "sn_trace w' = sn_trace w @ ((sense_rq, x) # mid) @ [(sense_rq, y)]" using m(1) x(1) by simp
      moreover have "fst ` set ((sense_rq, x) # mid) \<subseteq> {sense_rq}" using m(3) by simp
      ultimately show ?thesis using m(4,5) by (intro exI conjI)
    next
      case False
      have w': "sn_trace w' = sn_trace v"
        using eq Inr False by (simp add: Let_def not_less split: if_splits) (elim conjE, hypsubst, simp)+
      have "\<forall>p s'. r = Inr (p, s') \<longrightarrow> p = 1000 \<and> s' = s \<and> ends_sanitize s"
        using eq Inr False unfolding ends_sanitize_def by (simp add: Let_def not_less split: if_splits) (elim conjE, hypsubst, simp)+
      moreover have "\<forall>reason. r \<noteq> Inl (ScsiRejected reason)"
        using eq Inr False by (simp add: Let_def not_less split: if_splits) (elim conjE, hypsubst, simp)+
      ultimately have "\<forall>p s'. r = Inr (p, s') \<longrightarrow> p = 1000 \<and> taken_for x s' \<and> ends_sanitize s'"
        "\<forall>reason. r \<noteq> Inl (ScsiRejected reason)" using taken by blast+
      then show ?thesis using x(1) w' by (intro exI [of _ "[]"] exI [of _ x]) simp
    qed
  qed
qed

lemma scsi_run_sanitize_trace:
  assumes "scsi_run_sanitize d a w = (w', r)"
  shows "\<exists>added. sn_trace w' = sn_trace w @ added \<and> length added \<le> sl_max_polls d + 2 \<and>
    (\<forall>p s. r = Inr (p, s) \<longrightarrow> p = 1000 \<and> scsi_sanitized a s added) \<and>
    (\<forall>reason. r = Inl (ScsiRejected reason) \<longrightarrow> (\<exists>x. added = [x] \<and> scsi_rejected_by a reason x))"
proof -
  obtain v x where i: "scsi_issue d (encode_scsi_sanitize a True) ScsiNone sanitize_issue_timeout_ms w = (v, x)" by fastforce
  note v = issue_rq_trace(2) [OF i]
  show ?thesis
  proof (cases "\<exists>reply. x = Inr reply \<and> scsi_good reply")
    case True
    then obtain reply where x: "x = Inr reply" "scsi_good reply" by blast
    then have "poll_sense d 0 v = (w', r)" using assms i by (simp add: scsi_run_sanitize_def)
    from poll_sense_trace [OF this] obtain mid y where m: "sn_trace w' = sn_trace v @ mid @ [(sense_rq, y)]"
      "length mid \<le> sl_max_polls d" "fst ` set mid \<subseteq> {sense_rq}"
      "\<forall>p s. r = Inr (p, s) \<longrightarrow> p = 1000 \<and> taken_for y s \<and> ends_sanitize s" "\<forall>reason. r \<noteq> Inl (ScsiRejected reason)" by auto
    have "scsi_sanitized a s ((scsi_sanitize_rq a, x) # mid @ [(sense_rq, y)])" if "r = Inr (p, s)" for p s
      using that x m(3,4) by (auto simp: scsi_sanitized_def)
    then show ?thesis using m v by (intro exI [of _ "(scsi_sanitize_rq a, x) # mid @ [(sense_rq, y)]"]) simp
  next
    case False
    then have "w' = v \<and> (\<forall>p s. r \<noteq> Inr (p, s)) \<and>
        (\<forall>reason. r = Inl (ScsiRejected reason) \<longrightarrow> scsi_rejected_by a reason (scsi_sanitize_rq a, x))"
      using assms i by (auto simp: scsi_run_sanitize_def scsi_rejected_by_def split: sum.splits if_splits option.splits)
    then show ?thesis using v by (intro exI [of _ "[(scsi_sanitize_rq a, x)]"]) simp
  qed
qed

text \<open>A rung and everything below it.\<close>

definition finished_by :: "scsi_summary \<Rightarrow> scsi_exchange list \<Rightarrow> bool" where
  "finished_by s tail = (case ss_executed_mechanism s of
     ScsiSanitizeCrypto \<Rightarrow> ss_completion_evidence s = SensePollTerminal \<and> scsi_sanitized ScsiCryptoErase (ss_terminal_sense s) tail
   | ScsiSanitizeBlock \<Rightarrow> ss_completion_evidence s = SensePollTerminal \<and> scsi_sanitized ScsiBlockErase (ss_terminal_sense s) tail
   | ScsiFormatUnit \<Rightarrow> ss_completion_evidence s = BlockingFormatUnitReturn \<and>
       (\<exists>reply y. tail = [(format_rq, Inr reply), (sense_rq, y)] \<and> scsi_good reply))"

definition rung_ok :: "'s scsi_client \<Rightarrow> nat \<Rightarrow> scsi_fallback list \<Rightarrow> 's scsi_world \<Rightarrow> 's scsi_world \<times> (scsi_fatal + scsi_summary) \<Rightarrow> bool" where
  "rung_ok d extra before w wr \<longleftrightarrow> (\<exists>tr. sn_trace (fst wr) = sn_trace w @ tr \<and> length tr \<le> sl_max_polls d + extra \<and>
     (\<forall>s. snd wr = Inr s \<longrightarrow> (\<exists>rej tail fb. tr = rej @ tail \<and> ss_fallbacks s = before @ fb \<and> length rej = length fb \<and>
        (\<forall>x \<in> set rej. \<exists>a reason. scsi_rejected_by a reason x) \<and> finished_by s tail)))"

lemma format_rung_ok: "rung_ok d 2 before w (scsi_format_rung d permit defects before w)"
proof -
  obtain v x where i: "scsi_issue d (encode_scsi_format_unit False) ScsiNone format_unit_timeout_ms w = (v, x)" by fastforce
  note v = issue_rq_trace(4) [OF i]
  show ?thesis
  proof (cases "\<exists>reply. x = Inr reply \<and> scsi_good reply")
    case True
    then obtain reply where x: "x = Inr reply" "scsi_good reply" by blast
    obtain u a where u: "request_sense d v = (u, a)" by fastforce
    from request_sense_trace [OF u] obtain y where y: "sn_trace u = sn_trace v @ [(sense_rq, y)]" by blast
    show ?thesis
      using x y v i u
      by (auto simp: rung_ok_def scsi_format_rung_def finished_by_def intro!: exI [of _ "[(format_rq, Inr reply), (sense_rq, y)]"] exI [of _ "[]"])
  next
    case False
    then show ?thesis using i v
      by (auto simp: rung_ok_def scsi_format_rung_def split: sum.splits intro!: exI [of _ "[(format_rq, x)]"])
  qed
qed

lemma rung_step:
  assumes run: "scsi_run_sanitize d a w = (v, r)" and am: "(a, m) \<in> {(ScsiCryptoErase, ScsiSanitizeCrypto), (ScsiBlockErase, ScsiSanitizeBlock)}"
    and low: "\<And>reason. r = Inl (ScsiRejected reason) \<Longrightarrow> rung_ok d extra (before @ [fb reason]) v (lower reason)" and "2 \<le> extra"
  shows "rung_ok d (extra + 1) before w (case r of Inr q \<Rightarrow> (v, Inr (sanitize_summary m defects before q))
    | Inl (ScsiRejected reason) \<Rightarrow> lower reason | Inl (ScsiFatal e) \<Rightarrow> (v, Inl e))"
proof -
  from scsi_run_sanitize_trace [OF run] obtain added where t: "sn_trace v = sn_trace w @ added" "length added \<le> sl_max_polls d + 2"
    "\<forall>p s. r = Inr (p, s) \<longrightarrow> p = 1000 \<and> scsi_sanitized a s added"
    "\<forall>reason. r = Inl (ScsiRejected reason) \<longrightarrow> (\<exists>x. added = [x] \<and> scsi_rejected_by a reason x)" by (elim exE conjE) (rule that)
  have len: "length added \<le> sl_max_polls d + (extra + 1)" using t(2) assms(4) by simp
  show ?thesis
  proof (cases r)
    case (Inr q)
    then have "scsi_sanitized a (snd q) added" using t(3) by (cases q) simp
    then have fin: "finished_by (sanitize_summary m defects before q) added" using am by (auto simp: sanitize_summary_def finished_by_def)
    have "ss_fallbacks (sanitize_summary m defects before q) = before @ []" by (simp add: sanitize_summary_def)
    then show ?thesis using Inr t(1) len fin unfolding rung_ok_def
      by (intro exI [of _ added]) (auto intro!: exI [of _ "[]"])
  next
    case (Inl e)
    show ?thesis
    proof (cases e)
      case (ScsiFatal f)
      then show ?thesis using Inl t(1) len unfolding rung_ok_def by (intro exI [of _ added]) simp
    next
      case (ScsiRejected reason)
      then obtain x where x: "added = [x]" "scsi_rejected_by a reason x" using t(4) Inl by blast
      from low [of reason] Inl ScsiRejected obtain tr where l: "sn_trace (fst (lower reason)) = sn_trace v @ tr" "length tr \<le> sl_max_polls d + extra"
        "\<And>s. snd (lower reason) = Inr s \<Longrightarrow> \<exists>rej tail fs. tr = rej @ tail \<and> ss_fallbacks s = (before @ [fb reason]) @ fs \<and> length rej = length fs \<and>
           (\<forall>x \<in> set rej. \<exists>a reason. scsi_rejected_by a reason x) \<and> finished_by s tail"
        by (auto simp: rung_ok_def)
      have "\<exists>rej tail fs. x # tr = rej @ tail \<and> ss_fallbacks s = before @ fs \<and> length rej = length fs \<and>
           (\<forall>x \<in> set rej. \<exists>a reason. scsi_rejected_by a reason x) \<and> finished_by s tail" if s: "snd (lower reason) = Inr s" for s
      proof -
        from l(3) [OF s] obtain rej tail fs where "tr = rej @ tail" "ss_fallbacks s = (before @ [fb reason]) @ fs" "length rej = length fs"
          "\<forall>x \<in> set rej. \<exists>a reason. scsi_rejected_by a reason x" "finished_by s tail" by (elim exE conjE) (rule that)
        then have "x # tr = (x # rej) @ tail" "ss_fallbacks s = before @ (fb reason # fs)" "length (x # rej) = length (fb reason # fs)"
          "\<forall>y \<in> set (x # rej). \<exists>a reason. scsi_rejected_by a reason y" "finished_by s tail" using x(2)
          by (simp_all del: split_paired_Ex) blast
        then show ?thesis by (intro exI conjI)
      qed
      then show ?thesis using Inl ScsiRejected l(1,2) t(1) x(1) unfolding rung_ok_def by (intro exI [of _ "x # tr"]) simp
    qed
  qed
qed

lemma block_rung_ok: "rung_ok d 3 before w (scsi_block_rung d permit defects before w)"
proof -
  obtain v r where run: "scsi_run_sanitize d ScsiBlockErase w = (v, r)" by fastforce
  have "rung_ok d (2 + 1) before w (case r of Inr q \<Rightarrow> (v, Inr (sanitize_summary ScsiSanitizeBlock defects before q))
    | Inl (ScsiRejected reason) \<Rightarrow> scsi_format_rung d permit defects
        (before @ [\<lparr>sf_from = ''SanitizeBlockErase'', sf_to = ''FormatUnit'', sf_reason = reason\<rparr>]) v
    | Inl (ScsiFatal e) \<Rightarrow> (v, Inl e))"
    by (rule rung_step [OF run, where fb = "\<lambda>reason. \<lparr>sf_from = ''SanitizeBlockErase'', sf_to = ''FormatUnit'', sf_reason = reason\<rparr>"])
      (simp_all add: format_rung_ok)
  moreover have "scsi_block_rung d permit defects before w = (case r of Inr q \<Rightarrow> (v, Inr (sanitize_summary ScsiSanitizeBlock defects before q))
    | Inl (ScsiRejected reason) \<Rightarrow> scsi_format_rung d permit defects
        (before @ [\<lparr>sf_from = ''SanitizeBlockErase'', sf_to = ''FormatUnit'', sf_reason = reason\<rparr>]) v
    | Inl (ScsiFatal e) \<Rightarrow> (v, Inl e))"
    unfolding scsi_block_rung_def run prod.case by (simp split: sum.split scsi_step.split)
  ultimately show ?thesis by simp
qed

lemma crypto_rung_ok: "rung_ok d 4 [] w (scsi_crypto_rung d permit defects w)"
proof -
  obtain v r where run: "scsi_run_sanitize d ScsiCryptoErase w = (v, r)" by fastforce
  have "rung_ok d (3 + 1) [] w (case r of Inr q \<Rightarrow> (v, Inr (sanitize_summary ScsiSanitizeCrypto defects [] q))
    | Inl (ScsiRejected reason) \<Rightarrow> scsi_block_rung d permit defects
        [\<lparr>sf_from = ''SanitizeCryptoErase'', sf_to = ''SanitizeBlockErase'', sf_reason = reason\<rparr>] v
    | Inl (ScsiFatal e) \<Rightarrow> (v, Inl e))"
    by (rule rung_step [OF run, where fb = "\<lambda>reason. \<lparr>sf_from = ''SanitizeCryptoErase'', sf_to = ''SanitizeBlockErase'', sf_reason = reason\<rparr>"])
      (simp_all add: block_rung_ok)
  moreover have "scsi_crypto_rung d permit defects w = (case r of Inr q \<Rightarrow> (v, Inr (sanitize_summary ScsiSanitizeCrypto defects [] q))
    | Inl (ScsiRejected reason) \<Rightarrow> scsi_block_rung d permit defects
        [\<lparr>sf_from = ''SanitizeCryptoErase'', sf_to = ''SanitizeBlockErase'', sf_reason = reason\<rparr>] v
    | Inl (ScsiFatal e) \<Rightarrow> (v, Inl e))"
    unfolding scsi_crypto_rung_def run prod.case by (simp split: sum.split scsi_step.split)
  ultimately show ?thesis by simp
qed

lemma rung_ok_mono: "rung_ok d k before w r \<Longrightarrow> k \<le> l \<Longrightarrow> rung_ok d l before w r"
  unfolding rung_ok_def by (elim exE conjE, intro exI conjI) (assumption, simp, assumption)

section \<open>Properties\<close>

text \<open>C19: What a certified SCSI purge rests on. A summary comes only after the exchanges it claims: controller rejections
  with ILLEGAL REQUEST alone, one per recorded fallback, then an accepted SANITIZE whose last REQUEST
  SENSE was taken for a terminal sense, or a FORMAT UNIT that returned GOOD. Whatever the drive answers,
  the ladder makes at most five exchanges beyond its polls.\<close>

theorem scsi_purge_evidence:
  assumes "scsi_purge_ladder d permit requested w = (w', r)"
  shows "\<exists>q tr. sn_trace w' = sn_trace w @ (defects_rq, q) # tr \<and> length tr \<le> sl_max_polls d + 4 \<and>
    (\<forall>s. r = Inr s \<longrightarrow> (\<exists>rej tail. tr = rej @ tail \<and> length rej = length (ss_fallbacks s) \<and>
       (\<forall>x \<in> set rej. \<exists>a reason. scsi_rejected_by a reason x) \<and> finished_by s tail))"
proof -
  obtain v defects where g: "read_grown_defects d w = (v, defects)" by fastforce
  then obtain q where q: "sn_trace v = sn_trace w @ [(defects_rq, q)]"
    by (auto simp: read_grown_defects_def issue_rq_trace(1) split: prod.splits sum.splits)
  have "rung_ok d 4 [] v (w', r)"
    using assms g rung_ok_mono [OF format_rung_ok, of 4 d "[]" v permit defects] rung_ok_mono [OF block_rung_ok, of 4 d "[]" v permit defects]
      crypto_rung_ok [of d v permit defects]
    by (auto simp: scsi_purge_ladder_def split: option.splits scsi_mechanism.splits)
  then obtain tr where t: "sn_trace w' = sn_trace v @ tr" "length tr \<le> sl_max_polls d + 4"
    "\<And>s. r = Inr s \<Longrightarrow> \<exists>rej tail fb. tr = rej @ tail \<and> ss_fallbacks s = [] @ fb \<and> length rej = length fb \<and>
        (\<forall>x \<in> set rej. \<exists>a reason. scsi_rejected_by a reason x) \<and> finished_by s tail"
    by (auto simp: rung_ok_def)
  have "\<exists>rej tail. tr = rej @ tail \<and> length rej = length (ss_fallbacks s) \<and>
       (\<forall>x \<in> set rej. \<exists>a reason. scsi_rejected_by a reason x) \<and> finished_by s tail" if "r = Inr s" for s
    using t(3) [OF that] by (elim exE conjE) (intro exI conjI, assumption, simp, assumption, assumption)
  then show ?thesis using t(1,2) q by (intro exI [of _ q] exI [of _ tr]) simp
qed

text \<open>C20: A running sanitize is certified. REQUEST SENSE returns the sense as data, with status GOOD and no autosense; the
  client looks at the autosense only and takes its absence for an idle drive. Against every drive that
  answers like this and accepts the command, the first poll reports the crypto erase as finished, whatever
  the drive says.\<close>

theorem scsi_running_sanitize_certified:
  assumes sense: "\<And>s. \<exists>s' reply. sl_issue d s sense_rq = (s', Inr reply) \<and> sy_sense reply = []"
    and accepts: "\<And>s. \<exists>s' reply. sl_issue d s (scsi_sanitize_rq ScsiCryptoErase) = (s', Inr reply) \<and> scsi_good reply"
  shows "\<exists>w' s q x y. scsi_purge_ladder d permit None w = (w', Inr s) \<and> ss_executed_mechanism s = ScsiSanitizeCrypto \<and>
    ss_progress_permille s = 1000 \<and> ss_completion_evidence s = SensePollTerminal \<and>
    sn_trace w' = sn_trace w @ [(defects_rq, q), (scsi_sanitize_rq ScsiCryptoErase, Inr x), (sense_rq, Inr y)]"
proof -
  obtain v defects where g: "read_grown_defects d w = (v, defects)" by fastforce
  then obtain q where q: "sn_trace v = sn_trace w @ [(defects_rq, q)]"
    by (auto simp: read_grown_defects_def issue_rq_trace(1) split: prod.splits sum.splits)
  obtain s1 x where x: "sl_issue d (sn_dev v) (scsi_sanitize_rq ScsiCryptoErase) = (s1, Inr x)" "scsi_good x" using accepts by blast
  let ?u = "v\<lparr>sn_dev := s1, sn_trace := sn_trace v @ [(scsi_sanitize_rq ScsiCryptoErase, Inr x)]\<rparr>"
  have i: "scsi_issue d (encode_scsi_sanitize ScsiCryptoErase True) ScsiNone sanitize_issue_timeout_ms v = (?u, Inr x)"
    using x(1) by (simp add: scsi_issue_def Let_def scsi_sanitize_rq_def)
  obtain s2 y where y: "sl_issue d s1 sense_rq = (s2, Inr y)" "sy_sense y = []" using sense by blast
  let ?t = "?u\<lparr>sn_dev := s2, sn_trace := sn_trace ?u @ [(sense_rq, Inr y)]\<rparr>"
  have "scsi_issue d (encode_scsi_request_sense request_sense_alloc) (ScsiFromDev (unat request_sense_alloc)) probe_timeout_ms ?u = (?t, Inr y)"
    using y(1) by (simp add: scsi_issue_def Let_def sense_rq_def)
  then have "request_sense d ?u = (?t, Inr idle_sense)" using y(2) unfolding request_sense_def by simp
  then have "poll_sense d 0 ?u = (?t, Inr (1000, idle_sense))" by (subst poll_sense.simps) (simp add: idle_sense_def Let_def)
  then have "scsi_run_sanitize d ScsiCryptoErase v = (?t, Inr (1000, idle_sense))" unfolding scsi_run_sanitize_def i using x(2) by simp
  then have "scsi_purge_ladder d permit None w = (?t, Inr (sanitize_summary ScsiSanitizeCrypto defects [] (1000, idle_sense)))"
    using g by (simp add: scsi_purge_ladder_def scsi_crypto_rung_def)
  then show ?thesis using q by (auto simp: sanitize_summary_def)
qed

section \<open>A drive that is half way\<close>

text \<open>It accepts everything and reports, as data, a sanitize in progress at one half.\<close>

definition half_way_sense :: "byte list" where
  "half_way_sense = [0x70, 0, 0x02, 0, 0, 0, 0, 10, 0, 0, 0, 0, 0x04, 0x0B, 0, 0x80, 0x80, 0]"

definition half_way_drive :: "unit scsi_client" where
  "half_way_drive = \<lparr>sl_issue = \<lambda>s rq. (s, Inr \<lparr>sy_status = 0, sy_sense = [],
     sy_data_in = (case sx_xfer rq of ScsiFromDev n \<Rightarrow> take n half_way_sense | _ \<Rightarrow> [])\<rparr>), sl_max_polls = 8\<rparr>"

theorem scsi_running_sanitize_certified_witness:
  "\<exists>w' s q x y. scsi_purge_ladder half_way_drive (scsi_mint [] [] 0) None \<lparr>sn_dev = (), sn_trace = [], sn_progress = []\<rparr> = (w', Inr s) \<and>
     ss_progress_permille s = 1000 \<and>
     sn_trace w' = [(defects_rq, q), (scsi_sanitize_rq ScsiCryptoErase, Inr x), (sense_rq, Inr y)]"
proof -
  have "\<exists>s' reply. sl_issue half_way_drive s sense_rq = (s', Inr reply) \<and> sy_sense reply = []"
    "\<exists>s' reply. sl_issue half_way_drive s (scsi_sanitize_rq ScsiCryptoErase) = (s', Inr reply) \<and> scsi_good reply" for s
    by (simp_all add: half_way_drive_def scsi_good_def)
  from scsi_running_sanitize_certified [OF this, of "scsi_mint [] [] 0" "\<lparr>sn_dev = (), sn_trace = [], sn_progress = []\<rparr>"]
  show ?thesis by auto
qed

lemma half_way_drive_reports:
  "snd (sl_issue half_way_drive s sense_rq) = Inr \<lparr>sy_status = 0, sy_sense = [], sy_data_in = half_way_sense\<rparr>"
  "decode_scsi_sense_data half_way_sense = Some \<lparr>sd_sense_key = 2, sd_asc = 4, sd_ascq = 0x0B, sd_progress_permille = Some 500\<rparr>"
  by (simp_all add: half_way_drive_def sense_rq_def half_way_sense_def decode_scsi_sense_data_def request_sense_alloc_def Let_def)

theorem scsi_purge_evidence_witness:
  "\<exists>w' s (rej :: scsi_exchange list) tail. scsi_purge_ladder half_way_drive (scsi_mint [] [] 0) (Some ScsiFormatUnit)
      \<lparr>sn_dev = (), sn_trace = [], sn_progress = []\<rparr> = (w', Inr s) \<and> length rej = length (ss_fallbacks s) \<and> finished_by s tail"
proof -
  let ?w = "\<lparr>sn_dev = (), sn_trace = [], sn_progress = []\<rparr>"
  obtain w' s where r: "scsi_purge_ladder half_way_drive (scsi_mint [] [] 0) (Some ScsiFormatUnit) ?w = (w', Inr s)"
    by (simp add: scsi_purge_ladder_def read_grown_defects_def scsi_format_rung_def request_sense_def scsi_issue_def half_way_drive_def
        scsi_good_def split: prod.splits)
  from scsi_purge_evidence [OF r] obtain rej :: "scsi_exchange list" and tail where "length rej = length (ss_fallbacks s)" "finished_by s tail"
    by (elim exE conjE allE [of _ s] impE) (rule refl, rule that, assumption+)
  then show ?thesis using r by (intro exI conjI)
qed

end
