(* ===== verification/Nvme_Codec.thy ===== *)
theory Nvme_Codec
  imports Ata_Codec Guardian Strategy
begin

text \<open>
  The NVMe admin commands and log pages (\<open>crates/dc-hw/src/nvme_codec.rs\<close>), the kernel transport
  (\<open>crates/dc-nvme/src/linux_admin.rs\<close>, \<open>transport.rs\<close>) and the probes (\<open>probe.rs\<close>). A command is its 64
  bytes on the wire; the \<open>ioctl\<close> of the kernel is a parameter that returns an \<open>errno\<close> or, as the kernel
  documents, a status (0, or the NVMe status of a command the controller refused) and the data buffer.
  A text read from a drive is a list of UTF-8 bytes.
\<close>

section \<open>Encoding\<close>

datatype nvme_secure_erase = EraseNone | EraseUserData | EraseCrypto
datatype nvme_sanitize_action = NvmeExitFailureMode | NvmeBlockErase | NvmeOverwrite | NvmeCryptoErase

fun ses_code :: "nvme_secure_erase \<Rightarrow> byte" where
  "ses_code EraseNone = 0"
| "ses_code EraseUserData = 1"
| "ses_code EraseCrypto = 2"

fun sanact_code :: "nvme_sanitize_action \<Rightarrow> byte" where
  "sanact_code NvmeExitFailureMode = 1"
| "sanact_code NvmeBlockErase = 2"
| "sanact_code NvmeOverwrite = 3"
| "sanact_code NvmeCryptoErase = 4"

text \<open>\<open>copy_from_slice\<close> into a range of the command.\<close>

definition put :: "nat \<Rightarrow> byte list \<Rightarrow> byte list \<Rightarrow> byte list" where
  "put off bs buf = take off buf @ bs @ drop (off + length bs) buf"

definition u32_at :: "byte list \<Rightarrow> nat \<Rightarrow> u32" where
  "u32_at buf off = of_u32_le (take 4 (drop off buf))"

definition admin_command :: "byte \<Rightarrow> u32 \<Rightarrow> u32 \<Rightarrow> byte list" where
  "admin_command opcode nsid cdw10 = put 40 (u32_le cdw10) (put 4 (u32_le nsid) ((replicate 64 0) [0 := opcode]))"

definition encode_format_nvm :: "u32 \<Rightarrow> nvme_secure_erase \<Rightarrow> byte \<Rightarrow> byte list" where
  "encode_format_nvm nsid ses lbaf = admin_command 0x80 nsid (push_bit 9 (ucast (ses_code ses)) OR (ucast lbaf AND 0x0F))"

definition encode_nvme_sanitize :: "nvme_sanitize_action \<Rightarrow> bool \<Rightarrow> byte list" where
  "encode_nvme_sanitize action no_deallocate =
     admin_command 0x84 0 ((ucast (sanact_code action) AND 0x07) OR (if no_deallocate then push_bit 9 1 else 0))"

definition encode_get_sanitize_status_log :: "byte list" where
  "encode_get_sanitize_status_log = admin_command 0x02 0xFFFFFFFF (0x81 OR push_bit 16 0x007F)"

definition encode_get_log_page :: "byte \<Rightarrow> u16 \<Rightarrow> byte list" where
  "encode_get_log_page log_id num_bytes =
     (let numd = (if num_bytes div 4 = 0 then 0 else ucast (num_bytes div 4) - 1) :: u32
      in admin_command 0x02 0xFFFFFFFF ((ucast log_id AND 0xFF) OR push_bit 16 numd))"

definition encode_get_telemetry_log :: "bool \<Rightarrow> byte list" where
  "encode_get_telemetry_log create_snapshot =
     put 48 (u32_le (if create_snapshot then 1 else 0)) (encode_get_log_page 0x07 512)"

definition encode_get_health_log :: "byte list" where
  "encode_get_health_log = encode_get_log_page 0x02 512"

definition encode_identify_controller :: "byte list" where
  "encode_identify_controller = admin_command 0x06 0 0x0001"

definition encode_identify_namespace :: "u32 \<Rightarrow> byte list" where
  "encode_identify_namespace nsid = admin_command 0x06 nsid 0x0000"

section \<open>Decoding\<close>

record nvme_sanitize_status =
  nst_progress_permille :: nat
  nst_is_in_progress :: bool
  nst_is_completed :: bool
  nst_is_failed :: bool
  nst_raw_sstat :: u16
  nst_raw_sprog :: u16

record nvme_identify_controller =
  nic_vid :: u16
  nic_ssvid :: u16
  nic_sn :: "byte list"
  nic_mn :: "byte list"
  nic_fr :: "byte list"
  nic_ieee :: "byte list"
  nic_nn :: u32
  nic_oacs :: u16
  nic_sanicap :: byte

record nvme_identify_namespace =
  nin_nsze :: u64
  nin_ncap :: u64
  nin_nuse :: u64
  nin_flbas :: byte
  nin_eui64 :: "string option"
  nin_nguid :: "string option"

record nvme_telemetry_header =
  nth_data_areas_supported :: byte
  nth_generation :: byte
  nth_reason_identifier :: "byte list"
  nth_area1_last_block :: u32
  nth_area2_last_block :: u32
  nth_area3_last_block :: u32

record nvme_health_log =
  nhl_critical_warning :: byte
  nhl_temperature_kelvin :: u16
  nhl_available_spare_percent :: byte
  nhl_percentage_used :: byte
  nhl_data_units_read :: "128 word"
  nhl_data_units_written :: "128 word"
  nhl_host_read_commands :: "128 word"
  nhl_host_write_commands :: "128 word"
  nhl_media_errors :: "128 word"
  nhl_power_cycles :: "128 word"
  nhl_power_on_hours :: "128 word"

definition le_at :: "nat \<Rightarrow> byte list \<Rightarrow> nat \<Rightarrow> 'a::len word" where
  "le_at n buf off = of_le_bytes (take n (drop off buf))"

definition nvme_sanitize_status_of :: "u16 \<Rightarrow> u16 \<Rightarrow> nvme_sanitize_status" where
  "nvme_sanitize_status_of sprog sstat =
     (let code = sstat AND 0x07
      in \<lparr>nst_progress_permille = (unat sprog * 1000 + 32768) div 65536, nst_is_in_progress = (code = 2),
          nst_is_completed = (code = 1), nst_is_failed = (code = 3), nst_raw_sstat = sstat, nst_raw_sprog = sprog\<rparr>)"

definition decode_sanitize_status_log :: "byte list \<Rightarrow> nvme_sanitize_status option" where
  "decode_sanitize_status_log payload =
     (if length payload < 8 then None
      else Some (nvme_sanitize_status_of (le_at 2 payload 0) (le_at 2 payload 2)))"

text \<open>\<open>str::trim\<close>: the characters with the property White\_Space, as UTF-8.\<close>

definition white_space_utf8 :: "byte list list" where
  "white_space_utf8 =
     map (\<lambda>b. [b]) [0x09, 0x0A, 0x0B, 0x0C, 0x0D, 0x20] @ [[0xC2, 0x85], [0xC2, 0xA0], [0xE1, 0x9A, 0x80]] @
     map (\<lambda>b. [0xE2, 0x80, b]) [0x80, 0x81, 0x82, 0x83, 0x84, 0x85, 0x86, 0x87, 0x88, 0x89, 0x8A, 0xA8, 0xA9, 0xAF] @
     [[0xE2, 0x81, 0x9F], [0xE3, 0x80, 0x80]]"

fun strip_front :: "nat \<Rightarrow> byte list list \<Rightarrow> byte list \<Rightarrow> byte list" where
  "strip_front 0 ws bs = bs"
| "strip_front (Suc n) ws bs =
     (case find (\<lambda>w. take (length w) bs = w) ws of
        None \<Rightarrow> bs
      | Some w \<Rightarrow> strip_front n ws (drop (length w) bs))"

definition trim_utf8 :: "byte list \<Rightarrow> byte list" where
  "trim_utf8 bs =
     (let front = strip_front (length bs) white_space_utf8 bs
      in rev (strip_front (length front) (map rev white_space_utf8) (rev front)))"

definition drive_text :: "byte list \<Rightarrow> nat \<Rightarrow> nat \<Rightarrow> byte list" where
  "drive_text payload from upto' = trim_utf8 (from_utf8_lossy (take (upto' - from) (drop from payload)))"

definition decode_identify_controller :: "byte list \<Rightarrow> nvme_identify_controller option" where
  "decode_identify_controller payload =
     (if length payload < 4096 then None
      else Some \<lparr>nic_vid = le_at 2 payload 0, nic_ssvid = le_at 2 payload 2, nic_sn = drive_text payload 4 24,
             nic_mn = drive_text payload 24 64, nic_fr = drive_text payload 64 72,
             nic_ieee = [payload ! 73, payload ! 74, payload ! 75], nic_nn = le_at 4 payload 516,
             nic_oacs = le_at 2 payload 256, nic_sanicap = payload ! 331 AND 0x07\<rparr>)"

definition supports_format :: "nvme_identify_controller \<Rightarrow> bool" where
  "supports_format i \<longleftrightarrow> nic_oacs i AND 0x0002 \<noteq> 0"

definition supports_crypto :: "nvme_identify_controller \<Rightarrow> bool" where
  "supports_crypto i \<longleftrightarrow> nic_sanicap i AND 0x04 \<noteq> 0"

definition supports_block :: "nvme_identify_controller \<Rightarrow> bool" where
  "supports_block i \<longleftrightarrow> nic_sanicap i AND 0x02 \<noteq> 0"

text \<open>The hex crate is a parameter.\<close>

definition optional_id :: "(byte list \<Rightarrow> string) \<Rightarrow> byte list \<Rightarrow> string option" where
  "optional_id hex bytes = (if \<exists>b \<in> set bytes. b \<noteq> 0 then Some (hex bytes) else None)"

definition decode_identify_namespace :: "(byte list \<Rightarrow> string) \<Rightarrow> byte list \<Rightarrow> nvme_identify_namespace option" where
  "decode_identify_namespace hex payload =
     (if length payload < 4096 then None
      else Some \<lparr>nin_nsze = le_at 8 payload 0, nin_ncap = le_at 8 payload 8, nin_nuse = le_at 8 payload 16,
             nin_flbas = payload ! 26, nin_eui64 = optional_id hex (take 8 (drop 120 payload)),
             nin_nguid = optional_id hex (take 16 (drop 104 payload))\<rparr>)"

definition le24 :: "byte list \<Rightarrow> u32" where
  "le24 b = ucast (b ! 0) OR push_bit 8 (ucast (b ! 1)) OR push_bit 16 (ucast (b ! 2))"

definition decode_telemetry_header :: "byte list \<Rightarrow> nvme_telemetry_header option" where
  "decode_telemetry_header payload =
     (if length payload < 518 then None
      else Some \<lparr>nth_data_areas_supported = payload ! 0, nth_generation = payload ! 1,
             nth_reason_identifier = rev (dropWhile (\<lambda>b. b = 0) (rev (from_utf8_lossy (take 16 (drop 8 payload))))),
             nth_area1_last_block = le24 (take 3 (drop 509 payload)), nth_area2_last_block = le24 (take 3 (drop 512 payload)),
             nth_area3_last_block = le24 (take 3 (drop 515 payload))\<rparr>)"

definition decode_health_log :: "byte list \<Rightarrow> nvme_health_log option" where
  "decode_health_log payload =
     (if length payload < 512 then None
      else Some \<lparr>nhl_critical_warning = payload ! 0, nhl_temperature_kelvin = le_at 2 payload 1,
             nhl_available_spare_percent = payload ! 3, nhl_percentage_used = payload ! 5,
             nhl_data_units_read = le_at 16 payload 32, nhl_data_units_written = le_at 16 payload 48,
             nhl_host_read_commands = le_at 16 payload 64, nhl_host_write_commands = le_at 16 payload 80,
             nhl_media_errors = le_at 16 payload 160, nhl_power_cycles = le_at 16 payload 112,
             nhl_power_on_hours = le_at 16 payload 128\<rparr>)"

section \<open>The kernel transport\<close>

datatype ioctl_taxonomy =
  IoctlSuccess
| TransportFault int string
| ControllerRejected int string
| TimeoutAmbiguous int
| OurBug int string
| UnmappedLoud int

text \<open>The numbers of \<open>libc\<close> on Linux.\<close>

definition classify_errno :: "int \<Rightarrow> ioctl_taxonomy" where
  "classify_errno errno =
     (if errno = 0 then IoctlSuccess
      else if errno = 5 then ControllerRejected errno ''Controller rejected admin command or I/O error''
      else if errno = 1 \<or> errno = 13 then TransportFault errno ''Permission denied for raw NVMe passthrough ioctl''
      else if errno = 19 \<or> errno = 6 then TransportFault errno ''NVMe device node disappeared from transport''
      else if errno = 110 then TimeoutAmbiguous errno
      else if errno = 14 then OurBug errno ''EFAULT: Invalid memory layout in passthrough buffer (internal bug)''
      else if errno = 22 then OurBug errno ''EINVAL: Invalid parameter in admin CDW construction (internal bug)''
      else UnmappedLoud errno)"

record passthru_cmd =
  pt_opcode :: byte
  pt_flags :: byte
  pt_nsid :: u32
  pt_data_len :: nat
  pt_cdw10 :: u32
  pt_cdw11 :: u32
  pt_cdw12 :: u32
  pt_cdw13 :: u32
  pt_cdw14 :: u32
  pt_cdw15 :: u32
  pt_timeout_ms :: nat

definition data_len_for :: "byte list \<Rightarrow> nat" where
  "data_len_for cmd =
     (if cmd ! 0 = 0x02 then (unat (drop_bit 16 (u32_at cmd 40)) + 1) * 4
      else if cmd ! 0 = 0x06 then 4096
      else 0)"

definition timeout_ms_for :: "byte \<Rightarrow> nat" where
  "timeout_ms_for opcode = (if opcode = 0x80 then 3600000 else if opcode = 0x84 then 120000 else 60000)"

definition passthru_of :: "byte list \<Rightarrow> passthru_cmd" where
  "passthru_of cmd =
     \<lparr>pt_opcode = cmd ! 0, pt_flags = cmd ! 1, pt_nsid = u32_at cmd 4, pt_data_len = data_len_for cmd,
      pt_cdw10 = u32_at cmd 40, pt_cdw11 = u32_at cmd 44, pt_cdw12 = u32_at cmd 48, pt_cdw13 = u32_at cmd 52,
      pt_cdw14 = u32_at cmd 56, pt_cdw15 = u32_at cmd 60, pt_timeout_ms = timeout_ms_for (cmd ! 0)\<rparr>"

text \<open>What the kernel writes over the zeroed buffer.\<close>

definition filled :: "nat \<Rightarrow> byte list \<Rightarrow> byte list" where
  "filled n d = take n d @ replicate (n - length d) 0"

type_synonym 's ioctl = "'s \<Rightarrow> passthru_cmd \<Rightarrow> 's \<times> (int + nat \<times> byte list)"
type_synonym 's admin_transport = "'s \<Rightarrow> byte list \<Rightarrow> 's \<times> (ioctl_taxonomy + byte list)"

definition linux_admin :: "'s ioctl \<Rightarrow> 's admin_transport" where
  "linux_admin ioctl s cmd =
     (case ioctl s (passthru_of cmd) of
        (s, Inl errno) \<Rightarrow> (s, Inl (classify_errno errno))
      | (s, Inr (ret, d)) \<Rightarrow> (s, Inr (filled (data_len_for cmd) d)))"

definition controller_char_dev_for :: "string \<Rightarrow> string" where
  "controller_char_dev_for block_ns =
     (let s = rev (dropWhile (\<lambda>c. c = CHR ''/'') (rev block_ns))
      in case rsplit_once (CHR ''n'') s of
           None \<Rightarrow> s
         | Some (front, rest) \<Rightarrow>
             if list_all ascii_digit rest \<and>
                (case rsplit_once (CHR ''/'') s of None \<Rightarrow> 0 | Some (dir, _) \<Rightarrow> length dir) < length front
             then front else s)"

section \<open>Probes\<close>

record health_snapshot =
  hs_critical_warning :: byte
  hs_temperature_celsius :: int
  hs_available_spare_percent :: byte
  hs_percentage_used :: byte
  hs_media_errors :: "128 word"
  hs_power_cycles :: "128 word"
  hs_power_on_hours :: "128 word"
  hs_data_units_written :: "128 word"
  hs_captured_via :: string

definition health_snapshot_of :: "nvme_health_log \<Rightarrow> health_snapshot" where
  "health_snapshot_of h =
     \<lparr>hs_critical_warning = nhl_critical_warning h, hs_temperature_celsius = int (unat (nhl_temperature_kelvin h)) - 273,
      hs_available_spare_percent = nhl_available_spare_percent h, hs_percentage_used = nhl_percentage_used h,
      hs_media_errors = nhl_media_errors h, hs_power_cycles = nhl_power_cycles h, hs_power_on_hours = nhl_power_on_hours h,
      hs_data_units_written = nhl_data_units_written h, hs_captured_via = ''nvme-admin-ioctl:log-page-0x02''\<rparr>"

definition identify_controller :: "'s admin_transport \<Rightarrow> 's \<Rightarrow> 's \<times> (ioctl_taxonomy + nvme_identify_controller)" where
  "identify_controller transport s =
     (case transport s encode_identify_controller of
        (s, Inl e) \<Rightarrow> (s, Inl e)
      | (s, Inr payload) \<Rightarrow>
          (s, ok_or (OurBug 22 ''Identify Controller buffer must be 4096 bytes'') (decode_identify_controller payload)))"

definition read_health :: "'s admin_transport \<Rightarrow> 's \<Rightarrow> 's \<times> (ioctl_taxonomy + health_snapshot)" where
  "read_health transport s =
     (case transport s encode_get_health_log of
        (s, Inl e) \<Rightarrow> (s, Inl e)
      | (s, Inr payload) \<Rightarrow>
          (s, ok_or (OurBug 22 ''Health Log buffer must be 512 bytes'') (map_option health_snapshot_of (decode_health_log payload))))"

definition attest_capabilities :: "nvme_identify_controller \<Rightarrow> capabilities" where
  "attest_capabilities i =
     \<lparr>supports_sanitize_crypto = supports_crypto i, supports_sanitize_block = supports_block i,
      supports_format_nvm = supports_format i, supports_ata_security_enhanced = False, supports_dco_hpa = False,
      supports_scsi_sanitize = False\<rparr>"

section \<open>Laws of the wire format\<close>

lemma length_put [simp]: "off + length bs \<le> length buf \<Longrightarrow> length (put off bs buf) = length buf"
  by (simp add: put_def)

lemma u32_at_put [simp]: "off + 4 \<le> length buf \<Longrightarrow> u32_at (put off (u32_le w) buf) off = w"
  by (simp add: u32_at_def put_def)

lemma take_drop_put:
  assumes "o' + n \<le> off \<or> off + length bs \<le> o'" and "off + length bs \<le> length buf"
  shows "take n (drop o' (put off bs buf)) = take n (drop o' buf)"
proof (rule nth_equalityI)
  show "length (take n (drop o' (put off bs buf))) = length (take n (drop o' buf))" using assms(2) by simp
  fix i assume "i < length (take n (drop o' (put off bs buf)))"
  then show "take n (drop o' (put off bs buf)) ! i = take n (drop o' buf) ! i"
    using assms by (auto simp: put_def nth_append)
qed

lemma u32_at_put_other [simp]:
  "o' + 4 \<le> off \<or> off + 4 \<le> o' \<Longrightarrow> off + 4 \<le> length buf \<Longrightarrow> u32_at (put off (u32_le w) buf) o' = u32_at buf o'"
  by (simp add: u32_at_def take_drop_put)

lemma nth_put_other [simp]: "i < off \<Longrightarrow> off \<le> length buf \<Longrightarrow> put off bs buf ! i = buf ! i"
  by (simp add: put_def nth_append)

lemma u32_at_zero [simp]:
  "off + 4 \<le> n \<Longrightarrow> 0 < off \<Longrightarrow> u32_at ((replicate n 0) [0 := opcode]) off = 0"
  by (simp add: u32_at_def of_u32_le_def drop_update_cancel take_replicate eval_nat_numeral)

text \<open>What the kernel is handed is what the encoder was given.\<close>

lemma passthru_admin_command [simp]:
  "passthru_of (admin_command opcode nsid cdw10) =
     \<lparr>pt_opcode = opcode, pt_flags = 0, pt_nsid = nsid,
      pt_data_len = (if opcode = 0x02 then (unat (drop_bit 16 cdw10) + 1) * 4 else if opcode = 0x06 then 4096 else 0),
      pt_cdw10 = cdw10, pt_cdw11 = 0, pt_cdw12 = 0, pt_cdw13 = 0, pt_cdw14 = 0, pt_cdw15 = 0,
      pt_timeout_ms = timeout_ms_for opcode\<rparr>"
  by (simp add: passthru_of_def admin_command_def data_len_for_def)

lemma length_admin_command [simp]: "length (admin_command opcode nsid cdw10) = 64"
  by (simp add: admin_command_def)

lemma data_len_admin_command [simp]:
  "data_len_for (admin_command opcode nsid cdw10) =
     (if opcode = 0x02 then (unat (drop_bit 16 cdw10) + 1) * 4 else if opcode = 0x06 then 4096 else 0)"
  using passthru_admin_command [of opcode nsid cdw10] by (simp add: passthru_of_def)

lemma length_filled [simp]: "length (filled n d) = n"
  by (simp add: filled_def)

lemma drop_push_u32: "unat d < 2 ^ 16 \<Longrightarrow> drop_bit 16 (push_bit 16 d :: u32) = d"
proof (rule bit_word_eqI)
  fix k assume s: "unat d < 2 ^ 16" and k: "k < LENGTH(32)"
  have "take_bit 16 d = d" using s by (simp add: word_unat_eq_iff take_bit_eq_mod unat_mod)
  then have "bit d k \<Longrightarrow> k < 16" by (metis bit_take_bit_iff)
  then show "bit (drop_bit 16 (push_bit 16 d)) k \<longleftrightarrow> bit d k" by (auto simp: bit_drop_bit_eq bit_push_bit_iff)
qed

text \<open>A log page read returns the number of bytes that was asked for, when it is a positive multiple of four.\<close>

lemma log_page_length:
  assumes "n mod 4 = 0" and "n \<noteq> 0"
  shows "data_len_for (encode_get_log_page log_id n) = unat n"
proof -
  have m: "unat n mod 4 = 0" using assms(1) by (simp add: unat_eq_0 [symmetric] unat_mod)
  have pos: "unat n div 4 \<noteq> 0" "n div 4 \<noteq> 0"
    using assms m by (auto simp: unat_eq_0 [symmetric] unat_div mod_eq_0_iff_dvd dest!: dvd_imp_le)
  have small: "unat n < 2 ^ 16" using unsigned_less [of n, where ?'a = nat] by simp
  let ?d = "ucast (n div 4) - 1 :: u32"
  have one: "(1 :: u32) \<le> ucast (n div 4)"
    using pos small by (simp add: word_le_nat_alt unsigned_ucast_eq take_bit_eq_mod unat_div)
  have d: "unat ?d = unat n div 4 - 1"
    using one small by (simp add: unat_sub unsigned_ucast_eq take_bit_eq_mod unat_div)
  have "drop_bit 16 ((ucast log_id AND 0xFF) OR push_bit 16 ?d :: u32) = ?d"
    using small d by (simp add: drop_bit_or drop_bit_and drop_push_u32)
  moreover have "(unat n div 4 - 1 + 1) * 4 = unat n" using pos m by auto
  ultimately show ?thesis using pos d by (simp add: encode_get_log_page_def Let_def)
qed

end
