(* ===== verification/Nvme_Purge.thy ===== *)
theory Nvme_Purge
  imports Nvme_Codec
begin

text \<open>
  The NVMe purge ladder (\<open>crates/dc-nvme/src/purge.rs\<close>, \<open>permit.rs\<close>) over any admin transport. The world
  records every command with its answer and the progress that was reported; sleeping between two polls
  has no effect here.
\<close>

section \<open>Permit, mechanisms, evidence\<close>

record nvme_permit =
  pu_target_device :: string
  pu_target_serial :: string
  pu_authorized_at_utc :: nat

definition nvme_mint :: "string \<Rightarrow> string \<Rightarrow> nat \<Rightarrow> nvme_permit" where
  "nvme_mint target_device target_serial timestamp_utc =
     \<lparr>pu_target_device = target_device, pu_target_serial = target_serial, pu_authorized_at_utc = timestamp_utc\<rparr>"

datatype nvme_mechanism = NvmeSanitizeCrypto | NvmeSanitizeBlock | FormatNvmCrypto | NvmeLogicalOverwrite

record nvme_fallback =
  nf_from :: nvme_mechanism
  nf_to :: nvme_mechanism
  nf_reason :: string

record nvme_summary =
  nv_executed_mechanism :: nvme_mechanism
  nv_fallbacks :: "nvme_fallback list"
  nv_status :: nvme_sanitize_status

datatype nvme_evidence = NvmeStatusLog | NvmeFormatReturn

fun nvme_evidence_of :: "nvme_mechanism \<Rightarrow> nvme_evidence" where
  "nvme_evidence_of NvmeSanitizeCrypto = NvmeStatusLog"
| "nvme_evidence_of NvmeSanitizeBlock = NvmeStatusLog"
| "nvme_evidence_of FormatNvmCrypto = NvmeFormatReturn"
| "nvme_evidence_of NvmeLogicalOverwrite = NvmeFormatReturn"

datatype nvme_fatal =
  FatalTransport nvme_mechanism ioctl_taxonomy
| StatusLogUnread ioctl_taxonomy
| StatusLogTooShort
| NvmeSanitizeFailed u16 u16
| NvmeSanitizeIncomplete nat nat
| LogicalOverwriteNotAdminExecutable

section \<open>The client\<close>

record 's nvme_client =
  nc_transport :: "'s admin_transport"
  nc_max_polls :: nat

type_synonym admin_exchange = "byte list \<times> (ioctl_taxonomy + byte list)"

record 's nvme_world =
  nw_dev :: 's
  nw_trace :: "admin_exchange list"
  nw_progress :: "nat list"

definition admin_passthrough :: "'s nvme_client \<Rightarrow> byte list \<Rightarrow> 's nvme_world \<Rightarrow> 's nvme_world \<times> (ioctl_taxonomy + byte list)" where
  "admin_passthrough d cmd w =
     (case nc_transport d (nw_dev w) cmd of
        (s, r) \<Rightarrow> (w\<lparr>nw_dev := s, nw_trace := nw_trace w @ [(cmd, r)]\<rparr>, r))"

text \<open>The trailing \<open>n<index>\<close> of the last path component, else 1.\<close>

definition derive_target_nsid :: "string \<Rightarrow> u32" where
  "derive_target_nsid target_device =
     (let name = (case rsplit_once (CHR ''/'') target_device of None \<Rightarrow> target_device | Some (_, name) \<Rightarrow> name)
      in case rsplit_once (CHR ''n'') name of
           None \<Rightarrow> 1
         | Some (_, rest) \<Rightarrow> (case parse_u32 rest of None \<Rightarrow> 1 | Some nsid \<Rightarrow> if nsid > 0 then of_nat nsid else 1))"

definition nvme_read_status :: "'s nvme_client \<Rightarrow> 's nvme_world \<Rightarrow> 's nvme_world \<times> (nvme_fatal + nvme_sanitize_status)" where
  "nvme_read_status d w =
     (case admin_passthrough d encode_get_sanitize_status_log w of
        (w, Inl e) \<Rightarrow> (w, Inl (StatusLogUnread e))
      | (w, Inr payload) \<Rightarrow> (w, ok_or StatusLogTooShort (decode_sanitize_status_log payload)))"

function wait_for_sanitize_completion ::
  "'s nvme_client \<Rightarrow> nat \<Rightarrow> 's nvme_world \<Rightarrow> 's nvme_world \<times> (nvme_fatal + nvme_sanitize_status)" where
  "wait_for_sanitize_completion d polls w =
     (case nvme_read_status d w of
        (w, Inl e) \<Rightarrow> (w, Inl e)
      | (w, Inr status) \<Rightarrow>
          if nst_is_failed status then (w, Inl (NvmeSanitizeFailed (nst_raw_sstat status) (nst_raw_sprog status)))
          else if nst_is_completed status then (w, Inr status)
          else if polls \<ge> nc_max_polls d then (w, Inl (NvmeSanitizeIncomplete (nst_progress_permille status) polls))
          else wait_for_sanitize_completion d (polls + 1) (w\<lparr>nw_progress := nw_progress w @ [nst_progress_permille status]\<rparr>))"
  by pat_completeness auto
termination
  by (relation "measure (\<lambda>(d, polls, _). nc_max_polls d - polls)") auto

declare wait_for_sanitize_completion.simps [simp del]

section \<open>The ladder\<close>

fun mechanism_command :: "u32 \<Rightarrow> nvme_mechanism \<Rightarrow> byte list" where
  "mechanism_command nsid NvmeSanitizeCrypto = encode_nvme_sanitize NvmeCryptoErase False"
| "mechanism_command nsid NvmeSanitizeBlock = encode_nvme_sanitize NvmeBlockErase False"
| "mechanism_command nsid FormatNvmCrypto = encode_format_nvm nsid EraseCrypto 0"
| "mechanism_command nsid NvmeLogicalOverwrite = []"

fun lower_mechanism :: "nvme_mechanism \<Rightarrow> nvme_mechanism" where
  "lower_mechanism NvmeSanitizeCrypto = NvmeSanitizeBlock"
| "lower_mechanism NvmeSanitizeBlock = FormatNvmCrypto"
| "lower_mechanism _ = NvmeLogicalOverwrite"

fun rank :: "nvme_mechanism \<Rightarrow> nat" where
  "rank NvmeSanitizeCrypto = 3"
| "rank NvmeSanitizeBlock = 2"
| "rank FormatNvmCrypto = 1"
| "rank NvmeLogicalOverwrite = 0"

text \<open>The status a returned Format NVM stands for; it is not read from a log.\<close>

definition format_status :: nvme_sanitize_status where
  "format_status = \<lparr>nst_progress_permille = 1000, nst_is_in_progress = False, nst_is_completed = True,
     nst_is_failed = False, nst_raw_sstat = 0, nst_raw_sprog = 0\<rparr>"

function nvme_walk ::
  "'s nvme_client \<Rightarrow> u32 \<Rightarrow> nvme_mechanism \<Rightarrow> nvme_fallback list \<Rightarrow> 's nvme_world \<Rightarrow> 's nvme_world \<times> (nvme_fatal + nvme_summary)" where
  "nvme_walk d nsid m fallbacks w =
     (if m = NvmeLogicalOverwrite then (w, Inl LogicalOverwriteNotAdminExecutable)
      else case admin_passthrough d (mechanism_command nsid m) w of
        (w, Inr _) \<Rightarrow>
          (if m = FormatNvmCrypto
           then (w, Inr \<lparr>nv_executed_mechanism = m, nv_fallbacks = fallbacks, nv_status = format_status\<rparr>)
           else (case wait_for_sanitize_completion d 0 w of
                   (w, Inl e) \<Rightarrow> (w, Inl e)
                 | (w, Inr status) \<Rightarrow> (w, Inr \<lparr>nv_executed_mechanism = m, nv_fallbacks = fallbacks, nv_status = status\<rparr>)))
      | (w, Inl (ControllerRejected errno description)) \<Rightarrow>
          nvme_walk d nsid (lower_mechanism m)
            (fallbacks @ [\<lparr>nf_from = m, nf_to = lower_mechanism m, nf_reason = description\<rparr>]) w
      | (w, Inl e) \<Rightarrow> (w, Inl (FatalTransport m e)))"
  by pat_completeness auto
termination
proof (relation "measure (\<lambda>(_, _, m, _, _). rank m)")
  fix d :: "'s nvme_client" and nsid m fallbacks fb and w w' :: "'s nvme_world"
  assume "m \<noteq> NvmeLogicalOverwrite"
  then show "((d, nsid, lower_mechanism m, fb, w'), d, nsid, m, fallbacks, w) \<in> measure (\<lambda>(_, _, m, _, _). rank m)"
    by (cases m) simp_all
qed simp

declare nvme_walk.simps [simp del]

definition nvme_purge_ladder ::
  "'s nvme_client \<Rightarrow> nvme_permit \<Rightarrow> nvme_mechanism \<Rightarrow> 's nvme_world \<Rightarrow> 's nvme_world \<times> (nvme_fatal + nvme_summary)" where
  "nvme_purge_ladder d permit primary w = nvme_walk d (derive_target_nsid (pu_target_device permit)) primary [] w"

section \<open>What a run leaves in the trace\<close>

lemma admin_passthrough_trace: "admin_passthrough d cmd w = (w', r) \<Longrightarrow> nw_trace w' = nw_trace w @ [(cmd, r)]"
  by (auto simp: admin_passthrough_def split: prod.splits)

definition log_says :: "admin_exchange \<Rightarrow> nvme_sanitize_status \<Rightarrow> bool" where
  "log_says x st \<longleftrightarrow> (\<exists>log. x = (encode_get_sanitize_status_log, Inr log) \<and> decode_sanitize_status_log log = Some st)"

lemma nvme_read_status_trace:
  assumes "nvme_read_status d w = (w', r)"
  shows "\<exists>x. nw_trace w' = nw_trace w @ [x] \<and> fst x = encode_get_sanitize_status_log \<and> (\<forall>st. r = Inr st \<longrightarrow> log_says x st)"
proof -
  obtain v x where i: "admin_passthrough d encode_get_sanitize_status_log w = (v, x)" by fastforce
  note eq = assms [unfolded nvme_read_status_def i prod.case]
  have "w' = v \<and> (\<forall>st. r = Inr st \<longrightarrow> log_says (encode_get_sanitize_status_log, x) st)"
    using eq by (cases x) (auto simp: log_says_def ok_or_eq_Inr)
  then show ?thesis using admin_passthrough_trace [OF i] by (intro exI [of _ "(encode_get_sanitize_status_log, x)"]) simp
qed

definition waited :: "nat \<Rightarrow> admin_exchange list \<Rightarrow> nvme_fatal + nvme_sanitize_status \<Rightarrow> bool" where
  "waited n tr r \<longleftrightarrow> tr \<noteq> [] \<and> length tr \<le> n \<and> fst ` set tr \<subseteq> {encode_get_sanitize_status_log} \<and>
     (\<forall>st. r = Inr st \<longrightarrow> log_says (last tr) st \<and> nst_is_completed st \<and> \<not> nst_is_failed st)"

lemma wait_trace:
  "wait_for_sanitize_completion d polls w = (w', r) \<Longrightarrow>
   \<exists>tr. nw_trace w' = nw_trace w @ tr \<and> waited (nc_max_polls d - polls + 1) tr r"
proof (induction "nc_max_polls d - polls" arbitrary: polls w rule: less_induct)
  case less
  obtain v a where rs: "nvme_read_status d w = (v, a)" by fastforce
  from nvme_read_status_trace [OF rs] obtain x where x: "nw_trace v = nw_trace w @ [x]" "fst x = encode_get_sanitize_status_log"
    "\<forall>st. a = Inr st \<longrightarrow> log_says x st" by (elim exE conjE) (rule that)
  note eq = less.prems [unfolded wait_for_sanitize_completion.simps [of d polls w] rs prod.case]
  show ?case
  proof (cases "\<exists>st. a = Inr st \<and> \<not> nst_is_failed st \<and> \<not> nst_is_completed st \<and> polls < nc_max_polls d")
    case True
    then obtain st where st: "a = Inr st" "\<not> nst_is_failed st" "\<not> nst_is_completed st" "polls < nc_max_polls d" by blast
    let ?v = "v\<lparr>nw_progress := nw_progress v @ [nst_progress_permille st]\<rparr>"
    have "wait_for_sanitize_completion d (polls + 1) ?v = (w', r)" using eq st by simp
    moreover have "nc_max_polls d - (polls + 1) < nc_max_polls d - polls" using st(4) by linarith
    ultimately have "\<exists>tr. nw_trace w' = nw_trace ?v @ tr \<and> waited (nc_max_polls d - (polls + 1) + 1) tr r"
      by (intro less.hyps [of "polls + 1" ?v])
    then obtain tr where tr: "nw_trace w' = nw_trace ?v @ tr" "waited (nc_max_polls d - (polls + 1) + 1) tr r"
      by (elim exE conjE) (rule that)
    have "waited (nc_max_polls d - polls + 1) (x # tr) r" using tr(2) x(2) st(4) by (auto simp: waited_def)
    then show ?thesis using tr(1) x(1) by (intro exI [of _ "x # tr"]) simp
  next
    case False
    then have "w' = v" and "\<forall>st. r = Inr st \<longrightarrow> a = Inr st \<and> nst_is_completed st \<and> \<not> nst_is_failed st"
      using eq by (cases a; auto split: if_splits)+
    then show ?thesis using x by (intro exI [of _ "[x]"]) (simp add: waited_def)
  qed
qed

text \<open>The tail of the trace that a summary rests on, and the rejections that its fallbacks record.\<close>

fun nvme_finished :: "u32 \<Rightarrow> nvme_summary \<Rightarrow> admin_exchange list \<Rightarrow> bool" where
  "nvme_finished nsid s [] \<longleftrightarrow> False"
| "nvme_finished nsid s (x # tr) \<longleftrightarrow>
     (\<exists>answer. x = (mechanism_command nsid (nv_executed_mechanism s), Inr answer)) \<and>
     (case nv_executed_mechanism s of
        NvmeLogicalOverwrite \<Rightarrow> False
      | FormatNvmCrypto \<Rightarrow> tr = [] \<and> nv_status s = format_status
      | _ \<Rightarrow> tr \<noteq> [] \<and> fst ` set tr \<subseteq> {encode_get_sanitize_status_log} \<and>
             log_says (last tr) (nv_status s) \<and> nst_is_completed (nv_status s))"

definition rejected_as :: "u32 \<Rightarrow> admin_exchange \<Rightarrow> nvme_fallback \<Rightarrow> bool" where
  "rejected_as nsid x f \<longleftrightarrow> nf_to f = lower_mechanism (nf_from f) \<and>
     (\<exists>errno. x = (mechanism_command nsid (nf_from f), Inl (ControllerRejected errno (nf_reason f))))"

lemma nvme_walk_trace:
  "nvme_walk d nsid m before w = (w', r) \<Longrightarrow>
   \<exists>tr. nw_trace w' = nw_trace w @ tr \<and> length tr \<le> nc_max_polls d + rank m \<and>
     (\<forall>s. r = Inr s \<longrightarrow> (\<exists>rej fs tail. tr = rej @ tail \<and> nv_fallbacks s = before @ fs \<and>
        list_all2 (rejected_as nsid) rej fs \<and> nvme_finished nsid s tail))"
proof (induction "rank m" arbitrary: m before w rule: less_induct)
  case less
  show ?case
  proof (cases "m = NvmeLogicalOverwrite")
    case True
    then have "w' = w \<and> (\<forall>s. r \<noteq> Inr s)" using less.prems by (subst (asm) nvme_walk.simps) auto
    then show ?thesis by (intro exI [of _ "[]"]) simp
  next
    case False
    obtain v a where i: "admin_passthrough d (mechanism_command nsid m) w = (v, a)" by fastforce
    note v = admin_passthrough_trace [OF i]
    note eq = less.prems [unfolded nvme_walk.simps [of d nsid m before w] i prod.case if_not_P [OF False]]
    let ?x = "(mechanism_command nsid m, a)"
    show ?thesis
    proof (cases a)
      case (Inr answer)
      show ?thesis
      proof (cases "m = FormatNvmCrypto")
        case True
        let ?s = "\<lparr>nv_executed_mechanism = m, nv_fallbacks = before, nv_status = format_status\<rparr>"
        have r: "w' = v" "r = Inr ?s" using eq Inr True by simp_all
        have "nvme_finished nsid ?s [?x]" using True Inr by simp
        then have "\<exists>rej fs tail. [?x] = rej @ tail \<and> nv_fallbacks ?s = before @ fs \<and>
            list_all2 (rejected_as nsid) rej fs \<and> nvme_finished nsid ?s tail"
          by (intro exI [of _ "[]"] exI [of _ "[?x]"]) simp
        then show ?thesis using r v True by (intro exI [of _ "[?x]"]) simp
      next
        case nofmt: False
        obtain u b where u: "wait_for_sanitize_completion d 0 v = (u, b)" by fastforce
        from wait_trace [OF u] obtain tr where tr: "nw_trace u = nw_trace v @ tr" "waited (nc_max_polls d + 1) tr b" by auto
        have rank: "2 \<le> rank m" using False nofmt by (cases m) simp_all
        have len: "length (?x # tr) \<le> nc_max_polls d + rank m" using tr(2) rank by (simp add: waited_def)
        have w': "w' = u" using eq Inr nofmt u by (cases b) simp_all
        have "\<exists>rej fs tail. ?x # tr = rej @ tail \<and> nv_fallbacks s = before @ fs \<and>
            list_all2 (rejected_as nsid) rej fs \<and> nvme_finished nsid s tail" if s: "r = Inr s" for s
        proof -
          obtain st where st: "b = Inr st" "s = \<lparr>nv_executed_mechanism = m, nv_fallbacks = before, nv_status = st\<rparr>"
            using eq Inr nofmt u s by (cases b) auto
          have "nvme_finished nsid s (?x # tr)" using st tr(2) Inr False nofmt by (cases m) (simp_all add: waited_def)
          then show ?thesis using st(2) by (intro exI [of _ "[]"] exI [of _ "?x # tr"]) simp
        qed
        then show ?thesis using len w' tr(1) v by (intro exI [of _ "?x # tr"]) simp
      qed
    next
      case (Inl e)
      show ?thesis
      proof (cases "\<exists>errno reason. e = ControllerRejected errno reason")
        case True
        then obtain errno reason where e: "e = ControllerRejected errno reason" by blast
        let ?f = "\<lparr>nf_from = m, nf_to = lower_mechanism m, nf_reason = reason\<rparr>"
        have "nvme_walk d nsid (lower_mechanism m) (before @ [?f]) v = (w', r)" using eq Inl e by simp
        moreover have rank: "rank (lower_mechanism m) + 1 = rank m" using False by (cases m) simp_all
        moreover have "rank (lower_mechanism m) < rank m" using rank by linarith
        ultimately have "\<exists>tr. nw_trace w' = nw_trace v @ tr \<and> length tr \<le> nc_max_polls d + rank (lower_mechanism m) \<and>
          (\<forall>s. r = Inr s \<longrightarrow> (\<exists>rej fs tail. tr = rej @ tail \<and> nv_fallbacks s = (before @ [?f]) @ fs \<and>
             list_all2 (rejected_as nsid) rej fs \<and> nvme_finished nsid s tail))" by (intro less.hyps)
        then obtain tr where tr: "nw_trace w' = nw_trace v @ tr" "length tr \<le> nc_max_polls d + rank (lower_mechanism m)"
          and sum: "\<And>s. r = Inr s \<Longrightarrow> \<exists>rej fs tail. tr = rej @ tail \<and> nv_fallbacks s = (before @ [?f]) @ fs \<and>
             list_all2 (rejected_as nsid) rej fs \<and> nvme_finished nsid s tail" by blast
        have rej: "rejected_as nsid ?x ?f" using Inl e by (simp add: rejected_as_def)
        have "\<exists>rej fs tail. ?x # tr = rej @ tail \<and> nv_fallbacks s = before @ fs \<and>
             list_all2 (rejected_as nsid) rej fs \<and> nvme_finished nsid s tail" if s: "r = Inr s" for s
        proof -
          from sum [OF s] obtain rs fs tail where "tr = rs @ tail" "nv_fallbacks s = (before @ [?f]) @ fs"
            "list_all2 (rejected_as nsid) rs fs" "nvme_finished nsid s tail" by (elim exE conjE) (rule that)
          then show ?thesis using rej by (intro exI [of _ "?x # rs"] exI [of _ "?f # fs"] exI [of _ tail]) simp
        qed
        then show ?thesis using tr v rank by (intro exI [of _ "?x # tr"]) simp
      next
        case no: False
        then have "w' = v \<and> (\<forall>s. r \<noteq> Inr s)" using eq Inl by (cases e) auto
        moreover have "1 \<le> rank m" using False by (cases m) simp_all
        ultimately show ?thesis using v by (intro exI [of _ "[?x]"]) simp
      qed
    qed
  qed
qed

section \<open>Properties\<close>

text \<open>C18: What a certified NVMe purge rests on. A summary comes only after exactly the rejections its fallbacks record,
  in ladder order, then a command of the executed mechanism that the transport returned without an error and, for the two
  sanitizes, a status log whose last reading reports completion; a logical overwrite is never certified.
  Whatever the controller answers, there are at most three exchanges beyond the poll budget.\<close>

theorem nvme_purge_evidence:
  assumes "nvme_purge_ladder d permit primary w = (w', r)"
  shows "\<exists>tr. nw_trace w' = nw_trace w @ tr \<and> length tr \<le> nc_max_polls d + 3 \<and>
    (\<forall>s. r = Inr s \<longrightarrow> (\<exists>rej tail. tr = rej @ tail \<and>
       list_all2 (rejected_as (derive_target_nsid (pu_target_device permit))) rej (nv_fallbacks s) \<and>
       nvme_finished (derive_target_nsid (pu_target_device permit)) s tail))"
proof -
  from nvme_walk_trace [OF assms [unfolded nvme_purge_ladder_def]] obtain tr where
    tr: "nw_trace w' = nw_trace w @ tr" "length tr \<le> nc_max_polls d + rank primary"
    and sum: "\<And>s. r = Inr s \<Longrightarrow> \<exists>rej fs tail. tr = rej @ tail \<and> nv_fallbacks s = [] @ fs \<and>
      list_all2 (rejected_as (derive_target_nsid (pu_target_device permit))) rej fs \<and>
      nvme_finished (derive_target_nsid (pu_target_device permit)) s tail" by blast
  moreover have "rank primary \<le> 3" by (cases primary) simp_all
  ultimately show ?thesis by (intro exI [of _ tr]) fastforce
qed

text \<open>A refused command is taken for a done one. The kernel reports a command that the controller refused as a
  positive return of the \<open>ioctl\<close>; the transport tests for a negative one only. A drive that refuses every
  Sanitize and every Format NVM, and was sanitized some time before, is certified by whatever mechanism is
  asked for, with no fallback recorded.\<close>

theorem nvme_refused_purge_certified:
  assumes refuses: "\<And>s c. pt_opcode c \<in> {0x80, 0x84} \<Longrightarrow> \<exists>s' status data. ioctl s c = (s', Inr (status, data)) \<and> 0 < status"
    and stale: "\<And>s. \<exists>s' data st. ioctl s (passthru_of encode_get_sanitize_status_log) = (s', Inr (0, data)) \<and>
      decode_sanitize_status_log (filled 512 data) = Some st \<and> nst_is_completed st \<and> \<not> nst_is_failed st"
    and m: "m \<noteq> NvmeLogicalOverwrite"
  shows "\<exists>w' s. nvme_purge_ladder \<lparr>nc_transport = linux_admin ioctl, nc_max_polls = n\<rparr> permit m w = (w', Inr s) \<and>
    nv_executed_mechanism s = m \<and> nv_fallbacks s = [] \<and> nst_is_completed (nv_status s)"
proof -
  let ?d = "\<lparr>nc_transport = linux_admin ioctl, nc_max_polls = n\<rparr>" and ?nsid = "derive_target_nsid (pu_target_device permit)"
  let ?cmd = "mechanism_command ?nsid m"
  have "pt_opcode (passthru_of ?cmd) \<in> {0x80, 0x84}" using m by (cases m) (simp_all add: encode_nvme_sanitize_def encode_format_nvm_def)
  from refuses [OF this, of "nw_dev w"] obtain s1 a where "linux_admin ioctl (nw_dev w) ?cmd = (s1, Inr a)" by (auto simp: linux_admin_def)
  then obtain v where v: "admin_passthrough ?d ?cmd w = (v, Inr a)" by (simp add: admin_passthrough_def)
  obtain s2 data st where l: "ioctl (nw_dev v) (passthru_of encode_get_sanitize_status_log) = (s2, Inr (0, data))"
    "decode_sanitize_status_log (filled 512 data) = Some st" "nst_is_completed st" "\<not> nst_is_failed st" using stale by blast
  have "data_len_for encode_get_sanitize_status_log = 512" by (simp add: encode_get_sanitize_status_log_def)
  then have "\<exists>u. admin_passthrough ?d encode_get_sanitize_status_log v = (u, Inr (filled 512 data))"
    using l(1) by (simp add: admin_passthrough_def linux_admin_def)
  then obtain u where "admin_passthrough ?d encode_get_sanitize_status_log v = (u, Inr (filled 512 data))" by blast
  then have "wait_for_sanitize_completion ?d 0 v = (u, Inr st)"
    using l(2-4) by (subst wait_for_sanitize_completion.simps) (simp add: nvme_read_status_def)
  then show ?thesis using v m l(3) unfolding nvme_purge_ladder_def
    by (subst nvme_walk.simps) (simp add: format_status_def)
qed

section \<open>A controller that refuses\<close>

definition refusing_ioctl :: "unit ioctl" where
  "refusing_ioctl s c =
     (if pt_opcode c = 0x02 then (s, Inr (0, [0xFF, 0xFF, 0x01, 0x00])) else (s, Inr (0x4002, [])))"

definition refusing_client :: "unit nvme_client" where
  "refusing_client = \<lparr>nc_transport = linux_admin refusing_ioctl, nc_max_polls = 4\<rparr>"

lemma refusing_log: "decode_sanitize_status_log (filled 512 [0xFF, 0xFF, 0x01, 0x00]) =
    Some (nvme_sanitize_status_of 0xFFFF 1)"
  by (simp add: decode_sanitize_status_log_def filled_def le_at_def)

theorem nvme_refused_purge_certified_witness:
  "\<exists>w' s. nvme_purge_ladder refusing_client (nvme_mint ''/dev/nvme0n1'' [] 0) FormatNvmCrypto
      \<lparr>nw_dev = (), nw_trace = [], nw_progress = []\<rparr> = (w', Inr s) \<and> nv_executed_mechanism s = FormatNvmCrypto"
proof -
  have "\<exists>s' status data. refusing_ioctl s c = (s', Inr (status, data)) \<and> 0 < status" if "pt_opcode c \<in> {0x80, 0x84}" for s c
    using that by (auto simp: refusing_ioctl_def)
  moreover have "\<exists>s' data st. refusing_ioctl s (passthru_of encode_get_sanitize_status_log) = (s', Inr (0, data)) \<and>
      decode_sanitize_status_log (filled 512 data) = Some st \<and> nst_is_completed st \<and> \<not> nst_is_failed st" for s
    by (simp add: refusing_ioctl_def encode_get_sanitize_status_log_def refusing_log nvme_sanitize_status_of_def)
  ultimately show ?thesis
    using nvme_refused_purge_certified [of refusing_ioctl FormatNvmCrypto 4 "nvme_mint ''/dev/nvme0n1'' [] 0"
        "\<lparr>nw_dev = (), nw_trace = [], nw_progress = []\<rparr>"] by (auto simp: refusing_client_def)
qed

theorem nvme_purge_evidence_witness:
  "\<exists>w' s rej tail. nvme_purge_ladder refusing_client (nvme_mint ''/dev/nvme0n1'' [] 0) NvmeSanitizeBlock
      \<lparr>nw_dev = (), nw_trace = [], nw_progress = []\<rparr> = (w', Inr s) \<and> list_all2 (rejected_as 1) rej (nv_fallbacks s) \<and>
      nvme_finished 1 s tail"
proof -
  let ?w = "\<lparr>nw_dev = (), nw_trace = [], nw_progress = []\<rparr>" and ?permit = "nvme_mint ''/dev/nvme0n1'' [] 0"
  have nsid: "derive_target_nsid (pu_target_device ?permit) = 1"
    by (simp add: derive_target_nsid_def nvme_mint_def rsplit_once_def parse_u32_def digit_value_def)
  obtain w' s where r: "nvme_purge_ladder refusing_client ?permit NvmeSanitizeBlock ?w = (w', Inr s)"
    by (simp add: nvme_purge_ladder_def nvme_walk.simps wait_for_sanitize_completion.simps nvme_read_status_def
        admin_passthrough_def refusing_client_def linux_admin_def refusing_ioctl_def encode_nvme_sanitize_def
        encode_get_sanitize_status_log_def refusing_log nvme_sanitize_status_of_def)
  from nvme_purge_evidence [OF r, unfolded nsid] obtain rej tail where
    "list_all2 (rejected_as 1) rej (nv_fallbacks s)" "nvme_finished 1 s tail"
    by (elim exE conjE allE [of _ s] impE) (rule refl, rule that)
  then show ?thesis using r by (intro exI conjI)
qed

end
