(* ===== verification/Nvme_Fabrics.thy ===== *)
theory Nvme_Fabrics
  imports Nvme_Codec
begin

text \<open>
  Remote controllers (\<open>crates/dc-nvme/src/fabrics.rs\<close>): the generic netlink messages, the target address,
  connecting and disconnecting. The kernel is the list of the outcomes of the system calls in the order
  they are made; a run that needs one more than there is yields \<open>None\<close>. What is sent is recorded.
\<close>

section \<open>Messages\<close>

datatype genl_attr = AttrStr string | AttrU32 u32 | AttrFlag

fun attr_encode :: "genl_attr \<Rightarrow> byte list" where
  "attr_encode (AttrStr s) = map of_char s @ [0]"
| "attr_encode (AttrU32 v) = u32_le v"
| "attr_encode AttrFlag = []"

text \<open>Padding brings the whole message, which starts at a multiple of four, to a multiple of four.\<close>

definition pad4 :: "byte list \<Rightarrow> byte list" where
  "pad4 msg = msg @ replicate ((4 - length msg mod 4) mod 4) 0"

definition push_attr :: "u16 \<times> genl_attr \<Rightarrow> byte list \<Rightarrow> byte list" where
  "push_attr a msg =
     (let payload = attr_encode (snd a)
      in pad4 (msg @ le_bytes 2 (of_nat (4 + length payload) :: u16) @ le_bytes 2 (fst a) @ payload))"

definition build_genl_message :: "u16 \<Rightarrow> byte \<Rightarrow> byte \<Rightarrow> (u16 \<times> genl_attr) list \<Rightarrow> byte list" where
  "build_genl_message family_id cmd version attrs =
     (let header = u32_le 0 @ le_bytes 2 family_id @ le_bytes 2 (0 :: u16) @ u32_le 0 @ u32_le 0 @ [cmd, version] @ le_bytes 2 (0 :: u16);
          msg = fold push_attr attrs header
      in put 0 (u32_le (of_nat (length msg))) msg)"

function family_walk :: "byte list \<Rightarrow> nat \<Rightarrow> u16 option" where
  "family_walk reply off =
     (if off + 4 \<le> length reply then
        (let len = unat (le_at 2 reply off :: u16); ty = (le_at 2 reply (off + 2) :: u16) in
         if len < 4 \<or> length reply < off + len then None
         else if ty = 1 \<and> 6 \<le> len then Some (le_at 2 reply (off + 4))
         else family_walk reply (off + (len + 3) div 4 * 4))
      else None)"
  by pat_completeness auto
termination
  by (relation "measure (\<lambda>(reply, off). length reply - off)") auto

declare family_walk.simps [simp del]

definition parse_family_id :: "byte list \<Rightarrow> u16 option" where
  "parse_family_id reply = family_walk reply 20"

section \<open>Targets\<close>

datatype fabric_transport = FabricTcp | FabricRdma | FabricFc | FabricLoop

fun kernel_name :: "fabric_transport \<Rightarrow> string" where
  "kernel_name FabricTcp = ''tcp''"
| "kernel_name FabricRdma = ''rdma''"
| "kernel_name FabricFc = ''fc''"
| "kernel_name FabricLoop = ''loop''"

record fabric_target =
  ft_transport :: fabric_transport
  ft_traddr :: string
  ft_trsvcid :: string
  ft_nqn :: string
  ft_host_traddr :: "string option"
  ft_kato_sec :: "u32 option"
  ft_discovery :: bool

datatype uri_error = NoScheme | UnsupportedScheme string | NoNqnPath | NotAnNqn string | PortNotNumeric string | EmptyAddress

text \<open>\<open>split_once\<close> with a string pattern.\<close>

fun split_once_str :: "string \<Rightarrow> string \<Rightarrow> (string \<times> string) option" where
  "split_once_str p [] = (if p = [] then Some ([], []) else None)"
| "split_once_str p (c # cs) =
     (if starts_with (c # cs) p then Some ([], drop (length p) (c # cs))
      else map_option (\<lambda>(a, b). (c # a, b)) (split_once_str p cs))"

definition transport_of_scheme :: "string \<Rightarrow> fabric_transport option" where
  "transport_of_scheme scheme =
     (if scheme \<in> {''nvme+tcp'', ''nvmf+tcp''} then Some FabricTcp
      else if scheme \<in> {''nvme+rdma'', ''nvmf+rdma''} then Some FabricRdma
      else if scheme \<in> {''nvme+fc'', ''nvmf+fc''} then Some FabricFc
      else if scheme = ''nvme+loop'' then Some FabricLoop
      else None)"

definition default_port :: "fabric_transport \<Rightarrow> string" where
  "default_port t = (if t = FabricTcp \<or> t = FabricRdma then ''4420'' else [])"

definition split_authority :: "fabric_transport \<Rightarrow> string \<Rightarrow> uri_error + string \<times> string" where
  "split_authority t authority =
     (if t = FabricTcp \<or> t = FabricRdma
      then (case rsplit_once (CHR '':'') authority of
              None \<Rightarrow> Inr (authority, default_port t)
            | Some (a, p) \<Rightarrow>
                if p = [] then Inr (authority, default_port t)
                else if list_all ascii_digit p then Inr (a, p) else Inl (PortNotNumeric p))
      else Inr (authority, default_port t))"

definition parse_fabric_target :: "string \<Rightarrow> uri_error + fabric_target" where
  "parse_fabric_target uri =
     and_then (ok_or NoScheme (split_once_str ''://'' uri)) (\<lambda>(scheme, rest).
     and_then (ok_or (UnsupportedScheme scheme) (transport_of_scheme scheme)) (\<lambda>transport.
     and_then (ok_or NoNqnPath (split_once (CHR ''/'') rest)) (\<lambda>(authority, nqn).
     if \<not> starts_with nqn ''nqn.'' \<and> \<not> starts_with nqn ''discovery'' then Inl (NotAnNqn nqn)
     else and_then (split_authority transport authority) (\<lambda>(addr, port).
       if addr = [] \<and> transport \<noteq> FabricLoop then Inl EmptyAddress
       else Inr \<lparr>ft_transport = transport, ft_traddr = addr, ft_trsvcid = port, ft_nqn = nqn,
                  ft_host_traddr = None, ft_kato_sec = None, ft_discovery = (nqn = ''discovery'')\<rparr>))))"

definition connect_attrs :: "fabric_target \<Rightarrow> (u16 \<times> genl_attr) list" where
  "connect_attrs t =
     [(1, AttrStr (kernel_name (ft_transport t))), (2, AttrStr (ft_traddr t))] @
     (if ft_trsvcid t = [] then [] else [(3, AttrStr (ft_trsvcid t))]) @
     (case ft_host_traddr t of None \<Rightarrow> [] | Some h \<Rightarrow> [(4, AttrStr h)]) @
     [(5, AttrStr (ft_nqn t))] @
     (if ft_discovery t then [(6, AttrFlag)] else []) @
     (case ft_kato_sec t of None \<Rightarrow> [] | Some k \<Rightarrow> [(7, AttrU32 k)])"

section \<open>The netlink socket\<close>

datatype fabric_error =
  FabricNetlink string int
| FamilyMissing
| ConnectTimeout nat
| CtrlTimeout nat
| FabricRefusal nat
| FabricNak int string
| SysfsScan

datatype wait_outcome = DeadlinePassed | PollTimedOut | PollFailed int | RecvNothing | RecvReply "byte list"

text \<open>A controller directory as the scan sees it.\<close>

record sysfs_ctrl =
  sc_name :: string
  sc_address :: "string option"
  sc_subsysnqn :: "string option"

datatype fab_event =
  SockOpened "int option"                          \<comment> \<open>socket and bind; the \<open>errno\<close> of the one that failed\<close>
| SockSent "int option"
| Waited wait_outcome
| Scanned "sysfs_ctrl list option" bool        \<comment> \<open>the directory, and whether the deadline has passed after it\<close>

record fab_world =
  fw_events :: "fab_event list"
  fw_sent :: "byte list list"

record fabric_timeouts =
  to_ack_ms :: nat
  to_ctrl_appear_ms :: nat

definition open_socket :: "fab_world \<Rightarrow> (fab_world \<times> (fabric_error + unit)) option" where
  "open_socket w =
     (case fw_events w of
        SockOpened r # es \<Rightarrow> Some (w\<lparr>fw_events := es\<rparr>, case r of None \<Rightarrow> Inr () | Some errno \<Rightarrow> Inl (FabricNetlink ''socket'' errno))
      | _ \<Rightarrow> None)"

definition errno_label :: "int \<Rightarrow> string" where
  "errno_label err =
     (if err = 2 then ''ENOENT (no such controller/attribute)''
      else if err = 22 then ''EINVAL (bad attribute combination)''
      else if err = 111 then ''ECONNREFUSED (fabric unreachable)''
      else if err = 110 then ''ETIMEDOUT''
      else if err = 16 then ''EBUSY (already connected)''
      else ''unmapped errno'')"

definition classify_reply :: "byte list \<Rightarrow> fabric_error + byte list" where
  "classify_reply reply =
     (if 16 \<le> length reply \<and> (le_at 2 reply 0 :: u16) = 0x02 \<and> 20 \<le> length reply
      then (let err = sint (le_at 4 reply 16 :: u32)
            in if err = 0 then Inr reply else Inl (FabricNak err (errno_label err)))
      else Inr reply)"

fun await_reply :: "nat \<Rightarrow> fab_event list \<Rightarrow> ((fabric_error + byte list) \<times> fab_event list) option" where
  "await_reply t (Waited DeadlinePassed # es) = Some (Inl (ConnectTimeout t), es)"
| "await_reply t (Waited PollTimedOut # es) = Some (Inl (ConnectTimeout t), es)"
| "await_reply t (Waited (PollFailed errno) # es) =
     (if errno = 4 then await_reply t es else Some (Inl (FabricNetlink ''poll'' errno), es))"
| "await_reply t (Waited RecvNothing # es) = await_reply t es"
| "await_reply t (Waited (RecvReply reply) # es) = Some (classify_reply reply, es)"
| "await_reply t _ = None"

definition patch_header :: "u16 \<Rightarrow> u32 \<Rightarrow> byte list \<Rightarrow> byte list" where
  "patch_header msg_type sq msg =
     put 12 (u32_le 0) (put 8 (u32_le sq) (put 6 (le_bytes 2 (0x05 :: u16)) (put 4 (le_bytes 2 msg_type) msg)))"

text \<open>Every socket is used for one genl_exchange, so the sequence number is 1.\<close>

definition transact :: "byte list \<Rightarrow> u16 \<Rightarrow> nat \<Rightarrow> fab_world \<Rightarrow> (fab_world \<times> (fabric_error + byte list)) option" where
  "transact msg msg_type timeout w =
     (let out = patch_header msg_type 1 msg
      in case fw_events w of
           SockSent r # es \<Rightarrow>
             (let w = w\<lparr>fw_events := es, fw_sent := fw_sent w @ [out]\<rparr>
              in case r of
                   Some errno \<Rightarrow> Some (w, Inl (FabricNetlink ''sendto'' errno))
                 | None \<Rightarrow> map_option (\<lambda>(r, es). (w\<lparr>fw_events := es\<rparr>, r)) (await_reply timeout es))
         | _ \<Rightarrow> None)"

definition genl_exchange :: "byte list \<Rightarrow> u16 \<Rightarrow> nat \<Rightarrow> fab_world \<Rightarrow> (fab_world \<times> (fabric_error + byte list)) option" where
  "genl_exchange msg msg_type timeout w =
     Option.bind (open_socket w) (\<lambda>(w, r). case r of Inl e \<Rightarrow> Some (w, Inl e) | Inr _ \<Rightarrow> transact msg msg_type timeout w)"

definition getfamily_message :: "byte list" where
  "getfamily_message = build_genl_message 16 3 1 [(2, AttrStr ''nvme'')]"

definition resolve_nvme_family_id :: "fab_world \<Rightarrow> (fab_world \<times> (fabric_error + u16)) option" where
  "resolve_nvme_family_id w =
     map_option (\<lambda>(w, r). (w, and_then r (\<lambda>reply. ok_or FamilyMissing (parse_family_id reply))))
       (genl_exchange getfamily_message 0x0010 2000 w)"

section \<open>Sessions\<close>

record fabric_session =
  fx_target :: fabric_target
  fx_ctrl_name :: string
  fx_ctrl_char_dev :: string
  fx_family_id :: u16

text \<open>The outer \<open>None\<close> is the panic of slicing a name shorter than four bytes.\<close>

definition skipped_name :: "string \<Rightarrow> bool option" where
  "skipped_name name =
     (if \<not> starts_with name ''nvme'' \<or>
         (CHR ''n'' \<in> set name \<and> starts_with name ''nvme'' \<and> \<not> str_contains (tl name) ''nvme'' \<and> 4 < length name)
      then (if length name < 4 then None else Some (CHR ''n'' \<in> set (drop 4 name)))
      else Some False)"

definition ctrl_matches :: "fabric_target \<Rightarrow> sysfs_ctrl \<Rightarrow> bool" where
  "ctrl_matches t c \<longleftrightarrow>
     (let address = trim (case sc_address c of None \<Rightarrow> [] | Some a \<Rightarrow> a);
          subsysnqn = trim (case sc_subsysnqn c of None \<Rightarrow> [] | Some n \<Rightarrow> n)
      in (str_contains address (ft_traddr t) \<or> (ft_transport t = FabricLoop \<and> address = [])) \<and> subsysnqn = ft_nqn t)"

fun scan_controllers :: "fabric_target \<Rightarrow> sysfs_ctrl list \<Rightarrow> string option option" where
  "scan_controllers t [] = Some None"
| "scan_controllers t (c # cs) =
     (case skipped_name (sc_name c) of
        None \<Rightarrow> None
      | Some True \<Rightarrow> scan_controllers t cs
      | Some False \<Rightarrow> if ctrl_matches t c then Some (Some (sc_name c)) else scan_controllers t cs)"

fun wait_for_controller ::
  "fabric_target \<Rightarrow> nat \<Rightarrow> fab_event list \<Rightarrow> ((fabric_error + string) \<times> fab_event list) option" where
  "wait_for_controller t ms (Scanned None expired # es) = Some (Inl SysfsScan, es)"
| "wait_for_controller t ms (Scanned (Some cs) expired # es) =
     (case scan_controllers t cs of
        None \<Rightarrow> None
      | Some (Some name) \<Rightarrow> Some (Inr name, es)
      | Some None \<Rightarrow> if expired then Some (Inl (CtrlTimeout ms), es) else wait_for_controller t ms es)"
| "wait_for_controller t ms _ = None"

definition connect_message :: "byte \<Rightarrow> u16 \<Rightarrow> fabric_target \<Rightarrow> byte list" where
  "connect_message cmd family_id t = build_genl_message family_id cmd 1 (connect_attrs t)"

definition fabric_connect :: "fabric_target \<Rightarrow> fabric_timeouts \<Rightarrow> fab_world \<Rightarrow> (fab_world \<times> (fabric_error + fabric_session)) option" where
  "fabric_connect t to w =
     Option.bind (resolve_nvme_family_id w) (\<lambda>(w, r). case r of Inl e \<Rightarrow> Some (w, Inl e) | Inr family_id \<Rightarrow>
     Option.bind (genl_exchange (connect_message 1 family_id t) family_id (to_ack_ms to) w) (\<lambda>(w, r). case r of
       Inl (ConnectTimeout n) \<Rightarrow> Some (w, Inl (FabricRefusal n))
     | Inl e \<Rightarrow> Some (w, Inl e)
     | Inr _ \<Rightarrow>
         map_option (\<lambda>(r, es). (w\<lparr>fw_events := es\<rparr>,
             map_sum id (\<lambda>name. \<lparr>fx_target = t, fx_ctrl_name = name, fx_ctrl_char_dev = ''/dev/'' @ name, fx_family_id = family_id\<rparr>) r))
           (wait_for_controller t (to_ctrl_appear_ms to) (fw_events w))))"

definition disconnect_with_family :: "fabric_target \<Rightarrow> u16 \<Rightarrow> fabric_timeouts \<Rightarrow> fab_world \<Rightarrow> (fab_world \<times> (fabric_error + unit)) option" where
  "disconnect_with_family t family_id to w =
     map_option (\<lambda>(w, r). (w, map_sum id (\<lambda>_. ()) r)) (genl_exchange (connect_message 2 family_id t) family_id (to_ack_ms to) w)"

definition fabric_disconnect :: "fabric_target \<Rightarrow> fabric_timeouts \<Rightarrow> fab_world \<Rightarrow> (fab_world \<times> (fabric_error + unit)) option" where
  "fabric_disconnect t to w =
     Option.bind (resolve_nvme_family_id w) (\<lambda>(w, r). case r of Inl e \<Rightarrow> Some (w, Inl e)
     | Inr family_id \<Rightarrow> disconnect_with_family t family_id to w)"

section \<open>Reading messages\<close>

text \<open>An attribute as the netlink format has it: length and type, the payload, padding.\<close>

definition nl_attr :: "u16 \<times> byte list \<Rightarrow> byte list" where
  "nl_attr a = pad4 (le_bytes 2 (of_nat (4 + length (snd a)) :: u16) @ le_bytes 2 (fst a) @ snd a)"

lemma length_pad4: "length (pad4 msg) = (length msg + 3) div 4 * 4"
proof -
  obtain q r where n: "length msg = 4 * q + r" "r < 4" using that [of "length msg div 4" "length msg mod 4"] by simp
  then consider "r = 0" | "r = 1" | "r = 2" | "r = 3" by linarith
  moreover have "(4 * q + r) mod 4 = r" using n(2) by simp
  ultimately have "4 * q + r + (4 - (4 * q + r) mod 4) mod 4 = (4 * q + r + 3) div 4 * 4" by cases simp_all
  then show ?thesis using n(1) by (simp add: pad4_def)
qed

lemma pad4_append: "length xs mod 4 = 0 \<Longrightarrow> pad4 (xs @ ys) = xs @ pad4 ys"
  by (simp add: pad4_def mod_add_eq [of "length xs", symmetric])

lemma length_nl_attr: "length (nl_attr a) = (length (snd a) + 7) div 4 * 4"
  by (simp add: nl_attr_def length_pad4)

lemma fold_push_attr:
  "length msg mod 4 = 0 \<Longrightarrow>
   fold push_attr attrs msg = msg @ concat (map (\<lambda>a. nl_attr (fst a, attr_encode (snd a))) attrs)"
proof (induction attrs arbitrary: msg)
  case (Cons a attrs)
  have p: "push_attr a msg = msg @ nl_attr (fst a, attr_encode (snd a))"
    using Cons.prems by (simp add: push_attr_def nl_attr_def Let_def pad4_append)
  have "length (push_attr a msg) mod 4 = 0" using Cons.prems by (simp add: p length_nl_attr mod_add_eq [of "length msg", symmetric])
  then show ?case using Cons.IH by (simp add: p)
qed simp

definition carries_family_id :: "u16 \<times> byte list \<Rightarrow> bool" where
  "carries_family_id a \<longleftrightarrow> fst a = 1 \<and> 2 \<le> length (snd a)"

lemma le_at_skip [simp]: "n = length xs \<Longrightarrow> le_at k (xs @ ys) n = le_at k ys 0"
  by (simp add: le_at_def)

lemma le_at_skip_more: "length xs \<le> n \<Longrightarrow> le_at k (xs @ ys) n = le_at k ys (n - length xs)"
  by (simp add: le_at_def)

lemma nl_attr_parts:
  assumes "length (snd a) < 65532"
  shows "unat (le_at 2 (nl_attr a @ rest) 0 :: u16) = 4 + length (snd a)" "(le_at 2 (nl_attr a @ rest) 2 :: u16) = fst a"
    "2 \<le> length (snd a) \<Longrightarrow> (le_at 2 (nl_attr a @ rest) 4 :: u16) = le_at 2 (snd a) 0"
proof -
  have "unat (of_nat (4 + length (snd a)) :: u16) = 4 + length (snd a)" using assms by (simp only: unat_of_nat) simp
  then show "unat (le_at 2 (nl_attr a @ rest) 0 :: u16) = 4 + length (snd a)"
    by (simp add: nl_attr_def pad4_def le_at_def del: of_nat_add of_nat_numeral)
qed (simp_all add: nl_attr_def pad4_def le_at_def)

lemma family_walk_attrs:
  "\<forall>a \<in> set as. length (snd a) < 65532 \<Longrightarrow>
   family_walk (pre @ concat (map nl_attr as)) (length pre) =
     map_option (\<lambda>a. le_at 2 (snd a) 0) (find carries_family_id as)"
proof (induction as arbitrary: pre)
  case Nil
  then show ?case by (simp add: family_walk.simps [of _ "length pre"])
next
  case (Cons a as)
  let ?rest = "concat (map nl_attr as)" and ?msg = "pre @ concat (map nl_attr (a # as))"
  have la: "length (snd a) < 65532" using Cons.prems by simp
  note parts = nl_attr_parts [OF la, of ?rest]
  have len: "unat (le_at 2 ?msg (length pre) :: u16) = 4 + length (snd a)" using parts(1) by simp
  have ty: "(le_at 2 ?msg (length pre + 2) :: u16) = fst a" using parts(2) by (simp add: le_at_skip_more)
  have long: "4 + length (snd a) \<le> length (nl_attr a)" by (simp add: length_nl_attr)
  have fits: "length pre + 4 \<le> length ?msg" "length pre + (4 + length (snd a)) \<le> length ?msg" using long by simp_all
  note walk = family_walk.simps [of ?msg "length pre", unfolded Let_def len ty]
  show ?case
  proof (cases "carries_family_id a")
    case True
    then have "(le_at 2 ?msg (length pre + 4) :: u16) = le_at 2 (snd a) 0" using parts(3) by (simp add: carries_family_id_def le_at_skip_more)
    then show ?thesis using True fits walk by (simp add: carries_family_id_def)
  next
    case False
    have off: "length pre + (4 + length (snd a) + 3) div 4 * 4 = length (pre @ nl_attr a)" by (simp add: length_nl_attr add.commute)
    have "family_walk ?msg (length pre) = family_walk ?msg (length (pre @ nl_attr a))"
      using False fits walk by (simp only: off) (auto simp: carries_family_id_def)
    also have "\<dots> = map_option (\<lambda>a. le_at 2 (snd a) 0) (find carries_family_id as)"
      using Cons.IH [of "pre @ nl_attr a"] Cons.prems by simp
    finally show ?thesis using False by simp
  qed
qed

text \<open>On a well-framed reply the reader finds the first family id there is, and nothing else.\<close>

lemma parse_family_id_exact:
  assumes "length header = 20" and "\<forall>a \<in> set as. length (snd a) < 65532"
  shows "parse_family_id (header @ concat (map nl_attr as)) = map_option (\<lambda>a. le_at 2 (snd a) 0) (find carries_family_id as)"
  using family_walk_attrs [OF assms(2), of header] assms(1) by (simp add: parse_family_id_def)

section \<open>Addresses\<close>

definition fabric_uri :: "fabric_target \<Rightarrow> string" where
  "fabric_uri t = ''nvme+'' @ kernel_name (ft_transport t) @ ''://'' @ ft_traddr t @
     (if ft_trsvcid t = [] then [] else CHR '':'' # ft_trsvcid t) @ CHR ''/'' # ft_nqn t"

definition target_wf :: "fabric_target \<Rightarrow> bool" where
  "target_wf t \<longleftrightarrow> CHR ''/'' \<notin> set (ft_traddr t) \<and> CHR ''/'' \<notin> set (ft_trsvcid t) \<and>
     (starts_with (ft_nqn t) ''nqn.'' \<or> starts_with (ft_nqn t) ''discovery'') \<and> ft_discovery t = (ft_nqn t = ''discovery'') \<and>
     (ft_traddr t = [] \<longrightarrow> ft_transport t = FabricLoop) \<and> ft_host_traddr t = None \<and> ft_kato_sec t = None \<and>
     (if ft_transport t = FabricTcp \<or> ft_transport t = FabricRdma
      then ft_trsvcid t \<noteq> [] \<and> list_all ascii_digit (ft_trsvcid t) else ft_trsvcid t = [])"

lemma split_once_first: "c \<notin> set a \<Longrightarrow> split_once c (a @ c # b) = Some (a, b)"
  by (induction a) auto

lemma split_once_SomeD: "split_once c s = Some (a, b) \<Longrightarrow> s = a @ c # b \<and> c \<notin> set a"
  by (induction s arbitrary: a) (auto split: if_splits)

lemma split_scheme:
  "split_once_str ''://'' (''nvme+'' @ kernel_name t @ ''://'' @ rest) = Some (''nvme+'' @ kernel_name t, rest)"
  by (cases t) (simp_all add: starts_with_def)

lemma scheme_transport: "transport_of_scheme (''nvme+'' @ kernel_name t) = Some t"
  by (cases t) (simp_all add: transport_of_scheme_def)

lemma digits_no_separator: "list_all ascii_digit p \<Longrightarrow> CHR '':'' \<notin> set p \<and> CHR ''/'' \<notin> set p"
  by (induction p) (auto simp: ascii_digit_def)

lemma parse_fabric_uri:
  assumes wf: "target_wf t"
  shows "parse_fabric_target (fabric_uri t) = Inr t"
proof -
  let ?auth = "ft_traddr t @ (if ft_trsvcid t = [] then [] else CHR '':'' # ft_trsvcid t)"
  have slash: "split_once (CHR ''/'') (?auth @ CHR ''/'' # ft_nqn t) = Some (?auth, ft_nqn t)"
    by (rule split_once_first) (use wf in \<open>auto simp: target_wf_def\<close>)
  have auth: "split_authority (ft_transport t) ?auth = Inr (ft_traddr t, ft_trsvcid t)"
  proof (cases "ft_transport t = FabricTcp \<or> ft_transport t = FabricRdma")
    case True
    then have p: "ft_trsvcid t \<noteq> []" "list_all ascii_digit (ft_trsvcid t)" using wf by (simp_all add: target_wf_def)
    then have "rsplit_once (CHR '':'') ?auth = Some (ft_traddr t, ft_trsvcid t)"
      using digits_no_separator by (simp add: rsplit_once_eq_Some)
    then show ?thesis using True p by (simp add: split_authority_def)
  next
    case False
    then show ?thesis using wf by (auto simp: target_wf_def split_authority_def default_port_def)
  qed
  have "fabric_uri t = ''nvme+'' @ kernel_name (ft_transport t) @ ''://'' @ (?auth @ CHR ''/'' # ft_nqn t)"
    by (simp add: fabric_uri_def)
  then have "parse_fabric_target (fabric_uri t) =
      (if \<not> starts_with (ft_nqn t) ''nqn.'' \<and> \<not> starts_with (ft_nqn t) ''discovery'' then Inl (NotAnNqn (ft_nqn t))
       else if ft_traddr t = [] \<and> ft_transport t \<noteq> FabricLoop then Inl EmptyAddress
       else Inr \<lparr>ft_transport = ft_transport t, ft_traddr = ft_traddr t, ft_trsvcid = ft_trsvcid t, ft_nqn = ft_nqn t,
                  ft_host_traddr = None, ft_kato_sec = None, ft_discovery = (ft_nqn t = ''discovery'')\<rparr>)"
    unfolding parse_fabric_target_def by (simp only: split_scheme scheme_transport slash auth ok_or_simps and_then_Inr prod.case)
  then show ?thesis using wf by (auto simp: target_wf_def)
qed

lemma parse_fabric_target_wf:
  assumes "parse_fabric_target uri = Inr t"
  shows "target_wf t"
proof -
  obtain scheme rest transport authority nqn addr port where
    s: "split_once (CHR ''/'') rest = Some (authority, nqn)" "starts_with nqn ''nqn.'' \<or> starts_with nqn ''discovery''"
      "split_authority transport authority = Inr (addr, port)" "addr = [] \<longrightarrow> transport = FabricLoop"
    and t: "t = \<lparr>ft_transport = transport, ft_traddr = addr, ft_trsvcid = port, ft_nqn = nqn,
                  ft_host_traddr = None, ft_kato_sec = None, ft_discovery = (nqn = ''discovery'')\<rparr>"
    using assms unfolding parse_fabric_target_def by (auto simp: and_then_eq_Inr ok_or_eq_Inr split: if_splits)
  have no: "CHR ''/'' \<notin> set authority" using split_once_SomeD [OF s(1)] by simp
  have "CHR ''/'' \<notin> set addr \<and> CHR ''/'' \<notin> set port \<and>
    (if transport = FabricTcp \<or> transport = FabricRdma then port \<noteq> [] \<and> list_all ascii_digit port else port = [])"
  proof (cases "transport = FabricTcp \<or> transport = FabricRdma")
    case True
    then show ?thesis using s(3) no
      by (auto simp: split_authority_def default_port_def ascii_digit_def rsplit_once_eq_Some split: option.splits prod.splits if_splits)
  next
    case False
    then show ?thesis using s(3) no by (simp add: split_authority_def default_port_def)
  qed
  then show ?thesis using s(2,4) t by (simp add: target_wf_def)
qed

text \<open>The address syntax. Every accepted URI gives a well-formed target, and printing a target as a URI and parsing it
  gives the target back.\<close>

theorem fabric_uri_roundtrip:
  assumes "parse_fabric_target uri = Inr t"
  shows "target_wf t \<and> parse_fabric_target (fabric_uri t) = Inr t"
  using parse_fabric_target_wf [OF assms] parse_fabric_uri by blast

theorem fabric_uri_roundtrip_witness:
  "\<exists>t. parse_fabric_target ''nvmf+rdma://fe80::1:4421/nqn.x'' = Inr t \<and> parse_fabric_target (fabric_uri t) = Inr t \<and>
     ft_traddr t = ''fe80::1'' \<and> ft_trsvcid t = ''4421''"
proof -
  obtain t where t: "parse_fabric_target ''nvmf+rdma://fe80::1:4421/nqn.x'' = Inr t" "ft_traddr t = ''fe80::1''" "ft_trsvcid t = ''4421''"
    by (simp add: parse_fabric_target_def starts_with_def transport_of_scheme_def split_authority_def rsplit_once_def ascii_digit_def)
  then show ?thesis using fabric_uri_roundtrip [OF t(1)] by blast
qed

section \<open>Refusals\<close>

text \<open>The answer of the kernel to a request it refuses with \<open>-errno\<close>: type 2 at offset 4, the error at offset 16.\<close>

definition nlmsg_error :: "u32 \<Rightarrow> u32 \<Rightarrow> byte list \<Rightarrow> byte list" where
  "nlmsg_error sq err request =
     u32_le 36 @ le_bytes 2 (2 :: u16) @ le_bytes 2 (0 :: u16) @ u32_le sq @ u32_le 0 @ u32_le err @ take 16 request"

text \<open>A netlink frame starts with its length.\<close>

lemma low_half: "4 \<le> length bs \<Longrightarrow> (le_at 2 bs 0 :: u16) = ucast (le_at 4 bs 0 :: u32)"
proof (rule bit_word_eqI)
  fix k assume l: "4 \<le> length bs" and k: "k < LENGTH(16)"
  have "k div 8 < 2" using k by simp
  moreover have "k div 8 < length (take 2 bs) \<longleftrightarrow> k div 8 < 2" "k div 8 < length (take 4 bs) \<longleftrightarrow> k div 8 < 4" using l by simp_all
  ultimately show "bit (le_at 2 bs 0 :: u16) k \<longleftrightarrow> bit (ucast (le_at 4 bs 0 :: u32) :: u16) k"
    using k unfolding le_at_def bit_ucast_iff bit_of_le_bytes by (simp del: length_take)
qed

lemma framed_reply_accepted:
  assumes "16 \<le> length reply" and "length reply < 2 ^ 16" and "(le_at 4 reply 0 :: u32) = of_nat (length reply)"
  shows "classify_reply reply = Inr reply"
proof -
  have "4 \<le> length reply" using assms(1) by linarith
  have "unat (of_nat (length reply) :: u32) = length reply" using assms(2) by (simp add: unat_of_nat)
  then have "unat (ucast (of_nat (length reply) :: u32) :: u16) = length reply"
    using assms(2) by (simp add: unsigned_ucast_eq take_bit_eq_mod)
  then have "unat (le_at 2 reply 0 :: u16) = length reply" unfolding low_half [OF \<open>4 \<le> length reply\<close>] assms(3) .
  moreover have "unat (2 :: u16) = 2" by simp
  moreover have "length reply \<noteq> 2" using assms(1) by linarith
  ultimately have "(le_at 2 reply 0 :: u16) \<noteq> 2" by metis
  then show ?thesis unfolding classify_reply_def by simp
qed

lemma nlmsg_error_accepted:
  "16 \<le> length request \<Longrightarrow> classify_reply (nlmsg_error sq err request) = Inr (nlmsg_error sq err request)"
  by (rule framed_reply_accepted) (simp_all add: nlmsg_error_def le_at_def flip: of_u32_le_def)

lemma genl_exchange_reply:
  assumes "classify_reply reply = Inr reply"
  shows "genl_exchange msg ty t \<lparr>fw_events = SockOpened None # SockSent None # Waited (RecvReply reply) # es, fw_sent = sent\<rparr> =
    Some (\<lparr>fw_events = es, fw_sent = sent @ [patch_header ty 1 msg]\<rparr>, Inr reply)"
  using assms by (simp add: genl_exchange_def open_socket_def transact_def Let_def)

definition request_of :: "fabric_target \<Rightarrow> u16 \<Rightarrow> byte \<Rightarrow> byte list" where
  "request_of t family_id cmd = patch_header family_id 1 (connect_message cmd family_id t)"

text \<open>A refused DISCONNECT is reported as done.\<close>

lemma refused_disconnect_reported_done:
  "16 \<le> length request \<Longrightarrow>
   disconnect_with_family t family_id to
     \<lparr>fw_events = SockOpened None # SockSent None # Waited (RecvReply (nlmsg_error 1 err request)) # es, fw_sent = sent\<rparr> =
     Some (\<lparr>fw_events = es, fw_sent = sent @ [request_of t family_id 2]\<rparr>, Inr ())"
  by (simp add: disconnect_with_family_def genl_exchange_reply [OF nlmsg_error_accepted] request_of_def)

text \<open>A refused CONNECT opens a session. The socket reads the message type at offset 0, where the length of the frame
  stands, so no reply is ever taken for an error. When the kernel refuses the CONNECT, with any error, and
  a controller with this name and address is already there, a session on that controller is returned.\<close>

theorem refused_connect_opens_session:
  assumes "16 \<le> length family_reply" and "length family_reply < 2 ^ 16"
    and "(le_at 4 family_reply 0 :: u32) = of_nat (length family_reply)" and "parse_family_id family_reply = Some family_id"
    and "16 \<le> length request" and "scan_controllers t cs = Some (Some name)"
  shows "fabric_connect t to
      \<lparr>fw_events = [SockOpened None, SockSent None, Waited (RecvReply family_reply), SockOpened None, SockSent None,
                    Waited (RecvReply (nlmsg_error 1 err request)), Scanned (Some cs) late] @ es, fw_sent = []\<rparr> =
    Some (\<lparr>fw_events = es, fw_sent = [patch_header 0x0010 1 getfamily_message, request_of t family_id 1]\<rparr>,
      Inr \<lparr>fx_target = t, fx_ctrl_name = name, fx_ctrl_char_dev = ''/dev/'' @ name, fx_family_id = family_id\<rparr>)"
  using assms(4,6)
  by (simp add: fabric_connect_def resolve_nvme_family_id_def genl_exchange_reply [OF framed_reply_accepted [OF assms(1-3)]]
      genl_exchange_reply [OF nlmsg_error_accepted [OF assms(5)]] request_of_def)

text \<open>What a session can rely on all the same: the controller it names was there with the subsystem asked for.\<close>

lemma scan_controllers_found:
  "scan_controllers t cs = Some (Some name) \<Longrightarrow> \<exists>c \<in> set cs. sc_name c = name \<and> ctrl_matches t c"
  by (induction cs) (auto split: option.splits bool.splits if_splits)

lemma wait_for_controller_found:
  "wait_for_controller t ms es = Some (Inr name, es') \<Longrightarrow>
   \<exists>cs late. Scanned (Some cs) late \<in> set es \<and> (\<exists>c \<in> set cs. sc_name c = name \<and> ctrl_matches t c)"
proof (induction t ms es rule: wait_for_controller.induct)
  case (2 t ms cs expired es)
  show ?case
  proof (cases "scan_controllers t cs = Some (Some name)")
    case True
    from scan_controllers_found [OF this] show ?thesis by (intro exI [of _ cs] exI [of _ expired] conjI) simp_all
  next
    case False
    then have step: "scan_controllers t cs = Some None" "\<not> expired" "wait_for_controller t ms es = Some (Inr name, es')"
      using "2.prems" by (auto split: option.splits if_splits)
    from "2.IH" [OF step(1) refl step(2,3)] obtain ds late where ds: "Scanned (Some ds) late \<in> set es" "\<exists>c \<in> set ds. sc_name c = name \<and> ctrl_matches t c"
      by (elim exE conjE) (rule that)
    show ?thesis by (rule exI [of _ ds], rule exI [of _ late]) (simp add: ds)
  qed
qed simp_all

text \<open>The family is number 0x1C; the subsystem is connected already, at another address.\<close>

definition demo_family_reply :: "byte list" where
  "demo_family_reply = put 0 (u32_le 40)
     (replicate 16 0 @ [1, 2, 0, 0] @ concat (map nl_attr [(2, map of_char ''nvme'' @ [0]), (1, [0x1C, 0])]))"

definition demo_fabric_target :: fabric_target where
  "demo_fabric_target = \<lparr>ft_transport = FabricTcp, ft_traddr = ''10.0.0.5'', ft_trsvcid = ''4420'', ft_nqn = ''nqn.a'',
     ft_host_traddr = None, ft_kato_sec = None, ft_discovery = False\<rparr>"

definition demo_controllers :: "sysfs_ctrl list" where
  "demo_controllers =
     [\<lparr>sc_name = ''nvme0'', sc_address = Some ''0000:01:00.0'', sc_subsysnqn = Some ''nqn.b''\<rparr>,
      \<lparr>sc_name = ''nvme4'', sc_address = Some ''traddr=10.0.0.51,trsvcid=4420'', sc_subsysnqn = Some ''nqn.a''\<rparr>]"

lemma demo_family:
  "16 \<le> length demo_family_reply" "length demo_family_reply < 2 ^ 16"
  "(le_at 4 demo_family_reply 0 :: u32) = of_nat (length demo_family_reply)" "parse_family_id demo_family_reply = Some 0x1C"
proof -
  have len: "length demo_family_reply = 40" by (simp add: demo_family_reply_def length_nl_attr)
  then show "16 \<le> length demo_family_reply" "length demo_family_reply < 2 ^ 16" by simp_all
  show "(le_at 4 demo_family_reply 0 :: u32) = of_nat (length demo_family_reply)"
    by (simp add: len) (simp add: demo_family_reply_def put_def le_at_def flip: of_u32_le_def)
  have "demo_family_reply = (u32_le 40 @ replicate 12 0 @ [1, 2, 0, 0]) @ concat (map nl_attr [(2, map of_char ''nvme'' @ [0]), (1, [0x1C, 0])])"
    by (simp add: demo_family_reply_def put_def eval_nat_numeral)
  moreover have "parse_family_id \<dots> = map_option (\<lambda>a. le_at 2 (snd a) 0)
      (find carries_family_id [(2, map of_char ''nvme'' @ [0]), (1, [0x1C, 0])])"
    by (rule parse_family_id_exact) simp_all
  ultimately show "parse_family_id demo_family_reply = Some 0x1C" by (simp add: carries_family_id_def le_at_def)
qed

text \<open>The address of the controller that is found only begins with the one that was asked for.\<close>

theorem refused_connect_opens_session_witness:
  "\<exists>w' s. fabric_connect demo_fabric_target \<lparr>to_ack_ms = 5000, to_ctrl_appear_ms = 30000\<rparr>
      \<lparr>fw_events = [SockOpened None, SockSent None, Waited (RecvReply demo_family_reply), SockOpened None, SockSent None,
         Waited (RecvReply (nlmsg_error 1 (of_int (- 111)) (replicate 16 0))), Scanned (Some demo_controllers) False], fw_sent = []\<rparr> =
      Some (w', Inr s) \<and> fx_ctrl_name s = ''nvme4''"
proof -
  have scan: "scan_controllers demo_fabric_target demo_controllers = Some (Some ''nvme4'')"
    by (simp add: demo_controllers_def demo_fabric_target_def skipped_name_def starts_with_def ctrl_matches_def trim_def whitespace_def)
  show ?thesis
    using refused_connect_opens_session [OF demo_family, of "replicate 16 0" demo_fabric_target demo_controllers "''nvme4''"
        "\<lparr>to_ack_ms = 5000, to_ctrl_appear_ms = 30000\<rparr>" "of_int (- 111)" False "[]"] scan by simp
qed

end
