(* ===== verification/Purge_Command.thy ===== *)
theory Purge_Command
  imports Execution_Run Ata_Purge Scsi_Purge Nvme_Purge
begin

text \<open>
  The purge command (\<open>crates/dc-cli/src/purge.rs\<close>): from the mechanism that is asked for to the
  certificate, over the three transports, with the journal. What the command reads from the outside is
  \<open>purge_cmd\<close>: arguments, clocks, signals, the operator's answer, the verdict of the thermal monitor, the
  texts of errors. Fabric targets, TPM and vault evidence and the cold-bus option are not asked for; the
  capabilities a dry run prints, the evidence that goes into the certificate, the certificate itself and
  the audit entry after it are left out.
\<close>

section \<open>Mechanisms\<close>

datatype requested_mechanism =
  AutoMechanism | AskCrypto | AskBlock | AskFormatCrypto | AskSecurityEnhanced | AskSecurityNormal | AskFormatUnit

definition parse_mechanism :: "string \<Rightarrow> dc_error + requested_mechanism" where
  "parse_mechanism spec =
     (if spec = ''auto'' then Inr AutoMechanism
      else if spec = ''sanitize-crypto'' then Inr AskCrypto
      else if spec = ''sanitize-block'' then Inr AskBlock
      else if spec = ''format-crypto'' then Inr AskFormatCrypto
      else if spec = ''security-erase-enhanced'' then Inr AskSecurityEnhanced
      else if spec = ''security-erase-normal'' then Inr AskSecurityNormal
      else if spec = ''format-unit'' then Inr AskFormatUnit
      else Inl (Usage (UsageMsg (''unknown --mechananism '' @ spec))))"

fun cli_name :: "requested_mechanism \<Rightarrow> string" where
  "cli_name AutoMechanism = ''auto''"
| "cli_name AskCrypto = ''sanitize-crypto''"
| "cli_name AskBlock = ''sanitize-block''"
| "cli_name AskFormatCrypto = ''format-crypto''"
| "cli_name AskSecurityEnhanced = ''security-erase-enhanced''"
| "cli_name AskSecurityNormal = ''security-erase-normal''"
| "cli_name AskFormatUnit = ''format-unit''"

definition validate_for_bus :: "requested_mechanism \<Rightarrow> bus_type \<Rightarrow> dc_error + unit" where
  "validate_for_bus m bus =
     (if (case bus of
            Nvme \<Rightarrow> m \<in> {AutoMechanism, AskCrypto, AskBlock, AskFormatCrypto}
          | Sata \<Rightarrow> m \<in> {AutoMechanism, AskCrypto, AskBlock, AskSecurityEnhanced, AskSecurityNormal}
          | Usb \<Rightarrow> m \<in> {AutoMechanism, AskCrypto, AskBlock, AskSecurityEnhanced, AskSecurityNormal}
          | Sas \<Rightarrow> m \<in> {AutoMechanism, AskCrypto, AskBlock, AskFormatUnit}
          | _ \<Rightarrow> True)
      then Inr ()
      else Inl (Usage (UsageMsg (''--mechanism '' @ cli_name m @ '' is not available on the '' @ bus_display bus @ '' bus''))))"

definition primary_mechanism_for :: "capabilities \<Rightarrow> nvme_mechanism option" where
  "primary_mechanism_for caps =
     (if supports_sanitize_crypto caps then Some NvmeSanitizeCrypto
      else if supports_sanitize_block caps then Some NvmeSanitizeBlock
      else if supports_format_nvm caps then Some FormatNvmCrypto
      else None)"

fun nvme_debug :: "nvme_mechanism \<Rightarrow> string" where
  "nvme_debug NvmeSanitizeCrypto = ''SanitizeCryptoErase''"
| "nvme_debug NvmeSanitizeBlock = ''SanitizeBlockErase''"
| "nvme_debug FormatNvmCrypto = ''FormatNvmCryptoErase''"
| "nvme_debug NvmeLogicalOverwrite = ''LogicalOverwrite''"

section \<open>What the command meets\<close>

record 'sk purge_cmd =
  pc_mechanism :: string
  pc_dry_run :: bool
  pc_serial_confirm :: "string option"
  pc_guard_flags :: guardian_flags
  pc_target :: string
  pc_identity :: device_identity
  pc_host :: host
  pc_transport_opens :: bool
  pc_lock :: lock_world
  pc_tty :: bool
  pc_typed :: "string option"              \<comment> \<open>the line read, \<open>None\<close> when reading fails\<close>
  pc_signal_at_prompt :: bool
  pc_signal_before_arm :: bool
  pc_key :: "(dc_error + 'sk) option"      \<comment> \<open>the key file, when one is given, or why it does not load\<close>
  pc_pubkey_hex :: string
  pc_tool :: tool_build
  pc_started :: string
  pc_armed_at :: string
  pc_finished :: string
  pc_duration_ms :: nat
  pc_unix :: nat
  pc_existing :: "byte list option"        \<comment> \<open>what is at the path of the journal\<close>
  pc_locked :: bool
  pc_faults :: "nat option list"
  pc_thermal_critical :: bool
  pc_thermal_text :: string
  pc_ata_text :: "purge_error \<Rightarrow> string"
  pc_scsi_text :: "scsi_fatal \<Rightarrow> string"
  pc_nvme_text :: "nvme_fatal \<Rightarrow> string"
  pc_readback_opens :: bool
  pc_ks :: keystream
  pc_vcancel :: "nat \<Rightarrow> bool"
  pc_env :: "syscall list"
  pc_disk :: "byte list"                   \<comment> \<open>what the device reads as after the format\<close>
  pc_blake3_hex :: "byte list \<Rightarrow> string"
  pc_sha256_hex :: "byte list \<Rightarrow> string"

record 'sk purge_journal =
  pj_writer :: "'sk journal_writer"
  pj_faults :: "nat option list"

definition purge_append ::
  "('sk, 'vk) journal_deps \<Rightarrow> journal_record \<Rightarrow> 'sk purge_journal \<Rightarrow> 'sk purge_journal \<times> (dc_error + string)" where
  "purge_append d r j =
     (let fault = (case pj_faults j of [] \<Rightarrow> None | f # _ \<Rightarrow> f);
          (w, res) = append_record d fault (pj_writer j) r
      in (j\<lparr>pj_writer := w, pj_faults := tl (pj_faults j)\<rparr>, res))"

section \<open>Confirmation\<close>

definition confirm_destructive_purge :: "'sk purge_cmd \<Rightarrow> dc_error + string" where
  "confirm_destructive_purge c =
     (let stable = di_stable (pc_identity c);
          token = (case si_dm_uuid stable of Some u \<Rightarrow> u
                   | None \<Rightarrow> (case si_serial stable of Some s \<Rightarrow> s | None \<Rightarrow> di_kernel_name (pc_identity c)))
      in if \<not> pc_tty c \<and> pc_serial_confirm c = None then guardian_refuse ''NON_INTERACTIVE_CONFIRM_REQUIRED''
         else if pc_signal_at_prompt c then Inl (Interrupted None)
         else and_then (case pc_serial_confirm c of
             Some provided \<Rightarrow> if provided \<noteq> token then Inl (Usage (UsageMsg ''Confirmation token mismatch'')) else Inr ()
           | None \<Rightarrow> (case pc_typed c of
                 None \<Rightarrow> Inl StdIo
               | Some input \<Rightarrow> if trim input \<noteq> token then Inl OperatorAbort else Inr ()))
         (\<lambda>_. if pc_signal_before_arm c then Inl (Interrupted None) else Inr token))"

section \<open>Journal\<close>

definition purge_plan :: "'sk purge_cmd \<Rightarrow> strategy_ladder \<Rightarrow> strategy_ladder option \<Rightarrow> string \<Rightarrow> plan" where
  "purge_plan c steps recorded mechanism_label =
     \<lparr>pl_schema = ''dc-plan/1'', pl_target = di_stable (pc_identity c), pl_mechanism = HardwarePurge steps mechanism_label,
      pl_verification = NoVerify, pl_window_bytes = default_window_bytes, pl_fast_path = ForbidWriteZeroes,
      pl_strategy_ladder = recorded, pl_legacy_note = None\<rparr>"

definition purge_uuid :: "'sk purge_cmd \<Rightarrow> string" where
  "purge_uuid c = ''dcj-'' @ filter (\<lambda>ch. ch \<notin> set '':-TZ'') (pc_started c)"

definition purge_header :: "'sk purge_cmd \<Rightarrow> bool \<Rightarrow> string \<Rightarrow> plan \<Rightarrow> string \<Rightarrow> journal_record" where
  "purge_header c sealed engine_name pl plan_hash = JHeader
     \<lparr>jh_uuid = purge_uuid c, jh_sealed = sealed, jh_operator_pubkey = (if sealed then Some (pc_pubkey_hex c) else None),
      jh_plan = pl, jh_plan_hash = plan_hash, jh_identity = pc_identity c, jh_tool = pc_tool c, jh_engine = engine_name,
      jh_tuning = \<lparr>et_qd = 0, et_pool_mib = 0, et_window_bytes = pl_window_bytes pl, et_checkpoint_mib = 0, et_checkpoint_ms = 0\<rparr>,
      jh_argv_hash = ''cli-purge'', jh_started_utc = pc_started c\<rparr>"

definition purge_armed :: "'sk purge_cmd \<Rightarrow> journal_record" where
  "purge_armed c = JArmed [] [dec (ki_major (di_kernel (pc_identity c))) @ '':'' @ dec (ki_minor (di_kernel (pc_identity c)))]
     (pc_armed_at c)"

text \<open>The key, the plan hash, the new file, the header, the armed record.\<close>

definition create_purge_journal ::
  "('sk, 'vk) journal_deps \<Rightarrow> (plan \<Rightarrow> string option) \<Rightarrow> 'sk purge_cmd \<Rightarrow> string \<Rightarrow> strategy_ladder \<Rightarrow> string \<Rightarrow>
   dc_error \<times> 'sk purge_journal option + 'sk purge_journal" where
  "create_purge_journal d hash c engine_name steps mechanism_label =
     (case (case pc_key c of None \<Rightarrow> Inr None | Some (Inl e) \<Rightarrow> Inl e | Some (Inr k) \<Rightarrow> Inr (Some k)) of
        Inl e \<Rightarrow> Inl (e, None)
      | Inr key \<Rightarrow>
     (let pl = purge_plan c steps (Some steps) mechanism_label
      in case compile_plan hash new_fsm pl of
        Inl e \<Rightarrow> Inl (e, None)
      | Inr (_, plan_hash) \<Rightarrow>
     (case create_new d (pc_existing c) (pc_locked c) (purge_uuid c) key of
        Inl e \<Rightarrow> Inl (e, None)
      | Inr w \<Rightarrow>
     (case purge_append d (purge_header c (key \<noteq> None) engine_name pl plan_hash) \<lparr>pj_writer = w, pj_faults = pc_faults c\<rparr> of
        (j, Inl e) \<Rightarrow> Inl (e, Some j)
      | (j, Inr _) \<Rightarrow>
     (case purge_append d (purge_armed c) j of
        (j, Inl e) \<Rightarrow> Inl (e, Some j)
      | (j, Inr _) \<Rightarrow> Inr j)))))"

section \<open>The end of every run\<close>

text \<open>The lifecycle of the certificate, then the two closing records.\<close>

definition assemble_purge_certificate ::
  "('sk, 'vk) journal_deps \<Rightarrow> (plan \<Rightarrow> string option) \<Rightarrow> 'sk purge_cmd \<Rightarrow> string \<Rightarrow> string \<Rightarrow> 'sk purge_journal \<Rightarrow>
   (dc_error + unit) \<times> 'sk purge_journal" where
  "assemble_purge_certificate d hash c mechanism_label verify_level_note j =
     (let pl = purge_plan c [] None mechanism_label
      in case and_then (armed_fsm hash pl) (\<lambda>f. and_then (begin_verify f) certify) of
        Inl e \<Rightarrow> (Inl e, j)
      | Inr _ \<Rightarrow>
     (let rep = finalize (pc_blake3_hex c) (pc_sha256_hex c)
            (new_verifier NoVerify (pl_window_bytes pl) (di_logical_block_size (pc_identity c)) False)
      in case purge_append d (JVerify ((verify_record_of NoVerify rep False)\<lparr>vr_level := verify_level_note\<rparr>)) j of
        (j, Inl e) \<Rightarrow> (Inl e, j)
      | (j, Inr _) \<Rightarrow>
     (case purge_append d (JCompleted (pc_finished c) (pc_duration_ms c)) j of
        (j, Inl e) \<Rightarrow> (Inl e, j)
      | (j, Inr _) \<Rightarrow> (Inr (), j))))"

definition conclude_purge ::
  "('sk, 'vk) journal_deps \<Rightarrow> (plan \<Rightarrow> string option) \<Rightarrow> 'sk purge_cmd \<Rightarrow> string \<Rightarrow> string \<Rightarrow> 'sk purge_journal \<Rightarrow>
   (dc_error + unit) \<times> 'sk purge_journal" where
  "conclude_purge d hash c mechanism_label verify_level_note j =
     (if pc_thermal_critical c
      then (guardian_refuse ''THERMAL_CRITICAL'',
            fst (purge_append d (JFailed ''THERMAL_CRITICAL'' None (Some ''thermal-monitor'') None (pc_thermal_text c)) j))
      else assemble_purge_certificate d hash c mechanism_label verify_level_note j)"

section \<open>The SCSI runner\<close>

type_synonym ('w, 'sk) purge_end = "(dc_error + unit) \<times> 'sk purge_journal option \<times> 'w"

text \<open>The INQUIRY of the forensics; only the certificate reads its answer.\<close>

definition capture_scsi :: "'s scsi_client \<Rightarrow> 's scsi_world \<Rightarrow> 's scsi_world" where
  "capture_scsi d w = fst (scsi_issue d (encode_scsi_inquiry 36) (ScsiFromDev 36) probe_timeout_ms w)"

definition scsi_requested :: "requested_mechanism \<Rightarrow> scsi_mechanism option" where
  "scsi_requested m =
     (case m of AskCrypto \<Rightarrow> Some ScsiSanitizeCrypto | AskBlock \<Rightarrow> Some ScsiSanitizeBlock
      | AskFormatUnit \<Rightarrow> Some ScsiFormatUnit | _ \<Rightarrow> None)"

definition no_capabilities :: capabilities where
  "no_capabilities = \<lparr>supports_sanitize_crypto = False, supports_sanitize_block = False, supports_format_nvm = False,
     supports_ata_security_enhanced = False, supports_dco_hpa = False, supports_scsi_sanitize = False\<rparr>"

definition run_scsi_purge ::
  "('sk, 'vk) journal_deps \<Rightarrow> (plan \<Rightarrow> string option) \<Rightarrow> 's scsi_client \<Rightarrow> 'sk purge_cmd \<Rightarrow> 's scsi_world \<Rightarrow>
   ('s scsi_world, 'sk) purge_end" where
  "run_scsi_purge d hash cl c w =
     (if \<not> pc_transport_opens c then (guardian_refuse ''PURGE_TRANSPORT_UNAVAILABLE'', None, w)
      else case compile_strategy ScsiSas no_capabilities True of
        Inl e \<Rightarrow> (Inl (Usage (UsageMsg e)), None, w)
      | Inr steps \<Rightarrow>
     (case parse_mechanism (pc_mechanism c) of
        Inl e \<Rightarrow> (Inl e, None, w)
      | Inr m \<Rightarrow>
     (let requested = scsi_requested m
      in if pc_dry_run c then (Inr (), None, fst (read_grown_defects cl w))
         else case confirm_destructive_purge c of
        Inl e \<Rightarrow> (Inl e, None, w)
      | Inr _ \<Rightarrow>
     (case arm_and_lock (pc_lock c) (di_kernel_name (pc_identity c)) (di_stable (pc_identity c)) of
        Inl e \<Rightarrow> (Inl e, None, w)
      | Inr _ \<Rightarrow>
     (case create_purge_journal d hash c ''scsi-sgio'' steps
             (case requested of None \<Rightarrow> ''auto'' | Some r \<Rightarrow> scsi_label r) of
        Inl (e, j) \<Rightarrow> (Inl e, j, w)
      | Inr j \<Rightarrow>
     (let stable = di_stable (pc_identity c);
          permit = scsi_mint (pc_target c)
            (case si_wwn stable of Some n \<Rightarrow> n | None \<Rightarrow> (case si_serial stable of Some s \<Rightarrow> s | None \<Rightarrow> [])) (pc_unix c)
      in case scsi_purge_ladder cl permit requested (capture_scsi cl w) of
        (w, Inl e) \<Rightarrow>
          (guardian_refuse ''PURGE_FAILED'',
           Some (fst (purge_append d (JFailed ''PURGE_FAILED'' None (Some ''scsi-ladder'') None (pc_scsi_text c e)) j)), w)
      | (w, Inr s) \<Rightarrow>
          (let w = (if pc_thermal_critical c then w else capture_scsi cl w);
               note = (case ss_completion_evidence s of
                   SensePollTerminal \<Rightarrow> ''Controller-attested (scsi-sense-poll-terminal)''
                 | BlockingFormatUnitReturn \<Rightarrow> ''Controller-attested (blocking-format-return)'')
           in case conclude_purge d hash c (scsi_label (ss_executed_mechanism s)) note j of (r, j) \<Rightarrow> (r, Some j, w))))))))"

section \<open>The ATA runner\<close>

text \<open>The forensics: IDENTIFY and, when it is answered, two statistics pages.\<close>

definition capture_ata :: "'s purge_deps \<Rightarrow> 's sat_world \<Rightarrow> 's sat_world" where
  "capture_ata d w =
     (case identify d w of
        (w, Inl _) \<Rightarrow> w
      | (w, Inr _) \<Rightarrow> fst (read_device_statistics d 0x04 (fst (read_device_statistics d 0x00 w))))"

definition ata_requested :: "requested_mechanism \<Rightarrow> purge_mechanism option" where
  "ata_requested m =
     (case m of AskCrypto \<Rightarrow> Some SanitizeCryptoScramble | AskBlock \<Rightarrow> Some SanitizeBlockErase
      | AskSecurityEnhanced \<Rightarrow> Some SecurityEraseEnhanced | AskSecurityNormal \<Rightarrow> Some SecurityEraseNormal | _ \<Rightarrow> None)"

definition ata_capabilities :: "ata_identify_data \<Rightarrow> capabilities" where
  "ata_capabilities i =
     \<lparr>supports_sanitize_crypto = ss_crypto_scramble_supported (id_sanitize i),
      supports_sanitize_block = ss_block_erase_supported (id_sanitize i), supports_format_nvm = False,
      supports_ata_security_enhanced = as_enhanced_erase_supported (id_security i), supports_dco_hpa = True,
      supports_scsi_sanitize = False\<rparr>"

definition ata_failed :: "'sk purge_cmd \<Rightarrow> purge_error \<Rightarrow> string \<times> journal_record" where
  "ata_failed c e =
     (case e of
        EraseFailedLockedDisclosed _ _ _ \<Rightarrow> (''PURGE_FAILED_LIFELINE_DISCLOSED'',
          JFailed ''PURGE_FAILED_LIFELINE_DISCLOSED'' None (Some ''SecurityEraseUnit'') None (pc_ata_text c e))
      | Fatal _ \<Rightarrow> (''PURGE_FAILED'', JFailed ''PURGE_FAILED'' None (Some ''ata-ladder'') None (pc_ata_text c e)))"

definition run_ata_purge ::
  "('sk, 'vk) journal_deps \<Rightarrow> (plan \<Rightarrow> string option) \<Rightarrow> 's purge_deps \<Rightarrow> 'sk purge_cmd \<Rightarrow> 's sat_world \<Rightarrow>
   ('s sat_world, 'sk) purge_end" where
  "run_ata_purge d hash cl c w =
     (if \<not> pc_transport_opens c then (guardian_refuse ''PURGE_TRANSPORT_UNAVAILABLE'', None, w)
      else case identify cl w of
        (w, Inl _) \<Rightarrow> (guardian_refuse ''PURGE_IDENTIFY_FAILED'', None, w)
      | (w, Inr ident) \<Rightarrow>
     (case compile_strategy SataSsd (ata_capabilities ident) True of
        Inl e \<Rightarrow> (Inl (Usage (UsageMsg e)), None, w)
      | Inr steps \<Rightarrow>
     (case parse_mechanism (pc_mechanism c) of
        Inl e \<Rightarrow> (Inl e, None, w)
      | Inr m \<Rightarrow>
     (let requested = ata_requested m
      in if pc_dry_run c then (Inr (), None, fst (read_reallocated_sectors cl w))
         else case confirm_destructive_purge c of
        Inl e \<Rightarrow> (Inl e, None, w)
      | Inr _ \<Rightarrow>
     (case arm_and_lock (pc_lock c) (di_kernel_name (pc_identity c)) (di_stable (pc_identity c)) of
        Inl e \<Rightarrow> (Inl e, None, w)
      | Inr _ \<Rightarrow>
     (case create_purge_journal d hash c ''sat-sgio'' steps
             (case requested of None \<Rightarrow> ''auto'' | Some r \<Rightarrow> label r) of
        Inl (e, j) \<Rightarrow> (Inl e, j, w)
      | Inr j \<Rightarrow>
     (let permit = mint (pc_target c) (case si_serial (di_stable (pc_identity c)) of Some s \<Rightarrow> s | None \<Rightarrow> []) (pc_unix c)
      in case execute_purge_ladder cl permit requested (capture_ata cl w) of
        (w, Inl e) \<Rightarrow> (guardian_refuse (fst (ata_failed c e)), Some (fst (purge_append d (snd (ata_failed c e)) j)), w)
      | (w, Inr s) \<Rightarrow>
          (let w = (if pc_thermal_critical c then w else capture_ata cl w);
               note = (case ps_completion_evidence s of
                   SanitizeStatusLog \<Rightarrow> ''Controller-attested (ata-sanitize-status-log-0x30)''
                 | BlockingEraseReturn \<Rightarrow> ''Controller-attested (blocking-erase-return)'')
           in case conclude_purge d hash c (label (ps_executed_mechanism s)) note j of (r, j) \<Rightarrow> (r, Some j, w)))))))))"

section \<open>The NVMe runner\<close>

abbreviation nvme_io :: "'s nvme_client \<Rightarrow> 's nvme_world admin_transport" where
  "nvme_io cl w cmd \<equiv> admin_passthrough cl cmd w"

definition capture_nvme :: "'s nvme_client \<Rightarrow> 's nvme_world \<Rightarrow> 's nvme_world" where
  "capture_nvme cl w = fst (admin_passthrough cl (encode_get_telemetry_log True) w)"

text \<open>The sampled read-back that follows a format; \<open>None\<close> is that it goes on to the certificate.\<close>

definition format_read_back ::
  "('sk, 'vk) journal_deps \<Rightarrow> 'sk purge_cmd \<Rightarrow> 'sk purge_journal \<Rightarrow> (dc_error option \<times> 'sk purge_journal) io" where
  "format_read_back d c j =
     (if \<not> pc_readback_opens c then Done (Some StdIo, j)
      else let sp = new_span (si_size_bytes (di_stable (pc_identity c))) (di_logical_block_size (pc_identity c)) default_window_bytes;
               v = new_verifier (Sampled 64) default_window_bytes (di_logical_block_size (pc_identity c)) False
           in case read_verify (pc_ks c) ZeroSource (pc_vcancel c) (new_engine default_window_bytes False) sp 64 on_window
                (pc_env c) (pc_disk c) v of
                Blocked \<Rightarrow> Blocked
              | Panic \<Rightarrow> Panic
              | Done (Inl e, _) \<Rightarrow> Done (Some e, j)
              | Done (Inr v', _) \<Rightarrow>
                  (let rep = finalize (pc_blake3_hex c) (pc_sha256_hex c) v'
                   in if vp_mismatch_count rep > 0
                      then Done (Some (VerificationFailed (vp_mismatch_count rep) (vp_first_mismatch_lbas rep)),
                        fst (purge_append d (JFailed ''VERIFICATION_FAILED'' None (Some ''purge-readback'')
                          (if vp_first_mismatch_lbas rep = [] then None else Some (hd (vp_first_mismatch_lbas rep)))
                          (''Format NVM crypto erase reported success but the sampled zero read-back found '' @
                            dec (vp_mismatch_count rep) @ '' mismatching windows; evidence conflict, refusing to certify'')) j))
                      else Done (None, j)))"

definition nvme_primary :: "requested_mechanism \<Rightarrow> capabilities \<Rightarrow> nvme_mechanism option" where
  "nvme_primary m caps =
     (case m of AskCrypto \<Rightarrow> Some NvmeSanitizeCrypto | AskBlock \<Rightarrow> Some NvmeSanitizeBlock
      | AskFormatCrypto \<Rightarrow> Some FormatNvmCrypto | _ \<Rightarrow> primary_mechanism_for caps)"

definition nvme_after_ladder ::
  "('sk, 'vk) journal_deps \<Rightarrow> (plan \<Rightarrow> string option) \<Rightarrow> 's nvme_client \<Rightarrow> 'sk purge_cmd \<Rightarrow> nvme_mechanism \<Rightarrow>
   nvme_summary \<Rightarrow> 'sk purge_journal \<Rightarrow> 's nvme_world \<Rightarrow> ('s nvme_world, 'sk) purge_end io" where
  "nvme_after_ladder d hash cl c primary s j w =
     (let w = capture_nvme cl (fst (read_health (nvme_io cl) w));
          formatted = (nv_executed_mechanism s = FormatNvmCrypto);
          note = (if formatted then ''Sampled (1-in-64) zero read-back + controller-attested''
                  else ''Controller-attested (sanitize-status-log)'')
      in case (if formatted then format_read_back d c j else Done (None, j)) of
           Blocked \<Rightarrow> Blocked
         | Panic \<Rightarrow> Panic
         | Done (Some e, j) \<Rightarrow> Done (Inl e, Some j, w)
         | Done (None, j) \<Rightarrow>
             (case conclude_purge d hash c (nvme_debug primary) note j of (r, j) \<Rightarrow> Done (r, Some j, w)))"

definition run_nvme_purge ::
  "('sk, 'vk) journal_deps \<Rightarrow> (plan \<Rightarrow> string option) \<Rightarrow> 's nvme_client \<Rightarrow> 'sk purge_cmd \<Rightarrow> 's nvme_world \<Rightarrow>
   ('s nvme_world, 'sk) purge_end io" where
  "run_nvme_purge d hash cl c w =
     (if \<not> pc_transport_opens c then Done (guardian_refuse ''PURGE_TRANSPORT_UNAVAILABLE'', None, w)
      else case identify_controller (nvme_io cl) w of
        (w, Inl _) \<Rightarrow> Done (guardian_refuse ''PURGE_IDENTIFY_FAILED'', None, w)
      | (w, Inr ident) \<Rightarrow>
     (let caps = attest_capabilities ident
      in case compile_strategy NvmeClass caps True of
        Inl e \<Rightarrow> Done (Inl (Usage (UsageMsg e)), None, w)
      | Inr steps \<Rightarrow>
     (case parse_mechanism (pc_mechanism c) of
        Inl e \<Rightarrow> Done (Inl e, None, w)
      | Inr m \<Rightarrow>
     (case nvme_primary m caps of
        None \<Rightarrow> Done (guardian_refuse ''PURGE_UNSUPPORTED_BY_CONTROLLER'', None, w)
      | Some primary \<Rightarrow>
     (if pc_dry_run c then Done (Inr (), None, w)
      else let w = capture_nvme cl (fst (read_health (nvme_io cl) w))
      in case confirm_destructive_purge c of
        Inl e \<Rightarrow> Done (Inl e, None, w)
      | Inr _ \<Rightarrow>
     (case arm_and_lock (pc_lock c) (di_kernel_name (pc_identity c)) (di_stable (pc_identity c)) of
        Inl e \<Rightarrow> Done (Inl e, None, w)
      | Inr _ \<Rightarrow>
     (case create_purge_journal d hash c ''nvme-admin'' steps (nvme_debug primary) of
        Inl (e, j) \<Rightarrow> Done (Inl e, j, w)
      | Inr j \<Rightarrow>
     (let permit = nvme_mint (pc_target c) (case si_serial (di_stable (pc_identity c)) of Some s \<Rightarrow> s | None \<Rightarrow> []) (pc_unix c)
      in case nvme_purge_ladder cl permit primary w of
        (w, Inl e) \<Rightarrow> Done (guardian_refuse ''PURGE_FAILED'',
           Some (fst (purge_append d (JFailed ''PURGE_FAILED'' None (Some (nvme_debug primary)) None (pc_nvme_text c e)) j)), w)
      | (w, Inr s) \<Rightarrow> nvme_after_ladder d hash cl c primary s j w))))))))"

section \<open>The command\<close>

record ('a, 'n, 's) purge_rig =
  rig_ata :: "'a purge_deps \<times> 'a sat_world"
  rig_nvme :: "'n nvme_client \<times> 'n nvme_world"
  rig_scsi :: "'s scsi_client \<times> 's scsi_world"

text \<open>For a target that is not a fabric address.\<close>

definition cmd_purge ::
  "('sk, 'vk) journal_deps \<Rightarrow> (plan \<Rightarrow> string option) \<Rightarrow> 'sk purge_cmd \<Rightarrow> ('a, 'n, 's) purge_rig \<Rightarrow>
   (('a, 'n, 's) purge_rig, 'sk) purge_end io" where
  "cmd_purge d hash c rig =
     (case parse_mechanism (pc_mechanism c) of
        Inl e \<Rightarrow> Done (Inl e, None, rig)
      | Inr requested \<Rightarrow>
     (case evaluate (pc_host c) (pc_identity c) ((pc_guard_flags c)\<lparr>gf_serial_confirm := None\<rparr>) of
        Inl e \<Rightarrow> Done (Inl e, None, rig)
      | Inr _ \<Rightarrow>
     (let bus = si_bus (di_stable (pc_identity c))
      in case validate_for_bus requested bus of
        Inl e \<Rightarrow> Done (Inl e, None, rig)
      | Inr _ \<Rightarrow>
          if bus = Nvme
          then (case run_nvme_purge d hash (fst (rig_nvme rig)) c (snd (rig_nvme rig)) of
                  Blocked \<Rightarrow> Blocked
                | Panic \<Rightarrow> Panic
                | Done (r, j, w) \<Rightarrow> Done (r, j, rig\<lparr>rig_nvme := (fst (rig_nvme rig), w)\<rparr>))
          else if bus = Sata \<or> bus = Usb
          then (case run_ata_purge d hash (fst (rig_ata rig)) c (snd (rig_ata rig)) of
                  (r, j, w) \<Rightarrow> Done (r, j, rig\<lparr>rig_ata := (fst (rig_ata rig), w)\<rparr>))
          else if bus = Sas
          then (case run_scsi_purge d hash (fst (rig_scsi rig)) c (snd (rig_scsi rig)) of
                  (r, j, w) \<Rightarrow> Done (r, j, rig\<lparr>rig_scsi := (fst (rig_scsi rig), w)\<rparr>))
          else Done (guardian_refuse ''PURGE_TRANSPORT_UNSUPPORTED'', None, rig))))"

section \<open>How a purge ends\<close>

text \<open>The lifecycle machine verifies only what was flushed, and a purge has no pass to flush.\<close>

definition never_flushed :: dc_error where
  "never_flushed = Usage (UsageMsg ''Cannot begin verification: media not flushed'')"

lemma assemble_fails:
  "assemble_purge_certificate d hash c l n j = (Inl (if hash (purge_plan c [] None l) = None then Json else never_flushed), j)"
  by (cases "hash (purge_plan c [] None l)")
    (simp_all add: assemble_purge_certificate_def Let_def armed_fsm_def fsm_ops new_fsm_def never_flushed_def)

text \<open>What a writer can become by appending records of a kind, whole or torn.\<close>

definition closing :: "journal_record \<Rightarrow> bool" where
  "closing r \<longleftrightarrow> (\<exists>v. r = JVerify v) \<or> (\<exists>at ms. r = JCompleted at ms)"

inductive appended :: "('sk, 'vk) journal_deps \<Rightarrow> 'sk journal_writer \<Rightarrow> 'sk journal_writer \<Rightarrow> bool" for d w where
  appended_none: "appended d w w"
| appended_one: "appended d w w' \<Longrightarrow> \<not> closing r \<Longrightarrow> append_record d fault w' r = (w'', res) \<Longrightarrow> appended d w w''"

lemma purge_append_appended:
  "purge_append d r j = (j', res) \<Longrightarrow> \<not> closing r \<Longrightarrow> appended d w (pj_writer j) \<Longrightarrow> appended d w (pj_writer j')"
  by (auto simp: purge_append_def Let_def split: prod.splits intro: appended_one)

lemma fst_purge_append_appended:
  "\<not> closing r \<Longrightarrow> appended d w (pj_writer j) \<Longrightarrow> appended d w (pj_writer (fst (purge_append d r j)))"
  using purge_append_appended [of d r j] by (cases "purge_append d r j") auto

lemma not_closing [simp]:
  "\<not> closing (JFailed a b e f g)" "\<not> closing (purge_header c s n p h)" "\<not> closing (purge_armed c)"
  by (simp_all add: closing_def purge_header_def purge_armed_def)

text \<open>No run has a journal of its own, or it only ever appended records that do not close it.\<close>

definition left_open :: "('sk, 'vk) journal_deps \<Rightarrow> 'sk purge_cmd \<Rightarrow> 'sk purge_journal option \<Rightarrow> bool" where
  "left_open d c j \<longleftrightarrow> (\<forall>jr. j = Some jr \<longrightarrow>
     (\<exists>key w. create_new d (pc_existing c) (pc_locked c) (purge_uuid c) key = Inr w \<and> appended d w (pj_writer jr)))"

lemma left_open_none [simp]: "left_open d c None"
  by (simp add: left_open_def)

lemma left_open_append:
  "left_open d c (Some j) \<Longrightarrow> \<not> closing r \<Longrightarrow> left_open d c (Some (fst (purge_append d r j)))"
  unfolding left_open_def using fst_purge_append_appended by fastforce

lemma create_purge_journal_open:
  assumes "create_purge_journal d hash c n l m = r"
  shows "left_open d c (case r of Inl (e, j) \<Rightarrow> j | Inr j \<Rightarrow> Some j)"
proof -
  consider (none) "(case r of Inl (e, j) \<Rightarrow> j | Inr j \<Rightarrow> Some j) = None" | (some) key w plan_hash where
    "create_new d (pc_existing c) (pc_locked c) (purge_uuid c) key = Inr w"
    "r = (case purge_append d (purge_header c (key \<noteq> None) n (purge_plan c l (Some l) m) plan_hash)
            \<lparr>pj_writer = w, pj_faults = pc_faults c\<rparr> of
        (j, Inl e) \<Rightarrow> Inl (e, Some j)
      | (j, Inr _) \<Rightarrow> (case purge_append d (purge_armed c) j of (j, Inl e) \<Rightarrow> Inl (e, Some j) | (j, Inr _) \<Rightarrow> Inr j))"
    using assms by (auto simp: create_purge_journal_def Let_def split: option.splits sum.splits)
  then show ?thesis
  proof cases
    case none
    then show ?thesis by simp
  next
    case some
    let ?j0 = "\<lparr>pj_writer = w, pj_faults = pc_faults c\<rparr>"
    obtain j1 a where h: "purge_append d (purge_header c (key \<noteq> None) n (purge_plan c l (Some l) m) plan_hash) ?j0 = (j1, a)" by fastforce
    obtain j2 b where g: "purge_append d (purge_armed c) j1 = (j2, b)" by fastforce
    have "appended d w (pj_writer ?j0)" by (simp add: appended_none)
    from purge_append_appended [OF h _ this] have 1: "appended d w (pj_writer j1)" by simp
    from purge_append_appended [OF g _ this] have 2: "appended d w (pj_writer j2)" by simp
    have "(case r of Inl (e, j) \<Rightarrow> j | Inr j \<Rightarrow> Some j) \<in> {Some j1, Some j2}"
      unfolding some(2) [unfolded h prod.case] by (cases a; cases b) (simp_all add: g)
    then have "\<exists>jr. (case r of Inl (e, j) \<Rightarrow> j | Inr j \<Rightarrow> Some j) = Some jr \<and> appended d w (pj_writer jr)" using 1 2 by blast
    then show ?thesis using some(1) unfolding left_open_def by (elim exE conjE) (simp, rule exI, rule exI, rule conjI)
  qed
qed

lemma create_purge_journal_Inr: "create_purge_journal d hash c n l m = Inr j \<Longrightarrow> left_open d c (Some j)"
  using create_purge_journal_open [of d hash c n l m "Inr j"] by simp

lemma create_purge_journal_Inl: "create_purge_journal d hash c n l m = Inl (e, j) \<Longrightarrow> left_open d c j"
  using create_purge_journal_open [of d hash c n l m "Inl (e, j)"] by simp

lemma conclude_purge_fails:
  assumes "left_open d c (Some j)" and "conclude_purge d hash c l n j = (r, j')"
  shows "(\<exists>e. r = Inl e) \<and> left_open d c (Some j')"
  using assms left_open_append [OF assms(1)]
  by (auto simp: conclude_purge_def assemble_fails guardian_refuse_def split: if_splits)

definition purge_refused :: "('sk, 'vk) journal_deps \<Rightarrow> 'sk purge_cmd \<Rightarrow> ('w, 'sk) purge_end \<Rightarrow> bool" where
  "purge_refused d c x \<longleftrightarrow> (\<exists>e. fst x = Inl e) \<and> left_open d c (fst (snd x))"

lemma purge_refused_simps [simp]:
  "purge_refused d c (Inl e, j, w) \<longleftrightarrow> left_open d c j" "purge_refused d c (guardian_refuse s, j, w) \<longleftrightarrow> left_open d c j"
  by (simp_all add: purge_refused_def guardian_refuse_def)

lemma conclude_purge_refused:
  "conclude_purge d hash c l n j = (r, j') \<Longrightarrow> left_open d c (Some j) \<Longrightarrow> purge_refused d c (r, Some j', w)"
  using conclude_purge_fails [of d c j hash l n] by (auto simp: purge_refused_def)

lemma scsi_purge_refused: "\<not> pc_dry_run c \<Longrightarrow> purge_refused d c (run_scsi_purge d hash cl c w)"
  by (auto simp: run_scsi_purge_def Let_def left_open_append split: sum.split prod.split
      dest!: create_purge_journal_Inl create_purge_journal_Inr elim: conclude_purge_refused)

lemma ata_purge_refused: "\<not> pc_dry_run c \<Longrightarrow> purge_refused d c (run_ata_purge d hash cl c w)"
  by (auto simp: run_ata_purge_def ata_failed_def Let_def left_open_append split: sum.split prod.split purge_error.split
      dest!: create_purge_journal_Inl create_purge_journal_Inr elim: conclude_purge_refused)

lemma format_read_back_open:
  "format_read_back d c j = Done (e, j') \<Longrightarrow> left_open d c (Some j) \<Longrightarrow> left_open d c (Some j')"
  by (auto simp: format_read_back_def Let_def left_open_append split: if_splits io.splits sum.splits prod.splits)

lemma nvme_after_ladder_refused:
  assumes "left_open d c (Some j)" and "nvme_after_ladder d hash cl c m s j w = Done x"
  shows "purge_refused d c x"
proof -
  obtain e j' where r: "(if nv_executed_mechanism s = FormatNvmCrypto then format_read_back d c j else Done (None, j)) = Done (e, j')"
    using assms(2) by (auto simp: nvme_after_ladder_def Let_def split: io.splits if_splits)
  have open': "left_open d c (Some j')" using r format_read_back_open [OF _ assms(1)] assms(1) by (auto split: if_splits)
  show ?thesis using assms(2) open' unfolding nvme_after_ladder_def Let_def r
    by (cases e) (auto split: prod.splits elim: conclude_purge_refused)
qed

lemma nvme_purge_refused:
  assumes "\<not> pc_dry_run c" and "run_nvme_purge d hash cl c w = Done x"
  shows "purge_refused d c x"
  using assms
  by (auto simp: run_nvme_purge_def Let_def left_open_append split: sum.splits prod.splits option.splits if_splits
      dest!: create_purge_journal_Inl create_purge_journal_Inr elim: nvme_after_ladder_refused)

lemma purge_refused_world: "purge_refused d c (r, j, w) \<Longrightarrow> purge_refused d c (r, j, v)"
  by (simp add: purge_refused_def)

lemma runs_refused:
  assumes "\<not> pc_dry_run c"
  shows "run_scsi_purge d hash cs c ws = (r, j, ws') \<Longrightarrow> purge_refused d c (r, j, v)"
    "run_ata_purge d hash ca c wa = (r, j, wa') \<Longrightarrow> purge_refused d c (r, j, v)"
    "run_nvme_purge d hash cn c wn = Done (r, j, wn') \<Longrightarrow> purge_refused d c (r, j, v)"
  using scsi_purge_refused [OF assms, of d hash cs ws] ata_purge_refused [OF assms, of d hash ca wa]
    nvme_purge_refused [OF assms, of d hash cn wn] by (metis purge_refused_world)+

lemma cmd_purge_refused:
  assumes "\<not> pc_dry_run c" and "cmd_purge d hash c rig = Done (r, j, rig')"
  shows "purge_refused d c (r, j, rig')"
proof -
  let ?bus = "si_bus (di_stable (pc_identity c))"
  consider (early) e where "(r, j) = (Inl e, None)"
    | (nvme) w where "run_nvme_purge d hash (fst (rig_nvme rig)) c (snd (rig_nvme rig)) = Done (r, j, w)"
    | (ata) w where "run_ata_purge d hash (fst (rig_ata rig)) c (snd (rig_ata rig)) = (r, j, w)"
    | (scsi) w where "run_scsi_purge d hash (fst (rig_scsi rig)) c (snd (rig_scsi rig)) = (r, j, w)"
  proof -
    have "(\<exists>e. (r, j) = (Inl e, None)) \<or>
      (\<exists>w. run_nvme_purge d hash (fst (rig_nvme rig)) c (snd (rig_nvme rig)) = Done (r, j, w)) \<or>
      (\<exists>w. run_ata_purge d hash (fst (rig_ata rig)) c (snd (rig_ata rig)) = (r, j, w)) \<or>
      (\<exists>w. run_scsi_purge d hash (fst (rig_scsi rig)) c (snd (rig_scsi rig)) = (r, j, w))"
    proof (cases "parse_mechanism (pc_mechanism c)")
      case (Inl e)
      then have "cmd_purge d hash c rig = Done (Inl e, None, rig)" by (simp add: cmd_purge_def Let_def)
      then show ?thesis using assms(2) by (intro disjI1 exI [of _ e]) simp
    next
      case m: (Inr m)
      show ?thesis
      proof (cases "evaluate (pc_host c) (pc_identity c) ((pc_guard_flags c)\<lparr>gf_serial_confirm := None\<rparr>)")
        case (Inl e)
        then have "cmd_purge d hash c rig = Done (Inl e, None, rig)" using m by (simp add: cmd_purge_def Let_def)
      then show ?thesis using assms(2) by (intro disjI1 exI [of _ e]) simp
      next
        case g: (Inr u)
        show ?thesis
        proof (cases "validate_for_bus m ?bus")
          case (Inl e)
          then have "cmd_purge d hash c rig = Done (Inl e, None, rig)" using m g by (simp add: cmd_purge_def Let_def)
      then show ?thesis using assms(2) by (intro disjI1 exI [of _ e]) simp
        next
          case v: (Inr u')
          show ?thesis using assms(2) m g v
            by (auto simp: cmd_purge_def Let_def guardian_refuse_def split: if_splits io.splits prod.splits)
        qed
      qed
    qed
    then show ?thesis using early nvme ata scsi that by blast
  qed
  then show ?thesis
    by cases (simp_all add: runs_refused [OF assms(1)])
qed

section \<open>Properties\<close>

text \<open>C21: No purge is ever certified. Whatever the target, the mechanism and the answers of the drive, a command that
  returns and is not a dry run returns an error, and the journal it leaves, torn appends included, has neither a Verify nor
  a Completed record: the certificate is assembled through a lifecycle machine that verifies only flushed
  media, and a purge flushes nothing.\<close>

theorem purge_never_certified:
  assumes "\<not> pc_dry_run c" and "cmd_purge d hash c rig = Done (r, j, rig')"
  shows "(\<exists>e. r = Inl e) \<and> (\<forall>jr. j = Some jr \<longrightarrow>
    (\<exists>key w. create_new d (pc_existing c) (pc_locked c) (purge_uuid c) key = Inr w \<and> appended d w (pj_writer jr)))"
  using cmd_purge_refused [OF assms] by (simp add: purge_refused_def left_open_def)

end
