(* ===== verification/Purge_Demo.thy ===== *)
theory Purge_Demo
  imports Purge_Command Execution_Demo Ata_Demo
begin

text \<open>
  A purge of a SCSI disk, from the arguments to the end: the instance on which the properties of
  \<open>Purge_Command\<close> are discharged.
\<close>

section \<open>A concrete purge\<close>

definition sas_disk :: device_identity where
  "sas_disk = demo_disk\<lparr>di_stable := (di_stable demo_disk)\<lparr>si_bus := Sas\<rparr>\<rparr>"

definition idle_host :: host where
  "idle_host = demo_host\<lparr>ho_mountinfo := None, ho_entries := []\<rparr>"

definition sas_purge :: "unit purge_cmd" where
  "sas_purge = \<lparr>pc_mechanism = ''auto'', pc_dry_run = False, pc_serial_confirm = Some ''S1'', pc_guard_flags = default_flags,
     pc_target = ''/dev/sda'', pc_identity = sas_disk, pc_host = idle_host, pc_transport_opens = True,
     pc_lock = \<lparr>lw_disk = Opened True, lw_probe = None, lw_meta = Inr (Some (Some ''S1'')), lw_parts = []\<rparr>,
     pc_tty = False, pc_typed = None, pc_signal_at_prompt = False, pc_signal_before_arm = False, pc_key = None,
     pc_pubkey_hex = [], pc_tool = \<lparr>tb_name = ''dc'', tb_version = ''0'', tb_build_hash = ''0'', tb_target_triple = ''t''\<rparr>,
     pc_started = ''t'', pc_armed_at = ''t'', pc_finished = ''t'', pc_duration_ms = 0, pc_unix = 0, pc_existing = None,
     pc_locked = False, pc_faults = [], pc_thermal_critical = False, pc_thermal_text = [], pc_ata_text = (\<lambda>_. []),
     pc_scsi_text = (\<lambda>_. []), pc_nvme_text = (\<lambda>_. []), pc_readback_opens = True, pc_ks = no_ks, pc_vcancel = (\<lambda>_. False),
     pc_env = [], pc_disk = [], pc_blake3_hex = (\<lambda>_. []), pc_sha256_hex = (\<lambda>_. [])\<rparr>"

definition demo_rig :: "(script, unit, unit) purge_rig" where
  "demo_rig = \<lparr>rig_ata = (scripted, world masked_drive), rig_nvme = (refusing_client, \<lparr>nw_dev = (), nw_trace = [], nw_progress = []\<rparr>),
     rig_scsi = (half_way_drive, \<lparr>sn_dev = (), sn_trace = [], sn_progress = []\<rparr>)\<rparr>"

lemma idle_host_name:
  "\<not> is_zoned idle_host" "\<not> is_swap_active idle_host ''sda''" "\<not> has_holders idle_host ''sda''"
  "\<not> is_md_member idle_host ''sda''" "\<not> ho_read_only idle_host" "ho_head idle_host = None"
  "find_mounts_for_device idle_host \<lparr>ki_major = 8, ki_minor = 0\<rparr> ''sda'' = []"
  by code_simp+

lemma sas_disk_simps:
  "di_kernel_name sas_disk = ''sda''" "di_kernel sas_disk = \<lparr>ki_major = 8, ki_minor = 0\<rparr>"
  "di_stable sas_disk = \<lparr>si_model = None, si_serial = Some ''S1'', si_wwn = None, si_size_bytes = 2 ^ 30,
     si_bus = Sas, si_dm_name = None, si_dm_uuid = None\<rparr>"
  by (simp_all add: sas_disk_def demo_disk_def)

lemma sas_disk_idle: "evaluate idle_host sas_disk (default_flags\<lparr>gf_serial_confirm := None\<rparr>) = Inr ()"
  by (simp add: evaluate_def sas_disk_simps demo_disk_name idle_host_name check_mounts_def check_signatures_def
      sniff_signatures_def Let_def)

lemma sas_journal:
  "\<exists>j. create_purge_journal (coded_deps []) (\<lambda>_. Some ''h'') sas_purge n l m = Inr j \<and> pj_faults j = []"
  by (simp add: create_purge_journal_def sas_purge_def compile_plan_def fsm_ops new_fsm_def create_new_def purge_append_def
      coded_append Let_def ok_or_def)

lemma half_way_sense_idle: "request_sense half_way_drive w = (w\<lparr>sn_trace := sn_trace w @ [(sense_rq,
    Inr \<lparr>sy_status = 0, sy_sense = [], sy_data_in = half_way_sense\<rparr>)]\<rparr>, Inr idle_sense)"
  by (simp add: request_sense_def scsi_issue_def half_way_drive_def sense_rq_def half_way_sense_def request_sense_alloc_def)

lemma half_way_issue: "scsi_issue half_way_drive cdb ScsiNone t w = (w\<lparr>sn_trace := sn_trace w @ [(\<lparr>sx_cdb = cdb, sx_xfer = ScsiNone, sx_timeout_ms = t\<rparr>,
    Inr \<lparr>sy_status = 0, sy_sense = [], sy_data_in = []\<rparr>)]\<rparr>, Inr \<lparr>sy_status = 0, sy_sense = [], sy_data_in = []\<rparr>)"
  by (simp add: scsi_issue_def half_way_drive_def)

lemma half_way_sanitize: "scsi_run_sanitize half_way_drive a w = (w\<lparr>sn_trace := sn_trace w @ [(scsi_sanitize_rq a,
    Inr \<lparr>sy_status = 0, sy_sense = [], sy_data_in = []\<rparr>), (sense_rq,
    Inr \<lparr>sy_status = 0, sy_sense = [], sy_data_in = half_way_sense\<rparr>)]\<rparr>, Inr (1000, idle_sense))"
  by (simp add: scsi_run_sanitize_def half_way_issue scsi_good_def poll_sense.simps half_way_sense_idle idle_sense_def
      scsi_sanitize_rq_def Let_def)

lemma half_way_purge:
  "\<exists>w' s tail. scsi_purge_ladder half_way_drive permit None w = (w', Inr s) \<and> sn_trace w' = tail @ [(scsi_sanitize_rq ScsiCryptoErase,
    Inr \<lparr>sy_status = 0, sy_sense = [], sy_data_in = []\<rparr>), (sense_rq, Inr \<lparr>sy_status = 0, sy_sense = [], sy_data_in = half_way_sense\<rparr>)]"
  by (auto simp: scsi_purge_ladder_def scsi_crypto_rung_def half_way_sanitize split: prod.split)

lemma sas_end:
  "pj_faults j = [] \<Longrightarrow> conclude_purge (coded_deps []) (\<lambda>_. Some ''h'') sas_purge l n j = (Inl never_flushed, j)"
  by (simp add: conclude_purge_def sas_purge_def assemble_fails)

lemma capture_trace: "\<exists>x. sn_trace (capture_scsi d w) = sn_trace w @ [x]"
  by (auto simp: capture_scsi_def scsi_issue_def Let_def split: prod.split)

lemma sas_run:
  "\<exists>j w' front tail. run_scsi_purge (coded_deps []) (\<lambda>_. Some ''h'') half_way_drive sas_purge w = (Inl never_flushed, Some j, w') \<and>
    sn_trace w' = front @ (scsi_sanitize_rq ScsiCryptoErase, Inr \<lparr>sy_status = 0, sy_sense = [], sy_data_in = []\<rparr>) # tail"
proof -
  have c: "pc_transport_opens sas_purge" "parse_mechanism (pc_mechanism sas_purge) = Inr AutoMechanism" "\<not> pc_dry_run sas_purge"
    "confirm_destructive_purge sas_purge = Inr ''S1''" "\<not> pc_thermal_critical sas_purge"
    "arm_and_lock (pc_lock sas_purge) (di_kernel_name (pc_identity sas_purge)) (di_stable (pc_identity sas_purge)) = Inr []"
    by (simp_all add: sas_purge_def parse_mechanism_def confirm_destructive_purge_def sas_disk_simps arm_and_lock_def check_drift_def)
  obtain j where j: "create_purge_journal (coded_deps []) (\<lambda>_. Some ''h'') sas_purge ''scsi-sgio'' (scsi_sas_ladder no_capabilities) ''auto'' = Inr j"
    "pj_faults j = []" using sas_journal by blast
  let ?stable = "di_stable (pc_identity sas_purge)"
  let ?permit = "scsi_mint (pc_target sas_purge)
    (case si_wwn ?stable of Some n \<Rightarrow> n | None \<Rightarrow> (case si_serial ?stable of Some s \<Rightarrow> s | None \<Rightarrow> [])) (pc_unix sas_purge)"
  let ?done = "\<lparr>sy_status = 0, sy_sense = [], sy_data_in = []\<rparr> :: scsi_reply"
  obtain w1 s front y where p: "scsi_purge_ladder half_way_drive ?permit None (capture_scsi half_way_drive w) = (w1, Inr s)"
    and t1: "sn_trace w1 = front @ [(scsi_sanitize_rq ScsiCryptoErase, Inr ?done), y]"
    using half_way_purge [of ?permit "capture_scsi half_way_drive w"] by blast
  obtain x where t2: "sn_trace (capture_scsi half_way_drive w1) = sn_trace w1 @ [x]" using capture_trace by blast
  have "run_scsi_purge (coded_deps []) (\<lambda>_. Some ''h'') half_way_drive sas_purge w =
      (Inl never_flushed, Some j, capture_scsi half_way_drive w1)"
    using p by (simp add: run_scsi_purge_def c scsi_requested_def j sas_end Let_def)
  then show ?thesis using t1 t2 by (intro exI conjI) (assumption, simp)
qed

section \<open>Witnesses\<close>

theorem purge_never_certified_witness:
  "\<exists>e jr rig' x. cmd_purge (coded_deps []) (\<lambda>_. Some ''h'') sas_purge demo_rig = Done (Inl e, Some jr, rig') \<and>
     (scsi_sanitize_rq ScsiCryptoErase, Inr x) \<in> set (sn_trace (snd (rig_scsi rig'))) \<and> scsi_good x \<and>
     (\<exists>key w. create_new (coded_deps []) None False (purge_uuid sas_purge) key = Inr w \<and> appended (coded_deps []) w (pj_writer jr))"
proof -
  let ?w = "\<lparr>sn_dev = (), sn_trace = [], sn_progress = []\<rparr>"
  obtain j w' front tail where run: "run_scsi_purge (coded_deps []) (\<lambda>_. Some ''h'') half_way_drive sas_purge ?w = (Inl never_flushed, Some j, w')"
    and t: "sn_trace w' = front @ (scsi_sanitize_rq ScsiCryptoErase, Inr \<lparr>sy_status = 0, sy_sense = [], sy_data_in = []\<rparr>) # tail"
    using sas_run [of ?w] by blast
  have c: "parse_mechanism (pc_mechanism sas_purge) = Inr AutoMechanism" "pc_host sas_purge = idle_host" "pc_identity sas_purge = sas_disk"
    "pc_guard_flags sas_purge = default_flags" "si_bus (di_stable sas_disk) = Sas" "pc_existing sas_purge = None" "\<not> pc_locked sas_purge"
    "\<not> pc_dry_run sas_purge"
    by (simp_all add: sas_purge_def parse_mechanism_def sas_disk_simps)
  have cmd: "cmd_purge (coded_deps []) (\<lambda>_. Some ''h'') sas_purge demo_rig =
      Done (Inl never_flushed, Some j, demo_rig\<lparr>rig_scsi := (half_way_drive, w')\<rparr>)"
    using run by (simp add: cmd_purge_def c sas_disk_idle validate_for_bus_def demo_rig_def)
  have a: "\<exists>key w. create_new (coded_deps []) None False (purge_uuid sas_purge) key = Inr w \<and> appended (coded_deps []) w (pj_writer j)"
    using purge_never_certified [OF c(8) cmd] c(6,7) by simp
  have "(scsi_sanitize_rq ScsiCryptoErase, Inr \<lparr>sy_status = 0, sy_sense = [], sy_data_in = []\<rparr>) \<in>
      set (sn_trace (snd (rig_scsi (demo_rig\<lparr>rig_scsi := (half_way_drive, w')\<rparr>))))" using t by simp
  with cmd a show ?thesis by (intro exI [of _ never_flushed] exI [of _ j] exI [of _ "demo_rig\<lparr>rig_scsi := (half_way_drive, w')\<rparr>"]
      exI [of _ "\<lparr>sy_status = 0, sy_sense = [], sy_data_in = []\<rparr>"] conjI) (simp_all add: scsi_good_def)
qed

end
