(* ===== verification/Spec2Isabelle.thy ===== *)
theory Spec2Isabelle
  imports Errors Strategy Plan Fsm Orchestrator Journal_Recovery Audit_Log Tracker Resume_Demo Guardian Ata_Demo Mesh_Demo Time_Ceremony Time_Demo Photon_Frame Scsi_Purge Nvme_Purge Nvme_Fabrics Purge_Demo
begin

text \<open>
  A verification library for diskcleaner, a tool that erases block devices and leaves evidence of it.
  Paths are relative to \<open>crates/\<close>; \<open>dc-core/plan.rs\<close> is \<open>crates/dc-core/src/plan.rs\<close>.

  The program. A plan (\<open>dc-core/plan.rs\<close>) lists the passes over a device and the read-back that follows.
  The guardian (\<open>dc-probe\<close>) refuses devices in use and opens the others exclusively. Execution
  (\<open>dc-cli/execute.rs\<close>) drives the lifecycle machine (\<open>dc-core/fsm.rs\<close>), writes every pass through an I/O
  engine (\<open>dc-io\<close>), records each step in a hash-chained journal (\<open>dc-core/journal.rs\<close>), reads the device
  back into a verifier (\<open>dc-verify\<close>) and certifies; an interrupted run is resumed from its journal
  (\<open>dc-cli/lib.rs\<close>). The purge command (\<open>dc-cli/purge.rs\<close>) has the drive erase itself instead, over ATA, SCSI
  or NVMe (\<open>dc-ata\<close>, \<open>dc-scsi\<close>, \<open>dc-nvme\<close>, codecs in \<open>dc-hw\<close>). An audit log (\<open>dc-core/audit.rs\<close>) spans runs.
  Around this core: a cluster that agrees on one report (\<open>dc-mesh\<close>), a proof of elapsed time
  (\<open>dc-vdf\<close>), and an optical link for evidence (\<open>dc-photon\<close>).

  The theories.
  \<^item> Shared. \<open>DC_Prelude\<close>: errors as sums, little-endian words, exact reads, the locale \<open>machine\<close> of a step
    function with an invariant. \<open>Decimal\<close>: decimal texts. \<open>Errors\<close>, \<open>Identity\<close>: the error type, identities and
    their comparison. \<open>Hash_Chain\<close>: the locale of a chained hash and its reduction to collisions.
  \<^item> Plans. \<open>Pattern\<close>, \<open>Plan\<close>, \<open>Strategy\<close>: patterns, plans with their profile matrices, strategy ladders.
  \<^item> Lifecycle. \<open>Fsm\<close>: the machine of a run and the exhaustive checker of \<open>dc-verify-formal\<close>; \<open>Orchestrator\<close>: the
    effect machine.
  \<^item> Logs. \<open>Journal\<close> (the model), \<open>Journal_Chain\<close> (soundness of the reader, tamper evidence, seals),
    \<open>Journal_Recovery\<close> (every cut of a writer's file, and resuming after it). \<open>Audit_Log\<close>: the audit log, in
    which every system call of an opening or an append may fail, a failed append leaving any prefix of
    its frame.
  \<^item> Overwriting. \<open>Tracker\<close>: the contiguous commit watermark. \<open>Wipe_Geometry\<close>, \<open>Wipe_Engine\<close>, \<open>Wipe_Verify\<close>,
    \<open>Wipe_Progress\<close>, \<open>Wipe_Demo\<close>: windows, the passes of the engine, exactness of the read-back, progress and
    interruption. \<open>Execution\<close>, \<open>Execution_Run\<close>, \<open>Execution_Demo\<close>: the run of a device and what it guarantees
    end to end. \<open>Resume\<close>, \<open>Resume_Demo\<close>: the resume command, what it completes and what it certifies wrongly.
  \<^item> Guardian. \<open>Block_Graph\<close>: the tree of block devices and the walk over holders. \<open>Guardian\<close>: the refusal
    rules, the readers of kernel texts, exclusive arming.
  \<^item> Purging. \<open>Ata_Codec\<close>, \<open>Ata_Purge\<close>, \<open>Ata_Demo\<close>; \<open>Scsi_Purge\<close>; \<open>Nvme_Codec\<close>, \<open>Nvme_Purge\<close>: the codecs and the
    ladders, each over an arbitrary drive whose exchanges are recorded, so that a certificate can be
    traced to what the drive answered. \<open>Nvme_Fabrics\<close>: sessions with remote controllers. \<open>Purge_Command\<close>,
    \<open>Purge_Demo\<close>: the command around them, which never reaches a certificate.
  \<^item> Mesh. \<open>Mesh_Rogue\<close>: accusations and isolation. \<open>Mesh_Consensus\<close>: votes, views and quorums of one node.
    \<open>Mesh_Network\<close>: the nodes and the set of frames on the wire; a run is a list of events (deliveries,
    ticks, proposals, accusations, frames of faulty members), and the agreement that holds in it.
    \<open>Mesh_Demo\<close>: two runs that break agreement, across views and after an isolation.
  \<^item> Time-lock. \<open>Bigint\<close>, \<open>Bigint_Gcd\<close>, \<open>Montgomery\<close>, \<open>Prime_Test\<close>: limb arithmetic against the numbers it stands
    for. \<open>Time_Lock\<close>, \<open>Time_Weave\<close>: links, timelines and their verifier. \<open>Time_Ceremony\<close>: the modulus.
    \<open>Time_Demo\<close>: a toy instance.
  \<^item> Optical link. \<open>Photon_Random\<close>, \<open>Photon_Fountain\<close>: the generator and the fountain code. \<open>Photon_Peeling\<close>: the
    incremental decoder is the peeling closure. \<open>Photon_Frame\<close>: frames, transmitter, receiver.

  The environment. Cryptography, JSON and hex (third-party crates) are parameters. The kernel is the list of
  outcomes of the system calls in the order they are made, so every short transfer, \<open>EINTR\<close> and error is a
  value of it, and a loop with no outcome left is \<open>Blocked\<close> (or \<open>None\<close>). Drives and controllers are
  arbitrary functions with a state. Rust panics are \<open>None\<close> or \<open>Panic\<close>. \<open>u64\<close> and \<open>usize\<close> quantities are
  naturals with the bounds the code relies on as hypotheses; bytes, nonces, limbs, views and length
  prefixes are words.

  Termination and bounds. No definition uses fuel. Loops are structural over the system calls, the windows or
  the frames, or end by a measure: the unread rest of a file, the poll budget of a purge, the unvisited
  nodes of a holder walk, the work left in the ripple of the decoder. Rejection sampling in \<open>Photon_Random\<close>
  ends because the generator reaches every value.

  What the properties show, in groups: the image on the device, the order of journal and data, and
  certification (\<open>Execution_Run\<close>, \<open>Resume\<close>, \<open>Wipe_Verify\<close>, \<open>Fsm\<close>); what the logs withstand
  (\<open>Journal_Recovery\<close>, \<open>Journal_Chain\<close>, \<open>Audit_Log\<close>); whom the guardian lets through (\<open>Guardian\<close>, \<open>Block_Graph\<close>); what a
  purge summary rests on (\<open>Ata_Purge\<close>, \<open>Scsi_Purge\<close>, \<open>Nvme_Purge\<close>, \<open>Purge_Command\<close>); what a quorum is worth
  (\<open>Mesh_Network\<close>, \<open>Mesh_Rogue\<close>, \<open>Mesh_Demo\<close>); exactness of the arithmetic and of the codecs (\<open>Montgomery\<close>,
  \<open>Prime_Test\<close>, \<open>Photon_Peeling\<close>, \<open>Photon_Frame\<close>). Properties of kind error prove a defect of the code on the
  model; the manifest lists these and further findings.

  Not modelled. Floating-point statistics and degree distributions, presentation, argument parsing, sysfs probing,
  sockets and signed mesh frames, certificates as documents, cryptographic primitives and simulated
  physics: they are system-call glue, third-party interfaces or have no content that can be checked
  here. Fleet, iSCSI, the FPGA and bare-metal payloads and the cryptographic constructions of \<open>dc-pq\<close>,
  \<open>dc-zk\<close> and \<open>dc-fhe\<close> could be added along the same lines. The manifest gives the status of each component.
\<close>

end
